(* ===== verification/Rust_Std.thy ===== *)
theory Rust_Std
  imports Main "HOL-Library.Word"
begin

text \<open>
  The part of the Rust language and its standard library that every component of the
  model shares: \<open>Result\<close> values, the string and slice operations of \<open>str\<close> and
  \<open>[T]\<close>, ASCII classification, decimal and hexadecimal numbers, big-endian integers.
  A Rust string is the list of its UTF-8 bytes, one \<^typ>\<open>char\<close> per byte, so \<open>length\<close>
  is \<open>str::len\<close>.  Wire data is a list of \<^typ>\<open>8 word\<close>.  A \<open>usize\<close> that only
  counts or indexes is a \<^typ>\<open>nat\<close>; an integer whose width the code relies on is a word.
\<close>

named_theorems rust_simps \<open>characteristic equations of the modelled standard library\<close>
named_theorems result_simps \<open>equations and inversions of \<open>Result\<close> chains\<close>

type_synonym u8 = "8 word"
type_synonym u16 = "16 word"
type_synonym u32 = "32 word"
type_synonym u64 = "64 word"
type_synonym bytes = "8 word list"

section \<open>Result\<close>

datatype ('a, 'e) result = Ok 'a | Err 'e

fun and_then :: "('a, 'e) result \<Rightarrow> ('a \<Rightarrow> ('b, 'e) result) \<Rightarrow> ('b, 'e) result" where
  "and_then (Ok x) f = f x"
| "and_then (Err e) f = Err e"

fun is_ok :: "('a, 'e) result \<Rightarrow> bool" where
  "is_ok (Ok x) = True"
| "is_ok (Err e) = False"

definition ok_or :: "'e \<Rightarrow> 'a option \<Rightarrow> ('a, 'e) result" where
  "ok_or e o' = (case o' of None \<Rightarrow> Err e | Some x \<Rightarrow> Ok x)"

definition ensure :: "bool \<Rightarrow> 'e \<Rightarrow> (unit, 'e) result" where
  "ensure b e = (if b then Ok () else Err e)"

fun result_map :: "('a \<Rightarrow> ('b, 'e) result) \<Rightarrow> 'a list \<Rightarrow> ('b list, 'e) result" where
  "result_map f [] = Ok []"
| "result_map f (x # xs) =
     and_then (f x) (\<lambda>y. and_then (result_map f xs) (\<lambda>ys. Ok (y # ys)))"

text \<open>A loop over a list whose body may return early with an error.\<close>

fun try_fold :: "('a \<Rightarrow> 's \<Rightarrow> ('s, 'e) result) \<Rightarrow> 'a list \<Rightarrow> 's \<Rightarrow> ('s, 'e) result" where
  "try_fold f [] s = Ok s"
| "try_fold f (x # xs) s = and_then (f x s) (try_fold f xs)"

lemma and_then_Ok_iff [result_simps]:
  "and_then m f = Ok y \<longleftrightarrow> (\<exists>x. m = Ok x \<and> f x = Ok y)"
  by (cases m) auto

lemma and_then_Err_iff [result_simps]:
  "and_then m f = Err e \<longleftrightarrow> m = Err e \<or> (\<exists>x. m = Ok x \<and> f x = Err e)"
  by (cases m) auto

lemma and_thenE:
  assumes "and_then r f = Ok y"
  obtains x where "r = Ok x" "f x = Ok y"
  using assms by (cases r) auto

lemma ok_or_Ok_iff [result_simps]: "ok_or e o' = Ok x \<longleftrightarrow> o' = Some x"
  by (cases o') (auto simp: ok_or_def)

lemma ok_or_Err_iff [result_simps]: "ok_or e o' = Err e' \<longleftrightarrow> o' = None \<and> e' = e"
  by (cases o') (auto simp: ok_or_def)

lemma ok_or_simps [simp]: "ok_or e None = Err e" "ok_or e (Some x) = Ok x"
  by (simp_all add: ok_or_def)

lemma ensure_Ok_iff [result_simps]: "ensure b e = Ok u \<longleftrightarrow> b"
  by (simp add: ensure_def)

lemma ensure_Err_iff [result_simps]: "ensure b e = Err e' \<longleftrightarrow> \<not> b \<and> e' = e"
  by (auto simp: ensure_def)

lemma ensure_simps [simp]: "ensure True e = Ok ()" "ensure False e = Err e"
  by (simp_all add: ensure_def)

lemma is_ok_iff: "is_ok r \<longleftrightarrow> (\<exists>x. r = Ok x)"
  by (cases r) auto

lemma result_map_Ok_iff [result_simps]:
  "result_map f xs = Ok ys \<longleftrightarrow> list_all2 (\<lambda>x y. f x = Ok y) xs ys"
  by (induction xs arbitrary: ys) (auto simp: result_simps list_all2_Cons1)

lemma result_map_is_ok: "is_ok (result_map f xs) \<longleftrightarrow> (\<forall>x\<in>set xs. is_ok (f x))"
proof (induction xs)
  case (Cons x xs)
  then show ?case by (cases "f x"; cases "result_map f xs") auto
qed simp

lemma try_fold_cong [fundef_cong]:
  "xs = ys \<Longrightarrow> s = t \<Longrightarrow> (\<And>x s. x \<in> set ys \<Longrightarrow> f x s = g x s) \<Longrightarrow> try_fold f xs s = try_fold g ys t"
proof -
  assume "xs = ys" "s = t" "\<And>x s. x \<in> set ys \<Longrightarrow> f x s = g x s"
  moreover have "(\<And>x s. x \<in> set xs \<Longrightarrow> f x s = g x s) \<Longrightarrow> try_fold f xs s = try_fold g xs s"
  proof (induction xs arbitrary: s)
    case (Cons x xs)
    then show ?case by (cases "g x s") auto
  qed simp
  ultimately show ?thesis by simp
qed

lemma try_fold_invariant:
  assumes "try_fold f xs s = Ok s'" "P s" "\<And>x s s'. x \<in> set xs \<Longrightarrow> f x s = Ok s' \<Longrightarrow> P s \<Longrightarrow> P s'"
  shows "P s'"
  using assms by (induction xs arbitrary: s) (auto elim!: and_thenE)

lemma try_fold_Err:
  assumes "try_fold f xs s = Err e" "P s" "\<And>x s s'. x \<in> set xs \<Longrightarrow> f x s = Ok s' \<Longrightarrow> P s \<Longrightarrow> P s'"
  shows "\<exists>x s'. x \<in> set xs \<and> P s' \<and> f x s' = Err e"
  using assms
proof (induction xs arbitrary: s)
  case (Cons x xs)
  show ?case
  proof (cases "f x s")
    case (Ok s1)
    have "try_fold f xs s1 = Err e" "P s1" using Cons.prems Ok by auto
    then have "\<exists>x s'. x \<in> set xs \<and> P s' \<and> f x s' = Err e"
      by (rule Cons.IH) (use Cons.prems(3) in auto)
    then show ?thesis by auto
  qed (use Cons.prems in auto)
qed simp

section \<open>I/O errors\<close>

text \<open>The kinds of \<open>io::ErrorKind\<close> that the program tells apart; all others are \<open>OtherKind\<close>.\<close>

datatype io_kind = PermissionDenied | NetworkUnreachable | HostUnreachable | ConnectionRefused | TimedOut
  | InvalidData | BrokenPipe | WriteZero | UnexpectedEof | NotFound | AlreadyExists | OtherKind

section \<open>Strings and slices\<close>

text \<open>\<open>str::split(c)\<close>: always at least one piece.\<close>

fun split_char :: "'a \<Rightarrow> 'a list \<Rightarrow> 'a list list" where
  "split_char c [] = [[]]"
| "split_char c (x # xs) =
     (if x = c then [] # split_char c xs
      else (case split_char c xs of [] \<Rightarrow> [[x]] | y # ys \<Rightarrow> (x # y) # ys))"

fun join_char :: "'a \<Rightarrow> 'a list list \<Rightarrow> 'a list" where
  "join_char c [] = []"
| "join_char c [x] = x"
| "join_char c (x # y # ys) = x @ c # join_char c (y # ys)"

text \<open>\<open>str::split_once(c)\<close> and \<open>str::rsplit_once(c)\<close>: at the first or the last \<open>c\<close>.\<close>

fun split_once :: "'a \<Rightarrow> 'a list \<Rightarrow> ('a list \<times> 'a list) option" where
  "split_once c [] = None"
| "split_once c (x # xs) =
     (if x = c then Some ([], xs)
      else (case split_once c xs of None \<Rightarrow> None | Some (a, b) \<Rightarrow> Some (x # a, b)))"

definition rsplit_once :: "'a \<Rightarrow> 'a list \<Rightarrow> ('a list \<times> 'a list) option" where
  "rsplit_once c xs =
     (case split_once c (rev xs) of None \<Rightarrow> None | Some (a, b) \<Rightarrow> Some (rev b, rev a))"

fun strip_prefix :: "'a list \<Rightarrow> 'a list \<Rightarrow> 'a list option" where
  "strip_prefix [] xs = Some xs"
| "strip_prefix (p # ps) [] = None"
| "strip_prefix (p # ps) (x # xs) = (if p = x then strip_prefix ps xs else None)"

definition strip_suffix :: "'a list \<Rightarrow> 'a list \<Rightarrow> 'a list option" where
  "strip_suffix p xs = map_option rev (strip_prefix (rev p) (rev xs))"

definition starts_with :: "'a list \<Rightarrow> 'a list \<Rightarrow> bool" where
  "starts_with p xs \<longleftrightarrow> strip_prefix p xs \<noteq> None"

definition ends_with :: "'a list \<Rightarrow> 'a list \<Rightarrow> bool" where
  "ends_with p xs \<longleftrightarrow> strip_suffix p xs \<noteq> None"

text \<open>\<open>haystack.windows(n).position(|w| w == needle)\<close> and \<open>str::contains\<close>.\<close>

fun find_sub :: "'a list \<Rightarrow> 'a list \<Rightarrow> nat option" where
  "find_sub p [] = (if p = [] then Some 0 else None)"
| "find_sub p (x # xs) =
     (if starts_with p (x # xs) then Some 0 else map_option Suc (find_sub p xs))"

definition contains_sub :: "'a list \<Rightarrow> 'a list \<Rightarrow> bool" where
  "contains_sub p xs \<longleftrightarrow> find_sub p xs \<noteq> None"

text \<open>\<open>Iterator::position\<close>.\<close>

fun position :: "('a \<Rightarrow> bool) \<Rightarrow> 'a list \<Rightarrow> nat option" where
  "position P [] = None"
| "position P (x # xs) = (if P x then Some 0 else map_option Suc (position P xs))"

text \<open>\<open>str::trim_matches\<close> with a set of characters.\<close>

definition trim_matches :: "('a \<Rightarrow> bool) \<Rightarrow> 'a list \<Rightarrow> 'a list" where
  "trim_matches P xs = rev (dropWhile P (rev (dropWhile P xs)))"

lemma split_char_nonempty [simp]: "split_char c xs \<noteq> []"
  by (cases xs) (auto split: list.splits)

lemma join_split_char: "join_char c (split_char c xs) = xs"
proof (induction xs)
  case (Cons x xs)
  then show ?case
    by (cases "split_char c xs"; cases "tl (split_char c xs)") (auto split: list.splits)
qed simp

lemma split_char_pieces: "p \<in> set (split_char c xs) \<Longrightarrow> c \<notin> set p"
proof (induction xs arbitrary: p)
  case (Cons x xs)
  then show ?case by (cases "split_char c xs") (auto split: if_splits)
qed simp

lemma split_char_id: "c \<notin> set xs \<Longrightarrow> split_char c xs = [xs]"
  by (induction xs) auto

lemma split_char_append:
  "c \<notin> set xs \<Longrightarrow> split_char c (xs @ c # ys) = xs # split_char c ys"
  by (induction xs) auto

lemma split_char_join:
  "ps \<noteq> [] \<Longrightarrow> (\<And>p. p \<in> set ps \<Longrightarrow> c \<notin> set p) \<Longrightarrow> split_char c (join_char c ps) = ps"
  by (induction c ps rule: join_char.induct) (auto simp: split_char_append split_char_id)

lemma split_once_Some_iff:
  "split_once c xs = Some (a, b) \<longleftrightarrow> xs = a @ c # b \<and> c \<notin> set a"
proof (induction xs arbitrary: a)
  case (Cons x xs)
  note IH = Cons.IH
  show ?case
  proof (cases a)
    case (Cons y ys)
    show ?thesis
      using IH [of ys] by (cases "split_once c xs") (auto simp: Cons)
  qed (auto split: option.splits)
qed simp

lemma split_once_None_iff: "split_once c xs = None \<longleftrightarrow> c \<notin> set xs"
  by (induction xs) (auto split: option.splits)

lemma split_once_append [simp]: "c \<notin> set a \<Longrightarrow> split_once c (a @ c # b) = Some (a, b)"
  by (simp add: split_once_Some_iff)

lemma rsplit_once_Some_iff:
  "rsplit_once c xs = Some (a, b) \<longleftrightarrow> xs = a @ c # b \<and> c \<notin> set b"
proof -
  have "rsplit_once c xs = Some (a, b) \<longleftrightarrow> split_once c (rev xs) = Some (rev b, rev a)"
    by (auto simp: rsplit_once_def split: option.splits)
  also have "\<dots> \<longleftrightarrow> rev xs = rev (a @ c # b) \<and> c \<notin> set b"
    by (simp add: split_once_Some_iff)
  finally show ?thesis by (simp only: rev_is_rev_conv)
qed

lemma strip_prefix_Some_iff: "strip_prefix p xs = Some ys \<longleftrightarrow> xs = p @ ys"
  by (induction p xs rule: strip_prefix.induct) auto

lemma strip_prefix_append [simp]: "strip_prefix p (p @ xs) = Some xs"
  by (simp add: strip_prefix_Some_iff)

lemma strip_suffix_Some_iff: "strip_suffix p xs = Some ys \<longleftrightarrow> xs = ys @ p"
proof -
  have "strip_suffix p xs = Some ys \<longleftrightarrow> rev xs = rev p @ rev ys"
    by (auto simp: strip_suffix_def strip_prefix_Some_iff rev_swap)
  also have "\<dots> \<longleftrightarrow> rev xs = rev (ys @ p)" by simp
  finally show ?thesis by (simp only: rev_is_rev_conv)
qed

lemma strip_suffix_append [simp]: "strip_suffix p (xs @ p) = Some xs"
  by (simp add: strip_suffix_Some_iff)

lemma starts_with_iff: "starts_with p xs \<longleftrightarrow> (\<exists>ys. xs = p @ ys)"
  by (auto simp: starts_with_def strip_prefix_Some_iff)

lemma ends_with_iff: "ends_with p xs \<longleftrightarrow> (\<exists>ys. xs = ys @ p)"
  by (auto simp: ends_with_def strip_suffix_Some_iff)

lemma starts_with_simps [simp]:
  "starts_with [] xs" "\<not> starts_with (p # ps) []"
  "starts_with (p # ps) (x # xs) \<longleftrightarrow> p = x \<and> starts_with ps xs"
  by (auto simp: starts_with_def)

lemma find_sub_SomeD:
  "find_sub p xs = Some n \<Longrightarrow> n + length p \<le> length xs \<and> take (length p) (drop n xs) = p"
proof (induction p xs arbitrary: n rule: find_sub.induct)
  case (2 p x xs)
  show ?case
  proof (cases "starts_with p (x # xs)")
    case True
    then obtain ys where "x # xs = p @ ys" by (auto simp: starts_with_iff)
    then have "length p \<le> length (x # xs)" "take (length p) (x # xs) = p" by simp_all
    with 2 True show ?thesis by simp
  next
    case False
    with 2 show ?thesis by auto
  qed
qed (auto split: if_splits)

lemma contains_sub_iff: "contains_sub p xs \<longleftrightarrow> (\<exists>a b. xs = a @ p @ b)"
proof (induction xs)
  case (Cons x xs)
  have "contains_sub p (x # xs) \<longleftrightarrow> starts_with p (x # xs) \<or> contains_sub p xs"
    by (auto simp: contains_sub_def)
  also have "\<dots> \<longleftrightarrow> (\<exists>a b. x # xs = a @ p @ b)"
    using Cons by (auto simp: starts_with_iff Cons_eq_append_conv)
  finally show ?case .
qed (simp add: contains_sub_def)

lemma position_Some_iff:
  "position P xs = Some n \<longleftrightarrow> n < length xs \<and> P (xs ! n) \<and> (\<forall>i<n. \<not> P (xs ! i))"
proof (induction xs arbitrary: n)
  case (Cons x xs)
  then show ?case
    by (cases n) (auto simp: all_conj_distrib less_Suc_eq_0_disj nth_Cons' split: if_splits)
qed simp

lemma position_None_iff: "position P xs = None \<longleftrightarrow> (\<forall>x\<in>set xs. \<not> P x)"
  by (induction xs) auto

lemma set_trim_matches: "set (trim_matches P xs) \<subseteq> set xs"
  by (auto simp: trim_matches_def dest!: set_dropWhileD)

end
