(* ===== verification/Rust_Text.thy ===== *)
theory Rust_Text
  imports Rust_Std
begin

text \<open>
  Text and numbers of the Rust standard library: ASCII classification and case, decimal
  and hexadecimal formatting and parsing, UTF-8 validation, Unicode \<open>trim\<close>,
  \<open>lines\<close>, and big-endian integers.  The lemmas give the round trips the components use.
\<close>

section \<open>ASCII\<close>

abbreviation code :: "char \<Rightarrow> nat" where
  "code c \<equiv> of_char c"

definition is_ascii_digit :: "char \<Rightarrow> bool" where
  "is_ascii_digit c \<longleftrightarrow> 48 \<le> code c \<and> code c \<le> 57"

definition is_ascii_lower :: "char \<Rightarrow> bool" where
  "is_ascii_lower c \<longleftrightarrow> 97 \<le> code c \<and> code c \<le> 122"

definition is_ascii_upper :: "char \<Rightarrow> bool" where
  "is_ascii_upper c \<longleftrightarrow> 65 \<le> code c \<and> code c \<le> 90"

definition is_ascii_alphanumeric :: "char \<Rightarrow> bool" where
  "is_ascii_alphanumeric c \<longleftrightarrow> is_ascii_digit c \<or> is_ascii_lower c \<or> is_ascii_upper c"

definition is_ascii_control :: "char \<Rightarrow> bool" where
  "is_ascii_control c \<longleftrightarrow> code c < 32 \<or> code c = 127"

text \<open>\<open>u8::is_ascii_whitespace\<close>: space, tab, line feed, form feed, carriage return.\<close>

definition is_ascii_whitespace :: "char \<Rightarrow> bool" where
  "is_ascii_whitespace c \<longleftrightarrow> code c \<in> {9, 10, 12, 13, 32}"

definition is_ascii :: "string \<Rightarrow> bool" where
  "is_ascii s \<longleftrightarrow> list_all (\<lambda>c. code c < 128) s"

definition lower_char :: "char \<Rightarrow> char" where
  "lower_char c = (if is_ascii_upper c then char_of (code c + 32) else c)"

definition to_ascii_lowercase :: "string \<Rightarrow> string" where
  "to_ascii_lowercase s = map lower_char s"

definition eq_ignore_ascii_case :: "string \<Rightarrow> string \<Rightarrow> bool" where
  "eq_ignore_ascii_case a b \<longleftrightarrow> to_ascii_lowercase a = to_ascii_lowercase b"

lemma code_less_256 [simp]: "code c < 256"
  by (simp add: of_char_def)

lemma code_inject [simp]: "code c = code d \<longleftrightarrow> c = d"
  by (metis char_of_char)

lemma code_char_of [simp]: "n < 256 \<Longrightarrow> code (char_of n) = n"
  by simp

lemma code_lower_char: "code (lower_char c) = (if is_ascii_upper c then code c + 32 else code c)"
  by (auto simp: lower_char_def is_ascii_upper_def)

lemma lower_char_not_upper [simp]: "\<not> is_ascii_upper (lower_char c)"
  by (simp add: is_ascii_upper_def code_lower_char)

lemma lower_char_idem [simp]: "lower_char (lower_char c) = lower_char c"
  by (simp add: lower_char_def [of "lower_char c"])

lemma lower_char_id: "\<not> is_ascii_upper c \<Longrightarrow> lower_char c = c"
  by (simp add: lower_char_def)

lemma to_ascii_lowercase_idem [simp]:
  "to_ascii_lowercase (to_ascii_lowercase s) = to_ascii_lowercase s"
  by (simp add: to_ascii_lowercase_def)

lemma to_ascii_lowercase_append [simp]:
  "to_ascii_lowercase (a @ b) = to_ascii_lowercase a @ to_ascii_lowercase b"
  by (simp add: to_ascii_lowercase_def)

lemma length_to_ascii_lowercase [simp]: "length (to_ascii_lowercase s) = length s"
  by (simp add: to_ascii_lowercase_def)

lemma is_ascii_upper_not_digit: "is_ascii_digit c \<Longrightarrow> \<not> is_ascii_upper c"
  by (simp add: is_ascii_digit_def is_ascii_upper_def)

lemma is_ascii_alphanumeric_lower_char [simp]:
  "is_ascii_alphanumeric (lower_char c) = is_ascii_alphanumeric c"
  by (auto simp: is_ascii_alphanumeric_def is_ascii_digit_def is_ascii_lower_def
      is_ascii_upper_def code_lower_char)

section \<open>Decimal numbers\<close>

definition digit_char :: "nat \<Rightarrow> char" where
  "digit_char d = char_of (48 + d)"

fun dec :: "nat \<Rightarrow> string" where
  "dec n = (if n < 10 then [digit_char n] else dec (n div 10) @ [digit_char (n mod 10)])"

declare dec.simps [simp del]

definition dec_val :: "string \<Rightarrow> nat" where
  "dec_val s = foldl (\<lambda>n c. 10 * n + (code c - 48)) 0 s"

text \<open>
  \<open>str::parse\<close> for an unsigned integer with maximum \<open>m\<close>: an optional plus sign, then
  at least one decimal digit, leading zeros allowed, out-of-range refused.
\<close>

definition parse_uint :: "nat \<Rightarrow> string \<Rightarrow> nat option" where
  "parse_uint m s =
     (let ds = (case s of [] \<Rightarrow> [] | c # cs \<Rightarrow> if c = CHR ''+'' then cs else s)
      in if ds \<noteq> [] \<and> list_all is_ascii_digit ds \<and> dec_val ds \<le> m
         then Some (dec_val ds) else None)"

lemma digit_char_simps [simp]:
  "d < 10 \<Longrightarrow> is_ascii_digit (digit_char d)" "d < 10 \<Longrightarrow> code (digit_char d) = 48 + d"
  by (simp_all add: digit_char_def is_ascii_digit_def)

lemma digit_char_eval [simp]:
  "digit_char 0 = CHR ''0''" "digit_char (Suc 0) = CHR ''1''" "digit_char 1 = CHR ''1''"
  "digit_char 2 = CHR ''2''" "digit_char 3 = CHR ''3''" "digit_char 4 = CHR ''4''"
  "digit_char 5 = CHR ''5''" "digit_char 6 = CHR ''6''" "digit_char 7 = CHR ''7''"
  "digit_char 8 = CHR ''8''" "digit_char 9 = CHR ''9''"
  by (rule code_inject [THEN iffD1], simp)+

lemma digit_val_less [simp]: "is_ascii_digit c \<Longrightarrow> code c - 48 < 10"
  unfolding is_ascii_digit_def by linarith

lemma digit_char_code: "is_ascii_digit c \<Longrightarrow> digit_char (code c - 48) = c"
  by (simp add: digit_char_def is_ascii_digit_def)

lemma dec_val_Nil [simp]: "dec_val [] = 0"
  by (simp add: dec_val_def)

lemma dec_val_snoc [simp]: "dec_val (s @ [c]) = 10 * dec_val s + (code c - 48)"
  by (simp add: dec_val_def)

lemma dec_nonempty [simp]: "dec n \<noteq> []"
  by (subst dec.simps) simp

lemma dec_digits [simp]: "list_all is_ascii_digit (dec n)"
proof (induction n rule: dec.induct)
  case (1 n)
  then show ?case by (subst dec.simps) simp
qed

lemma dec_val_dec [simp]: "dec_val (dec n) = n"
proof (induction n rule: dec.induct)
  case (1 n)
  then show ?case
  proof (cases "n < 10")
    case True
    then show ?thesis using dec_val_snoc [of "[]" "digit_char n"] by (simp add: dec.simps [of n])
  next
    case False
    with 1 show ?thesis by (simp add: dec.simps [of n])
  qed
qed

lemma dec_inject [simp]: "dec m = dec n \<longleftrightarrow> m = n"
  by (metis dec_val_dec)

lemma hd_dec_zero: "hd (dec n) = CHR ''0'' \<longleftrightarrow> n = 0"
proof (induction n rule: dec.induct)
  case (1 n)
  show ?case
  proof (cases "n < 10")
    case True
    have "digit_char n = CHR ''0'' \<longleftrightarrow> code (digit_char n) = 48"
      using code_inject [of "digit_char n" "CHR ''0''"] by simp
    with True show ?thesis by (simp add: dec.simps [of n])
  next
    case False
    with 1 have "hd (dec (n div 10)) = CHR ''0'' \<longleftrightarrow> n div 10 = 0" by simp
    with False show ?thesis by (simp add: dec.simps [of n])
  qed
qed

text \<open>A digit string without a redundant leading zero is the one that is printed.\<close>

lemma dec_dec_val:
  "s \<noteq> [] \<Longrightarrow> list_all is_ascii_digit s \<Longrightarrow> hd s \<noteq> CHR ''0'' \<or> length s = 1
   \<Longrightarrow> dec (dec_val s) = s"
proof (induction s rule: rev_induct)
  case (snoc c s)
  show ?case
  proof (cases "s = []")
    case True
    with snoc.prems show ?thesis
      using dec_val_snoc [of "[]" c]
      by (simp add: dec.simps [of "code c - 48"] digit_char_code)
  next
    case False
    with snoc.prems have hd: "hd s \<noteq> CHR ''0''" and dig: "list_all is_ascii_digit s"
      and c: "is_ascii_digit c" by auto
    with False snoc.IH have IH: "dec (dec_val s) = s" by simp
    then have "dec_val s \<noteq> 0" using hd hd_dec_zero [of "dec_val s"] by auto
    then have ge: "\<not> 10 * dec_val s + (code c - 48) < 10" by simp
    have "code c - 48 < 10" using c by (simp add: is_ascii_digit_def)
    then have "(10 * dec_val s + (code c - 48)) div 10 = dec_val s"
      "(10 * dec_val s + (code c - 48)) mod 10 = code c - 48" by simp_all
    with ge IH c show ?thesis
      by (simp add: dec.simps [of "10 * dec_val s + (code c - 48)"] digit_char_code)
  qed
qed simp

lemma hd_dec_digit: "is_ascii_digit (hd (dec n))"
  using dec_digits [of n] dec_nonempty [of n] by (metis list.set_sel(1) list_all_iff)

lemma parse_uint_digits:
  "s \<noteq> [] \<Longrightarrow> list_all is_ascii_digit s
   \<Longrightarrow> parse_uint m s = (if dec_val s \<le> m then Some (dec_val s) else None)"
  by (cases s) (auto simp: parse_uint_def is_ascii_digit_def Let_def)

lemma parse_uint_dec [simp]: "parse_uint m (dec n) = (if n \<le> m then Some n else None)"
  by (simp add: parse_uint_digits)

lemma parse_uint_le: "parse_uint m s = Some n \<Longrightarrow> n \<le> m"
  by (auto simp: parse_uint_def Let_def split: if_splits)

lemma dec_val_less: "list_all is_ascii_digit s \<Longrightarrow> dec_val s < 10 ^ length s"
proof (induction s rule: rev_induct)
  case (snoc c s)
  then have "dec_val s + 1 \<le> 10 ^ length s" and "code c - 48 < 10" by simp_all
  then have "10 * (dec_val s + 1) \<le> 10 * 10 ^ length s" by (simp del: mult_Suc_right)
  with \<open>code c - 48 < 10\<close> show ?case by simp
qed simp

lemma length_dec: "n < 10 ^ k \<Longrightarrow> 0 < k \<Longrightarrow> length (dec n) \<le> k"
proof (induction k arbitrary: n)
  case (Suc k)
  show ?case
  proof (cases "n < 10")
    case True
    then show ?thesis by (simp add: dec.simps [of n])
  next
    case False
    with Suc.prems have "n div 10 < 10 ^ k" "0 < k"
      by (auto simp: less_mult_imp_div_less mult.commute intro: gr0I)
    with Suc.IH False show ?thesis by (simp add: dec.simps [of n])
  qed
qed simp

section \<open>Hexadecimal numbers\<close>

definition hex_char :: "nat \<Rightarrow> char" where
  "hex_char d = (if d < 10 then char_of (48 + d) else char_of (87 + d))"

fun hex :: "nat \<Rightarrow> string" where
  "hex n = (if n < 16 then [hex_char n] else hex (n div 16) @ [hex_char (n mod 16)])"

declare hex.simps [simp del]

text \<open>\<open>{:0wx}\<close>: lower-case hexadecimal, zero-padded to width \<open>w\<close>.\<close>

definition hex_pad :: "nat \<Rightarrow> nat \<Rightarrow> string" where
  "hex_pad w n = replicate (w - length (hex n)) (CHR ''0'') @ hex n"

text \<open>\<open>char::to_digit(radix)\<close> for radix 10 and 16.\<close>

definition to_digit :: "nat \<Rightarrow> char \<Rightarrow> nat option" where
  "to_digit radix c =
     (let d = (if is_ascii_digit c then code c - 48
               else if is_ascii_lower c then code c - 87
               else if is_ascii_upper c then code c - 55 else radix)
      in if d < radix then Some d else None)"

definition is_lower_hex :: "char \<Rightarrow> bool" where
  "is_lower_hex c \<longleftrightarrow> is_ascii_digit c \<or> (97 \<le> code c \<and> code c \<le> 102)"

definition hex_val :: "string \<Rightarrow> nat" where
  "hex_val s = foldl (\<lambda>n c. 16 * n + the (to_digit 16 c)) 0 s"

lemma code_hex_char: "d < 16 \<Longrightarrow> code (hex_char d) = (if d < 10 then 48 + d else 87 + d)"
  by (simp add: hex_char_def)

lemma hex_char_eval [simp]:
  "hex_char 0 = CHR ''0''" "hex_char (Suc 0) = CHR ''1''" "hex_char 1 = CHR ''1''"
  "hex_char 2 = CHR ''2''" "hex_char 3 = CHR ''3''" "hex_char 4 = CHR ''4''"
  "hex_char 5 = CHR ''5''" "hex_char 6 = CHR ''6''" "hex_char 7 = CHR ''7''"
  "hex_char 8 = CHR ''8''" "hex_char 9 = CHR ''9''" "hex_char 10 = CHR ''a''"
  "hex_char 11 = CHR ''b''" "hex_char 12 = CHR ''c''" "hex_char 13 = CHR ''d''"
  "hex_char 14 = CHR ''e''" "hex_char 15 = CHR ''f''"
  by (rule code_inject [THEN iffD1], simp add: code_hex_char)+

lemma to_digit_hex_char [simp]: "d < 16 \<Longrightarrow> to_digit 16 (hex_char d) = Some d"
  by (auto simp: to_digit_def code_hex_char is_ascii_digit_def is_ascii_lower_def Let_def)

lemma is_lower_hex_hex_char [simp]: "d < 16 \<Longrightarrow> is_lower_hex (hex_char d)"
  by (auto simp: is_lower_hex_def code_hex_char is_ascii_digit_def)

lemma hex_val_snoc [simp]: "hex_val (s @ [c]) = 16 * hex_val s + the (to_digit 16 c)"
  by (simp add: hex_val_def)

lemma hex_val_Nil [simp]: "hex_val [] = 0"
  by (simp add: hex_val_def)

lemma hex_nonempty [simp]: "hex n \<noteq> []"
  by (subst hex.simps) simp

lemma hex_val_hex [simp]: "hex_val (hex n) = n"
proof (induction n rule: hex.induct)
  case (1 n)
  show ?case
  proof (cases "n < 16")
    case True
    then show ?thesis using hex_val_snoc [of "[]" "hex_char n"] by (simp add: hex.simps [of n])
  next
    case False
    with 1 show ?thesis by (simp add: hex.simps [of n])
  qed
qed

lemma hex_lower [simp]: "list_all is_lower_hex (hex n)"
proof (induction n rule: hex.induct)
  case (1 n)
  then show ?case by (subst hex.simps) simp
qed

lemma length_hex: "n < 16 ^ k \<Longrightarrow> 0 < k \<Longrightarrow> length (hex n) \<le> k"
proof (induction k arbitrary: n)
  case (Suc k)
  show ?case
  proof (cases "n < 16")
    case True
    then show ?thesis by (simp add: hex.simps [of n])
  next
    case False
    with Suc.prems have "n div 16 < 16 ^ k" "0 < k"
      by (auto simp: less_mult_imp_div_less mult.commute intro: gr0I)
    with Suc.IH False show ?thesis by (simp add: hex.simps [of n])
  qed
qed simp

lemma length_hex_pad: "n < 16 ^ w \<Longrightarrow> 0 < w \<Longrightarrow> length (hex_pad w n) = w"
  using length_hex [of n w] by (simp add: hex_pad_def)

lemma hex_pad_lower: "list_all is_lower_hex (hex_pad w n)"
  by (auto simp: hex_pad_def list_all_iff is_lower_hex_def is_ascii_digit_def
      dest: hex_lower [unfolded list_all_iff, THEN bspec])

lemma hex_val_zeros: "hex_val (replicate k (CHR ''0'') @ s) = hex_val s"
proof (induction s rule: rev_induct)
  case Nil
  show ?case
    by (induction k) (simp_all add: replicate_append_same [symmetric] to_digit_def
        is_ascii_digit_def del: replicate_Suc add: replicate_Suc [of _ "CHR ''0''"])
next
  case (snoc c s)
  then show ?case by (simp flip: append_assoc)
qed

lemma hex_pad_inject: "hex_pad w m = hex_pad w n \<longleftrightarrow> m = n"
  by (metis hex_pad_def hex_val_hex hex_val_zeros)

section \<open>UTF-8, trimming and lines\<close>

text \<open>Well-formed UTF-8 as \<open>str::from_utf8\<close> checks it (no overlong form, no surrogate).\<close>

fun valid_utf8 :: "nat list \<Rightarrow> bool" where
  "valid_utf8 [] \<longleftrightarrow> True"
| "valid_utf8 (a # bs) \<longleftrightarrow>
     (if a < 128 then valid_utf8 bs
      else case bs of
        [] \<Rightarrow> False
      | b # cs \<Rightarrow>
          if 194 \<le> a \<and> a \<le> 223 then 128 \<le> b \<and> b \<le> 191 \<and> valid_utf8 cs
          else case cs of
            [] \<Rightarrow> False
          | c # ds \<Rightarrow>
              if 224 \<le> a \<and> a \<le> 239 then
                (if a = 224 then 160 else 128) \<le> b \<and> b \<le> (if a = 237 then 159 else 191)
                \<and> 128 \<le> c \<and> c \<le> 191 \<and> valid_utf8 ds
              else case ds of
                [] \<Rightarrow> False
              | d # es \<Rightarrow>
                  240 \<le> a \<and> a \<le> 244
                  \<and> (if a = 240 then 144 else 128) \<le> b \<and> b \<le> (if a = 244 then 143 else 191)
                  \<and> 128 \<le> c \<and> c \<le> 191 \<and> 128 \<le> d \<and> d \<le> 191 \<and> valid_utf8 es)"

definition str_bytes :: "string \<Rightarrow> bytes" where
  "str_bytes s = map (\<lambda>c. of_nat (code c)) s"

definition bytes_str :: "bytes \<Rightarrow> string" where
  "bytes_str bs = map (\<lambda>b. char_of (unat b)) bs"

definition from_utf8 :: "bytes \<Rightarrow> string option" where
  "from_utf8 bs = (if valid_utf8 (map unat bs) then Some (bytes_str bs) else None)"

text \<open>A Rust string: the bytes are well-formed UTF-8.\<close>

definition is_str :: "string \<Rightarrow> bool" where
  "is_str s \<longleftrightarrow> valid_utf8 (map code s)"

lemma unat_u8_less [simp]: "unat (b :: 8 word) < 256"
  using unsigned_less [of b, where ?'a = nat] by simp

lemma unat_u8_mod [simp]: "unat (b :: 8 word) mod 256 = unat b"
  by simp

lemma unat_u16_less [simp]: "unat (w :: 16 word) < 65536"
  using unsigned_less [of w, where ?'a = nat] by simp

lemma unat_of_nat_code [simp]: "unat (of_nat (code c) :: 8 word) = code c"
  by (simp add: unat_of_nat)

lemma bytes_str_str_bytes [simp]: "bytes_str (str_bytes s) = s"
  by (simp add: bytes_str_def str_bytes_def comp_def)

lemma str_bytes_bytes_str [simp]: "str_bytes (bytes_str bs) = bs"
proof -
  have "of_nat (code (char_of (unat b))) = b" for b :: "8 word"
    by simp
  then show ?thesis by (simp add: bytes_str_def str_bytes_def comp_def)
qed

lemma length_str_bytes [simp]: "length (str_bytes s) = length s"
  by (simp add: str_bytes_def)

lemma length_bytes_str [simp]: "length (bytes_str bs) = length bs"
  by (simp add: bytes_str_def)

lemma from_utf8_str_bytes [simp]: "from_utf8 (str_bytes s) = (if is_str s then Some s else None)"
  by (simp add: from_utf8_def is_str_def) (simp add: str_bytes_def comp_def)

lemma from_utf8_SomeD: "from_utf8 bs = Some s \<Longrightarrow> bs = str_bytes s \<and> is_str s"
  by (auto simp: from_utf8_def is_str_def split: if_splits)
    (simp add: bytes_str_def comp_def)

lemma valid_utf8_ascii: "list_all (\<lambda>a. a < 128) bs \<Longrightarrow> valid_utf8 bs"
  by (induction bs) auto

lemma is_str_ascii: "is_ascii s \<Longrightarrow> is_str s"
  by (auto simp: is_str_def is_ascii_def list_all_iff intro: valid_utf8_ascii)

text \<open>\<open>char::is_control\<close> of some character of the string (C0, DEL and C1 controls).\<close>

fun has_control :: "string \<Rightarrow> bool" where
  "has_control [] \<longleftrightarrow> False"
| "has_control (c # cs) \<longleftrightarrow> is_ascii_control c
     \<or> (code c = 194 \<and> (case cs of [] \<Rightarrow> False | d # _ \<Rightarrow> 128 \<le> code d \<and> code d \<le> 159))
     \<or> has_control cs"

text \<open>The UTF-8 encodings of the Unicode \<open>White_Space\<close> characters.\<close>

definition white_space :: "string list" where
  "white_space = map (map char_of)
     ([[9], [10], [11], [12], [13], [32], [194, 133], [194, 160], [225, 154, 128]]
      @ map (\<lambda>n. [226, 128, n]) ([128..<139] @ [168, 169, 175])
      @ [[226, 129, 159], [227, 128, 128 :: nat]])"

function trim_start_with :: "string list \<Rightarrow> string \<Rightarrow> string" where
  "trim_start_with ws s =
     (case find (\<lambda>w. w \<noteq> [] \<and> starts_with w s) ws of
        None \<Rightarrow> s
      | Some w \<Rightarrow> trim_start_with ws (drop (length w) s))"
  by pat_completeness auto
termination
proof (relation "measure (\<lambda>(ws, s). length s)")
  fix ws s w
  assume "find (\<lambda>w. w \<noteq> [] \<and> starts_with w s) ws = Some w"
  then have "w \<noteq> []" "starts_with w s" by (auto simp: find_Some_iff)
  then show "((ws, drop (length w) s), ws, s) \<in> measure (\<lambda>(ws, s). length s)"
    by (cases w) (auto simp: starts_with_iff)
qed simp

declare trim_start_with.simps [simp del]

definition trim_start :: "string \<Rightarrow> string" where
  "trim_start s = trim_start_with white_space s"

definition trim_end :: "string \<Rightarrow> string" where
  "trim_end s = rev (trim_start_with (map rev white_space) (rev s))"

definition trim :: "string \<Rightarrow> string" where
  "trim s = trim_end (trim_start s)"

abbreviation LF :: char where "LF \<equiv> CHR 0x0A"
abbreviation CR :: char where "CR \<equiv> CHR 0x0D"
abbreviation TAB :: char where "TAB \<equiv> CHR 0x09"

abbreviation is_space_tab :: "char \<Rightarrow> bool" where
  "is_space_tab c \<equiv> c = CHR '' '' \<or> c = TAB"

text \<open>\<open>str::lines\<close>: a carriage return is dropped only before a line feed.\<close>

definition lines :: "string \<Rightarrow> string list" where
  "lines s =
     (let ps = split_char LF s;
          cut = (\<lambda>l. case strip_suffix [CR] l of None \<Rightarrow> l | Some x \<Rightarrow> x)
      in map cut (butlast ps) @ (if last ps = [] then [] else [last ps]))"

definition split_terminator :: "char \<Rightarrow> string \<Rightarrow> string list" where
  "split_terminator c s =
     (let ps = split_char c s in if last ps = [] then butlast ps else ps)"

section \<open>Big-endian integers\<close>

definition u16_be :: "u16 \<Rightarrow> bytes" where
  "u16_be w = [ucast (drop_bit 8 w), ucast w]"

definition u16_from_be :: "u8 \<Rightarrow> u8 \<Rightarrow> u16" where
  "u16_from_be a b = push_bit 8 (ucast a) + ucast b"

definition u32_be :: "u32 \<Rightarrow> bytes" where
  "u32_be w = [ucast (drop_bit 24 w), ucast (drop_bit 16 w), ucast (drop_bit 8 w), ucast w]"

definition u32_from_be :: "u8 \<Rightarrow> u8 \<Rightarrow> u8 \<Rightarrow> u8 \<Rightarrow> u32" where
  "u32_from_be a b c d =
     push_bit 24 (ucast a) + push_bit 16 (ucast b) + push_bit 8 (ucast c) + ucast d"

lemma length_u16_be [simp]: "length (u16_be w) = 2"
  by (simp add: u16_be_def)

lemma length_u32_be [simp]: "length (u32_be w) = 4"
  by (simp add: u32_be_def)

lemma unat_u16_from_be: "unat (u16_from_be a b) = 256 * unat a + unat b"
proof -
  have "256 * unat a + unat b < 65536"
    using unat_u8_less [of a] unat_u8_less [of b] by linarith
  then show ?thesis
    by (simp add: u16_from_be_def unat_word_ariths push_bit_eq_mult unsigned_ucast_eq
        take_bit_eq_mod)
qed

lemma u16_from_be_be: "u16_be w = [a, b] \<Longrightarrow> u16_from_be a b = w"
proof -
  assume "u16_be w = [a, b]"
  then have ab: "a = ucast (drop_bit 8 w)" "b = ucast w" by (simp_all add: u16_be_def)
  have "unat (drop_bit 8 w) = unat w div 256" by (simp add: unat_drop_bit_eq drop_bit_eq_div unat_div)
  moreover have "unat w div 256 < 256" by (rule less_mult_imp_div_less) simp
  ultimately have "unat (u16_from_be a b) = unat w"
    by (simp add: unat_u16_from_be ab unsigned_ucast_eq take_bit_eq_mod)
  then show ?thesis by (simp add: word_unat_eq_iff)
qed

lemma unat_u8_of_drop: "unat (ucast (drop_bit k (w :: 'a :: len word)) :: u8) = unat w div 2 ^ k mod 256"
proof -
  have "unat (drop_bit k w) = unat w div 2 ^ k" by (simp only: unat_drop_bit_eq) (simp add: drop_bit_eq_div)
  then show ?thesis by (simp only: unsigned_ucast_eq take_bit_eq_mod) simp
qed

lemma unat_u32_from_be: "unat (u32_from_be a b c d) = 16777216 * unat a + 65536 * unat b + 256 * unat c + unat d"
proof -
  have l: "16777216 * unat a + 65536 * unat b + 256 * unat c + unat d < 4294967296"
    using unat_u8_less [of a] unat_u8_less [of b] unat_u8_less [of c] unat_u8_less [of d] by linarith
  then show ?thesis
    by (simp add: u32_from_be_def unat_word_ariths push_bit_eq_mult unsigned_ucast_eq take_bit_eq_mod)
qed

lemma big_endian_div:
  assumes "b < 256" "c < 256" "d < (256 :: nat)"
  shows "(16777216 * a + 65536 * b + 256 * c + d) div 16777216 = a" "(16777216 * a + 65536 * b + 256 * c + d) div 65536 = 256 * a + b"
    "(16777216 * a + 65536 * b + 256 * c + d) div 256 = 256 * (256 * a + b) + c"
proof -
  have "b \<le> 255" "c \<le> 255" "d \<le> 255" using assms by simp_all
  then have "65536 * b + 256 * c + d < 16777216" "256 * c + d < 65536" by linarith+
  note assms = assms this
  show "(16777216 * a + 65536 * b + 256 * c + d) div 16777216 = a" using assms by (intro div_nat_eqI) simp_all
  show "(16777216 * a + 65536 * b + 256 * c + d) div 65536 = 256 * a + b" using assms by (intro div_nat_eqI) simp_all
  show "(16777216 * a + 65536 * b + 256 * c + d) div 256 = 256 * (256 * a + b) + c" using assms by (intro div_nat_eqI) simp_all
qed

lemma u32_be_from_be: "u32_be (u32_from_be a b c d) = [a, b, c, d]"
proof -
  let ?n = "16777216 * unat a + 65536 * unat b + 256 * unat c + unat d"
  note l = unat_u8_less [of a] unat_u8_less [of b] unat_u8_less [of c] unat_u8_less [of d]
  have "?n div 2 ^ 24 = unat a" "?n div 2 ^ 16 = 256 * unat a + unat b" "?n div 2 ^ 8 = 256 * (256 * unat a + unat b) + unat c"
    using big_endian_div [OF l(2-4), of "unat a"] by simp_all
  moreover have "?n = 256 * (65536 * unat a + 256 * unat b + unat c) + unat d" by simp
  ultimately have "?n div 2 ^ 24 mod 256 = unat a" "?n div 2 ^ 16 mod 256 = unat b" "?n div 2 ^ 8 mod 256 = unat c" "?n mod 256 = unat d"
    using l by (simp_all only: mod_mult_self4 mod_less)
  moreover have "unat (ucast (u32_from_be a b c d) :: u8) = ?n mod 256" using unat_u8_of_drop [of 0 "u32_from_be a b c d"] by (simp add: unat_u32_from_be)
  ultimately show ?thesis
    by (simp add: u32_be_def word_unat_eq_iff unat_u8_of_drop unat_u32_from_be)
qed

lemma u16_be_from_be: "u16_be (u16_from_be a b) = [a, b]"
proof -
  let ?n = "256 * unat a + unat b"
  note l = unat_u8_less [of a] unat_u8_less [of b]
  have "?n div 2 ^ 8 mod 256 = unat a" "?n mod 256 = unat b" using l by simp_all
  moreover have "unat (ucast (u16_from_be a b) :: u8) = ?n mod 256" using unat_u8_of_drop [of 0 "u16_from_be a b"] by (simp add: unat_u16_from_be)
  ultimately show ?thesis
    by (simp add: u16_be_def word_unat_eq_iff unat_u8_of_drop unat_u16_from_be)
qed

end
