(* ===== verification/Rust_Net.thy ===== *)
theory Rust_Net
  imports Rust_Text
begin

text \<open>
  IP addresses of \<open>std::net\<close>: \<open>IpAddr\<close>, its \<open>FromStr\<close> parser and its
  \<open>Display\<close> form.  The parser follows the standard library's: readers that consume a
  prefix and restore the input when they fail, decimal octets without leading zeros,
  at most four hexadecimal digits per group, one optional \<open>::\<close> and an optional
  trailing dotted quad.  The main result is that a printed address parses back.
\<close>

datatype ip_addr =
    V4 u8 u8 u8 u8
  | V6 u16 u16 u16 u16 u16 u16 u16 u16

type_synonym 'a reader = "string \<Rightarrow> ('a \<times> string) option"

section \<open>Readers\<close>

definition read_number :: "nat \<Rightarrow> nat \<Rightarrow> bool \<Rightarrow> nat \<Rightarrow> nat reader" where
  "read_number radix max_digits allow_zero_prefix bound s =
     (let is_dig = (\<lambda>c. to_digit radix c \<noteq> None);
          ds = takeWhile is_dig s;
          v = foldl (\<lambda>n c. radix * n + the (to_digit radix c)) 0 ds
      in if ds = [] \<or> max_digits < length ds then None
         else if \<not> allow_zero_prefix \<and> hd ds = CHR ''0'' \<and> 1 < length ds then None
         else if v \<le> bound then Some (v, dropWhile is_dig s) else None)"

definition read_char :: "char \<Rightarrow> unit reader" where
  "read_char c s = (case s of x # xs \<Rightarrow> if x = c then Some ((), xs) else None | [] \<Rightarrow> None)"

definition read_separator :: "char \<Rightarrow> nat \<Rightarrow> 'a reader \<Rightarrow> 'a reader" where
  "read_separator sep i r s =
     (if 0 < i then Option.bind (read_char sep s) (\<lambda>(_, t). r t) else r s)"

definition read_octet :: "nat reader" where
  "read_octet = read_number 10 3 False 255"

definition read_ipv4 :: "(nat \<times> nat \<times> nat \<times> nat) reader" where
  "read_ipv4 s =
     Option.bind (read_separator (CHR ''.'') 0 read_octet s) (\<lambda>(a, s).
     Option.bind (read_separator (CHR ''.'') 1 read_octet s) (\<lambda>(b, s).
     Option.bind (read_separator (CHR ''.'') 2 read_octet s) (\<lambda>(c, s).
     Option.bind (read_separator (CHR ''.'') 3 read_octet s) (\<lambda>(d, s).
       Some ((a, b, c, d), s)))))"

text \<open>\<open>read_groups i k\<close>: at most \<open>k\<close> groups from index \<open>i\<close>; the flag tells a dotted quad.\<close>

fun read_groups :: "nat \<Rightarrow> nat \<Rightarrow> string \<Rightarrow> nat list \<times> bool \<times> string" where
  "read_groups i 0 s = ([], False, s)"
| "read_groups i (Suc k) s =
     (case (if 1 \<le> k then read_separator (CHR '':'') i read_ipv4 s else None) of
        Some ((a, b, c, d), t) \<Rightarrow> ([256 * a + b, 256 * c + d], True, t)
      | None \<Rightarrow>
          (case read_separator (CHR '':'') i (read_number 16 4 True 65535) s of
             Some (g, t) \<Rightarrow> (let (gs, q, u) = read_groups (Suc i) k t in (g # gs, q, u))
           | None \<Rightarrow> ([], False, s)))"

definition ip6_of_groups :: "nat list \<Rightarrow> ip_addr option" where
  "ip6_of_groups gs = (case map of_nat gs of
       [a, b, c, d, e, f, g, h] \<Rightarrow> Some (V6 a b c d e f g h) | _ \<Rightarrow> None)"

definition read_ipv6 :: "ip_addr reader" where
  "read_ipv6 s =
     (let (head, quad, s1) = read_groups 0 8 s
      in if length head = 8 then map_option (\<lambda>ip. (ip, s1)) (ip6_of_groups head)
         else if quad then None
         else Option.bind (read_char (CHR '':'') s1) (\<lambda>(_, s2).
              Option.bind (read_char (CHR '':'') s2) (\<lambda>(_, s3).
              let (tail, _, s4) = read_groups 0 (7 - length head) s3;
                  zeros = replicate (8 - length head - length tail) 0
              in map_option (\<lambda>ip. (ip, s4)) (ip6_of_groups (head @ zeros @ tail)))))"

definition parse_ipv4 :: "string \<Rightarrow> ip_addr option" where
  "parse_ipv4 s = (case read_ipv4 s of
       Some ((a, b, c, d), []) \<Rightarrow> Some (V4 (of_nat a) (of_nat b) (of_nat c) (of_nat d))
     | _ \<Rightarrow> None)"

definition parse_ipv6 :: "string \<Rightarrow> ip_addr option" where
  "parse_ipv6 s = (case read_ipv6 s of Some (ip, []) \<Rightarrow> Some ip | _ \<Rightarrow> None)"

text \<open>\<open>str::parse::<IpAddr>\<close>: the dotted quad is tried first; once read, nothing may follow.\<close>

definition parse_ip :: "string \<Rightarrow> ip_addr option" where
  "parse_ip s = (case read_ipv4 s of
       Some _ \<Rightarrow> parse_ipv4 s
     | None \<Rightarrow> parse_ipv6 s)"

section \<open>Display\<close>

definition ip4_string :: "u8 \<Rightarrow> u8 \<Rightarrow> u8 \<Rightarrow> u8 \<Rightarrow> string" where
  "ip4_string a b c d = dec (unat a) @ CHR ''.'' # dec (unat b) @ CHR ''.'' #
     dec (unat c) @ CHR ''.'' # dec (unat d)"

text \<open>The first longest run of zero groups as (start, length).\<close>

fun zero_run :: "nat \<Rightarrow> (nat \<times> nat) \<Rightarrow> (nat \<times> nat) \<Rightarrow> u16 list \<Rightarrow> nat \<times> nat" where
  "zero_run i cur best [] = best"
| "zero_run i (cs, cl) (bs, bl) (x # xs) =
     (if x = 0 then
        (let cs' = (if cl = 0 then i else cs); cl' = Suc cl
         in zero_run (Suc i) (cs', cl') (if bl < cl' then (cs', cl') else (bs, bl)) xs)
      else zero_run (Suc i) (0, 0) (bs, bl) xs)"

definition fmt_groups :: "u16 list \<Rightarrow> string" where
  "fmt_groups gs = join_char (CHR '':'') (map (\<lambda>g. hex (unat g)) gs)"

fun segments :: "ip_addr \<Rightarrow> u16 list" where
  "segments (V6 a b c d e f g h) = [a, b, c, d, e, f, g, h]"
| "segments (V4 a b c d) = []"

definition hi_byte :: "u16 \<Rightarrow> u8" where "hi_byte w = ucast (drop_bit 8 w)"
definition lo_byte :: "u16 \<Rightarrow> u8" where "lo_byte w = ucast w"

definition fmt_ipv6 :: "u16 list \<Rightarrow> string" where
  "fmt_ipv6 gs =
     (let (st, len) = zero_run 0 (0, 0) (0, 0) gs
      in if 1 < len then fmt_groups (take st gs) @ ''::'' @ fmt_groups (drop (st + len) gs)
         else fmt_groups gs)"

fun ip_string :: "ip_addr \<Rightarrow> string" where
  "ip_string (V4 a b c d) = ip4_string a b c d"
| "ip_string (V6 a b c d e f g h) =
     (if a = 0 \<and> b = 0 \<and> c = 0 \<and> d = 0 \<and> e = 0 \<and> f = 65535
      then ''::ffff:'' @ ip4_string (hi_byte g) (lo_byte g) (hi_byte h) (lo_byte h)
      else fmt_ipv6 [a, b, c, d, e, f, g, h])"

fun is_ipv4 :: "ip_addr \<Rightarrow> bool" where
  "is_ipv4 (V4 a b c d) = True"
| "is_ipv4 (V6 a b c d e f g h) = False"

fun is_loopback :: "ip_addr \<Rightarrow> bool" where
  "is_loopback (V4 a b c d) = (a = 127)"
| "is_loopback (V6 a b c d e f g h) = ([a, b, c, d, e, f, g, h] = [0, 0, 0, 0, 0, 0, 0, 1])"

fun is_unspecified :: "ip_addr \<Rightarrow> bool" where
  "is_unspecified (V4 a b c d) = ([a, b, c, d] = [0, 0, 0, 0])"
| "is_unspecified (V6 a b c d e f g h) = ([a, b, c, d, e, f, g, h] = [0, 0, 0, 0, 0, 0, 0, 0])"

record socket_addr =
  sa_ip :: ip_addr
  sa_port :: u16

section \<open>A printed address parses back\<close>

definition stops :: "nat \<Rightarrow> string \<Rightarrow> bool" where
  "stops radix rest \<longleftrightarrow> rest = [] \<or> to_digit radix (hd rest) = None"

lemma take_drop_while_stops:
  assumes "list_all (\<lambda>c. to_digit radix c \<noteq> None) ds" "stops radix rest"
  shows "takeWhile (\<lambda>c. to_digit radix c \<noteq> None) (ds @ rest) = ds"
    and "dropWhile (\<lambda>c. to_digit radix c \<noteq> None) (ds @ rest) = rest"
proof -
  have *: "\<And>x. x \<in> set ds \<Longrightarrow> to_digit radix x \<noteq> None"
    using assms(1) by (simp add: list_all_iff)
  have "takeWhile (\<lambda>c. to_digit radix c \<noteq> None) rest = []"
    "dropWhile (\<lambda>c. to_digit radix c \<noteq> None) rest = rest"
    using assms(2) by (cases rest; auto simp: stops_def)+
  with * show "takeWhile (\<lambda>c. to_digit radix c \<noteq> None) (ds @ rest) = ds"
    "dropWhile (\<lambda>c. to_digit radix c \<noteq> None) (ds @ rest) = rest"
    by (simp_all add: takeWhile_append dropWhile_append)
qed

lemma to_digit_10: "is_ascii_digit c \<Longrightarrow> to_digit 10 c = Some (code c - 48)"
  using digit_val_less [of c] by (simp add: to_digit_def)

lemma foldl_dec: "list_all is_ascii_digit s
  \<Longrightarrow> foldl (\<lambda>n c. 10 * n + the (to_digit 10 c)) 0 s = dec_val s"
  by (induction s rule: rev_induct) (simp_all add: to_digit_10)

lemma read_octet_dec:
  assumes "n \<le> 255" "stops 10 rest"
  shows "read_octet (dec n @ rest) = Some (n, rest)"
proof -
  have dig: "list_all (\<lambda>c. to_digit 10 c \<noteq> None) (dec n)"
    using dec_digits [of n] by (auto simp: list_all_iff to_digit_10)
  have len: "length (dec n) \<le> 3" using assms(1) by (intro length_dec) simp_all
  have zero: "hd (dec n) = CHR ''0'' \<Longrightarrow> length (dec n) = 1"
    unfolding hd_dec_zero by (simp add: dec.simps)
  show ?thesis
    using assms(1) len zero take_drop_while_stops [OF dig assms(2)]
    by (auto simp: read_octet_def read_number_def Let_def foldl_dec)
qed

lemma stops_dot [simp]: "stops 10 (CHR ''.'' # s)" "stops 16 (CHR ''.'' # s)" "stops r []"
  by (simp_all add: stops_def to_digit_def is_ascii_digit_def is_ascii_lower_def is_ascii_upper_def)

lemma stops_colon [simp]: "stops 10 (CHR '':'' # s)" "stops 16 (CHR '':'' # s)"
  by (simp_all add: stops_def to_digit_def is_ascii_digit_def is_ascii_lower_def is_ascii_upper_def)

lemma read_ipv4_ip4_string:
  assumes "stops 10 rest"
  shows "read_ipv4 (ip4_string a b c d @ rest) = Some ((unat a, unat b, unat c, unat d), rest)"
proof -
  have le: "unat x \<le> 255" for x :: u8
    using unat_u8_less [of x] by linarith
  show ?thesis
    using assms
    by (simp add: read_ipv4_def ip4_string_def read_separator_def read_char_def read_octet_dec le)
qed

lemma parse_ip_V4 [simp]: "parse_ip (ip_string (V4 a b c d)) = Some (V4 a b c d)"
  using read_ipv4_ip4_string [of "[]" a b c d]
  by (simp add: parse_ip_def parse_ipv4_def)

lemma is_lower_hex_to_digit: "is_lower_hex c \<Longrightarrow> to_digit 16 c \<noteq> None"
  by (auto simp: is_lower_hex_def to_digit_def is_ascii_digit_def is_ascii_lower_def Let_def)

lemma read_group_hex:
  assumes "n \<le> 65535" "stops 16 rest"
  shows "read_number 16 4 True 65535 (hex n @ rest) = Some (n, rest)"
proof -
  have dig: "list_all (\<lambda>c. to_digit 16 c \<noteq> None) (hex n)"
    using hex_lower [of n] by (auto simp: list_all_iff dest: is_lower_hex_to_digit)
  have len: "length (hex n) \<le> 4" using assms(1) by (intro length_hex) simp_all
  show ?thesis
    using assms(1) len take_drop_while_stops [OF dig assms(2)] hex_val_hex [of n]
    by (simp add: read_number_def Let_def hex_val_def)
qed

text \<open>No dotted quad is read where a hexadecimal group and then a colon or the end stands.\<close>

definition group_end :: "string \<Rightarrow> bool" where
  "group_end rest \<longleftrightarrow> rest = [] \<or> hd rest = CHR '':''"

lemma group_end_simps [simp]: "group_end []" "group_end (CHR '':'' # s)"
  by (simp_all add: group_end_def)

lemma group_end_stops: "group_end rest \<Longrightarrow> stops 16 rest"
  by (cases rest) (auto simp: group_end_def)

lemma read_octet_SomeD:
  "read_octet s = Some (n, t) \<Longrightarrow> t = dropWhile (\<lambda>c. to_digit 10 c \<noteq> None) s"
  by (auto simp: read_octet_def read_number_def Let_def split: if_splits)

lemma read_ipv4_SomeD:
  assumes "read_ipv4 s = Some r"
  shows "\<exists>t. dropWhile (\<lambda>c. to_digit 10 c \<noteq> None) s = CHR ''.'' # t"
proof -
  from assms obtain a t where "read_octet s = Some (a, t)"
    and "\<exists>y. read_char (CHR ''.'') t = Some y"
    by (auto simp: read_ipv4_def read_separator_def bind_eq_Some_conv)
  moreover from this(2) have "\<exists>u. t = CHR ''.'' # u"
    by (auto simp: read_char_def split: list.splits if_splits)
  ultimately show ?thesis using read_octet_SomeD by metis
qed

lemma read_ipv4_group:
  assumes "CHR ''.'' \<notin> set xs" "group_end rest"
  shows "read_ipv4 (xs @ rest) = None"
proof (rule ccontr)
  let ?P = "\<lambda>c. to_digit 10 c \<noteq> None"
  assume "read_ipv4 (xs @ rest) \<noteq> None"
  then obtain t where t: "dropWhile ?P (xs @ rest) = CHR ''.'' # t"
    using read_ipv4_SomeD by blast
  show False
  proof (cases "\<forall>x\<in>set xs. ?P x")
    case True
    with t have "dropWhile ?P rest = CHR ''.'' # t" by (simp add: dropWhile_append)
    with assms(2) show False
      by (cases rest) (auto simp: group_end_def to_digit_def is_ascii_digit_def
          is_ascii_lower_def is_ascii_upper_def split: if_splits)
  next
    case False
    then obtain x where "x \<in> set xs" "\<not> ?P x" by blast
    then have d: "dropWhile ?P xs @ rest = CHR ''.'' # t"
      using t dropWhile_append1 [of x xs ?P rest] by metis
    from False have "dropWhile ?P xs \<noteq> []" by auto
    with d have "CHR ''.'' \<in> set (dropWhile ?P xs)" by (cases "dropWhile ?P xs") auto
    with assms(1) show False by (meson set_dropWhileD)
  qed
qed

lemma dot_notin_hex: "CHR ''.'' \<notin> set (hex n)"
  using hex_lower [of n] by (auto simp: list_all_iff is_lower_hex_def is_ascii_digit_def)

definition sep_text :: "nat \<Rightarrow> string" where
  "sep_text i = (if 0 < i then '':'' else [])"

lemma read_separator_sep_text: "read_separator (CHR '':'') i r (sep_text i @ s) = r s"
  by (simp add: read_separator_def sep_text_def read_char_def)

lemma read_separator_group_end:
  assumes "rest = [] \<or> (\<exists>t. rest = CHR '':'' # CHR '':'' # t)"
  shows "read_separator (CHR '':'') i read_ipv4 rest = None"
    and "read_separator (CHR '':'') i (read_number 16 4 True 65535) rest = None"
proof -
  have v4: "read_ipv4 [] = None" "\<And>t. read_ipv4 (CHR '':'' # t) = None"
    using read_ipv4_group [of "[]"] by simp_all
  have num: "read_number 16 4 True 65535 [] = None"
    "\<And>t. read_number 16 4 True 65535 (CHR '':'' # t) = None"
    by (simp_all add: read_number_def to_digit_def is_ascii_digit_def is_ascii_lower_def
        is_ascii_upper_def)
  show "read_separator (CHR '':'') i read_ipv4 rest = None"
    "read_separator (CHR '':'') i (read_number 16 4 True 65535) rest = None"
    using assms v4 num by (auto simp: read_separator_def read_char_def)
qed

lemma read_groups_stop:
  assumes "rest = [] \<or> (\<exists>t. rest = CHR '':'' # CHR '':'' # t)"
  shows "read_groups i k rest = ([], False, rest)"
  using read_separator_group_end [OF assms, of i] by (cases k) auto

text \<open>The groups as text, each preceded by its separator.\<close>

fun groups_text :: "nat \<Rightarrow> nat list \<Rightarrow> string" where
  "groups_text i [] = []"
| "groups_text i (g # gs) = sep_text i @ hex g @ groups_text (Suc i) gs"

lemma groups_text_end:
  "rest = [] \<or> (\<exists>t. rest = CHR '':'' # t) \<Longrightarrow> group_end (groups_text (Suc i) gs @ rest)"
  by (cases gs) (auto simp: sep_text_def)

lemma read_groups_text:
  assumes "rest = [] \<or> (\<exists>t. rest = CHR '':'' # CHR '':'' # t)"
    and "length gs \<le> k" "list_all (\<lambda>g. g \<le> 65535) gs"
  shows "read_groups i k (groups_text i gs @ rest) = (gs, False, rest)"
  using assms(2,3)
proof (induction gs arbitrary: i k)
  case Nil
  show ?case using read_groups_stop [OF assms(1)] by simp
next
  case (Cons g gs)
  then obtain k' where k: "k = Suc k'" by (cases k) auto
  let ?rest = "groups_text (Suc i) gs @ rest"
  have ge: "group_end ?rest" using assms(1) by (intro groups_text_end) auto
  have "read_separator (CHR '':'') i read_ipv4 (sep_text i @ hex g @ ?rest) = None"
    using read_ipv4_group [OF dot_notin_hex ge] by (simp add: read_separator_sep_text)
  moreover have "read_separator (CHR '':'') i (read_number 16 4 True 65535)
      (sep_text i @ hex g @ ?rest) = Some (g, ?rest)"
    using Cons.prems(2) read_group_hex [OF _ group_end_stops [OF ge]]
    by (simp add: read_separator_sep_text)
  ultimately show ?case using Cons k by simp
qed

lemma fmt_groups_text: "fmt_groups gs = groups_text 0 (map unat gs)"
proof -
  have rec: "fmt_groups (g # gs) = hex (unat g) @ (if gs = [] then [] else CHR '':'' # fmt_groups gs)"
    for g gs by (cases gs) (auto simp: fmt_groups_def)
  have *: "(if gs = [] then [] else CHR '':'' # fmt_groups gs) = groups_text (Suc i) (map unat gs)"
    for i gs
    by (induction gs arbitrary: i) (simp_all add: rec sep_text_def)
  show ?thesis
    by (cases gs) (simp_all add: rec * sep_text_def, simp add: fmt_groups_def)
qed

lemma zero_run_zeros:
  assumes "zero_run i (cs, cl) (bs, bl) xs = (st, len)"
    and "drop i ys = xs" "i \<le> length ys"
    and "0 < cl \<Longrightarrow> cs + cl = i \<and> (\<forall>j. cs \<le> j \<and> j < cs + cl \<longrightarrow> ys ! j = 0)"
    and "bs + bl \<le> length ys \<and> (\<forall>j. bs \<le> j \<and> j < bs + bl \<longrightarrow> ys ! j = 0)"
  shows "st + len \<le> length ys \<and> (\<forall>j. st \<le> j \<and> j < st + len \<longrightarrow> ys ! j = 0)"
  using assms
proof (induction xs arbitrary: i cs cl bs bl)
  case Nil
  then show ?case by auto
next
  case (Cons x xs)
  have "i < length ys" using Cons.prems(2) drop_eq_Nil [of i ys] by (auto simp: not_le)
  moreover from this have "ys ! i # drop (Suc i) ys = x # xs"
    by (rule trans [OF Cons_nth_drop_Suc Cons.prems(2)])
  ultimately have i: "i < length ys" "ys ! i = x" "drop (Suc i) ys = xs" by simp_all
  show ?case
  proof (cases "x = 0")
    case False
    then show ?thesis using Cons.IH [of "Suc i" 0 0 bs bl] Cons.prems i by simp
  next
    case True
    let ?cs = "if cl = 0 then i else cs"
    have cur: "?cs + Suc cl = Suc i \<and> (\<forall>j. ?cs \<le> j \<and> j < ?cs + Suc cl \<longrightarrow> ys ! j = 0)"
      using Cons.prems(4) i True by (auto simp: less_Suc_eq)
    obtain bs' bl' where best: "(if bl < Suc cl then (?cs, Suc cl) else (bs, bl)) = (bs', bl')"
      by (metis surj_pair)
    then have "bs' + bl' \<le> length ys \<and> (\<forall>j. bs' \<le> j \<and> j < bs' + bl' \<longrightarrow> ys ! j = 0)"
      using cur i Cons.prems(5) by (auto split: if_splits)
    moreover have "zero_run (Suc i) (?cs, Suc cl) (bs', bl') xs = (st, len)"
      using Cons.prems(1) True best by (simp add: Let_def split: if_splits)
    moreover have "Suc i \<le> length ys" using i(1) by simp
    ultimately show ?thesis using i(3) cur by - (rule Cons.IH)
  qed
qed

lemma zero_run_split:
  assumes "zero_run 0 (0, 0) (0, 0) ys = (st, len)"
  shows "st + len \<le> length ys" and "take st ys @ replicate len 0 @ drop (st + len) ys = ys"
proof -
  from zero_run_zeros [OF assms, of ys]
  have *: "st + len \<le> length ys" "\<And>j. st \<le> j \<Longrightarrow> j < st + len \<Longrightarrow> ys ! j = 0" by auto
  then show "st + len \<le> length ys" by simp
  have "take len (drop st ys) = replicate len 0"
    using * by (intro nth_equalityI) simp_all
  then show "take st ys @ replicate len 0 @ drop (st + len) ys = ys"
    by (metis append_take_drop_id drop_drop add.commute)
qed

lemma ip6_of_groups_unat:
  "ip6_of_groups (map unat [a, b, c, d, e, f, g, h :: u16]) = Some (V6 a b c d e f g h)"
  by (simp add: ip6_of_groups_def)

lemma unat_u16_list_le: "list_all (\<lambda>g. g \<le> 65535) (map unat (gs :: u16 list))"
proof -
  have "unat g \<le> 65535" for g :: u16 using unat_u16_less [of g] by linarith
  then show ?thesis by (simp add: list_all_iff)
qed

lemma read_ipv6_fmt:
  assumes "length gs = 8" "ip6_of_groups (map unat gs) = Some ip"
  shows "read_ipv6 (fmt_ipv6 gs) = Some (ip, [])"
proof -
  obtain st len where z: "zero_run 0 (0, 0) (0, 0) gs = (st, len)" by (metis surj_pair)
  note zs = zero_run_split [OF z]
  show ?thesis
  proof (cases "1 < len")
    case False
    have "read_groups 0 8 (groups_text 0 (map unat gs) @ []) = (map unat gs, False, [])"
      using assms(1) by (intro read_groups_text unat_u16_list_le) simp_all
    with False z assms show ?thesis
      by (simp add: fmt_ipv6_def read_ipv6_def fmt_groups_text)
  next
    case True
    let ?h = "map unat (take st gs)" and ?t = "map unat (drop (st + len) gs)"
    have hd: "read_groups 0 8 (groups_text 0 ?h @ ''::'' @ groups_text 0 ?t)
        = (?h, False, ''::'' @ groups_text 0 ?t)"
      using assms(1) by (intro read_groups_text unat_u16_list_le) simp_all
    have tl: "read_groups 0 (7 - st) (groups_text 0 ?t @ []) = (?t, False, [])"
      using assms(1) True by (intro read_groups_text unat_u16_list_le) simp_all
    have st: "length ?h = st" "length ?t = 8 - (st + len)" "st < 8"
      using zs(1) assms(1) True by simp_all
    have "?h @ replicate (8 - st - length ?t) 0 @ ?t
        = map unat (take st gs @ replicate len 0 @ drop (st + len) gs)"
      using zs(1) assms(1) by simp
    also have "\<dots> = map unat gs" by (simp only: zs(2))
    finally have "?h @ replicate (8 - st - length ?t) 0 @ ?t = map unat gs" .
    with hd tl st True z assms(2) show ?thesis
      by (simp add: fmt_ipv6_def read_ipv6_def fmt_groups_text read_char_def)
  qed
qed

lemma dot_notin_fmt_ipv6: "CHR ''.'' \<notin> set (fmt_ipv6 gs)"
proof -
  have "CHR ''.'' \<notin> set (groups_text i hs)" for i hs
    by (induction hs arbitrary: i) (auto simp: sep_text_def dot_notin_hex)
  then show ?thesis
    by (simp add: fmt_ipv6_def fmt_groups_text split: prod.splits)
qed

lemma replicate_five: "replicate 5 x = [x, x, x, x, x]"
  by (simp add: numeral_eq_Suc)

lemma parse_ip_mapped:
  "parse_ip (''::ffff:'' @ ip4_string a b c d)
   = Some (V6 0 0 0 0 0 65535 (u16_from_be a b) (u16_from_be c d))"
proof -
  let ?q = "ip4_string a b c d"
  have h: "read_groups 0 8 (''::ffff:'' @ ?q) = ([], False, ''::ffff:'' @ ?q)"
    by (rule read_groups_stop) simp
  have hf: "hex 65535 = ''ffff''" by (simp add: hex.simps)
  have g: "read_number 16 4 True 65535 (''ffff'' @ CHR '':'' # ?q) = Some (65535, CHR '':'' # ?q)"
    using read_group_hex [of 65535 "CHR '':'' # ?q"] by (simp add: hf)
  have n: "read_ipv4 (''ffff'' @ CHR '':'' # ?q) = None"
    by (rule read_ipv4_group) simp_all
  have q: "read_ipv4 ?q = Some ((unat a, unat b, unat c, unat d), [])"
    using read_ipv4_ip4_string [of "[]"] by simp
  have "read_groups 0 (Suc (Suc k)) (''ffff'' @ CHR '':'' # ?q)
      = ([65535, 256 * unat a + unat b, 256 * unat c + unat d], True, [])" if "1 \<le> k" for k
    using g n q that by (simp add: read_separator_def read_char_def)
  from this [of 5] have t: "read_groups 0 7 (''ffff'' @ CHR '':'' # ?q)
      = ([65535, 256 * unat a + unat b, 256 * unat c + unat d], True, [])" by simp
  have w: "of_nat (256 * unat x + unat y) = u16_from_be x y" for x y
    by (simp add: word_unat_eq_iff flip: unat_u16_from_be)
  have "read_ipv4 (''::ffff:'' @ ?q) = None"
    using read_ipv4_group [of "[]" "''::ffff:'' @ ?q"] by simp
  moreover have "read_ipv6 (''::ffff:'' @ ?q)
      = Some (V6 0 0 0 0 0 65535 (u16_from_be a b) (u16_from_be c d), [])"
    using h t w by (simp add: read_ipv6_def read_char_def ip6_of_groups_def replicate_five)
  ultimately show ?thesis by (simp add: parse_ip_def parse_ipv6_def)
qed

lemma u16_hi_lo: "u16_from_be (hi_byte w) (lo_byte w) = w"
  by (rule u16_from_be_be) (simp add: u16_be_def hi_byte_def lo_byte_def)

text \<open>Displaying an address and parsing the text gives the address back.\<close>

lemma parse_ip_string [simp]: "parse_ip (ip_string ip) = Some ip"
proof (cases ip)
  case (V6 a b c d e f g h)
  let ?gs = "[a, b, c, d, e, f, g, h]"
  have "read_ipv4 (fmt_ipv6 ?gs) = None"
    using read_ipv4_group [OF dot_notin_fmt_ipv6, of "[]"] by simp
  moreover have "read_ipv6 (fmt_ipv6 ?gs) = Some (ip, [])"
    using read_ipv6_fmt [of ?gs ip] ip6_of_groups_unat [of a b c d e f g h] V6 by simp
  ultimately have "parse_ip (fmt_ipv6 ?gs) = Some ip"
    by (simp add: parse_ip_def parse_ipv6_def)
  then show ?thesis
    using V6 parse_ip_mapped [of "hi_byte g" "lo_byte g" "hi_byte h" "lo_byte h"]
    by (simp add: u16_hi_lo)
qed (use parse_ip_V4 in simp)

lemma ip_string_inject [simp]: "ip_string a = ip_string b \<longleftrightarrow> a = b"
  by (metis option.inject parse_ip_string)

text \<open>A text whose first character cannot start an address is not one.\<close>

lemma to_digit_16_None: "to_digit 16 c = None \<Longrightarrow> to_digit 10 c = None"
  by (auto simp: to_digit_def is_ascii_digit_def Let_def split: if_splits)

lemma parse_ip_other:
  assumes "to_digit 16 c = None" "c \<noteq> CHR '':''"
  shows "parse_ip (c # s) = None"
proof -
  have n: "read_number r k z m (c # s) = None" if "r = 10 \<or> r = 16" for r k z m
    using assms(1) to_digit_16_None [OF assms(1)] that by (auto simp: read_number_def Let_def)
  have v4: "read_ipv4 (c # s) = None"
    using n [of 10] by (simp add: read_ipv4_def read_separator_def read_octet_def)
  have "read_groups 0 (Suc k) (c # s) = ([], False, c # s)" for k
    using n [of 16] v4 by (simp add: read_separator_def)
  from this [of 7] have "read_groups 0 8 (c # s) = ([], False, c # s)" by simp
  then have "read_ipv6 (c # s) = None" using assms(2) by (simp add: read_ipv6_def read_char_def)
  then show ?thesis using v4 by (simp add: parse_ip_def parse_ipv6_def)
qed

lemma parse_ip_Nil: "parse_ip [] = None"
  by (simp add: parse_ip_def read_ipv4_def read_separator_def read_octet_def read_number_def
      parse_ipv6_def read_ipv6_def read_groups_stop read_char_def)

end
