(* ===== verification/Target.thy ===== *)
theory Target
  imports Rust_Net
begin

text \<open>
  Destinations (\<open>src/src/target.rs\<close>).  A \<open>Target\<close> is a host text and a nonzero port.
  \<open>target_new\<close> is the strict constructor (an IP literal or an ASCII DNS name), used by the
  configuration and by HTTP authorities; \<open>target_from_socks\<close> is the permissive one for SOCKS wire
  names.  The lemmas characterise both constructors and show that the text of every IP address is a
  valid host.
\<close>

record target =
  t_host :: string
  t_port :: u16

datatype target_error = PortZero | NotAHost | SocksName

text \<open>One label of a DNS name: the closure of \<open>Target::new\<close>.\<close>

definition dns_label :: "string \<Rightarrow> bool" where
  "dns_label label \<longleftrightarrow> label \<noteq> [] \<and> length label \<le> 63
     \<and> list_all (\<lambda>b. is_ascii_alphanumeric b \<or> b = CHR ''-'') label
     \<and> \<not> starts_with ''-'' label \<and> \<not> ends_with ''-'' label"

definition dns_name :: "string \<Rightarrow> bool" where
  "dns_name host =
     (let domain = (case strip_suffix ''.'' host of Some d \<Rightarrow> d | None \<Rightarrow> host)
      in \<not> (domain = [] \<or> 253 < length domain
            \<or> \<not> list_all dns_label (split_char (CHR ''.'') domain)))"

definition target_new :: "string \<Rightarrow> u16 \<Rightarrow> (target, target_error) result" where
  "target_new h p =
     (if p = 0 then Err PortZero
      else if parse_ip h = None \<and> \<not> dns_name h then Err NotAHost
      else Ok \<lparr>t_host = h, t_port = p\<rparr>)"

definition target_from_socks :: "string \<Rightarrow> u16 \<Rightarrow> (target, target_error) result" where
  "target_from_socks h p =
     (if h = [] \<or> 255 < length h \<or> p = 0 then Err SocksName
      else Ok \<lparr>t_host = h, t_port = p\<rparr>)"

subsection \<open>What the constructors accept\<close>

lemma target_new_Ok_iff [result_simps]:
  "target_new h p = Ok t \<longleftrightarrow>
     p \<noteq> 0 \<and> (parse_ip h \<noteq> None \<or> dns_name h) \<and> t = \<lparr>t_host = h, t_port = p\<rparr>"
  by (auto simp: target_new_def)

lemma target_from_socks_Ok_iff [result_simps]:
  "target_from_socks h p = Ok t \<longleftrightarrow>
     h \<noteq> [] \<and> length h \<le> 255 \<and> p \<noteq> 0 \<and> t = \<lparr>t_host = h, t_port = p\<rparr>"
  by (auto simp: target_from_socks_def)

lemma target_new_ip [simp]:
  "p \<noteq> 0 \<Longrightarrow> target_new (ip_string ip) p = Ok \<lparr>t_host = ip_string ip, t_port = p\<rparr>"
  by (simp add: target_new_def)

lemma dns_label_chars:
  "dns_label l \<Longrightarrow> c \<in> set l \<Longrightarrow> is_ascii_alphanumeric c \<or> c = CHR ''-''"
  by (simp add: dns_label_def list_all_iff)


text \<open>ASCII case does not matter for a DNS name.\<close>

lemma lower_char_eq_iff:
  "\<not> is_ascii_upper c \<Longrightarrow> \<not> is_ascii_lower c \<Longrightarrow> lower_char b = c \<longleftrightarrow> b = c"
  using code_lower_char [of b]
  by (cases "is_ascii_upper b") (auto simp: lower_char_id is_ascii_upper_def is_ascii_lower_def)

lemma split_char_map:
  "(\<And>x. f x = c \<longleftrightarrow> x = c) \<Longrightarrow> split_char c (map f xs) = map (map f) (split_char c xs)"
  by (induction xs) (auto split: list.splits)

lemma ends_with_single: "ends_with [c] xs \<longleftrightarrow> xs \<noteq> [] \<and> last xs = c"
  by (cases xs rule: rev_cases) (auto simp: ends_with_iff)

lemma starts_with_single: "starts_with [c] xs \<longleftrightarrow> xs \<noteq> [] \<and> hd xs = c"
  by (cases xs) auto

lemma strip_suffix_single:
  "strip_suffix [c] xs = (if xs \<noteq> [] \<and> last xs = c then Some (butlast xs) else None)"
  by (cases xs rule: rev_cases) (auto simp: strip_suffix_def)

lemma lower_char_punct [simp]:
  "lower_char b = CHR ''-'' \<longleftrightarrow> b = CHR ''-''" "lower_char b = CHR ''.'' \<longleftrightarrow> b = CHR ''.''"
  by (rule lower_char_eq_iff; simp add: is_ascii_upper_def is_ascii_lower_def)+

lemma dns_label_lower [simp]: "dns_label (to_ascii_lowercase l) = dns_label l"
  by (auto simp: dns_label_def to_ascii_lowercase_def list_all_iff ends_with_single
        starts_with_single last_map hd_map)

lemma dns_name_lower [simp]: "dns_name (to_ascii_lowercase h) = dns_name h"
proof -
  have "list_all dns_label (split_char (CHR ''.'') (to_ascii_lowercase d))
      = list_all dns_label (split_char (CHR ''.'') d)" for d
    using dns_label_lower
    by (simp add: to_ascii_lowercase_def split_char_map list_all_iff)
  then show ?thesis
    by (cases "h = []") (simp_all add: dns_name_def strip_suffix_single to_ascii_lowercase_def
        last_map Let_def flip: map_butlast)
qed

end
