(* ===== verification/Config_Rules.thy ===== *)
theory Config_Rules
  imports Target
begin

text \<open>
  Routing rules (\<open>src/src/config.rs\<close>): the \<open>Matcher\<close> and \<open>Rule\<close> types, \<open>parse_port\<close>,
  \<open>canonical_domain\<close>, \<open>parse_controller_endpoint\<close> and \<open>Rule::parse\<close>.

  The \<open>ipnet\<close> crate is not part of the repository: a record of its three operations is an argument of
  every definition that uses networks.  The lemmas show that a parsed rule is well formed (canonical
  domains, ascending nonzero port ranges, the address family the rule type names, a target that is a
  known name), that parsing the printed form of a rule gives the rule back, and that the suffix test
  respects label boundaries.
\<close>

section \<open>Types\<close>

record 'net ipnet =
  net_parse :: "string \<Rightarrow> 'net option"
  net_addr :: "'net \<Rightarrow> ip_addr"
  net_contains :: "'net \<Rightarrow> ip_addr \<Rightarrow> bool"

datatype 'net matcher =
    Domain string
  | DomainSuffix string
  | DomainKeyword string
  | Ip 'net bool
  | DestinationPort u16 u16
  | SourcePort u16 u16
  | SourceIp 'net
  | ProcessName string
  | GeoIp string bool
  | MatchAll

record 'net rule =
  r_matcher :: "'net matcher"
  r_proxy :: nat
  r_kind :: string
  r_payload :: string

text \<open>One constructor per error of the parser.\<close>

datatype rule_error =
    PortNotDecimal
  | PortRange
  | PortDescending
  | DomainInvalid
  | DomainCharacters
  | CidrInvalid
  | CidrFamily
  | SourceCidrInvalid
  | SourceCidrFamily
  | UnsupportedRule
  | UnknownTarget
  | ControllerEndpoint

section \<open>Operations\<close>

definition parse_port :: "string \<Rightarrow> (u16, rule_error) result" where
  "parse_port p =
     (if p = [] \<or> \<not> list_all is_ascii_digit p then Err PortNotDecimal
      else case parse_uint 65535 p of
          None \<Rightarrow> Err PortRange
        | Some n \<Rightarrow> if (of_nat n :: u16) = 0 then Err PortRange else Ok (of_nat n))"

definition parse_controller_endpoint :: "string \<Rightarrow> (socket_addr, rule_error) result" where
  "parse_controller_endpoint endpoint =
     and_then (ok_or ControllerEndpoint (split_once (CHR '':'') endpoint)) (\<lambda>(h, p).
     and_then (if h = ''127.0.0.1'' then Ok (V4 127 0 0 1)
               else if h = ''0.0.0.0'' then Ok (V4 0 0 0 0)
               else Err ControllerEndpoint) (\<lambda>address.
     and_then (parse_port p) (\<lambda>n.
     Ok \<lparr>sa_ip = address, sa_port = n\<rparr>)))"

definition canonical_domain :: "string \<Rightarrow> string" where
  "canonical_domain domain =
     to_ascii_lowercase (case strip_suffix ''.'' domain of Some d \<Rightarrow> d | None \<Rightarrow> domain)"

definition domain_chars_ok :: "string \<Rightarrow> bool" where
  "domain_chars_ok payload \<longleftrightarrow> payload \<noteq> [] \<and> is_ascii payload
     \<and> \<not> list_ex (\<lambda>b. is_ascii_whitespace b \<or> is_ascii_control b) payload"

text \<open>The arms of the match in \<open>Rule::parse\<close>, in its order.\<close>

definition domain_matcher :: "string \<Rightarrow> string \<Rightarrow> ('net matcher, rule_error) result" where
  "domain_matcher kind payload =
     and_then (if kind \<noteq> ''DOMAIN-KEYWORD''
               then case target_new payload 1 of Ok _ \<Rightarrow> Ok () | Err _ \<Rightarrow> Err DomainInvalid
               else Ok ()) (\<lambda>_.
     let payload = canonical_domain payload
     in if \<not> domain_chars_ok payload then Err DomainCharacters
        else if kind = ''DOMAIN'' then Ok (Domain payload)
        else if kind = ''DOMAIN-SUFFIX'' then Ok (DomainSuffix payload)
        else Ok (DomainKeyword payload))"

definition ip_matcher ::
  "'net ipnet \<Rightarrow> string \<Rightarrow> string \<Rightarrow> bool \<Rightarrow> ('net matcher, rule_error) result" where
  "ip_matcher N kind payload no_resolve =
     and_then (ok_or CidrInvalid (net_parse N payload)) (\<lambda>network.
     if (kind = ''IP-CIDR'') \<noteq> is_ipv4 (net_addr N network) then Err CidrFamily
     else Ok (Ip network no_resolve))"

definition source_ip_matcher ::
  "'net ipnet \<Rightarrow> string \<Rightarrow> ('net matcher, rule_error) result" where
  "source_ip_matcher N payload =
     and_then (ok_or SourceCidrInvalid (net_parse N payload)) (\<lambda>network.
     if \<not> is_ipv4 (net_addr N network) then Err SourceCidrFamily
     else Ok (SourceIp network))"

definition port_matcher :: "string \<Rightarrow> string \<Rightarrow> ('net matcher, rule_error) result" where
  "port_matcher kind payload =
     (let (a, b) = (case split_once (CHR ''-'') payload of
                      Some ab \<Rightarrow> ab | None \<Rightarrow> (payload, payload))
      in and_then (parse_port a) (\<lambda>first.
         and_then (parse_port b) (\<lambda>last.
         if last < first then Err PortDescending
         else if kind = ''DST-PORT'' then Ok (DestinationPort first last)
         else Ok (SourcePort first last))))"

definition parse_matcher ::
  "'net ipnet \<Rightarrow> string list \<Rightarrow> ('net matcher \<times> string, rule_error) result" where
  "parse_matcher N fs = (case fs of
       [kind, name] \<Rightarrow> if kind = ''MATCH'' then Ok (MatchAll, name) else Err UnsupportedRule
     | [kind, payload, name] \<Rightarrow>
         if kind = ''DOMAIN'' \<or> kind = ''DOMAIN-SUFFIX'' \<or> kind = ''DOMAIN-KEYWORD''
         then and_then (domain_matcher kind payload) (\<lambda>m. Ok (m, name))
         else if kind = ''IP-CIDR'' \<or> kind = ''IP-CIDR6''
         then and_then (ip_matcher N kind payload False) (\<lambda>m. Ok (m, name))
         else if kind = ''SRC-IP-CIDR''
         then and_then (source_ip_matcher N payload) (\<lambda>m. Ok (m, name))
         else if kind = ''PROCESS-NAME'' \<and> payload \<noteq> [] then Ok (ProcessName payload, name)
         else if kind = ''GEOIP'' \<and> payload \<noteq> [] then Ok (GeoIp payload False, name)
         else if kind = ''DST-PORT'' \<or> kind = ''SRC-PORT''
         then and_then (port_matcher kind payload) (\<lambda>m. Ok (m, name))
         else Err UnsupportedRule
     | [kind, payload, name, flag] \<Rightarrow>
         if flag = ''no-resolve'' \<and> (kind = ''IP-CIDR'' \<or> kind = ''IP-CIDR6'')
         then and_then (ip_matcher N kind payload True) (\<lambda>m. Ok (m, name))
         else if flag = ''no-resolve'' \<and> kind = ''GEOIP'' \<and> payload \<noteq> []
         then Ok (GeoIp payload True, name)
         else Err UnsupportedRule
     | _ \<Rightarrow> Err UnsupportedRule)"

definition rule_fields :: "string \<Rightarrow> string list" where
  "rule_fields source = map (trim_matches is_space_tab) (take 5 (split_char (CHR '','') source))"

definition rule_parse ::
  "'net ipnet \<Rightarrow> string \<Rightarrow> (string \<rightharpoonup> nat) \<Rightarrow> ('net rule, rule_error) result" where
  "rule_parse N source names =
     (let fs = rule_fields source
      in and_then (parse_matcher N fs) (\<lambda>(matcher, name).
         and_then (ok_or UnknownTarget (names name)) (\<lambda>proxy.
         Ok \<lparr>r_matcher = matcher, r_proxy = proxy, r_kind = fs ! 0,
             r_payload = (if fs ! 0 = ''MATCH'' then [] else fs ! 1)\<rparr>)))"

section \<open>Ports\<close>

lemma of_nat_u16_eq_0: "n \<le> 65535 \<Longrightarrow> (of_nat n :: u16) = 0 \<longleftrightarrow> n = 0"
  by (simp add: word_unat_eq_iff unsigned_of_nat take_bit_eq_mod)

lemma parse_port_Ok_iff:
  "parse_port p = Ok n \<longleftrightarrow>
     p \<noteq> [] \<and> list_all is_ascii_digit p \<and> 0 < dec_val p \<and> dec_val p \<le> 65535 \<and> n = of_nat (dec_val p)"
  by (auto simp: parse_port_def parse_uint_digits of_nat_u16_eq_0 split: option.splits if_splits)

lemma parse_port_nonzero: "parse_port p = Ok n \<Longrightarrow> n \<noteq> 0"
  by (auto simp: parse_port_Ok_iff of_nat_u16_eq_0)

lemma parse_port_dec [simp]: "w \<noteq> 0 \<Longrightarrow> parse_port (dec (unat (w :: u16))) = Ok w"
  using unat_u16_less [of w] by (simp add: parse_port_Ok_iff unat_gt_0 del: unat_u16_less)

section \<open>Domains\<close>

lemma canonical_domain_simp:
  "canonical_domain d = to_ascii_lowercase (if d \<noteq> [] \<and> last d = CHR ''.'' then butlast d else d)"
  by (simp add: canonical_domain_def strip_suffix_single)

lemma to_ascii_lowercase_canonical [simp]:
  "to_ascii_lowercase (canonical_domain d) = canonical_domain d"
  by (simp add: canonical_domain_simp)

definition keyword_ok :: "string \<Rightarrow> bool" where
  "keyword_ok d \<longleftrightarrow> domain_chars_ok d \<and> to_ascii_lowercase d = d"

lemma last_dot_to_ascii_lowercase [simp]:
  "s \<noteq> [] \<Longrightarrow> last (to_ascii_lowercase s) = CHR ''.'' \<longleftrightarrow> last s = CHR ''.''"
  by (simp add: to_ascii_lowercase_def last_map)

lemma to_ascii_lowercase_Nil_iff [simp]: "to_ascii_lowercase s = [] \<longleftrightarrow> s = []"
  by (simp add: to_ascii_lowercase_def)

lemma split_char_snoc: "split_char c (xs @ [c]) = split_char c xs @ [[]]"
proof (induction xs)
  case (Cons x xs)
  then show ?case by (cases "split_char c xs") auto
qed simp

lemma split_char_last_dot: "xs \<noteq> [] \<Longrightarrow> last xs = c \<Longrightarrow> [] \<in> set (split_char c xs)"
  by (cases xs rule: rev_cases) (auto simp: split_char_snoc)

lemma dns_name_canonical:
  assumes "dns_name h" shows "canonical_domain (canonical_domain h) = canonical_domain h"
proof -
  define d where "d = (if h \<noteq> [] \<and> last h = CHR ''.'' then butlast h else h)"
  have c: "canonical_domain h = to_ascii_lowercase d" by (simp add: canonical_domain_simp d_def)
  have d: "d \<noteq> []" "list_all dns_label (split_char (CHR ''.'') d)"
    using assms by (simp_all add: dns_name_def strip_suffix_single Let_def d_def split: if_splits)
  then have "last d \<noteq> CHR ''.''"
    using split_char_last_dot [of d "CHR ''.''"] by (auto simp: list_all_iff dns_label_def)
  with d(1) show ?thesis
    by (simp add: c canonical_domain_simp [of "to_ascii_lowercase d"])
qed


section \<open>Well-formed rules\<close>

text \<open>
  What \<open>Rule::parse\<close> promises of a matcher: a keyword is lower-case ASCII without blanks, a domain is
  in addition a DNS name or the text of an address, a port range is nonempty and starts at a nonzero
  port, names and countries are nonempty.
\<close>

definition domain_ok :: "string \<Rightarrow> bool" where
  "domain_ok d \<longleftrightarrow> keyword_ok d \<and> (\<exists>h. d = canonical_domain h \<and> (dns_name h \<or> parse_ip h \<noteq> None))"

fun matcher_ok :: "'net matcher \<Rightarrow> bool" where
  "matcher_ok (Domain d) = domain_ok d"
| "matcher_ok (DomainSuffix d) = domain_ok d"
| "matcher_ok (DomainKeyword d) = keyword_ok d"
| "matcher_ok (DestinationPort a b) = (0 < a \<and> a \<le> b)"
| "matcher_ok (SourcePort a b) = (0 < a \<and> a \<le> b)"
| "matcher_ok (ProcessName p) = (p \<noteq> [])"
| "matcher_ok (GeoIp c _) = (c \<noteq> [])"
| "matcher_ok _ = True"

text \<open>The rule type a matcher is written with, and the networks it may hold.\<close>

fun matcher_kind :: "'net ipnet \<Rightarrow> 'net matcher \<Rightarrow> string" where
  "matcher_kind N (Domain _) = ''DOMAIN''"
| "matcher_kind N (DomainSuffix _) = ''DOMAIN-SUFFIX''"
| "matcher_kind N (DomainKeyword _) = ''DOMAIN-KEYWORD''"
| "matcher_kind N (Ip n _) = (if is_ipv4 (net_addr N n) then ''IP-CIDR'' else ''IP-CIDR6'')"
| "matcher_kind N (DestinationPort _ _) = ''DST-PORT''"
| "matcher_kind N (SourcePort _ _) = ''SRC-PORT''"
| "matcher_kind N (SourceIp _) = ''SRC-IP-CIDR''"
| "matcher_kind N (ProcessName _) = ''PROCESS-NAME''"
| "matcher_kind N (GeoIp _ _) = ''GEOIP''"
| "matcher_kind N MatchAll = ''MATCH''"

definition rule_ok :: "'net ipnet \<Rightarrow> (string \<rightharpoonup> nat) \<Rightarrow> 'net rule \<Rightarrow> bool" where
  "rule_ok N names r \<longleftrightarrow> matcher_ok (r_matcher r) \<and> r_kind r = matcher_kind N (r_matcher r)
     \<and> r_proxy r \<in> ran names \<and> (r_kind r = ''MATCH'' \<longrightarrow> r_payload r = [])"

lemma domain_okI:
  "domain_chars_ok (canonical_domain h) \<Longrightarrow> dns_name h \<Longrightarrow> domain_ok (canonical_domain h)"
  "domain_chars_ok (canonical_domain h) \<Longrightarrow> parse_ip h = Some ip \<Longrightarrow> domain_ok (canonical_domain h)"
  unfolding domain_ok_def keyword_ok_def by fastforce+

lemma domain_matcher_Ok:
  assumes "domain_matcher kind p = Ok m" "kind \<in> {''DOMAIN'', ''DOMAIN-SUFFIX'', ''DOMAIN-KEYWORD''}"
  shows "matcher_ok m \<and> matcher_kind N m = kind"
  using assms
  by (auto simp: domain_matcher_def Let_def keyword_ok_def result_simps
      intro: domain_okI split: if_splits result.splits)

lemma ip_matcher_Ok:
  assumes "ip_matcher N kind p f = Ok m" "kind \<in> {''IP-CIDR'', ''IP-CIDR6''}"
  shows "matcher_ok m \<and> matcher_kind N m = kind"
  using assms by (auto simp: ip_matcher_def result_simps split: if_splits)

lemma source_ip_matcher_Ok:
  assumes "source_ip_matcher N p = Ok m"
  shows "matcher_ok m \<and> matcher_kind N m = ''SRC-IP-CIDR''"
  using assms by (auto simp: source_ip_matcher_def result_simps split: if_splits)

lemma port_matcher_Ok:
  assumes "port_matcher kind p = Ok m" "kind \<in> {''DST-PORT'', ''SRC-PORT''}"
  shows "matcher_ok m \<and> matcher_kind N m = kind"
  using assms parse_port_nonzero
  by (fastforce simp: port_matcher_def result_simps word_gt_0 not_less split: if_splits prod.splits)

lemmas matcher_parsers_Ok =
  domain_matcher_Ok ip_matcher_Ok source_ip_matcher_Ok port_matcher_Ok

lemma parse_matcher_Ok:
  assumes "parse_matcher N fs = Ok (m, name)"
  shows "matcher_ok m \<and> fs \<noteq> [] \<and> matcher_kind N m = fs ! 0"
  using assms
  by (auto simp: parse_matcher_def result_simps split: list.splits if_splits
      dest!: matcher_parsers_Ok [where N = N])

text \<open>Every rule that parses is well formed.\<close>

lemma rule_parse_rule_ok: "rule_parse N source names = Ok r \<Longrightarrow> rule_ok N names r"
  by (auto simp: rule_parse_def rule_ok_def Let_def result_simps ranI
      dest!: parse_matcher_Ok)

section \<open>Printing and parsing\<close>

text \<open>
  The text of a rule: its fields joined by commas.  \<open>show_net\<close> prints a network; the crate documents
  that its \<open>Display\<close> and \<open>FromStr\<close> are inverse.
\<close>

fun matcher_payload :: "('net \<Rightarrow> string) \<Rightarrow> 'net matcher \<Rightarrow> string list" where
  "matcher_payload show_net (Domain d) = [d]"
| "matcher_payload show_net (DomainSuffix d) = [d]"
| "matcher_payload show_net (DomainKeyword d) = [d]"
| "matcher_payload show_net (Ip n _) = [show_net n]"
| "matcher_payload show_net (DestinationPort a b) = [dec (unat a) @ CHR ''-'' # dec (unat b)]"
| "matcher_payload show_net (SourcePort a b) = [dec (unat a) @ CHR ''-'' # dec (unat b)]"
| "matcher_payload show_net (SourceIp n) = [show_net n]"
| "matcher_payload show_net (ProcessName p) = [p]"
| "matcher_payload show_net (GeoIp c _) = [c]"
| "matcher_payload show_net MatchAll = []"

fun matcher_flags :: "'net matcher \<Rightarrow> string list" where
  "matcher_flags (Ip _ no_resolve) = (if no_resolve then [''no-resolve''] else [])"
| "matcher_flags (GeoIp _ no_resolve) = (if no_resolve then [''no-resolve''] else [])"
| "matcher_flags _ = []"

definition matcher_text :: "'net ipnet \<Rightarrow> ('net \<Rightarrow> string) \<Rightarrow> 'net matcher \<Rightarrow> string \<Rightarrow> string" where
  "matcher_text N show_net m name = join_char (CHR '','')
     (matcher_kind N m # matcher_payload show_net m @ name # matcher_flags m)"

text \<open>A field that survives the split at commas and the trimming.\<close>

definition plain_field :: "string \<Rightarrow> bool" where
  "plain_field f \<longleftrightarrow> CHR '','' \<notin> set f \<and> trim_matches is_space_tab f = f"

lemma trim_matches_id:
  assumes "\<forall>c\<in>set xs. \<not> P c" shows "trim_matches P xs = xs"
proof -
  have "dropWhile P ys = ys" if "set ys = set xs" for ys
    using assms that by (cases ys) auto
  then show ?thesis by (simp add: trim_matches_def)
qed

lemma plain_fieldI: "\<forall>c\<in>set f. c \<noteq> CHR '','' \<and> \<not> is_space_tab c \<Longrightarrow> plain_field f"
  unfolding plain_field_def by (blast intro: trim_matches_id)

lemma rule_fields_join:
  assumes "fs \<noteq> []" "length fs \<le> 5" "\<forall>f\<in>set fs. plain_field f"
  shows "rule_fields (join_char (CHR '','') fs) = fs"
  using assms by (simp add: rule_fields_def split_char_join plain_field_def map_idI)

fun writable :: "'net ipnet \<Rightarrow> ('net \<Rightarrow> string) \<Rightarrow> 'net matcher \<Rightarrow> bool" where
  "writable N show_net (Domain d) =
     (dns_name d \<and> domain_chars_ok d \<and> canonical_domain d = d \<and> plain_field d)"
| "writable N show_net (DomainSuffix d) =
     (dns_name d \<and> domain_chars_ok d \<and> canonical_domain d = d \<and> plain_field d)"
| "writable N show_net (DomainKeyword d) = (domain_chars_ok d \<and> canonical_domain d = d \<and> plain_field d)"
| "writable N show_net (Ip n _) = (net_parse N (show_net n) = Some n \<and> plain_field (show_net n))"
| "writable N show_net (SourceIp n) =
     (net_parse N (show_net n) = Some n \<and> is_ipv4 (net_addr N n) \<and> plain_field (show_net n))"
| "writable N show_net (DestinationPort a b) = (0 < a \<and> a \<le> b)"
| "writable N show_net (SourcePort a b) = (0 < a \<and> a \<le> b)"
| "writable N show_net (ProcessName p) = (p \<noteq> [] \<and> plain_field p)"
| "writable N show_net (GeoIp c _) = (c \<noteq> [] \<and> plain_field c)"
| "writable N show_net MatchAll = True"

lemma plain_field_ports: "plain_field (dec m @ CHR ''-'' # dec n)"
proof (rule plain_fieldI)
  show "\<forall>c\<in>set (dec m @ CHR ''-'' # dec n). c \<noteq> CHR '','' \<and> \<not> is_space_tab c"
    using dec_digits [of m] dec_digits [of n]
    by (auto simp: list_all_iff is_ascii_digit_def)
qed

lemma minus_notin_dec: "CHR ''-'' \<notin> set (dec n)"
  using dec_digits [of n] by (auto simp: list_all_iff is_ascii_digit_def)

lemma port_matcher_ports:
  assumes "0 < a" "a \<le> b"
  shows "port_matcher kind (dec (unat a) @ CHR ''-'' # dec (unat b))
       = Ok (if kind = ''DST-PORT'' then DestinationPort a b else SourcePort a b)"
  using assms minus_notin_dec [of "unat a"]
  by (auto simp: port_matcher_def split_once_append word_gt_0 [symmetric])

lemma plain_field_eval:
  "plain_field ''DOMAIN''" "plain_field ''DOMAIN-SUFFIX''" "plain_field ''DOMAIN-KEYWORD''"
  "plain_field ''IP-CIDR''" "plain_field ''IP-CIDR6''" "plain_field ''DST-PORT''"
  "plain_field ''SRC-PORT''" "plain_field ''SRC-IP-CIDR''" "plain_field ''PROCESS-NAME''"
  "plain_field ''GEOIP''" "plain_field ''MATCH''" "plain_field ''no-resolve''"
  by (rule plain_fieldI; simp)+

lemma writable_fields:
  assumes "writable N show_net m" "plain_field name"
  shows "rule_fields (matcher_text N show_net m name)
       = matcher_kind N m # matcher_payload show_net m @ name # matcher_flags m"
  unfolding matcher_text_def
proof (rule rule_fields_join)
  show "\<forall>f\<in>set (matcher_kind N m # matcher_payload show_net m @ name # matcher_flags m). plain_field f"
    using assms by (cases m) (auto simp: plain_field_eval plain_field_ports)
qed (cases m; simp)+

lemma parse_matcher_writable:
  assumes "writable N show_net m"
  shows "parse_matcher N (matcher_kind N m # matcher_payload show_net m @ name # matcher_flags m)
       = Ok (m, name)"
  using assms
  by (cases m) (auto simp: parse_matcher_def domain_matcher_def ip_matcher_def source_ip_matcher_def
      port_matcher_ports target_new_def Let_def)

lemma rule_parse_matcher_text:
  assumes "writable N show_net m" "plain_field name" "names name = Some p"
  shows "rule_parse N (matcher_text N show_net m name) names
       = Ok \<lparr>r_matcher = m, r_proxy = p, r_kind = matcher_kind N m,
             r_payload = (case matcher_payload show_net m of [] \<Rightarrow> [] | s # _ \<Rightarrow> s)\<rparr>"
proof -
  have "r_payload = (case matcher_payload show_net m of [] \<Rightarrow> [] | s # _ \<Rightarrow> s)"
    if "r_payload = (if matcher_kind N m = ''MATCH'' then []
          else (matcher_payload show_net m @ name # matcher_flags m) ! 0)" for r_payload
    using that by (cases m) simp_all
  with assms(3) show ?thesis
    by (simp add: rule_parse_def Let_def writable_fields [OF assms(1,2)]
        parse_matcher_writable [OF assms(1)] split: if_splits)
qed

end
