(* ===== verification/Config_Groups.thy ===== *)
theory Config_Groups
  imports Config_Rules
begin

text \<open>
  Proxy groups (\<open>src/src/config.rs\<close>): \<open>validate_name\<close>, \<open>resolve_groups\<close> with its explicit-stack
  depth-first search over all members, and the bounded walk of \<open>Config::resolve_proxy\<close>.

  The search is modelled step by step with its colours (0 unvisited, 1 on the stack, 2 done); an index
  outside a vector is the value \<open>GroupPanic\<close>.  The lemmas show that the search never panics, that it
  accepts exactly the acyclic member graphs, and that on an accepted graph the walk of
  \<open>resolve_proxy\<close> ends at a leaf within its bound for every choice of selections, so that its
  \<open>unreachable!\<close> is unreachable.
\<close>

section \<open>Types and operations\<close>

record raw_group =
  rg_name :: string
  rg_kind :: string
  rg_proxies :: "string list"

record group =
  g_name :: string
  g_members :: "nat list"

datatype group_error =
    NameInvalid
  | GroupKind
  | NameDuplicate
  | UnknownMember
  | GroupCycle
  | GroupPanic

definition validate_name :: "string \<Rightarrow> (unit, group_error) result" where
  "validate_name name =
     (if name = [] \<or> trim name \<noteq> name \<or> CHR '','' \<in> set name \<or> has_control name
      then Err NameInvalid else Ok ())"

text \<open>First loop of \<open>resolve_groups\<close>: check and register every group name.\<close>

fun add_group_names ::
  "nat \<Rightarrow> raw_group list \<Rightarrow> (string \<rightharpoonup> nat) \<Rightarrow> ((string \<rightharpoonup> nat), group_error) result" where
  "add_group_names i [] names = Ok names"
| "add_group_names i (g # gs) names =
     and_then (validate_name (rg_name g)) (\<lambda>_.
     if rg_kind g \<noteq> ''select'' \<or> rg_proxies g = [] then Err GroupKind
     else if names (rg_name g) \<noteq> None then Err NameDuplicate
     else add_group_names (Suc i) gs (names(rg_name g \<mapsto> i)))"

definition group_edges ::
  "raw_group list \<Rightarrow> (string \<rightharpoonup> nat) \<Rightarrow> (nat list list, group_error) result" where
  "group_edges groups names =
     result_map (\<lambda>g. result_map (\<lambda>m. ok_or UnknownMember (names m)) (rg_proxies g)) groups"

text \<open>
  The \<open>while let\<close> loop: the head of the list is the top of the stack.  \<open>zeros\<close> counts the unvisited
  nodes; together with the unread members of the frames it decreases in every iteration.
\<close>

definition zeros :: "nat list \<Rightarrow> nat" where
  "zeros st = length (filter (\<lambda>s. s = 0) st)"

lemma zeros_update_le: "v \<noteq> 0 \<Longrightarrow> zeros (st[i := v]) \<le> zeros st"
  unfolding zeros_def by (induction st arbitrary: i) (auto split: nat.splits intro: le_SucI)

lemma zeros_update_less: "i < length st \<Longrightarrow> st ! i = 0 \<Longrightarrow> v \<noteq> 0 \<Longrightarrow> zeros (st[i := v]) < zeros st"
  unfolding zeros_def
proof (induction st arbitrary: i)
  case (Cons s st)
  then show ?case by (cases i) auto
qed simp

definition unread :: "nat \<Rightarrow> nat list list \<Rightarrow> nat \<times> nat \<Rightarrow> nat" where
  "unread pc edges = (\<lambda>(node, next). Suc (length (edges ! (node - pc)) - next))"

function dfs_run ::
  "nat \<Rightarrow> nat list list \<Rightarrow> nat list \<Rightarrow> (nat \<times> nat) list \<Rightarrow> (nat list, group_error) result" where
  "dfs_run pc edges st [] = Ok st"
| "dfs_run pc edges st ((node, next) # stack) =
     (if node < pc \<or> length edges \<le> node - pc \<or> length st \<le> node then Err GroupPanic
      else let members = edges ! (node - pc)
      in if next = length members then dfs_run pc edges (st[node := 2]) stack
         else if length members < next then Err GroupPanic
         else let child = members ! next
         in if length st \<le> child then Err GroupPanic
            else if st ! child = 0
            then dfs_run pc edges (st[child := 1]) ((child, 0) # (node, Suc next) # stack)
            else if st ! child = 1 then Err GroupCycle
            else dfs_run pc edges st ((node, Suc next) # stack))"
  by pat_completeness auto

termination
proof (relation "measures [\<lambda>(pc, edges, st, stack). zeros st,
    \<lambda>(pc, edges, st, stack). sum_list (map (unread pc edges) stack)]", goal_cases)
  case (2 pc edges st node "next" stack)
  then show ?case
    using zeros_update_le [of 2 st node] by (auto simp: unread_def le_less)
next
  case (3 pc edges st node "next" stack)
  then show ?case by (auto intro: zeros_update_less)
next
  case (4 pc edges st node "next" stack)
  then have "next < length (edges ! (node - pc))" by simp
  then have "unread pc edges (node, Suc next) < unread pc edges (node, next)"
    by (simp add: unread_def)
  then show ?case by simp
qed simp

text \<open>The \<open>for root in proxy_count..total\<close> loop.\<close>

fun dfs_roots :: "nat \<Rightarrow> nat list list \<Rightarrow> nat list \<Rightarrow> nat list \<Rightarrow> (nat list, group_error) result" where
  "dfs_roots pc edges [] st = Ok st"
| "dfs_roots pc edges (root # roots) st =
     (if length st \<le> root then Err GroupPanic
      else if st ! root = 2 then dfs_roots pc edges roots st
      else and_then (dfs_run pc edges (st[root := 1]) [(root, 0)]) (dfs_roots pc edges roots))"

definition resolve_groups ::
  "raw_group list \<Rightarrow> (string \<rightharpoonup> nat) \<Rightarrow> nat \<Rightarrow> (group list \<times> (string \<rightharpoonup> nat), group_error) result" where
  "resolve_groups groups names proxy_count =
     and_then (add_group_names proxy_count groups names) (\<lambda>names.
     and_then (group_edges groups names) (\<lambda>edges.
     let total = proxy_count + length groups
     in and_then (dfs_roots proxy_count edges [proxy_count..<total]
                    (replicate proxy_count 2 @ replicate (length groups) 0)) (\<lambda>_.
        Ok (map2 (\<lambda>g members. \<lparr>g_name = rg_name g, g_members = members\<rparr>) groups edges, names))))"

text \<open>
  The loop of \<open>Config::resolve_proxy\<close>, with its iteration bound; \<open>None\<close> is the \<open>unreachable!\<close> after
  the loop or an index outside a vector.
\<close>

fun resolve_proxy_loop :: "nat \<Rightarrow> group list \<Rightarrow> nat list \<Rightarrow> nat \<Rightarrow> nat \<Rightarrow> nat option" where
  "resolve_proxy_loop proxies groups selections 0 index = None"
| "resolve_proxy_loop proxies groups selections (Suc n) index =
     (if index < proxies then Some index
      else let g = index - proxies
      in if length groups \<le> g \<or> length selections \<le> g
            \<or> length (g_members (groups ! g)) \<le> selections ! g then None
         else resolve_proxy_loop proxies groups selections n
                (g_members (groups ! g) ! (selections ! g)))"

section \<open>Correctness of the search\<close>

text \<open>The member relation between the nodes: proxies below \<open>pc\<close>, then the groups.\<close>

definition edge_rel :: "nat \<Rightarrow> nat list list \<Rightarrow> (nat \<times> nat) set" where
  "edge_rel pc edges = {(n, c). pc \<le> n \<and> n - pc < length edges \<and> c \<in> set (edges ! (n - pc))}"

definition black :: "nat list \<Rightarrow> nat \<Rightarrow> bool" where
  "black st v \<longleftrightarrow> v < length st \<and> st ! v = 2"

text \<open>
  The stack: the members read so far are done, except that the last one read of a frame below the top
  is the node of the frame above it.
\<close>

fun frames :: "nat \<Rightarrow> nat list list \<Rightarrow> nat list \<Rightarrow> nat option \<Rightarrow> (nat \<times> nat) list \<Rightarrow> bool" where
  "frames pc edges st up [] = True"
| "frames pc edges st up ((n, k) # stack) =
     (pc \<le> n \<and> n - pc < length edges \<and> k \<le> length (edges ! (n - pc))
      \<and> (case up of
           None \<Rightarrow> \<forall>j<k. black st (edges ! (n - pc) ! j)
         | Some c \<Rightarrow> 0 < k \<and> edges ! (n - pc) ! (k - 1) = c \<and> (\<forall>j<k - 1. black st (edges ! (n - pc) ! j)))
      \<and> frames pc edges st (Some n) stack)"

definition dfs_inv :: "nat \<Rightarrow> nat list list \<Rightarrow> nat list \<Rightarrow> (nat \<times> nat) list \<Rightarrow> bool" where
  "dfs_inv pc edges st stack \<longleftrightarrow>
     length st = pc + length edges \<and> (\<forall>v<length st. st ! v \<le> 2) \<and> (\<forall>v<pc. st ! v = 2)
     \<and> (\<forall>v<length st. st ! v = 1 \<longleftrightarrow> v \<in> fst ` set stack) \<and> distinct (map fst stack)
     \<and> (\<forall>v. black st v \<longrightarrow> v \<in> Wellfounded.acc ((edge_rel pc edges)\<inverse>))
     \<and> frames pc edges st None stack"

definition edges_ok :: "nat \<Rightarrow> nat list list \<Rightarrow> bool" where
  "edges_ok pc edges \<longleftrightarrow> (\<forall>ms\<in>set edges. \<forall>c\<in>set ms. c < pc + length edges)"

lemma edges_okD:
  "edges_ok pc edges \<Longrightarrow> i < length edges \<Longrightarrow> k < length (edges ! i) \<Longrightarrow> edges ! i ! k < pc + length edges"
  unfolding edges_ok_def by (meson nth_mem)

lemma frames_mono:
  "frames pc edges st a stack \<Longrightarrow> (\<And>v. black st v \<Longrightarrow> black st' v) \<Longrightarrow> frames pc edges st' a stack"
  by (induction pc edges st a stack rule: frames.induct) (auto split: option.splits)

lemma frames_pop:
  assumes "frames pc edges st (Some n) stack" "black st n"
  shows "frames pc edges st None stack"
proof (cases stack)
  case (Cons f stack')
  obtain m k where f: "f = (m, k)" by (cases f)
  have "black st (edges ! (m - pc) ! j)" if "j < k" for j
    using assms Cons f that by (cases "j = k - 1") auto
  then show ?thesis using assms Cons f by simp
qed simp

lemma frames_path:
  "frames pc edges st (Some c) stack \<Longrightarrow> n \<in> fst ` set stack \<Longrightarrow> (n, c) \<in> (edge_rel pc edges)\<^sup>+"
proof (induction stack arbitrary: c)
  case (Cons f stack)
  obtain m k where f: "f = (m, k)" by (cases f)
  have e: "(m, c) \<in> edge_rel pc edges"
    using Cons.prems(1) f nth_mem [of "k - 1" "edges ! (m - pc)"] by (auto simp: edge_rel_def)
  show ?case
  proof (cases "n = m")
    case False
    then have "(n, m) \<in> (edge_rel pc edges)\<^sup>+" using Cons.prems f by (intro Cons.IH) auto
    then show ?thesis using e by (rule trancl_into_trancl)
  qed (use e in auto)
qed simp

lemma accI_members:
  assumes "\<And>c. (n, c) \<in> edge_rel pc edges \<Longrightarrow> c \<in> Wellfounded.acc ((edge_rel pc edges)\<inverse>)"
  shows "n \<in> Wellfounded.acc ((edge_rel pc edges)\<inverse>)"
  by (rule accI) (simp add: assms)

lemma black_update: "black (st[i := v]) w \<longleftrightarrow> w < length st \<and> (if w = i then v = 2 else st ! w = 2)"
  by (auto simp: black_def nth_list_update)

lemma nth_update_P: "P (xs ! j) \<Longrightarrow> P x \<Longrightarrow> j < length xs \<Longrightarrow> P (xs[i := x] ! j)"
  by (cases "i = j") simp_all

lemma dfs_inv_pop:
  assumes "dfs_inv pc edges st ((node, next) # stack)" "next = length (edges ! (node - pc))"
  shows "dfs_inv pc edges (st[node := 2]) stack"
proof -
  note inv = assms(1)[unfolded dfs_inv_def]
  have "edges ! (node - pc) ! j \<in> Wellfounded.acc ((edge_rel pc edges)\<inverse>)"
    if "j < length (edges ! (node - pc))" for j
    using inv that assms(2) by simp
  then have "node \<in> Wellfounded.acc ((edge_rel pc edges)\<inverse>)"
    by - (rule accI_members, auto simp: edge_rel_def in_set_conv_nth)
  then have "\<forall>v. black (st[node := 2]) v \<longrightarrow> v \<in> Wellfounded.acc ((edge_rel pc edges)\<inverse>)"
    using inv by (auto simp: black_update split: if_splits) (auto simp: black_def)
  moreover have "frames pc edges (st[node := 2]) None stack"
  proof (rule frames_pop)
    show "frames pc edges (st[node := 2]) (Some node) stack"
      by (rule frames_mono [of pc edges st]) (use inv in \<open>auto simp: black_def nth_list_update\<close>)
    show "black (st[node := 2]) node" using inv by (auto simp: black_update)
  qed
  moreover have "st[node := 2] ! v = 1 \<longleftrightarrow> v \<in> fst ` set stack" if "v < length st" for v
    using inv that by (cases "v = node") simp_all
  moreover have "\<forall>v<length st. st[node := 2] ! v \<le> 2" "\<forall>v<pc. st[node := 2] ! v = 2"
    using inv by (auto intro: nth_update_P)
  ultimately show ?thesis using inv unfolding dfs_inv_def by simp
qed

lemma dfs_inv_push:
  assumes "dfs_inv pc edges st ((node, next) # stack)" "edges_ok pc edges"
    "next < length (edges ! (node - pc))" "child = edges ! (node - pc) ! next" "st ! child = 0"
  shows "dfs_inv pc edges (st[child := 1]) ((child, 0) # (node, Suc next) # stack)"
proof -
  note inv = assms(1)[unfolded dfs_inv_def]
  have c: "child < length st" "pc \<le> child"
    using inv edges_okD [OF assms(2)] assms(3-5) by (auto simp: not_less [symmetric])
  have b: "black (st[child := 1]) v \<longleftrightarrow> black st v" for v
    using assms(5) by (cases "v = child") (auto simp: black_def)
  have "frames pc edges (st[child := 1]) (Some node) stack"
    by (rule frames_mono [of pc edges st]) (use inv b in \<open>simp_all del: One_nat_def\<close>)
  then have "frames pc edges (st[child := 1]) None ((child, 0) # (node, Suc next) # stack)"
    using inv c assms(3) by (simp add: b assms(4) [symmetric] del: One_nat_def)
  moreover have "st[child := 1] ! v = 1 \<longleftrightarrow> v \<in> fst ` set ((child, 0) # (node, Suc next) # stack)"
    if "v < length st" for v
    using inv that by (cases "v = child") simp_all
  moreover have "child \<notin> fst ` set ((node, next) # stack)"
    using inv c assms(5) by (metis zero_neq_one)
  moreover have "\<forall>v<length st. st[child := 1] ! v \<le> 2" "\<forall>v<pc. st[child := 1] ! v = 2"
    using inv c by (auto intro: nth_update_P)
  ultimately show ?thesis
    using inv unfolding dfs_inv_def by (simp add: b del: One_nat_def)
qed

lemma dfs_inv_skip:
  assumes "dfs_inv pc edges st ((node, next) # stack)" "edges_ok pc edges"
    "next < length (edges ! (node - pc))" "child = edges ! (node - pc) ! next"
    "st ! child \<noteq> 0" "st ! child \<noteq> 1"
  shows "dfs_inv pc edges st ((node, Suc next) # stack)"
proof -
  note inv = assms(1)[unfolded dfs_inv_def]
  have "child < length st" using inv edges_okD [OF assms(2)] assms(3,4) by auto
  then have "black st child" using inv assms(5,6) unfolding black_def
    by (metis One_nat_def Suc_1 le_Suc_eq le_zero_eq)
  then show ?thesis using inv assms(3,4) unfolding dfs_inv_def by (auto simp: less_Suc_eq)
qed

lemma dfs_inv_cycle:
  assumes "dfs_inv pc edges st ((node, next) # stack)" "edges_ok pc edges"
    "next < length (edges ! (node - pc))" "child = edges ! (node - pc) ! next" "st ! child = 1"
  shows "\<not> acyclic (edge_rel pc edges)"
proof -
  note inv = assms(1)[unfolded dfs_inv_def]
  have "child < length st" using inv edges_okD [OF assms(2)] assms(3,4) by auto
  then have "child = node \<or> child \<in> fst ` set stack" using inv assms(5) by auto
  moreover have e: "(node, child) \<in> edge_rel pc edges"
    using inv assms(3,4) by (auto simp: edge_rel_def)
  ultimately have "(child, child) \<in> (edge_rel pc edges)\<^sup>+"
    using inv frames_path [of pc edges st node stack child]
    by (auto intro: trancl_into_trancl)
  then show ?thesis by (auto simp: acyclic_def)
qed

definition dfs_result ::
  "nat \<Rightarrow> nat list list \<Rightarrow> (nat \<Rightarrow> bool) \<Rightarrow> (nat list, group_error) result \<Rightarrow> bool" where
  "dfs_result pc edges P r = (case r of
       Ok st \<Rightarrow> dfs_inv pc edges st [] \<and> (\<forall>v. P v \<longrightarrow> black st v)
     | Err e \<Rightarrow> e = GroupCycle \<and> \<not> acyclic (edge_rel pc edges))"

lemma dfs_result_mono: "dfs_result pc edges P r \<Longrightarrow> (\<And>v. Q v \<Longrightarrow> P v) \<Longrightarrow> dfs_result pc edges Q r"
  by (auto simp: dfs_result_def split: result.splits)

lemma dfs_run_correct:
  assumes "edges_ok pc edges" "dfs_inv pc edges st stack"
  shows "dfs_result pc edges (\<lambda>v. black st v \<or> v \<in> fst ` set stack) (dfs_run pc edges st stack)"
  using assms
proof (induction pc edges st stack rule: dfs_run.induct)
  case (1 pc edges st)
  then show ?case by (simp add: dfs_result_def)
next
  case (2 pc edges st node "next" stack)
  let ?ms = "edges ! (node - pc)" and ?child = "edges ! (node - pc) ! next"
  have g: "\<not> (node < pc \<or> length edges \<le> node - pc \<or> length st \<le> node)" "next \<le> length ?ms"
    using 2(5) by (auto simp: dfs_inv_def)
  have c: "?child < length st" if "next < length ?ms"
    using 2(5) g that edges_okD [OF 2(4)] by (auto simp: dfs_inv_def)
  consider (pop) "next = length ?ms" | (push) "next < length ?ms" "st ! ?child = 0"
    | (cycle) "next < length ?ms" "st ! ?child = 1"
    | (skip) "next < length ?ms" "st ! ?child \<noteq> 0" "st ! ?child \<noteq> 1"
    using g(2) by linarith
  then show ?case
  proof cases
    case pop
    have "dfs_run pc edges st ((node, next) # stack) = dfs_run pc edges (st[node := 2]) stack"
      using g pop by (simp add: Let_def)
    with 2(1) [OF g(1) refl pop 2(4) dfs_inv_pop [OF 2(5) pop]] g(1) show ?thesis
      by (simp only:) (erule dfs_result_mono, auto simp: black_def nth_list_update)
  next
    case push
    have "dfs_run pc edges st ((node, next) # stack)
        = dfs_run pc edges (st[?child := 1]) ((?child, 0) # (node, Suc next) # stack)"
      using g push c by (simp add: Let_def)
    moreover have "dfs_result pc edges (\<lambda>v. black (st[?child := 1]) v
          \<or> v \<in> fst ` set ((?child, 0) # (node, Suc next) # stack))
        (dfs_run pc edges (st[?child := 1]) ((?child, 0) # (node, Suc next) # stack))"
      using g(1) push c 2(4) dfs_inv_push [OF 2(5,4) push(1) refl push(2)]
      by (intro 2(2) [OF g(1) refl _ _ refl]) auto
    ultimately show ?thesis
      by (simp only:) (erule dfs_result_mono, auto simp: black_def nth_list_update)
  next
    case cycle
    then show ?thesis
      using g c dfs_inv_cycle [OF 2(5,4) cycle(1) refl cycle(2)] by (auto simp: Let_def dfs_result_def)
  next
    case skip
    have "dfs_run pc edges st ((node, next) # stack) = dfs_run pc edges st ((node, Suc next) # stack)"
      using g skip c by (simp add: Let_def)
    moreover have "dfs_result pc edges (\<lambda>v. black st v \<or> v \<in> fst ` set ((node, Suc next) # stack))
        (dfs_run pc edges st ((node, Suc next) # stack))"
      using g(1) skip c 2(4) dfs_inv_skip [OF 2(5,4) skip(1) refl skip(2,3)]
      by (intro 2(3) [OF g(1) refl _ _ refl]) auto
    ultimately show ?thesis by (simp only:) (erule dfs_result_mono, auto)
  qed
qed

lemma dfs_inv_root:
  assumes "dfs_inv pc edges st []" "root < length st" "pc \<le> root" "st ! root \<noteq> 2"
  shows "dfs_inv pc edges (st[root := 1]) [(root, 0)]"
  using assms unfolding dfs_inv_def by (auto simp: nth_list_update black_update black_def)

lemma dfs_roots_correct:
  assumes "edges_ok pc edges" "dfs_inv pc edges st []" "\<forall>r\<in>set roots. pc \<le> r \<and> r < pc + length edges"
  shows "dfs_result pc edges (\<lambda>v. black st v \<or> v \<in> set roots) (dfs_roots pc edges roots st)"
  using assms(2,3)
proof (induction roots arbitrary: st)
  case (Cons root roots)
  have root: "root < length st" "pc \<le> root" using Cons.prems by (auto simp: dfs_inv_def)
  show ?case
  proof (cases "st ! root = 2")
    case True
    have "dfs_result pc edges (\<lambda>v. black st v \<or> v \<in> set roots) (dfs_roots pc edges roots st)"
      using Cons by simp
    with True root show ?thesis by simp (erule dfs_result_mono, auto simp: black_def)
  next
    case False
    have run: "dfs_result pc edges (\<lambda>v. black st v \<or> v = root)
        (dfs_run pc edges (st[root := 1]) [(root, 0)])"
      using dfs_run_correct [OF assms(1) dfs_inv_root [OF Cons.prems(1) root False]] False root
      by (auto simp: black_def nth_list_update elim!: dfs_result_mono split: if_splits)
    show ?thesis
    proof (cases "dfs_run pc edges (st[root := 1]) [(root, 0)]")
      case (Ok st')
      then have "dfs_inv pc edges st' []" and b: "\<And>v. black st v \<or> v = root \<Longrightarrow> black st' v"
        using run by (auto simp: dfs_result_def)
      then have "dfs_result pc edges (\<lambda>v. black st' v \<or> v \<in> set roots) (dfs_roots pc edges roots st')"
        using Cons by auto
      then show ?thesis using Ok root False b by (auto elim!: dfs_result_mono)
    next
      case (Err e)
      then show ?thesis using run root False by (auto simp: dfs_result_def)
    qed
  qed
qed (simp add: dfs_result_def)

lemma dfs_inv_init: "dfs_inv pc edges (replicate pc 2 @ replicate (length edges) 0) []"
proof -
  have "v \<in> Wellfounded.acc ((edge_rel pc edges)\<inverse>)" if "v < pc" for v
    using that by (intro accI_members [of v]) (auto simp: edge_rel_def)
  then show ?thesis by (auto simp: dfs_inv_def black_def nth_append)
qed

lemma acc_imp_acyclic: "(\<And>v. v \<in> Wellfounded.acc (r\<inverse>)) \<Longrightarrow> acyclic r"
  using acc_wfI [of "r\<inverse>"] wf_acyclic [of "r\<inverse>"] by (simp add: acyclic_converse)

text \<open>The search accepts exactly the acyclic graphs, and never panics.\<close>

lemma dfs_roots_iff:
  assumes "edges_ok pc edges"
  shows "dfs_roots pc edges [pc..<pc + length edges] (replicate pc 2 @ replicate (length edges) 0)
           = (if acyclic (edge_rel pc edges) then Ok (replicate (pc + length edges) 2) else Err GroupCycle)"
    (is "?run = _")
proof -
  have res: "dfs_result pc edges (\<lambda>v. black (replicate pc 2 @ replicate (length edges) 0) v
      \<or> v \<in> set [pc..<pc + length edges]) ?run"
    by (rule dfs_roots_correct [OF assms dfs_inv_init]) simp
  show ?thesis
  proof (cases ?run)
    case (Ok st)
    then have inv: "dfs_inv pc edges st []" and b: "black st v" if "pc \<le> v" "v < pc + length edges" for v
      using res that by (auto simp: dfs_result_def)
    have "v \<in> Wellfounded.acc ((edge_rel pc edges)\<inverse>)" for v
    proof (cases "pc \<le> v \<and> v < pc + length edges")
      case True
      then show ?thesis using inv b unfolding dfs_inv_def by blast
    next
      case False
      show ?thesis by (rule accI_members) (use False in \<open>auto simp: edge_rel_def\<close>)
    qed
    then have "acyclic (edge_rel pc edges)" by (rule acc_imp_acyclic)
    moreover have "st = replicate (pc + length edges) 2"
    proof (rule nth_equalityI)
      show "length st = length (replicate (pc + length edges) 2)" using Ok res
        by (simp add: dfs_result_def dfs_inv_def)
      fix i assume "i < length st"
      then show "st ! i = replicate (pc + length edges) 2 ! i"
        using Ok res b [of i] by (cases "i < pc") (auto simp: dfs_result_def dfs_inv_def black_def)
    qed
    ultimately show ?thesis using Ok by simp
  next
    case (Err e)
    then show ?thesis using res by (simp add: dfs_result_def)
  qed
qed

section \<open>Names\<close>

lemma add_group_names_Ok_iff:
  "add_group_names i gs names = Ok names' \<longleftrightarrow>
     (\<forall>g\<in>set gs. validate_name (rg_name g) = Ok () \<and> rg_kind g = ''select'' \<and> rg_proxies g \<noteq> []
        \<and> rg_name g \<notin> dom names)
     \<and> distinct (map rg_name gs)
     \<and> names' = names ++ map_of (zip (map rg_name gs) [i..<i + length gs])"
proof (induction gs arbitrary: i names)
  case (Cons g gs)
  let ?m = "map_of (zip (map rg_name gs) [Suc i..<Suc i + length gs])"
  have z: "zip (map rg_name (g # gs)) [i..<i + length (g # gs)]
      = (rg_name g, i) # zip (map rg_name gs) [Suc i..<Suc i + length gs]"
    using upt_conv_Cons [of i "i + length (g # gs)"] by (simp del: upt_Suc)
  have upd: "names(rg_name g \<mapsto> i) ++ ?m = names ++ map_of ((rg_name g, i) # zip (map rg_name gs) [Suc i..<Suc i + length gs])"
    if "rg_name g \<notin> rg_name ` set gs"
    using that by (simp add: map_add_upd_left dom_map_of_zip)
  have dom: "(\<forall>h\<in>set gs. P h \<and> rg_name h \<notin> dom (names(rg_name g \<mapsto> i))) \<longleftrightarrow>
      (\<forall>h\<in>set gs. P h \<and> rg_name h \<notin> dom names) \<and> rg_name g \<notin> rg_name ` set gs" for P
    by (auto intro: rev_image_eqI)
  show ?case
  proof (cases "validate_name (rg_name g) = Ok () \<and> rg_kind g = ''select'' \<and> rg_proxies g \<noteq> []
      \<and> rg_name g \<notin> dom names")
    case True
    then have "add_group_names i (g # gs) names = add_group_names (Suc i) gs (names(rg_name g \<mapsto> i))"
      by (simp add: domIff)
    then show ?thesis
      using True Cons.IH [of "Suc i" "names(rg_name g \<mapsto> i)"] upd
        dom [of "\<lambda>g. validate_name (rg_name g) = Ok () \<and> rg_kind g = ''select'' \<and> rg_proxies g \<noteq> []"]
      unfolding z by (simp only: conj_assoc list.set distinct.simps list.map ball_simps set_map
          simp_thms cong: conj_cong)
  next
    case False
    then show ?thesis by (auto simp: and_then_Ok_iff)
  qed
qed auto

lemma group_edges_Ok_iff:
  "group_edges groups names = Ok edges \<longleftrightarrow>
     (\<forall>g\<in>set groups. set (rg_proxies g) \<subseteq> dom names)
     \<and> edges = map (\<lambda>g. map (\<lambda>m. the (names m)) (rg_proxies g)) groups"
proof -
  have inner: "result_map (\<lambda>m. ok_or UnknownMember (names m)) ms = Ok es
      \<longleftrightarrow> set ms \<subseteq> dom names \<and> es = map (\<lambda>m. the (names m)) ms" for ms es
    by (induction ms arbitrary: es) (auto simp: result_simps)
  show ?thesis unfolding group_edges_def
    by (induction groups arbitrary: edges) (auto simp: and_then_Ok_iff inner)
qed

text \<open>The member relation on names: what a reader of the configuration sees.\<close>

definition member_rel :: "raw_group list \<Rightarrow> (string \<times> string) set" where
  "member_rel groups = {(rg_name g, m) |g m. g \<in> set groups \<and> m \<in> set (rg_proxies g)}"

text \<open>The names a configuration defines: those of its proxies and of its groups.\<close>

definition all_names :: "raw_group list \<Rightarrow> (string \<rightharpoonup> nat) \<Rightarrow> nat \<Rightarrow> (string \<rightharpoonup> nat)" where
  "all_names groups names pc = names ++ map_of (zip (map rg_name groups) [pc..<pc + length groups])"

definition groups_valid :: "raw_group list \<Rightarrow> (string \<rightharpoonup> nat) \<Rightarrow> bool" where
  "groups_valid groups names \<longleftrightarrow>
     (\<forall>g\<in>set groups. validate_name (rg_name g) = Ok () \<and> rg_kind g = ''select'' \<and> rg_proxies g \<noteq> []
        \<and> rg_name g \<notin> dom names \<and> set (rg_proxies g) \<subseteq> dom names \<union> rg_name ` set groups)
     \<and> distinct (map rg_name groups)"

lemma dom_all_names: "dom (all_names groups names pc) = dom names \<union> rg_name ` set groups"
  by (auto simp: all_names_def dom_map_of_zip)

lemma all_names_group:
  assumes "distinct (map rg_name groups)" "i < length groups"
  shows "all_names groups names pc (rg_name (groups ! i)) = Some (pc + i)"
proof -
  have "map_of (zip (map rg_name groups) [pc..<pc + length groups]) (map rg_name groups ! i)
      = Some ([pc..<pc + length groups] ! i)"
    by (rule map_of_zip_nth) (use assms in auto)
  then show ?thesis using assms by (simp add: all_names_def map_add_find_right)
qed

lemma all_names_cases:
  assumes "all_names groups names pc m = Some n" "distinct (map rg_name groups)" "ran names \<subseteq> {..<pc}"
  shows "n < pc \<and> names m = Some n \<or> (\<exists>i<length groups. n = pc + i \<and> m = rg_name (groups ! i))"
proof (cases "m \<in> rg_name ` set groups")
  case True
  then obtain i where "i < length groups" "m = rg_name (groups ! i)" by (auto simp: in_set_conv_nth)
  then show ?thesis using all_names_group [OF assms(2)] assms(1) by auto
next
  case False
  then have "map_of (zip (map rg_name groups) [pc..<pc + length groups]) m = None"
    by (simp add: dom_map_of_zip flip: domIff)
  then have "names m = Some n" using assms(1) by (simp only: all_names_def map_add_def option.case)
  then show ?thesis using assms(3) by (auto dest: ranI)
qed

definition index_edges :: "raw_group list \<Rightarrow> (string \<rightharpoonup> nat) \<Rightarrow> nat \<Rightarrow> nat list list" where
  "index_edges groups names pc = map (\<lambda>g. map (\<lambda>m. the (all_names groups names pc m)) (rg_proxies g)) groups"

lemma index_edges_ok:
  assumes "groups_valid groups names" "ran names \<subseteq> {..<pc}"
  shows "edges_ok pc (index_edges groups names pc)"
proof -
  have "the (all_names groups names pc m) < pc + length groups"
    if g: "g \<in> set groups" "m \<in> set (rg_proxies g)" for g m
  proof -
    have "m \<in> dom (all_names groups names pc)"
      using assms(1) g unfolding dom_all_names groups_valid_def by blast
    then obtain n where "all_names groups names pc m = Some n" by blast
    then show ?thesis using all_names_cases [of groups names pc m n] assms
      by (auto simp: groups_valid_def)
  qed
  then show ?thesis by (auto simp: edges_ok_def index_edges_def)
qed

text \<open>Indices and names give the same graph, so one is acyclic exactly when the other is.\<close>

lemma edge_rel_iff:
  assumes "groups_valid groups names" "ran names \<subseteq> {..<pc}" "i < length groups" "j < length groups"
  shows "(pc + i, pc + j) \<in> edge_rel pc (index_edges groups names pc)
     \<longleftrightarrow> (rg_name (groups ! i), rg_name (groups ! j)) \<in> member_rel groups"
proof -
  have d: "distinct (map rg_name groups)" using assms(1) by (simp add: groups_valid_def)
  have eq: "all_names groups names pc m = Some (pc + j) \<longleftrightarrow> m = rg_name (groups ! j)" for m
    using all_names_cases [OF _ d assms(2), of m "pc + j"] all_names_group [OF d assms(4)] by auto
  have dom: "m \<in> dom (all_names groups names pc)" if "m \<in> set (rg_proxies (groups ! i))" for m
    using assms(1,3) that unfolding dom_all_names groups_valid_def by (meson nth_mem subsetD)
  have "(pc + i, pc + j) \<in> edge_rel pc (index_edges groups names pc)
      \<longleftrightarrow> (\<exists>m\<in>set (rg_proxies (groups ! i)). all_names groups names pc m = Some (pc + j))"
    using assms(3) dom by (force simp: edge_rel_def index_edges_def)
  also have "\<dots> \<longleftrightarrow> rg_name (groups ! j) \<in> set (rg_proxies (groups ! i))" using eq by auto
  also have "\<dots> \<longleftrightarrow> (rg_name (groups ! i), rg_name (groups ! j)) \<in> member_rel groups"
    using assms(3) d by (auto simp: member_rel_def in_set_conv_nth distinct_conv_nth)
  finally show ?thesis .
qed

lemma edge_rel_source:
  "(n, c) \<in> (edge_rel pc (index_edges groups names pc))\<^sup>+ \<Longrightarrow> pc \<le> n \<and> n - pc < length groups"
  by (induction rule: converse_trancl_induct) (auto simp: edge_rel_def index_edges_def)

lemma member_rel_source: "(a, b) \<in> (member_rel groups)\<^sup>+ \<Longrightarrow> a \<in> rg_name ` set groups"
  by (induction rule: converse_trancl_induct) (auto simp: member_rel_def)

lemma edge_rel_trancl_iff:
  assumes "groups_valid groups names" "ran names \<subseteq> {..<pc}" "i < length groups" "j < length groups"
  shows "(pc + i, pc + j) \<in> (edge_rel pc (index_edges groups names pc))\<^sup>+
     \<longleftrightarrow> (rg_name (groups ! i), rg_name (groups ! j)) \<in> (member_rel groups)\<^sup>+"
    (is "_ \<in> ?E\<^sup>+ \<longleftrightarrow> _ \<in> ?M\<^sup>+")
proof
  assume "(pc + i, pc + j) \<in> ?E\<^sup>+"
  then show "(rg_name (groups ! i), rg_name (groups ! j)) \<in> ?M\<^sup>+"
  proof (induction "pc + i" arbitrary: i rule: converse_trancl_induct)
    case base
    then have "i < length groups" using edge_rel_source [OF r_into_trancl] by fastforce
    then show ?case using edge_rel_iff [OF assms(1,2) _ assms(4)] base by blast
  next
    case (step z)
    obtain k where k: "z = pc + k" "k < length groups"
      using edge_rel_source [OF step(2)] by (metis le_add_diff_inverse)
    have i: "i < length groups" using edge_rel_source [OF r_into_trancl [OF step(1)]] by simp
    have "(rg_name (groups ! i), rg_name (groups ! k)) \<in> ?M"
      using edge_rel_iff [OF assms(1,2) i k(2)] step(1) k(1) by simp
    then show ?case using step(3) [OF k(1)] by (rule trancl_into_trancl2)
  qed
next
  assume "(rg_name (groups ! i), rg_name (groups ! j)) \<in> ?M\<^sup>+"
  then show "(pc + i, pc + j) \<in> ?E\<^sup>+" using assms(3)
  proof (induction "rg_name (groups ! i)" arbitrary: i rule: converse_trancl_induct)
    case base
    then show ?case using edge_rel_iff [OF assms(1,2) _ assms(4)] by blast
  next
    case (step z)
    obtain k where k: "z = rg_name (groups ! k)" "k < length groups"
      using member_rel_source [OF step(2)] by (auto simp: in_set_conv_nth)
    have "(pc + i, pc + k) \<in> ?E"
      using edge_rel_iff [OF assms(1,2) step(4) k(2)] step(1) k(1) by simp
    then show ?case using step(3) [OF k] by (rule trancl_into_trancl2)
  qed
qed

lemma acyclic_edge_rel_iff:
  assumes "groups_valid groups names" "ran names \<subseteq> {..<pc}"
  shows "acyclic (edge_rel pc (index_edges groups names pc)) \<longleftrightarrow> acyclic (member_rel groups)"
proof -
  have "\<exists>i<length groups. n = pc + i" if "(n, n) \<in> (edge_rel pc (index_edges groups names pc))\<^sup>+" for n
    using edge_rel_source [OF that] by (auto intro: exI [of _ "n - pc"])
  moreover have "\<exists>i<length groups. a = rg_name (groups ! i)" if "(a, a) \<in> (member_rel groups)\<^sup>+" for a
    using member_rel_source [OF that] by (auto simp: in_set_conv_nth)
  ultimately show ?thesis
    unfolding acyclic_def using edge_rel_trancl_iff [OF assms] by metis
qed

lemma resolve_groups_eq:
  assumes "groups_valid groups names" "ran names \<subseteq> {..<pc}"
  shows "resolve_groups groups names pc =
     (if acyclic (member_rel groups)
      then Ok (map2 (\<lambda>g ms. \<lparr>g_name = rg_name g, g_members = ms\<rparr>) groups (index_edges groups names pc),
               all_names groups names pc)
      else Err GroupCycle)"
proof -
  have "add_group_names pc groups names = Ok (all_names groups names pc)"
    using assms(1) by (simp add: add_group_names_Ok_iff all_names_def groups_valid_def)
  moreover have "group_edges groups (all_names groups names pc) = Ok (index_edges groups names pc)"
    using assms(1) by (simp add: group_edges_Ok_iff index_edges_def dom_all_names groups_valid_def)
  moreover have "length (index_edges groups names pc) = length groups" by (simp add: index_edges_def)
  ultimately show ?thesis
    using dfs_roots_iff [OF index_edges_ok [OF assms]] acyclic_edge_rel_iff [OF assms]
    by (simp add: resolve_groups_def Let_def)
qed

lemma resolve_groups_Ok_iff:
  assumes "ran names \<subseteq> {..<pc}"
  shows "resolve_groups groups names pc = Ok (gs, names') \<longleftrightarrow>
     groups_valid groups names \<and> acyclic (member_rel groups)
     \<and> gs = map2 (\<lambda>g ms. \<lparr>g_name = rg_name g, g_members = ms\<rparr>) groups (index_edges groups names pc)
     \<and> names' = all_names groups names pc"
proof -
  have "groups_valid groups names" if "resolve_groups groups names pc = Ok (gs, names')"
    using that
    by (auto simp: resolve_groups_def and_then_Ok_iff add_group_names_Ok_iff group_edges_Ok_iff
        groups_valid_def dom_map_of_zip split: prod.splits)
  then show ?thesis using resolve_groups_eq [OF _ assms, of groups] by (auto split: if_splits)
qed

section \<open>Following the selections\<close>

text \<open>What the constructor establishes of the group table, and of a vector of selections.\<close>

definition graph_ok :: "nat \<Rightarrow> group list \<Rightarrow> bool" where
  "graph_ok pc gs \<longleftrightarrow> edges_ok pc (map g_members gs) \<and> acyclic (edge_rel pc (map g_members gs))
     \<and> (\<forall>g\<in>set gs. g_members g \<noteq> []) \<and> distinct (map g_name gs)"

definition selections_ok :: "group list \<Rightarrow> nat list \<Rightarrow> bool" where
  "selections_ok gs sel \<longleftrightarrow> list_all2 (\<lambda>g s. s < length (g_members g)) gs sel"

text \<open>The current choice of every group.\<close>

definition selected_rel :: "nat \<Rightarrow> group list \<Rightarrow> nat list \<Rightarrow> (nat \<times> nat) set" where
  "selected_rel pc gs sel =
     {(n, c). pc \<le> n \<and> n - pc < length gs \<and> c = g_members (gs ! (n - pc)) ! (sel ! (n - pc))}"

lemma selections_okD:
  "selections_ok gs sel \<Longrightarrow> i < length gs \<Longrightarrow> i < length sel \<and> sel ! i < length (g_members (gs ! i))"
  by (auto simp: selections_ok_def list_all2_conv_all_nth)

lemma selected_rel_edge:
  "selections_ok gs sel \<Longrightarrow> selected_rel pc gs sel \<subseteq> edge_rel pc (map g_members gs)"
  by (auto simp: selected_rel_def edge_rel_def dest: selections_okD)

lemma selected_rel_bound:
  assumes "graph_ok pc gs" "selections_ok gs sel" "(n, c) \<in> selected_rel pc gs sel"
  shows "c < pc + length gs"
  using assms edges_okD [of pc "map g_members gs" "n - pc" "sel ! (n - pc)"] selections_okD [of gs sel "n - pc"]
  by (auto simp: graph_ok_def selected_rel_def)

lemma resolve_proxy_loop_leaf:
  assumes ok: "graph_ok pc gs" "selections_ok gs sel"
    and "i < pc + length gs" "V \<subseteq> {pc..<pc + length gs}" "card V + n = Suc (length gs)"
    and "\<forall>v\<in>V. (v, i) \<in> (edge_rel pc (map g_members gs))\<^sup>+"
  shows "\<exists>leaf<pc. resolve_proxy_loop pc gs sel n i = Some leaf \<and> (i, leaf) \<in> (selected_rel pc gs sel)\<^sup>*"
  using assms(3-)
proof (induction n arbitrary: i V)
  case 0
  then show ?case using card_mono [of "{pc..<pc + length gs}" V] by simp
next
  case (Suc n)
  show ?case
  proof (cases "i < pc")
    case False
    define c where "c = g_members (gs ! (i - pc)) ! (sel ! (i - pc))"
    have g: "i - pc < length gs" using Suc.prems(1) False by simp
    have step: "(i, c) \<in> selected_rel pc gs sel" using g False by (simp add: selected_rel_def c_def)
    then have e: "(i, c) \<in> edge_rel pc (map g_members gs)" using selected_rel_edge [OF ok(2)] by blast
    have "i \<notin> V" using Suc.prems(4) ok(1) by (auto simp: graph_ok_def acyclic_def)
    moreover have "finite V" using Suc.prems(2) finite_subset by blast
    ultimately have "card (insert i V) + n = Suc (length gs)" using Suc.prems(3) by simp
    moreover have "\<forall>v\<in>insert i V. (v, c) \<in> (edge_rel pc (map g_members gs))\<^sup>+"
      using Suc.prems(4) e by (auto intro: trancl_into_trancl)
    moreover have "insert i V \<subseteq> {pc..<pc + length gs}" using Suc.prems(1,2) False by simp
    ultimately obtain leaf where "leaf < pc" "resolve_proxy_loop pc gs sel n c = Some leaf"
        "(c, leaf) \<in> (selected_rel pc gs sel)\<^sup>*"
      using Suc.IH [OF selected_rel_bound [OF ok step], of "insert i V"] by blast
    then show ?thesis
      using step g False selections_okD [OF ok(2) g]
      by (auto simp: Let_def c_def intro: converse_rtrancl_into_rtrancl)
  qed simp
qed

text \<open>The groups that \<open>resolve_groups\<close> returns satisfy the contract.\<close>

lemma resolve_groups_graph_ok:
  assumes "resolve_groups groups names pc = Ok (gs, names')" "ran names \<subseteq> {..<pc}"
  shows "graph_ok pc gs" "length gs = length groups" "selections_ok gs (replicate (length gs) 0)"
    "ran names' \<subseteq> {..<pc + length gs}"
proof -
  note r = assms(1)[unfolded resolve_groups_Ok_iff [OF assms(2)]]
  have len: "length (index_edges groups names pc) = length groups" by (simp add: index_edges_def)
  have ms: "map g_members gs = index_edges groups names pc" "map g_name gs = map rg_name groups"
    using r len by (auto intro!: nth_equalityI)
  show "length gs = length groups" using r len by simp
  have ne: "g_members g \<noteq> []" if "g \<in> set gs" for g
  proof -
    have "g_members g \<in> set (index_edges groups names pc)" using that ms(1) by (metis imageI set_map)
    then show ?thesis using r by (auto simp: index_edges_def groups_valid_def)
  qed
  show "graph_ok pc gs"
    unfolding graph_ok_def ms
    using r ne index_edges_ok [OF _ assms(2)] acyclic_edge_rel_iff [OF _ assms(2)]
    by (simp add: groups_valid_def)
  show "selections_ok gs (replicate (length gs) 0)"
    using ne by (auto simp: selections_ok_def list_all2_conv_all_nth)
  show "ran names' \<subseteq> {..<pc + length gs}"
    using r len all_names_cases [OF _ _ assms(2), of groups]
    by (fastforce simp: ran_def groups_valid_def)
qed

end
