(* ===== verification/Config_Proxy.thy ===== *)
theory Config_Proxy
  imports Config_Groups
begin

text \<open>
  Proxy nodes (\<open>src/src/config.rs\<close>): the declared node \<open>RawProxy\<close>, the node the runtime uses
  (\<open>Proxy\<close>, \<open>ProxyKind\<close>), and \<open>RawProxy::build\<close>, which checks one and makes the other.

  The TLS library decides which names its \<open>ServerName\<close> accepts; that test is the argument
  \<open>server_name\<close>.  The lemmas show what every built node satisfies; in particular that a node whose
  certificate is verified always has a DNS host name to verify it against.
\<close>

record raw_obfs =
  ro_mode :: string
  ro_host :: string

record raw_proxy =
  rp_name :: string
  rp_kind :: string
  rp_server :: string
  rp_port :: u16
  rp_password :: string
  rp_cipher :: "string option"
  rp_sni :: "string option"
  rp_skip_cert_verify :: "bool option"
  rp_tls :: "bool option"
  rp_network :: "string option"
  rp_udp :: bool
  rp_plugin :: "string option"
  rp_disable_reuse :: "bool option"
  rp_plugin_opts :: "raw_obfs option"

datatype proxy_kind =
    Direct
  | Reject
  | Shadowsocks (k_server: string) (k_port: u16) (k_password: string) (k_cipher: string)
  | AnyTls (k_server: string) (k_port: u16) (k_password: string) (k_sni: "string option")
      (k_skip_cert_verify: bool)
  | Trojan (k_server: string) (k_port: u16) (k_password: string) (k_sni: "string option")
      (k_skip_cert_verify: bool)

record proxy =
  p_name :: string
  p_kind :: proxy_kind
  p_udp :: bool
  p_obfs :: "string option"

datatype proxy_error =
    NetworkUnsupported
  | DisableReuse
  | ObfsOptions
  | PluginUnsupported
  | PasswordInvalid
  | ServerInvalid
  | ShadowsocksTls
  | ShadowsocksCipher
  | AnyTlsOptions
  | TlsCipher
  | SniIpOrDot
  | SniInvalid
  | SniRequired
  | TlsServerName
  | ProxyType

text \<open>The \<open>match\<close> on \<open>plugin\<close> and \<open>plugin-opts\<close>.\<close>

definition build_obfs :: "raw_proxy \<Rightarrow> (string option, proxy_error) result" where
  "build_obfs p = (case (rp_plugin p, rp_plugin_opts p) of
       (None, None) \<Rightarrow> Ok None
     | (Some pl, Some opts) \<Rightarrow>
         if (pl = ''obfs'' \<or> pl = ''obfs-local'') \<and> rp_kind p = ''ss''
         then if ro_mode opts \<noteq> ''http'' \<or> ro_host opts = [] \<or> 255 < length (ro_host opts)
                 \<or> list_ex (\<lambda>b. code b = 0 \<or> b = CR \<or> b = LF) (ro_host opts)
              then Err ObfsOptions
              else Ok (Some (ro_host opts))
         else Err PluginUnsupported
     | _ \<Rightarrow> Err PluginUnsupported)"

definition ss_cipher :: "string option \<Rightarrow> (string, proxy_error) result" where
  "ss_cipher cipher = (case cipher of
       Some c \<Rightarrow>
         if c = ''aes-128-gcm'' then Ok ''aes-128-gcm''
         else if c = ''aes-256-gcm'' then Ok ''aes-256-gcm''
         else if c = ''chacha20-ietf-poly1305'' \<or> c = ''chacha20-poly1305'' then Ok ''chacha20-ietf-poly1305''
         else Err ShadowsocksCipher
     | None \<Rightarrow> Err ShadowsocksCipher)"

definition build_shadowsocks :: "raw_proxy \<Rightarrow> (proxy_kind, proxy_error) result" where
  "build_shadowsocks p =
     (if rp_tls p = Some True \<or> rp_sni p \<noteq> None \<or> rp_skip_cert_verify p \<noteq> None then Err ShadowsocksTls
      else and_then (ss_cipher (rp_cipher p)) (\<lambda>cipher.
        Ok (Shadowsocks (rp_server p) (rp_port p) (rp_password p) cipher)))"

definition check_sni :: "raw_proxy \<Rightarrow> (unit, proxy_error) result" where
  "check_sni p = (case rp_sni p of
       Some sni \<Rightarrow>
         if ends_with ''.'' sni \<or> parse_ip sni \<noteq> None then Err SniIpOrDot
         else (case target_new sni 1 of Ok _ \<Rightarrow> Ok () | Err _ \<Rightarrow> Err SniInvalid)
     | None \<Rightarrow>
         if rp_skip_cert_verify p \<noteq> Some True \<and> parse_ip (rp_server p) \<noteq> None then Err SniRequired
         else Ok ())"

definition build_tls :: "(string \<Rightarrow> bool) \<Rightarrow> raw_proxy \<Rightarrow> (proxy_kind, proxy_error) result" where
  "build_tls server_name p =
     (if rp_kind p = ''anytls'' \<and> (rp_udp p \<or> rp_tls p = Some True) then Err AnyTlsOptions
      else if (rp_kind p = ''trojan'' \<and> rp_tls p = Some False) \<or> rp_cipher p \<noteq> None then Err TlsCipher
      else and_then (check_sni p) (\<lambda>_.
        let tls_name = (case rp_sni p of Some sni \<Rightarrow> sni | None \<Rightarrow> rp_server p);
            stripped = (case strip_suffix ''.'' tls_name of Some n \<Rightarrow> n | None \<Rightarrow> tls_name);
            skip = (rp_skip_cert_verify p = Some True)
        in if \<not> server_name stripped then Err TlsServerName
           else if rp_kind p = ''anytls''
           then Ok (AnyTls (rp_server p) (rp_port p) (rp_password p) (rp_sni p) skip)
           else Ok (Trojan (rp_server p) (rp_port p) (rp_password p) (rp_sni p) skip)))"

definition build :: "(string \<Rightarrow> bool) \<Rightarrow> raw_proxy \<Rightarrow> (proxy, proxy_error) result" where
  "build server_name p =
     (if rp_network p \<noteq> None \<and> rp_network p \<noteq> Some ''tcp'' then Err NetworkUnsupported
      else if rp_disable_reuse p \<noteq> None
              \<and> (rp_kind p \<noteq> ''anytls'' \<or> rp_disable_reuse p \<noteq> Some True) then Err DisableReuse
      else and_then (build_obfs p) (\<lambda>obfs.
        if rp_kind p = ''direct'' \<or> rp_kind p = ''reject''
        then Ok \<lparr>p_name = rp_name p, p_kind = (if rp_kind p = ''direct'' then Direct else Reject),
                 p_udp = rp_udp p, p_obfs = None\<rparr>
        else if rp_password p = [] \<or> has_control (rp_password p) then Err PasswordInvalid
        else case target_new (rp_server p) (rp_port p) of
            Err _ \<Rightarrow> Err ServerInvalid
          | Ok _ \<Rightarrow>
              and_then (if rp_kind p = ''ss'' then build_shadowsocks p
                        else if rp_kind p = ''trojan'' \<or> rp_kind p = ''anytls'' then build_tls server_name p
                        else Err ProxyType) (\<lambda>kind.
              Ok \<lparr>p_name = rp_name p, p_kind = kind, p_udp = rp_udp p, p_obfs = obfs\<rparr>)))"

section \<open>What a built node satisfies\<close>

definition server_ok :: "string \<Rightarrow> u16 \<Rightarrow> string \<Rightarrow> bool" where
  "server_ok h p pw \<longleftrightarrow> is_ok (target_new h p) \<and> pw \<noteq> [] \<and> \<not> has_control pw"

text \<open>
  The name the certificate is checked against: the SNI if there is one, else the server.  Unless
  verification is off it is a DNS name and not an address.
\<close>

definition tls_name_ok :: "string \<Rightarrow> string option \<Rightarrow> bool \<Rightarrow> bool" where
  "tls_name_ok server sni skip \<longleftrightarrow>
     (case sni of Some n \<Rightarrow> dns_name n \<and> parse_ip n = None \<and> \<not> ends_with ''.'' n
      | None \<Rightarrow> skip \<or> dns_name server \<and> parse_ip server = None)"

definition obfs_ok :: "string \<Rightarrow> bool" where
  "obfs_ok h \<longleftrightarrow> h \<noteq> [] \<and> length h \<le> 255 \<and> \<not> list_ex (\<lambda>b. code b = 0 \<or> b = CR \<or> b = LF) h"

definition proxy_ok :: "proxy \<Rightarrow> bool" where
  "proxy_ok p \<longleftrightarrow>
     (case p_kind p of
        Direct \<Rightarrow> p_obfs p = None
      | Reject \<Rightarrow> p_obfs p = None
      | Shadowsocks h n pw c \<Rightarrow> server_ok h n pw
          \<and> c \<in> {''aes-128-gcm'', ''aes-256-gcm'', ''chacha20-ietf-poly1305''}
          \<and> (case p_obfs p of None \<Rightarrow> True | Some ob \<Rightarrow> obfs_ok ob)
      | AnyTls h n pw sni skip \<Rightarrow> server_ok h n pw \<and> tls_name_ok h sni skip \<and> p_obfs p = None \<and> \<not> p_udp p
      | Trojan h n pw sni skip \<Rightarrow> server_ok h n pw \<and> tls_name_ok h sni skip \<and> p_obfs p = None)"

lemma build_obfs_Ok:
  "build_obfs p = Ok obfs \<Longrightarrow> (case obfs of None \<Rightarrow> True | Some h \<Rightarrow> rp_kind p = ''ss'' \<and> obfs_ok h)"
  by (simp add: build_obfs_def obfs_ok_def not_less split: option.splits if_splits; force)

lemma ss_cipher_Ok:
  "ss_cipher cipher = Ok c \<Longrightarrow> c \<in> {''aes-128-gcm'', ''aes-256-gcm'', ''chacha20-ietf-poly1305''}"
  unfolding ss_cipher_def by (simp split: option.splits if_splits) 

lemma build_shadowsocks_Ok:
  "build_shadowsocks p = Ok k \<Longrightarrow> \<exists>c. k = Shadowsocks (rp_server p) (rp_port p) (rp_password p) c
     \<and> c \<in> {''aes-128-gcm'', ''aes-256-gcm'', ''chacha20-ietf-poly1305''}"
  unfolding build_shadowsocks_def and_then_Ok_iff by (auto split: if_splits dest!: ss_cipher_Ok simp: and_then_Ok_iff)

lemma check_sni_Ok:
  "check_sni p = Ok u \<Longrightarrow> is_ok (target_new (rp_server p) (rp_port p))
   \<Longrightarrow> tls_name_ok (rp_server p) (rp_sni p) (rp_skip_cert_verify p = Some True)"
  by (auto simp: check_sni_def tls_name_ok_def is_ok_iff target_new_Ok_iff
      split: option.splits if_splits result.splits)

lemma build_tls_Ok:
  assumes "build_tls server_name p = Ok k" "is_ok (target_new (rp_server p) (rp_port p))"
  shows "\<exists>sni skip. tls_name_ok (rp_server p) sni skip
     \<and> (if rp_kind p = ''anytls''
        then \<not> rp_udp p \<and> k = AnyTls (rp_server p) (rp_port p) (rp_password p) sni skip
        else k = Trojan (rp_server p) (rp_port p) (rp_password p) sni skip)"
  using assms check_sni_Ok [of p]
  by (fastforce simp: build_tls_def Let_def and_then_Ok_iff split: if_splits)

lemma build_proxy_ok:
  assumes "build server_name p = Ok q" shows "proxy_ok q \<and> p_name q = rp_name p"
proof -
  obtain obfs where o: "build_obfs p = Ok obfs"
    using assms by (auto simp: build_def and_then_Ok_iff split: if_splits)
  note facts = build_obfs_Ok [OF o]
  show ?thesis
  proof (cases "rp_kind p = ''direct'' \<or> rp_kind p = ''reject''")
    case True
    then show ?thesis using assms o by (auto simp: build_def proxy_ok_def split: if_splits)
  next
    case False
    then obtain k where k: "(if rp_kind p = ''ss'' then build_shadowsocks p
          else if rp_kind p = ''trojan'' \<or> rp_kind p = ''anytls'' then build_tls server_name p
          else Err ProxyType) = Ok k"
      and q: "q = \<lparr>p_name = rp_name p, p_kind = k, p_udp = rp_udp p, p_obfs = obfs\<rparr>"
      and t: "is_ok (target_new (rp_server p) (rp_port p))"
      and pw: "rp_password p \<noteq> []" "\<not> has_control (rp_password p)"
      using assms o
      by (simp add: build_def and_then_Ok_iff split: if_splits result.splits) blast+
    have s: "server_ok (rp_server p) (rp_port p) (rp_password p)" using t pw by (simp add: server_ok_def)
    show ?thesis
    proof (cases "rp_kind p = ''ss''")
      case True
      then show ?thesis using k s facts build_shadowsocks_Ok [of p k]
        by (auto simp: q proxy_ok_def split: option.splits)
    next
      case False
      then have "build_tls server_name p = Ok k" "obfs = None"
        using k facts by (auto split: if_splits option.splits)
      then show ?thesis using s build_tls_Ok [OF _ t, of server_name k]
        by (auto simp: q proxy_ok_def split: if_splits)
    qed
  qed
qed

end
