(* ===== verification/Btree.thy ===== *)
theory Btree
  imports Rust_Std "HOL-Library.List_Lexorder" "HOL-Library.Char_ord"
begin

text \<open>
  \<open>BTreeMap\<close> of the Rust standard library: association lists in strictly ascending key order, with
  \<open>insert\<close>, \<open>remove\<close>, \<open>get\<close>, \<open>len\<close> and \<open>retain\<close>.

  The components use such maps through the two locales of this theory.  \<open>finite_map\<close> is the contract of
  a map; \<open>guarded_map\<close> adds entries that, once frozen, no update may change.  Both are interpreted on
  the sorted lists.
\<close>

section \<open>Sorted association lists\<close>

text \<open>\<open>BTreeMap::insert\<close>.\<close>

fun btree_insert :: "'k :: linorder \<Rightarrow> 'v \<Rightarrow> ('k \<times> 'v) list \<Rightarrow> ('k \<times> 'v) list" where
  "btree_insert k v [] = [(k, v)]"
| "btree_insert k v ((k', v') # kvs) =
     (if k < k' then (k, v) # (k', v') # kvs
      else if k = k' then (k, v) # kvs
      else (k', v') # btree_insert k v kvs)"

lemma set_fst_btree_insert [simp]: "fst ` set (btree_insert k v kvs) = insert k (fst ` set kvs)"
  by (induction k v kvs rule: btree_insert.induct) auto

lemma sorted_btree_insert:
  "sorted_wrt (<) (map fst kvs) \<Longrightarrow> sorted_wrt (<) (map fst (btree_insert k v kvs))"
proof (induction k v kvs rule: btree_insert.induct)
  case (2 k v k' v' kvs)
  have "x \<in> fst ` set (btree_insert k v kvs) \<Longrightarrow> x = k \<or> x \<in> fst ` set kvs" for x by simp
  with 2 show ?case by (auto simp: image_iff)
qed simp

lemma map_of_btree_insert: "map_of (btree_insert k v kvs) = (map_of kvs)(k \<mapsto> v)"
  by (induction k v kvs rule: btree_insert.induct) (auto simp: fun_eq_iff)

lemma sum_btree_insert:
  "k \<notin> fst ` set kvs \<Longrightarrow> sum_list (map f (btree_insert k v kvs)) = f (k, v) + sum_list (map f kvs)"
  for f :: "_ \<Rightarrow> nat"
  by (induction k v kvs rule: btree_insert.induct) auto

lemma set_btree_insert: "set (btree_insert k v kvs) \<subseteq> insert (k, v) (set kvs)"
  by (induction k v kvs rule: btree_insert.induct) auto

fun btree_remove :: "'k :: linorder \<Rightarrow> ('k \<times> 'v) list \<Rightarrow> ('k \<times> 'v) list" where
  "btree_remove k [] = []"
| "btree_remove k ((k', v) # kvs) = (if k = k' then kvs else (k', v) # btree_remove k kvs)"

definition btree_ok :: "('k :: linorder \<times> 'v) list \<Rightarrow> bool" where
  "btree_ok m \<longleftrightarrow> sorted_wrt (<) (map fst m)"

lemma btree_ok_distinct: "btree_ok m \<Longrightarrow> distinct (map fst m)"
  by (simp add: btree_ok_def strict_sorted_iff)

lemma set_btree_remove: "set (btree_remove k m) \<subseteq> set m"
  by (induction k m rule: btree_remove.induct) auto

lemma btree_ok_remove: "btree_ok m \<Longrightarrow> btree_ok (btree_remove k m)"
  unfolding btree_ok_def
proof (induction k m rule: btree_remove.induct)
  case (2 k k' v kvs)
  then show ?case using set_btree_remove [of k kvs] by auto
qed simp

lemma map_of_btree_remove: "btree_ok m \<Longrightarrow> map_of (btree_remove k m) = (map_of m)(k := None)"
  unfolding btree_ok_def
proof (induction k m rule: btree_remove.induct)
  case (2 k k' v kvs)
  have "map_of kvs k' = None" using 2(2) by (auto simp: map_of_eq_None_iff)
  with 2 show ?case by (auto simp: fun_eq_iff)
qed simp

lemma length_btree_remove:
  "btree_ok m \<Longrightarrow> length (btree_remove k m) = (if map_of m k = None then length m else length m - 1)"
  unfolding btree_ok_def
proof (induction k m rule: btree_remove.induct)
  case (2 k k' v kvs)
  then show ?case by (cases kvs) auto
qed simp

lemma length_btree_insert:
  "btree_ok m \<Longrightarrow> length (btree_insert k v m) = (if map_of m k = None then Suc (length m) else length m)"
  unfolding btree_ok_def
proof (induction k v m rule: btree_insert.induct)
  case (2 k v k' v' kvs)
  have "map_of kvs k = None" if "k < k'" using 2(2) that by (auto simp: map_of_eq_None_iff)
  with 2 show ?case by auto
qed simp

lemma btree_ok_insert: "btree_ok m \<Longrightarrow> btree_ok (btree_insert k v m)"
  unfolding btree_ok_def by (rule sorted_btree_insert)

lemma btree_ok_Nil [simp]: "btree_ok []"
  by (simp add: btree_ok_def)

lemma btree_ok_filter: "btree_ok m \<Longrightarrow> btree_ok (filter P m)"
  by (simp add: btree_ok_def sorted_wrt_map sorted_wrt_filter)

lemma map_of_filter_btree:
  "btree_ok m \<Longrightarrow> map_of (filter P m) k = (case map_of m k of None \<Rightarrow> None | Some v \<Rightarrow> if P (k, v) then Some v else None)"
  unfolding btree_ok_def
proof (induction m)
  case (Cons kv m)
  have "map_of m (fst kv) = None" using Cons.prems by (auto simp: map_of_eq_None_iff)
  with Cons show ?case by (cases kv) (auto split: option.splits)
qed simp

section \<open>The contract of a map\<close>

locale finite_map =
  fixes ok :: "'m \<Rightarrow> bool"
    and emp :: 'm
    and get :: "'m \<Rightarrow> 'k \<Rightarrow> 'v option"
    and ins :: "'k \<Rightarrow> 'v \<Rightarrow> 'm \<Rightarrow> 'm"
    and del :: "'k \<Rightarrow> 'm \<Rightarrow> 'm"
    and len :: "'m \<Rightarrow> nat"
  assumes ok_emp: "ok emp"
    and ok_ins: "ok m \<Longrightarrow> ok (ins k v m)"
    and ok_del: "ok m \<Longrightarrow> ok (del k m)"
    and get_emp: "get emp = Map.empty"
    and get_ins: "ok m \<Longrightarrow> get (ins k v m) = (get m)(k \<mapsto> v)"
    and get_del: "ok m \<Longrightarrow> get (del k m) = (get m)(k := None)"
    and len_emp: "len emp = 0"
    and len_ins: "ok m \<Longrightarrow> len (ins k v m) = (if get m k = None then Suc (len m) else len m)"
    and len_del: "ok m \<Longrightarrow> len (del k m) = (if get m k = None then len m else len m - 1)"
begin

text \<open>\<open>get_mut\<close> and a change: replace the value of a key that is present.\<close>

definition modify :: "'k \<Rightarrow> ('v \<Rightarrow> 'v) \<Rightarrow> 'm \<Rightarrow> 'm" where
  "modify k f m = (case get m k of None \<Rightarrow> m | Some v \<Rightarrow> ins k (f v) m)"

lemma ok_modify: "ok m \<Longrightarrow> ok (modify k f m)"
  by (simp add: modify_def ok_ins split: option.splits)

lemma get_modify: "ok m \<Longrightarrow> get (modify k f m) j = (if j = k then map_option f (get m k) else get m j)"
  by (auto simp: modify_def get_ins split: option.splits)

lemma len_modify: "ok m \<Longrightarrow> len (modify k f m) = len m"
  by (simp add: modify_def len_ins split: option.splits)

lemma modify_all:
  assumes "ok m" "\<And>j v. get m j = Some v \<Longrightarrow> Q j v" "\<And>v. get m k = Some v \<Longrightarrow> Q k v \<Longrightarrow> Q k (f v)"
    "get (modify k f m) j = Some v"
  shows "Q j v"
  using assms(4) assms(2,3) by (auto simp: get_modify [OF assms(1)] split: if_splits)

end

text \<open>Entries that an update must not change any more.\<close>

locale guarded_map = finite_map +
  fixes frozen :: "'c \<Rightarrow> bool"
begin

definition guarded :: "'b \<Rightarrow> ('c \<Rightarrow> 'c) \<Rightarrow> 'a \<Rightarrow> 'a" where
  "guarded k f m = (case get m k of None \<Rightarrow> m | Some v \<Rightarrow> if frozen v then m else ins k (f v) m)"

lemma guarded_modify: "guarded k f m = (case get m k of None \<Rightarrow> m | Some v \<Rightarrow> if frozen v then m else modify k f m)"
  by (simp add: guarded_def modify_def split: option.splits)

lemma ok_guarded: "ok m \<Longrightarrow> ok (guarded k f m)"
  by (simp add: guarded_def ok_ins split: option.splits)

lemma get_guarded:
  "ok m \<Longrightarrow> get (guarded k f m) j =
     (if j = k then map_option (\<lambda>v. if frozen v then v else f v) (get m k) else get m j)"
  by (auto simp: guarded_def get_ins split: option.splits)

lemma len_guarded: "ok m \<Longrightarrow> len (guarded k f m) = len m"
  by (simp add: guarded_def len_ins split: option.splits)

text \<open>A frozen entry survives every sequence of updates.\<close>

lemma frozen_stays:
  "ok m \<Longrightarrow> get m k = Some v \<Longrightarrow> frozen v \<Longrightarrow> get (fold (\<lambda>(j, f). guarded j f) us m) k = Some v"
proof (induction us arbitrary: m)
  case (Cons u us)
  obtain j f where u: "u = (j, f)" by (cases u)
  have "get (guarded j f m) k = Some v" using Cons.prems by (auto simp: get_guarded)
  then show ?case using Cons.IH [of "guarded j f m"] Cons.prems u by (simp add: ok_guarded)
qed simp

end

interpretation btree: finite_map btree_ok "[]" map_of btree_insert btree_remove length
  by unfold_locales
     (simp_all add: btree_ok_insert btree_ok_remove map_of_btree_insert map_of_btree_remove
       length_btree_insert length_btree_remove)

end
