(* ===== verification/Config_Document.thy ===== *)
theory Config_Document
  imports Config_Groups Btree
begin

text \<open>
  Documents (\<open>src/src/config_provider.rs\<close>): the JSON values of \<open>serde_json\<close>, the bounded visitor
  \<open>ValueSeed\<close> that builds one from parser events, \<open>yaml_value\<close> and \<open>parse_document\<close>.

  The JSON and YAML parsers themselves are not part of the repository.  What they deliver to the
  visitor is a \<open>raw\<close> tree; the record \<open>parsers\<close> holds the two functions from text to such trees and is
  an argument.  The lemmas show that every document the visitor accepts respects the entry and depth
  budgets and holds no duplicate or merge key.
\<close>

section \<open>Values\<close>

text \<open>
  Objects are \<open>BTreeMap\<close>s: association lists in ascending key order.  A floating-point number is its
  64 bits.
\<close>

datatype json =
    JNull
  | JBool bool
  | JInt int
  | JFloat u64
  | JStr string
  | JArr "json list"
  | JObj "(string \<times> json) list"

fun as_array :: "json \<Rightarrow> json list option" where
  "as_array (JArr vs) = Some vs"
| "as_array _ = None"

fun as_object :: "json \<Rightarrow> (string \<times> json) list option" where
  "as_object (JObj kvs) = Some kvs"
| "as_object _ = None"

fun as_str :: "json \<Rightarrow> string option" where
  "as_str (JStr s) = Some s"
| "as_str _ = None"

fun as_u64 :: "json \<Rightarrow> nat option" where
  "as_u64 (JInt i) = (if 0 \<le> i \<and> i < 2 ^ 64 then Some (nat i) else None)"
| "as_u64 _ = None"

fun as_i64 :: "json \<Rightarrow> int option" where
  "as_i64 (JInt i) = (if - (2 ^ 63) \<le> i \<and> i < 2 ^ 63 then Some i else None)"
| "as_i64 _ = None"

fun is_boolean :: "json \<Rightarrow> bool" where
  "is_boolean (JBool _) = True"
| "is_boolean _ = False"

abbreviation is_string :: "json \<Rightarrow> bool" where "is_string v \<equiv> as_str v \<noteq> None"
abbreviation is_array :: "json \<Rightarrow> bool" where "is_array v \<equiv> as_array v \<noteq> None"
abbreviation is_object :: "json \<Rightarrow> bool" where "is_object v \<equiv> as_object v \<noteq> None"

text \<open>\<open>Value::get\<close>; indexing a value with a missing key gives null.\<close>

definition json_get :: "string \<Rightarrow> json \<Rightarrow> json option" where
  "json_get k v = Option.bind (as_object v) (\<lambda>kvs. map_of kvs k)"

definition json_index :: "json \<Rightarrow> string \<Rightarrow> json" where
  "json_index v k = (case json_get k v of Some x \<Rightarrow> x | None \<Rightarrow> JNull)"

section \<open>The visitor\<close>

definition MAX_SOURCE_BYTES :: nat where "MAX_SOURCE_BYTES = 16 * 1024 * 1024"
definition MAX_DOCUMENT_DEPTH :: nat where "MAX_DOCUMENT_DEPTH = 129"
definition MAX_COLLECTION_ENTRIES :: nat where "MAX_COLLECTION_ENTRIES = 262144"

datatype raw =
    RNull
  | RBool bool
  | RInt int
  | RFloat u64
  | RStr string
  | RSeq "raw list"
  | RMap "(string \<times> raw) list"

datatype doc_error =
    EntryLimit
  | ResourceLimit
  | NonFinite
  | DuplicateOrMerge
  | YamlInvalid
  | SourceLimit
  | NotAMapping

definition charge :: "nat \<Rightarrow> (nat, doc_error) result" where
  "charge remaining = (if remaining = 0 then Err EntryLimit else Ok (remaining - 1))"

text \<open>An IEEE 754 double is finite unless its exponent bits are all set.\<close>

definition f64_finite :: "u64 \<Rightarrow> bool" where
  "f64_finite bits \<longleftrightarrow> (unat bits div 2 ^ 52) mod 2 ^ 11 \<noteq> 2047"

function (sequential) visit :: "nat \<Rightarrow> raw \<Rightarrow> nat \<Rightarrow> (json \<times> nat, doc_error) result"
  and visit_seq :: "nat \<Rightarrow> raw list \<Rightarrow> nat \<Rightarrow> (json list \<times> nat, doc_error) result"
  and visit_map :: "nat \<Rightarrow> (string \<times> raw) list \<Rightarrow> (string \<times> json) list \<Rightarrow> nat
    \<Rightarrow> ((string \<times> json) list \<times> nat, doc_error) result"
where
  "visit depth RNull remaining = Ok (JNull, remaining)"
| "visit depth (RBool b) remaining = Ok (JBool b, remaining)"
| "visit depth (RInt i) remaining = Ok (JInt i, remaining)"
| "visit depth (RFloat f) remaining = (if f64_finite f then Ok (JFloat f, remaining) else Err NonFinite)"
| "visit depth (RStr s) remaining = Ok (JStr s, remaining)"
| "visit depth (RSeq items) remaining =
     (if MAX_DOCUMENT_DEPTH \<le> depth then Err ResourceLimit
      else and_then (visit_seq (depth + 1) items remaining) (\<lambda>(vs, r). Ok (JArr vs, r)))"
| "visit depth (RMap kvs) remaining =
     (if MAX_DOCUMENT_DEPTH \<le> depth then Err ResourceLimit
      else and_then (visit_map (depth + 1) kvs [] remaining) (\<lambda>(es, r). Ok (JObj es, r)))"
| "visit_seq depth [] remaining = Ok ([], remaining)"
| "visit_seq depth (item # items) remaining =
     and_then (charge remaining) (\<lambda>r.
     and_then (visit depth item r) (\<lambda>(v, r).
     and_then (visit_seq depth items r) (\<lambda>(vs, r). Ok (v # vs, r))))"
| "visit_map depth [] entries remaining = Ok (entries, remaining)"
| "visit_map depth ((key, value) # kvs) entries remaining =
     and_then (charge remaining) (\<lambda>r.
     if key = ''<<'' \<or> key \<in> fst ` set entries then Err DuplicateOrMerge
     else and_then (visit depth value r) (\<lambda>(v, r).
          visit_map depth kvs (btree_insert key v entries) r))"
  by pat_completeness auto

termination
  by (relation "measure (\<lambda>x. case x of Inl (d, v, r) \<Rightarrow> size v
      | Inr (Inl (d, vs, r)) \<Rightarrow> size_list size vs
      | Inr (Inr (d, kvs, es, r)) \<Rightarrow> size_list (size_prod (\<lambda>_. 0) size) kvs)") auto

definition visit_document :: "raw \<Rightarrow> (json, doc_error) result" where
  "visit_document v = and_then (visit 0 v MAX_COLLECTION_ENTRIES) (\<lambda>(j, _). Ok j)"

section \<open>Reading a document\<close>

record parsers =
  json_stream :: "string \<Rightarrow> raw option"
  yaml_stream :: "string \<Rightarrow> (raw list, doc_error) result"

primrec exact_json_scalars :: "json \<Rightarrow> bool" where
  "exact_json_scalars JNull = True"
| "exact_json_scalars (JBool _) = True"
| "exact_json_scalars (JInt i) = (- (2 ^ 63) \<le> i \<and> i < 2 ^ 63)"
| "exact_json_scalars (JFloat _) = False"
| "exact_json_scalars (JStr _) = True"
| "exact_json_scalars (JArr vs) = list_all id (map exact_json_scalars vs)"
| "exact_json_scalars (JObj kvs) = list_all snd (map (map_prod id exact_json_scalars) kvs)"

text \<open>
  \<open>yaml_value_inner\<close>: every document of the stream goes through the visitor; the last one is the value,
  null if there is none.
\<close>

definition yaml_value_inner :: "parsers \<Rightarrow> string \<Rightarrow> (json, doc_error) result" where
  "yaml_value_inner P source =
     and_then (yaml_stream P source) (\<lambda>raws.
     and_then (result_map visit_document raws) (\<lambda>docs.
     Ok (if docs = [] then JNull else last docs)))"

definition json_fast_path :: "parsers \<Rightarrow> string \<Rightarrow> json option" where
  "json_fast_path P source =
     (if is_ascii source \<and> CHR 0x7F \<notin> set source
         \<and> (starts_with ''{'' (trim_start source) \<or> starts_with ''['' (trim_start source))
      then case json_stream P source of
          None \<Rightarrow> None
        | Some raw \<Rightarrow> (case visit_document raw of
              Ok v \<Rightarrow> if exact_json_scalars v then Some v else None
            | Err _ \<Rightarrow> None)
      else None)"

definition yaml_value :: "parsers \<Rightarrow> string \<Rightarrow> (json, doc_error) result" where
  "yaml_value P source =
     (if MAX_SOURCE_BYTES < length source then Err SourceLimit
      else case json_fast_path P source of
          Some v \<Rightarrow> Ok v
        | None \<Rightarrow> yaml_value_inner P source)"

definition parse_document :: "parsers \<Rightarrow> string \<Rightarrow> (json, doc_error) result" where
  "parse_document P source =
     and_then (yaml_value P source) (\<lambda>v.
     if as_object v = None then Err NotAMapping else Ok v)"

section \<open>Budgets\<close>

primrec json_entries :: "json \<Rightarrow> nat" where
  "json_entries JNull = 0"
| "json_entries (JBool _) = 0"
| "json_entries (JInt _) = 0"
| "json_entries (JFloat _) = 0"
| "json_entries (JStr _) = 0"
| "json_entries (JArr vs) = sum_list (map Suc (map json_entries vs))"
| "json_entries (JObj kvs) = sum_list (map (\<lambda>kv. Suc (snd kv)) (map (map_prod id json_entries) kvs))"

primrec json_depth :: "json \<Rightarrow> nat" where
  "json_depth JNull = 0"
| "json_depth (JBool _) = 0"
| "json_depth (JInt _) = 0"
| "json_depth (JFloat _) = 0"
| "json_depth (JStr _) = 0"
| "json_depth (JArr vs) = Suc (foldr max (map json_depth vs) 0)"
| "json_depth (JObj kvs) = Suc (foldr (\<lambda>kv. max (snd kv)) (map (map_prod id json_depth) kvs) 0)"

text \<open>Every object has strictly ascending keys, none of them the merge key; numbers are finite.\<close>

primrec json_ok :: "json \<Rightarrow> bool" where
  "json_ok JNull = True"
| "json_ok (JBool _) = True"
| "json_ok (JInt _) = True"
| "json_ok (JFloat f) = f64_finite f"
| "json_ok (JStr _) = True"
| "json_ok (JArr vs) = list_all id (map json_ok vs)"
| "json_ok (JObj kvs) = (sorted_wrt (<) (map fst kvs) \<and> ''<<'' \<notin> fst ` set kvs
     \<and> list_all snd (map (map_prod id json_ok) kvs))"

definition bounded :: "nat \<Rightarrow> json \<Rightarrow> bool" where
  "bounded d j \<longleftrightarrow> json_ok j \<and> d + json_depth j \<le> MAX_DOCUMENT_DEPTH"

lemma foldr_max_le: "foldr max xs (0::nat) \<le> m \<longleftrightarrow> (\<forall>x\<in>set xs. x \<le> m)"
  by (induction xs) auto

lemma foldr_max_snd_le: "foldr (\<lambda>kv. max (snd kv)) xs (0::nat) \<le> m \<longleftrightarrow> (\<forall>x\<in>set xs. snd x \<le> m)"
  by (induction xs) auto

lemma charge_Ok [result_simps]: "charge r = Ok r' \<longleftrightarrow> r = Suc r'"
  by (auto simp: charge_def)

lemma add_Suc_le_iff: "d + Suc n \<le> m \<longleftrightarrow> d < m \<and> n \<le> m - Suc d"
  for d n m :: nat by auto

lemma bounded_JArr:
  "d < MAX_DOCUMENT_DEPTH \<Longrightarrow> bounded d (JArr vs) \<longleftrightarrow> (\<forall>v\<in>set vs. bounded (Suc d) v)"
  unfolding bounded_def
  by (auto simp: list_all_iff add_Suc_le_iff foldr_max_le simp del: add_Suc_right)

lemma bounded_JObj:
  "d < MAX_DOCUMENT_DEPTH \<Longrightarrow> bounded d (JObj es) \<longleftrightarrow>
     sorted_wrt (<) (map fst es) \<and> ''<<'' \<notin> fst ` set es \<and> (\<forall>kv\<in>set es. bounded (Suc d) (snd kv))"
  unfolding bounded_def
  by (auto simp: list_all_iff add_Suc_le_iff foldr_max_snd_le simp del: add_Suc_right)

text \<open>
  What the visitor builds: an entry is charged for each item, the depth stays within the limit, and
  the objects have distinct keys.
\<close>

lemma visit_bounded:
  "visit d v r = Ok (j, r') \<Longrightarrow> d \<le> MAX_DOCUMENT_DEPTH \<Longrightarrow> json_entries j + r' = r \<and> bounded d j"
  "visit_seq (Suc d) vs r = Ok (js, r') \<Longrightarrow> d < MAX_DOCUMENT_DEPTH \<Longrightarrow>
     json_entries (JArr js) + r' = r \<and> bounded d (JArr js)"
  "visit_map (Suc d) kvs es r = Ok (es', r') \<Longrightarrow> d < MAX_DOCUMENT_DEPTH \<Longrightarrow> bounded d (JObj es) \<Longrightarrow>
     json_entries (JObj es') + r' = r + json_entries (JObj es) \<and> bounded d (JObj es')"
proof (induction d v r and "Suc d" vs r and "Suc d" kvs es r
    arbitrary: j r' and d js r' and d es' r' rule: visit_visit_seq_visit_map.induct)
  case (6 depth items remaining)
  then show ?case by (auto simp: and_then_Ok_iff split: if_splits)
next
  case (7 depth kvs remaining)
  have "bounded depth (JObj [])" if "depth < MAX_DOCUMENT_DEPTH" using that by (simp add: bounded_JObj)
  with 7 show ?case by (auto simp: and_then_Ok_iff not_le split: if_splits)
next
  case (9 item items remaining)
  from 9(3) obtain r1 v r2 vs where r: "remaining = Suc r1" "visit (Suc d) item r1 = Ok (v, r2)"
      "visit_seq (Suc d) items r2 = Ok (vs, r')" "js = v # vs"
    by (auto simp: result_simps)
  show ?case
    using 9(1) [OF r(2)] 9(2) [OF r(3)] 9(4) r by (simp add: bounded_JArr)
next
  case (11 key "value" kvs entries remaining)
  from 11(3) obtain r1 v r2 where r: "remaining = Suc r1" "key \<noteq> ''<<''" "key \<notin> fst ` set entries"
      "visit (Suc d) value r1 = Ok (v, r2)"
      "visit_map (Suc d) kvs (btree_insert key v entries) r2 = Ok (es', r')"
    by (auto simp: result_simps split: if_splits)
  have v: "json_entries v + r2 = r1" "bounded (Suc d) v"
    using 11(1) [of r1 v r2] 11(4) r by simp_all
  have "bounded d (JObj (btree_insert key v entries))"
    using 11(4,5) v r set_btree_insert [of key v entries]
    by (auto simp: bounded_JObj sorted_btree_insert)
  then have "json_entries (JObj es') + r' = r2 + json_entries (JObj (btree_insert key v entries))
      \<and> bounded d (JObj es')"
    using 11(2) [of v r2 es' r'] 11(4) r by simp
  then show ?case using r v(1) by (simp add: sum_btree_insert comp_def)
qed (auto simp: bounded_def split: if_splits)

definition document_ok :: "json \<Rightarrow> bool" where
  "document_ok j \<longleftrightarrow> json_ok j \<and> json_depth j \<le> MAX_DOCUMENT_DEPTH \<and> json_entries j \<le> MAX_COLLECTION_ENTRIES"

lemma visit_document_ok: "visit_document v = Ok j \<Longrightarrow> document_ok j"
  by (auto simp: visit_document_def and_then_Ok_iff document_ok_def bounded_def dest!: visit_bounded(1))

lemma document_ok_JNull: "document_ok JNull"
  by (simp add: document_ok_def)

lemma yaml_value_inner_ok: "yaml_value_inner P source = Ok j \<Longrightarrow> document_ok j"
proof -
  assume a: "yaml_value_inner P source = Ok j"
  then obtain raws docs where d: "list_all2 (\<lambda>r d. visit_document r = Ok d) raws docs"
      and j: "j = (if docs = [] then JNull else last docs)"
    by (auto simp: yaml_value_inner_def result_simps)
  have "\<forall>d\<in>set docs. document_ok d"
    using d by (induction rule: list_all2_induct) (simp_all add: visit_document_ok)
  then show ?thesis using j by (simp add: document_ok_JNull)
qed

lemma json_fast_path_ok: "json_fast_path P source = Some j \<Longrightarrow> document_ok j"
  by (auto simp: json_fast_path_def visit_document_ok split: if_splits option.splits result.splits)

lemma yaml_value_ok: "yaml_value P source = Ok j \<Longrightarrow> document_ok j \<and> length source \<le> MAX_SOURCE_BYTES"
  by (auto simp: yaml_value_def yaml_value_inner_ok json_fast_path_ok split: if_splits option.splits)

lemma parse_document_ok:
  "parse_document P source = Ok j \<Longrightarrow>
     document_ok j \<and> length source \<le> MAX_SOURCE_BYTES \<and> (\<exists>kvs. j = JObj kvs)"
  by (cases j) (auto simp: parse_document_def and_then_Ok_iff yaml_value_ok split: if_splits)

lemma document_keys_distinct: "document_ok (JObj kvs) \<Longrightarrow> distinct (map fst kvs)"
  by (auto simp: document_ok_def strict_sorted_iff)

end
