(* ===== verification/Config_Provider.thy ===== *)
theory Config_Provider
  imports Config_Document
begin

text \<open>
  Rule providers (\<open>src/src/config_provider.rs\<close>): declarations and their validation, the budgets, the
  line and document formats (\<open>entries\<close>), the rule a provider entry stands for (\<open>provider_rule\<close>), the
  expansion of \<open>RULE-SET\<close> rules into a flat rule list (\<open>expand\<close>), the declaration check
  (\<open>validate_rule_declarations\<close>) and the byte budget of downloads.

  The URL parser is not part of the repository: \<open>url_parse\<close> gives the scheme of a URL and whether it has
  a host.  Rust maps with ordered keys are association lists in iteration order.
\<close>

section \<open>Declarations and budgets\<close>

definition MAX_RULES :: nat where "MAX_RULES = 262144"
definition MAX_PROVIDERS :: nat where "MAX_PROVIDERS = 4096"
definition MAX_AGGREGATE_BYTES :: nat where "MAX_AGGREGATE_BYTES = 64 * 1024 * 1024"

record provider =
  pv_kind :: string
  pv_behavior :: string
  pv_path :: string
  pv_url :: "string option"
  pv_interval :: u32

datatype provider_error =
    ProviderCount
  | ProviderName
  | ProviderDeclaration
  | ProviderUrlMissing
  | ProviderUrlInvalid
  | ProviderUrlScheme
  | AssetCount
  | AssetBytes
  | AggregateBytes
  | EntryCount
  | NormalizedBytes
  | AssetMissing
  | NotUtf8
  | EntriesDocument doc_error
  | PayloadMissing
  | PayloadString
  | RecursiveRuleSet
  | PayloadRequired
  | ClassicalOption
  | BehaviorPanic
  | RuleInvalid rule_error
  | RuleSetInvalid
  | RuleSetUnknown
  | RuleSetTarget
  | ExpandedCount
  | ExpandedBytes
  | FinalMatch
  | DownloadBytes
  | DownloadFailed
  | DuplicatePath

type_synonym assets = "(string \<times> bytes) list"

fun lift_err :: "('e \<Rightarrow> 'f) \<Rightarrow> ('a, 'e) result \<Rightarrow> ('a, 'f) result" where
  "lift_err f (Ok x) = Ok x"
| "lift_err f (Err e) = Err (f e)"

lemma lift_err_Ok_iff [result_simps]: "lift_err f r = Ok x \<longleftrightarrow> r = Ok x"
  by (cases r) auto

lemma lift_err_Err_iff [result_simps]: "lift_err f r = Err e \<longleftrightarrow> (\<exists>e'. r = Err e' \<and> e = f e')"
  by (cases r) auto

definition validate_provider ::
  "(string \<Rightarrow> (string \<times> bool) option) \<Rightarrow> string \<times> provider \<Rightarrow> (unit, provider_error) result" where
  "validate_provider url_parse = (\<lambda>(name, pv).
     and_then (lift_err (\<lambda>_. ProviderName) (validate_name name)) (\<lambda>_.
     if pv_kind pv \<notin> {''file'', ''http''}
        \<or> pv_behavior pv \<notin> {''classical'', ''domain'', ''ipcidr''}
        \<or> pv_path pv = [] \<or> CHR 0x00 \<in> set (pv_path pv) \<or> pv_interval pv = 0
     then Err ProviderDeclaration
     else if pv_kind pv = ''http'' \<and> pv_url pv = None then Err ProviderUrlMissing
     else case pv_url pv of
         None \<Rightarrow> Ok ()
       | Some url \<Rightarrow> (case url_parse url of
             None \<Rightarrow> Err ProviderUrlInvalid
           | Some (scheme, has_host) \<Rightarrow>
               if scheme \<notin> {''http'', ''https''} \<or> \<not> has_host then Err ProviderUrlScheme
               else Ok ())))"

definition validate ::
  "(string \<Rightarrow> (string \<times> bool) option) \<Rightarrow> (string \<times> provider) list \<Rightarrow> (unit, provider_error) result" where
  "validate url_parse providers =
     (if MAX_PROVIDERS < length providers then Err ProviderCount
      else and_then (result_map (validate_provider url_parse) providers) (\<lambda>_. Ok ()))"

text \<open>\<open>checked_add\<close> on \<open>usize\<close>, then the limit.\<close>

definition add_budget :: "nat \<Rightarrow> nat \<Rightarrow> nat \<Rightarrow> provider_error \<Rightarrow> (nat, provider_error) result" where
  "add_budget tot amount limit e =
     (if tot + amount < 2 ^ 64 \<and> tot + amount \<le> limit then Ok (tot + amount) else Err e)"

fun asset_total :: "nat \<Rightarrow> bytes list \<Rightarrow> (nat, provider_error) result" where
  "asset_total tot [] = Ok tot"
| "asset_total tot (bs # rest) =
     (if MAX_SOURCE_BYTES < length bs then Err AssetBytes
      else and_then (add_budget tot (length bs) MAX_AGGREGATE_BYTES AggregateBytes)
             (\<lambda>tot. asset_total tot rest))"

definition asset_budget :: "assets \<Rightarrow> (unit, provider_error) result" where
  "asset_budget assets =
     (if MAX_PROVIDERS < length assets then Err AssetCount
      else and_then (asset_total 0 (map snd assets)) (\<lambda>_. Ok ()))"

section \<open>Entries\<close>

definition byte_order_mark :: string where
  "byte_order_mark = [CHR 0xEF, CHR 0xBB, CHR 0xBF]"

definition classical_kinds :: "string list" where
  "classical_kinds = [''DOMAIN'', ''DOMAIN-SUFFIX'', ''DOMAIN-KEYWORD'', ''IP-CIDR'', ''IP-CIDR6'',
     ''GEOIP'', ''RULE-SET'', ''SRC-IP-CIDR'', ''SRC-PORT'', ''DST-PORT'', ''PROCESS-NAME'', ''MATCH'']"

definition first_line :: "string \<Rightarrow> string" where
  "first_line source =
     (case find (\<lambda>l. l \<noteq> [] \<and> \<not> starts_with ''#'' l) (map trim (lines source)) of
        Some l \<Rightarrow> l | None \<Rightarrow> [])"

definition raw_classical :: "string \<Rightarrow> string \<Rightarrow> bool" where
  "raw_classical behavior first \<longleftrightarrow> behavior = ''classical''
     \<and> (case split_once (CHR '','') first of
          None \<Rightarrow> False | Some (kind, _) \<Rightarrow> trim kind \<in> set classical_kinds)"

fun colon_blank :: "string \<Rightarrow> bool" where
  "colon_blank (a # b # s) \<longleftrightarrow> a = CHR '':'' \<and> is_ascii_whitespace b \<or> colon_blank (b # s)"
| "colon_blank _ \<longleftrightarrow> False"

definition structured :: "string \<Rightarrow> string \<Rightarrow> bool" where
  "structured source first \<longleftrightarrow>
     list_ex (\<lambda>c. starts_with [c] first) ''{[-!&*''
     \<or> list_ex (\<lambda>l. trim l = ''...'' \<or> colon_blank l \<or> ends_with '':'' (trim_end l)) (lines source)"

text \<open>One line of a plain list: blank lines and comments give nothing, quotes are removed.\<close>

definition is_line_pad :: "char \<Rightarrow> bool" where
  "is_line_pad c \<longleftrightarrow> is_space_tab c \<or> c = CR"

definition list_line :: "string \<Rightarrow> string option" where
  "list_line line =
     (let l = trim_matches is_line_pad line
      in if l = [] \<or> starts_with ''#'' l then None
         else if 2 \<le> length l \<and> ((starts_with [CHR 0x22] l \<and> ends_with [CHR 0x22] l)
                \<or> (starts_with [CHR 0x27] l \<and> ends_with [CHR 0x27] l))
         then Some (butlast (tl l)) else Some l)"

fun list_entries :: "string list \<Rightarrow> nat \<Rightarrow> (string list, provider_error) result" where
  "list_entries [] n = Ok []"
| "list_entries (line # ls) n = (case list_line line of
       None \<Rightarrow> list_entries ls n
     | Some l \<Rightarrow> if n = MAX_RULES then Err EntryCount
                 else and_then (list_entries ls (Suc n)) (\<lambda>es. Ok (l # es)))"

definition document_entries :: "parsers \<Rightarrow> string \<Rightarrow> (string list, provider_error) result" where
  "document_entries P source =
     and_then (lift_err EntriesDocument (yaml_value P source)) (\<lambda>v.
     and_then (ok_or PayloadMissing
         (Option.bind (as_object v) (\<lambda>m. Option.bind (map_of m ''payload'') as_array))) (\<lambda>payload.
     result_map (\<lambda>v. ok_or PayloadString (as_str v)) payload))"

definition entries :: "parsers \<Rightarrow> string \<Rightarrow> string \<Rightarrow> (string list, provider_error) result" where
  "entries P source behavior =
     (let source = (case strip_prefix byte_order_mark source of Some s \<Rightarrow> s | None \<Rightarrow> source);
          first = first_line source
      in if \<not> raw_classical behavior first \<and> structured source first then document_entries P source
         else list_entries (lines source) 0)"

section \<open>Provider rules\<close>

text \<open>\<open>or_else\<close> over the prefixes, then \<open>unwrap_or\<close>.\<close>

fun strip_first :: "string list \<Rightarrow> string \<Rightarrow> string" where
  "strip_first [] s = s"
| "strip_first (p # ps) s = (case strip_prefix p s of Some r \<Rightarrow> r | None \<Rightarrow> strip_first ps s)"

fun inherit_matcher :: "'net matcher \<Rightarrow> 'net matcher" where
  "inherit_matcher (Ip n _) = Ip n True"
| "inherit_matcher (GeoIp c _) = GeoIp c True"
| "inherit_matcher m = m"

definition inherit_no_resolve :: "'net rule \<Rightarrow> 'net rule" where
  "inherit_no_resolve r = r\<lparr>r_matcher := inherit_matcher (r_matcher r)\<rparr>"

fun classical_options :: "string list \<Rightarrow> bool \<Rightarrow> (bool, provider_error) result" where
  "classical_options [] no_resolve = Ok no_resolve"
| "classical_options (opt # opts) no_resolve =
     (if opt = ''no-resolve'' then classical_options opts True
      else if opt = [] then classical_options opts no_resolve
      else Err ClassicalOption)"

text \<open>The text of the rule an entry stands for, always with target \<open>DIRECT\<close>, and its option.\<close>

definition classical_source :: "string \<Rightarrow> (string \<times> bool, provider_error) result" where
  "classical_source entry =
     (case map (trim_matches is_space_tab) (split_char (CHR '','') entry) of
        [] \<Rightarrow> Err PayloadRequired
      | kind # rest \<Rightarrow>
          if kind = ''RULE-SET'' then Err RecursiveRuleSet
          else if kind = ''MATCH''
          then and_then (classical_options rest False) (\<lambda>nr. Ok (''MATCH,DIRECT'', nr))
          else (case rest of
              [] \<Rightarrow> Err PayloadRequired
            | payload # opts \<Rightarrow> and_then (classical_options opts False) (\<lambda>nr.
                Ok (kind @ '','' @ payload @ '',DIRECT'', nr))))"

definition provider_source :: "string \<Rightarrow> string \<Rightarrow> (string \<times> bool, provider_error) result" where
  "provider_source entry behavior =
     (let entry = trim_matches is_line_pad entry
      in if behavior = ''domain''
         then Ok (''DOMAIN-SUFFIX,''
                @ trim (strip_first [''DOMAIN-SUFFIX,'', ''DOMAIN,'', ''+.'', ''.''] entry) @ '',DIRECT'', False)
         else if behavior = ''ipcidr''
         then let cidr = trim (strip_first [''IP-CIDR,'', ''IP-CIDR6,''] entry)
              in Ok ((if CHR '':'' \<in> set cidr then ''IP-CIDR6'' else ''IP-CIDR'') @ '','' @ cidr @ '',DIRECT'',
                     False)
         else if behavior = ''classical'' then classical_source entry
         else Err BehaviorPanic)"

definition provider_rule ::
  "'net ipnet \<Rightarrow> string \<Rightarrow> string \<Rightarrow> (string \<rightharpoonup> nat) \<Rightarrow> ('net rule, provider_error) result" where
  "provider_rule N entry behavior names =
     and_then (provider_source entry behavior) (\<lambda>(source, no_resolve).
     and_then (lift_err RuleInvalid (rule_parse N source names)) (\<lambda>rule.
     Ok (if no_resolve then inherit_no_resolve rule else rule)))"

section \<open>Expansion\<close>

text \<open>The inner loop over the entries of one provider: its rules, and the bytes of its entries.\<close>

fun entry_rules ::
  "'net ipnet \<Rightarrow> string \<Rightarrow> (string \<rightharpoonup> nat) \<Rightarrow> string list \<Rightarrow> nat \<Rightarrow> nat
   \<Rightarrow> ('net rule list \<times> nat \<times> nat, provider_error) result" where
  "entry_rules N behavior names [] normalized_bytes entry_bytes = Ok ([], normalized_bytes, entry_bytes)"
| "entry_rules N behavior names (e # es) normalized_bytes entry_bytes =
     and_then (add_budget normalized_bytes (length e) MAX_AGGREGATE_BYTES NormalizedBytes) (\<lambda>nb.
     and_then (provider_rule N e behavior names) (\<lambda>r.
     and_then (entry_rules N behavior names es nb (entry_bytes + length e)) (\<lambda>(rs, nb, eb).
     Ok (r # rs, nb, eb))))"

type_synonym 'net templates = "(string \<times> ('net rule list \<times> nat)) list"

fun load_templates ::
  "'net ipnet \<Rightarrow> parsers \<Rightarrow> assets \<Rightarrow> (string \<rightharpoonup> nat) \<Rightarrow> (string \<times> provider) list
   \<Rightarrow> nat \<Rightarrow> nat \<Rightarrow> nat \<Rightarrow> ('net templates, provider_error) result" where
  "load_templates N P assets names [] raw_bytes normalized_count normalized_bytes = Ok []"
| "load_templates N P assets names ((name, pv) # pvs) raw_bytes normalized_count normalized_bytes =
     and_then (ok_or AssetMissing (map_of assets (pv_path pv))) (\<lambda>bs.
     and_then (add_budget raw_bytes (length bs) MAX_AGGREGATE_BYTES AggregateBytes) (\<lambda>raw_bytes.
     and_then (ok_or NotUtf8 (from_utf8 bs)) (\<lambda>source.
     and_then (entries P source (pv_behavior pv)) (\<lambda>es.
     and_then (add_budget normalized_count (length es) MAX_RULES EntryCount) (\<lambda>normalized_count.
     and_then (entry_rules N (pv_behavior pv) names es normalized_bytes 0) (\<lambda>(rs, normalized_bytes, eb).
     and_then (load_templates N P assets names pvs raw_bytes normalized_count normalized_bytes) (\<lambda>ts.
     Ok ((name, rs, eb) # ts))))))))"

datatype 'net planned =
    PlannedRule "'net rule"
  | PlannedProvider "'net rule list" nat bool

text \<open>The fields of a \<open>RULE-SET\<close> rule: provider, target, option.\<close>

definition rule_set_fields :: "string list \<Rightarrow> (string \<times> string \<times> bool) option" where
  "rule_set_fields fs = (case fs of
       [_, name, target] \<Rightarrow> Some (name, target, False)
     | [_, name, target, flag] \<Rightarrow> if flag = ''no-resolve'' then Some (name, target, True) else None
     | _ \<Rightarrow> None)"

definition plan_rule_set ::
  "'net templates \<Rightarrow> (string \<rightharpoonup> nat) \<Rightarrow> string list \<Rightarrow> nat \<Rightarrow> nat
   \<Rightarrow> ('net planned \<times> nat \<times> nat, provider_error) result" where
  "plan_rule_set templates names fs count bytes =
     and_then (ok_or RuleSetInvalid (rule_set_fields fs)) (\<lambda>(name, target, no_resolve).
     and_then (ok_or RuleSetUnknown (map_of templates name)) (\<lambda>(rs, entry_bytes).
     and_then (ok_or RuleSetTarget (names target)) (\<lambda>proxy.
     and_then (add_budget count (length rs) MAX_RULES ExpandedCount) (\<lambda>count.
     and_then (if length target * length rs < 2 ^ 64 then Ok (length target * length rs)
               else Err ExpandedBytes) (\<lambda>target_bytes.
     and_then (add_budget bytes target_bytes MAX_AGGREGATE_BYTES ExpandedBytes) (\<lambda>bytes.
     and_then (add_budget bytes entry_bytes MAX_AGGREGATE_BYTES ExpandedBytes) (\<lambda>bytes.
     Ok (PlannedProvider rs proxy no_resolve, count, bytes))))))))"

definition plan_rule ::
  "'net ipnet \<Rightarrow> (string \<rightharpoonup> nat) \<Rightarrow> string \<Rightarrow> nat \<Rightarrow> nat
   \<Rightarrow> ('net planned \<times> nat \<times> nat, provider_error) result" where
  "plan_rule N names source count bytes =
     and_then (lift_err RuleInvalid (rule_parse N source names)) (\<lambda>rule.
     and_then (add_budget count 1 MAX_RULES ExpandedCount) (\<lambda>count.
     let fs = rule_fields source;
         target = (if fs ! 0 = ''MATCH'' then fs ! 1 else fs ! 2)
     in and_then (add_budget bytes (length (r_payload rule) + length target) MAX_AGGREGATE_BYTES
                    ExpandedBytes) (\<lambda>bytes.
        Ok (PlannedRule rule, count, bytes))))"

definition plan_source ::
  "'net ipnet \<Rightarrow> 'net templates \<Rightarrow> (string \<rightharpoonup> nat) \<Rightarrow> string \<Rightarrow> nat \<Rightarrow> nat
   \<Rightarrow> ('net planned \<times> nat \<times> nat, provider_error) result" where
  "plan_source N templates names source count bytes =
     (if rule_fields source \<noteq> [] \<and> rule_fields source ! 0 = ''RULE-SET''
      then plan_rule_set templates names (rule_fields source) count bytes
      else plan_rule N names source count bytes)"

fun plan_sources ::
  "'net ipnet \<Rightarrow> 'net templates \<Rightarrow> (string \<rightharpoonup> nat) \<Rightarrow> string list \<Rightarrow> nat \<Rightarrow> nat
   \<Rightarrow> ('net planned list \<times> nat \<times> nat, provider_error) result" where
  "plan_sources N templates names [] count bytes = Ok ([], count, bytes)"
| "plan_sources N templates names (source # sources) count bytes =
     and_then (plan_source N templates names source count bytes) (\<lambda>(p, count, bytes).
     and_then (plan_sources N templates names sources count bytes) (\<lambda>(ps, count, bytes).
     Ok (p # ps, count, bytes)))"

fun is_final :: "'net planned \<Rightarrow> bool" where
  "is_final (PlannedRule r) = (r_matcher r = MatchAll)"
| "is_final (PlannedProvider _ _ _) = False"

text \<open>Managed providers get a fail-closed final rule unless the configuration has its own.\<close>

definition plan_final ::
  "'net ipnet \<Rightarrow> (string \<rightharpoonup> nat) \<Rightarrow> bool \<Rightarrow> 'net planned list \<Rightarrow> nat \<Rightarrow> nat
   \<Rightarrow> ('net planned list \<times> nat, provider_error) result" where
  "plan_final N names managed plan count bytes =
     (if managed \<and> \<not> list_ex is_final plan
      then and_then (add_budget count 1 MAX_RULES ExpandedCount) (\<lambda>count.
           and_then (add_budget bytes (length ''REJECT'') MAX_AGGREGATE_BYTES ExpandedBytes) (\<lambda>_.
           and_then (lift_err RuleInvalid (rule_parse N ''MATCH,REJECT'' names)) (\<lambda>rule.
           Ok (plan @ [PlannedRule rule], count))))
      else Ok (plan, count))"

fun expand_planned :: "'net planned \<Rightarrow> 'net rule list" where
  "expand_planned (PlannedRule rule) = [rule]"
| "expand_planned (PlannedProvider rs proxy no_resolve) =
     map (\<lambda>rule. let rule = rule\<lparr>r_proxy := proxy\<rparr>
                 in if no_resolve then inherit_no_resolve rule else rule) rs"

definition final_indices :: "'net rule list \<Rightarrow> nat list" where
  "final_indices rs = map fst (filter (\<lambda>(_, r). r_matcher r = MatchAll) (enumerate 0 rs))"

definition expand ::
  "'net ipnet \<Rightarrow> parsers \<Rightarrow> (string \<Rightarrow> (string \<times> bool) option) \<Rightarrow> string list \<Rightarrow> (string \<times> provider) list
   \<Rightarrow> assets \<Rightarrow> (string \<rightharpoonup> nat) \<Rightarrow> ('net rule list, provider_error) result" where
  "expand N P url_parse source_rules providers assets names =
     and_then (validate url_parse providers) (\<lambda>_.
     and_then (asset_budget assets) (\<lambda>_.
     and_then (load_templates N P assets names providers 0 0 0) (\<lambda>templates.
     and_then (plan_sources N templates names source_rules 0 0) (\<lambda>(plan, count, bytes).
     and_then (plan_final N names (providers \<noteq> []) plan count bytes) (\<lambda>(plan, count).
     let expanded = concat (map expand_planned plan)
     in if providers \<noteq> [] \<and> (final_indices expanded \<noteq> [length expanded - 1] \<or> expanded = [])
        then Err FinalMatch
        else Ok expanded)))))"

text \<open>The declaration check trims with the Unicode \<open>str::trim\<close>.\<close>

definition validate_rule_declaration ::
  "'net ipnet \<Rightarrow> (string \<times> provider) list \<Rightarrow> (string \<rightharpoonup> nat) \<Rightarrow> string \<Rightarrow> (unit, provider_error) result" where
  "validate_rule_declaration N providers names source =
     (let fs = map trim (take 5 (split_char (CHR '','') source))
      in if fs \<noteq> [] \<and> fs ! 0 = ''RULE-SET''
         then and_then (ok_or RuleSetInvalid (rule_set_fields fs)) (\<lambda>(name, target, _).
              if map_of providers name = None then Err RuleSetUnknown
              else if names target = None then Err RuleSetTarget
              else Ok ())
         else and_then (lift_err RuleInvalid (rule_parse N source names)) (\<lambda>_. Ok ()))"

definition validate_rule_declarations ::
  "'net ipnet \<Rightarrow> (string \<Rightarrow> (string \<times> bool) option) \<Rightarrow> string list \<Rightarrow> (string \<times> provider) list
   \<Rightarrow> (string \<rightharpoonup> nat) \<Rightarrow> (unit, provider_error) result" where
  "validate_rule_declarations N url_parse rules providers names =
     and_then (validate url_parse providers) (\<lambda>_.
     and_then (result_map (validate_rule_declaration N providers names) rules) (\<lambda>_. Ok ()))"

section \<open>Downloads\<close>

text \<open>
  What the HTTP client delivers for one URL: no response, or a declared length, a status and the
  chunks, of which the last one may be a transport error.
\<close>

datatype http_response =
    SendFailed
  | Response "nat option" bool "bytes list" bool

fun download_chunks :: "nat \<Rightarrow> bytes list \<Rightarrow> bool \<Rightarrow> nat \<Rightarrow> bytes
    \<Rightarrow> (bytes option \<times> nat, provider_error) result" where
  "download_chunks limit [] failed tot got =
     (if failed then Ok (None, tot + (limit - length got)) else Ok (Some got, tot))"
| "download_chunks limit (chunk # chunks) failed tot got =
     (if limit - length got < length chunk then Err DownloadBytes
      else download_chunks limit chunks failed (tot + length chunk) (got @ chunk))"

definition download :: "http_response \<Rightarrow> nat \<Rightarrow> (bytes option \<times> nat, provider_error) result" where
  "download response tot =
     (let limit = min MAX_SOURCE_BYTES (MAX_AGGREGATE_BYTES - tot)
      in if limit = 0 then Err AggregateBytes
         else case response of
             SendFailed \<Rightarrow> Ok (None, tot + limit)
           | Response declared success chunks failed \<Rightarrow>
               if (case declared of None \<Rightarrow> False | Some n \<Rightarrow> limit < n) then Err DownloadBytes
               else and_then (download_chunks limit chunks failed tot []) (\<lambda>(body, tot).
                 Ok (if success then body else None, tot)))"

text \<open>\<open>fetch_http_assets\<close>, with the client as the function \<open>get\<close>.\<close>

fun fetch_assets :: "(string \<Rightarrow> http_response) \<Rightarrow> provider list \<Rightarrow> nat \<Rightarrow> assets
    \<Rightarrow> (assets, provider_error) result" where
  "fetch_assets get [] tot assets = Ok assets"
| "fetch_assets get (pv # pvs) tot assets = (case pv_url pv of
       None \<Rightarrow> fetch_assets get pvs tot assets
     | Some url \<Rightarrow>
         and_then (download (get url) tot) (\<lambda>(body, tot).
         and_then (ok_or DownloadFailed body) (\<lambda>bs.
         if pv_path pv \<in> fst ` set assets then Err DuplicatePath
         else fetch_assets get pvs tot (btree_insert (pv_path pv) bs assets))))"

section \<open>Budgets hold\<close>

lemma add_budget_Ok_iff [result_simps]:
  "add_budget tot amount limit e = Ok tot' \<longleftrightarrow> tot + amount < 2 ^ 64 \<and> tot + amount \<le> limit \<and> tot' = tot + amount"
  by (auto simp: add_budget_def)

lemma limits_usize: "MAX_RULES < 2 ^ 64" "MAX_AGGREGATE_BYTES < 2 ^ 64" "MAX_SOURCE_BYTES \<le> MAX_AGGREGATE_BYTES"
  "MAX_RULES = MAX_COLLECTION_ENTRIES"
  by (simp_all add: MAX_RULES_def MAX_AGGREGATE_BYTES_def MAX_SOURCE_BYTES_def MAX_COLLECTION_ENTRIES_def)

lemma add_budget_aggregate:
  "add_budget tot amount MAX_AGGREGATE_BYTES e =
     (if tot + amount \<le> MAX_AGGREGATE_BYTES then Ok (tot + amount) else Err e)"
  using limits_usize(2) by (auto simp: add_budget_def)

lemma asset_total_Ok_iff:
  "tot \<le> MAX_AGGREGATE_BYTES \<Longrightarrow> asset_total tot bss = Ok tot' \<longleftrightarrow>
     (\<forall>bs\<in>set bss. length bs \<le> MAX_SOURCE_BYTES) \<and> tot' = tot + sum_list (map length bss)
     \<and> tot' \<le> MAX_AGGREGATE_BYTES"
proof (induction bss arbitrary: tot)
  case (Cons bs bss)
  show ?case
  proof (cases "length bs \<le> MAX_SOURCE_BYTES \<and> tot + length bs \<le> MAX_AGGREGATE_BYTES")
    case True
    then show ?thesis using Cons.IH [of "tot + length bs"] by (auto simp: add_budget_aggregate)
  qed (auto simp: add_budget_aggregate)
qed auto

lemma asset_budget_Ok_iff:
  "asset_budget assets = Ok u \<longleftrightarrow> length assets \<le> MAX_PROVIDERS
     \<and> (\<forall>bs\<in>snd ` set assets. length bs \<le> MAX_SOURCE_BYTES)
     \<and> sum_list (map (length \<circ> snd) assets) \<le> MAX_AGGREGATE_BYTES"
  using asset_total_Ok_iff [of 0 "map snd assets"]
  by (auto simp: asset_budget_def and_then_Ok_iff)

lemma list_entries_length: "list_entries ls n = Ok es \<Longrightarrow> n \<le> MAX_RULES \<Longrightarrow> n + length es \<le> MAX_RULES"
proof (induction ls n arbitrary: es rule: list_entries.induct)
  case (2 line ls n)
  then show ?case by (fastforce simp: and_then_Ok_iff split: option.splits if_splits)
qed simp

lemma json_entries_get: "map_of kvs k = Some v \<Longrightarrow> json_entries v \<le> json_entries (JObj kvs)"
  by (induction kvs) (auto split: if_splits)

lemma json_entries_array: "length vs \<le> json_entries (JArr vs)"
  by (induction vs) auto

lemma document_entries_length: "document_entries P source = Ok es \<Longrightarrow> length es \<le> MAX_RULES"
proof -
  assume a: "document_entries P source = Ok es"
  then obtain kvs vs where v: "yaml_value P source = Ok (JObj kvs)" "map_of kvs ''payload'' = Some (JArr vs)"
      and "list_all2 (\<lambda>v e. as_str v = Some e) vs es"
    by (auto simp: document_entries_def result_simps bind_eq_Some_conv elim!: as_object.elims as_array.elims)
  then have "length es = length vs" by (simp add: list_all2_lengthD)
  also have "\<dots> \<le> json_entries (JObj kvs)"
    using json_entries_array json_entries_get [OF v(2)] by (rule order_trans)
  also have "\<dots> \<le> MAX_RULES"
    using yaml_value_ok [OF v(1)] by (simp only: limits_usize document_ok_def)
  finally show ?thesis .
qed

lemma entries_length: "entries P source behavior = Ok es \<Longrightarrow> length es \<le> MAX_RULES"
  using list_entries_length [of _ 0] document_entries_length
  by (fastforce simp: entries_def Let_def split: if_splits)

lemma download_chunks_Ok:
  assumes "download_chunks limit chunks failed tot got = Ok (body, tot')" "length got \<le> limit"
  shows "tot + length got \<le> tot' + length got \<and> tot' \<le> tot + (limit - length got)
     \<and> (\<forall>bs. body = Some bs \<longrightarrow> bs = got @ concat chunks \<and> length bs \<le> limit
          \<and> tot' = tot + length (concat chunks))"
  using assms
proof (induction limit chunks failed tot got rule: download_chunks.induct)
  case (2 limit chunk chunks failed tot got)
  then show ?case by (fastforce split: if_splits)
qed (auto split: if_splits)

lemma download_Ok:
  assumes "download response tot = Ok (body, tot')" "tot \<le> MAX_AGGREGATE_BYTES"
  shows "tot \<le> tot' \<and> tot' \<le> MAX_AGGREGATE_BYTES
     \<and> (\<forall>bs. body = Some bs \<longrightarrow> length bs \<le> MAX_SOURCE_BYTES \<and> tot' = tot + length bs)"
proof (cases response)
  case SendFailed
  then show ?thesis using assms by (auto simp: download_def Let_def split: if_splits)
next
  case (Response declared success chunks failed)
  let ?limit = "min MAX_SOURCE_BYTES (MAX_AGGREGATE_BYTES - tot)"
  obtain b where d: "download_chunks ?limit chunks failed tot [] = Ok (b, tot')"
      and body: "body = (if success then b else None)"
    using assms(1) Response by (auto simp: download_def Let_def and_then_Ok_iff split: if_splits)
  have "tot \<le> tot' \<and> tot' \<le> tot + ?limit
      \<and> (\<forall>bs. b = Some bs \<longrightarrow> length bs \<le> ?limit \<and> tot' = tot + length bs)"
    using download_chunks_Ok [OF d] by auto
  then show ?thesis using assms(2) body by auto
qed

lemma fetch_assets_Ok:
  assumes "fetch_assets get pvs tot assets = Ok assets'" "tot \<le> MAX_AGGREGATE_BYTES"
    "sum_list (map (length \<circ> snd) assets) \<le> tot" "\<forall>bs\<in>snd ` set assets. length bs \<le> MAX_SOURCE_BYTES"
  shows "length assets' \<le> length assets + length pvs
     \<and> sum_list (map (length \<circ> snd) assets') \<le> MAX_AGGREGATE_BYTES
     \<and> (\<forall>bs\<in>snd ` set assets'. length bs \<le> MAX_SOURCE_BYTES)"
  using assms
proof (induction get pvs tot assets rule: fetch_assets.induct)
  case (2 get pv pvs tot assets)
  show ?case
  proof (cases "pv_url pv")
    case (Some url)
    then obtain bs tot' where d: "download (get url) tot = Ok (Some bs, tot')"
        and new: "pv_path pv \<notin> fst ` set assets"
        and rest: "fetch_assets get pvs tot' (btree_insert (pv_path pv) bs assets) = Ok assets'"
      using 2(3) by (auto simp: result_simps split: if_splits)
    have t: "tot' = tot + length bs" "tot' \<le> MAX_AGGREGATE_BYTES" "length bs \<le> MAX_SOURCE_BYTES"
      using download_Ok [OF d 2(4)] by auto
    have "sum_list (map (length \<circ> snd) (btree_insert (pv_path pv) bs assets)) \<le> tot'"
      using 2(5) t new by (simp add: sum_btree_insert comp_def)
    moreover have "\<forall>b\<in>snd ` set (btree_insert (pv_path pv) bs assets). length b \<le> MAX_SOURCE_BYTES"
      using 2(6) t set_btree_insert [of "pv_path pv" bs assets] by auto
    ultimately have "length assets' \<le> length (btree_insert (pv_path pv) bs assets) + length pvs
        \<and> sum_list (map (length \<circ> snd) assets') \<le> MAX_AGGREGATE_BYTES
        \<and> (\<forall>bs\<in>snd ` set assets'. length bs \<le> MAX_SOURCE_BYTES)"
      using 2(2) [of url tot' bs] Some new rest t(2) by blast
    moreover have "length (btree_insert (pv_path pv) bs assets) = Suc (length assets)"
      using sum_btree_insert [OF new, of "\<lambda>_. 1" bs] by (simp add: sum_list_triv)
    ultimately show ?thesis by (simp add: comp_def)
  qed (use 2 in auto)
qed auto

text \<open>Whatever a fetch returns passes the asset budget that \<open>expand\<close> checks.\<close>

lemma fetch_assets_budget:
  assumes "fetch_assets get pvs 0 [] = Ok assets" "length pvs \<le> MAX_PROVIDERS"
  shows "asset_budget assets = Ok ()"
  using fetch_assets_Ok [OF assms(1)] assms(2) by (simp add: asset_budget_Ok_iff)

section \<open>Expansion is correct\<close>

text \<open>What one source rule contributes, without the budgets.\<close>

definition planned_of ::
  "'net ipnet \<Rightarrow> 'net templates \<Rightarrow> (string \<rightharpoonup> nat) \<Rightarrow> string \<Rightarrow> 'net planned option" where
  "planned_of N templates names source =
     (if rule_fields source ! 0 = ''RULE-SET''
      then Option.bind (rule_set_fields (rule_fields source)) (\<lambda>(name, target, no_resolve).
           Option.bind (map_of templates name) (\<lambda>(rs, _).
           Option.bind (names target) (\<lambda>proxy. Some (PlannedProvider rs proxy no_resolve))))
      else case rule_parse N source names of Ok rule \<Rightarrow> Some (PlannedRule rule) | Err _ \<Rightarrow> None)"

lemma rule_fields_nonempty [simp]: "rule_fields source \<noteq> []"
  by (simp add: rule_fields_def)

lemma plan_source_Ok:
  assumes "plan_source N templates names source count bytes = Ok (p, count', bytes')"
  shows "planned_of N templates names source = Some p
     \<and> count' = count + length (expand_planned p) \<and> count' \<le> MAX_RULES"
  using assms
  by (auto simp: plan_source_def plan_rule_set_def plan_rule_def planned_of_def result_simps Let_def
      split: if_splits)

lemma plan_sources_Ok:
  assumes "plan_sources N templates names sources count bytes = Ok (plan, count', bytes')"
  shows "map (planned_of N templates names) sources = map Some plan
     \<and> count' = count + length (concat (map expand_planned plan)) \<and> (count \<le> MAX_RULES \<longrightarrow> count' \<le> MAX_RULES)"
  using assms
proof (induction N templates names sources count bytes arbitrary: plan count' rule: plan_sources.induct)
  case (2 N templates names source sources count bytes)
  from 2(2) obtain p c b ps where
    p: "plan_source N templates names source count bytes = Ok (p, c, b)"
    and ps: "plan_sources N templates names sources c b = Ok (ps, count', bytes')" "plan = p # ps"
    by (auto simp: result_simps)
  show ?case using plan_source_Ok [OF p] 2(1) [OF ps(1)] ps(2) by auto
qed auto

lemma plan_final_Ok:
  assumes "plan_final N names managed plan count bytes = Ok (plan', count')"
  shows "\<exists>fin. plan' = plan @ fin \<and> count' = count + length (concat (map expand_planned fin))
     \<and> (count \<le> MAX_RULES \<longrightarrow> count' \<le> MAX_RULES)
     \<and> (if managed \<and> \<not> list_ex is_final plan
        then \<exists>rule. rule_parse N ''MATCH,REJECT'' names = Ok rule \<and> fin = [PlannedRule rule]
        else fin = [])"
  using assms by (auto simp: plan_final_def result_simps split: if_splits)

definition final_plan :: "'net ipnet \<Rightarrow> (string \<rightharpoonup> nat) \<Rightarrow> bool \<Rightarrow> 'net planned list \<Rightarrow> 'net planned list \<Rightarrow> bool" where
  "final_plan N names managed plan fin \<longleftrightarrow>
     (if managed \<and> \<not> list_ex is_final plan
      then \<exists>rule. rule_parse N ''MATCH,REJECT'' names = Ok rule \<and> fin = [PlannedRule rule]
      else fin = [])"

lemma expand_OkE:
  assumes "expand N P url_parse sources providers assets names = Ok rs"
  obtains templates plan fin where
    "load_templates N P assets names providers 0 0 0 = Ok templates"
    "map (planned_of N templates names) sources = map Some plan"
    "rs = concat (map expand_planned (plan @ fin))"
    "length rs \<le> MAX_RULES"
    "final_plan N names (providers \<noteq> []) plan fin"
    "providers \<noteq> [] \<Longrightarrow> rs \<noteq> [] \<and> final_indices rs = [length rs - 1]"
proof -
  from assms obtain templates plan count bytes plan' count' where
    t: "load_templates N P assets names providers 0 0 0 = Ok templates"
    and p: "plan_sources N templates names sources 0 0 = Ok (plan, count, bytes)"
    and f: "plan_final N names (providers \<noteq> []) plan count bytes = Ok (plan', count')"
    and rs: "rs = concat (map expand_planned plan')"
    and fin: "\<not> (providers \<noteq> [] \<and> (final_indices rs \<noteq> [length rs - 1] \<or> rs = []))"
    unfolding expand_def by (elim and_thenE) (auto simp: Let_def split: prod.splits if_splits elim!: and_thenE)
  from plan_final_Ok [OF f] obtain fin where pl: "plan' = plan @ fin"
    "count' = count + length (concat (map expand_planned fin))" "count \<le> MAX_RULES \<longrightarrow> count' \<le> MAX_RULES"
    "final_plan N names (providers \<noteq> []) plan fin" unfolding final_plan_def by blast
  show ?thesis
    by (rule that [OF t, of plan fin]) (use plan_sources_Ok [OF p] rs fin pl in simp_all)
qed

subsection \<open>Every expanded rule is well formed\<close>

lemma inherit_matcher_kind [simp]:
  "matcher_kind N (inherit_matcher m) = matcher_kind N m" "matcher_ok (inherit_matcher m) = matcher_ok m"
  by (cases m; simp)+

lemma rule_ok_inherit [simp]: "rule_ok N names (inherit_no_resolve r) = rule_ok N names r"
  by (simp add: rule_ok_def inherit_no_resolve_def)

lemma inherit_MatchAll [simp]: "inherit_matcher m = MatchAll \<longleftrightarrow> m = MatchAll"
  by (cases m) auto

lemma provider_rule_ok: "provider_rule N entry behavior names = Ok r \<Longrightarrow> rule_ok N names r"
  by (auto simp: provider_rule_def result_simps dest: rule_parse_rule_ok)

lemma entry_rules_ok:
  "entry_rules N behavior names es nb eb = Ok (rs, nb', eb') \<Longrightarrow>
     (\<forall>r\<in>set rs. rule_ok N names r) \<and> length rs = length es"
proof (induction N behavior names es nb eb arbitrary: rs nb' eb' rule: entry_rules.induct)
  case (2 N behavior names e es nb eb)
  from 2(2) show ?case
    by (auto elim!: and_thenE dest!: 2(1) dest: provider_rule_ok)
qed simp

lemma load_templates_ok:
  assumes "load_templates N P assets names pvs a b c = Ok ts"
  shows "map fst ts = map fst pvs \<and> (\<forall>t\<in>set ts. \<forall>r\<in>set (fst (snd t)). rule_ok N names r)"
  using assms
proof (induction N P assets names pvs a b c arbitrary: ts rule: load_templates.induct)
  case (2 N P assets names name pv pvs a b c)
  from 2(2) show ?case by (auto elim!: and_thenE dest!: 2(1) entry_rules_ok)
qed simp

lemma planned_of_ok:
  assumes "planned_of N ts names source = Some p" "\<forall>t\<in>set ts. \<forall>r\<in>set (fst (snd t)). rule_ok N names r"
  shows "\<forall>r\<in>set (expand_planned p). rule_ok N names r"
proof -
  have "rule_ok N names (r\<lparr>r_proxy := n\<rparr>)" if "rule_ok N names r" "names target = Some n" for r n target
    using that by (auto simp: rule_ok_def ran_def)
  then show ?thesis
    using assms
    by (auto simp: planned_of_def bind_eq_Some_conv Let_def rule_parse_rule_ok
        split: if_splits result.splits dest!: map_of_SomeD)
qed

lemma expand_rules_ok:
  assumes "expand N P url_parse sources providers assets names = Ok rs"
  shows "\<forall>r\<in>set rs. rule_ok N names r"
proof -
  obtain ts plan fin where
    t: "load_templates N P assets names providers 0 0 0 = Ok ts"
    and p: "map (planned_of N ts names) sources = map Some plan"
    and rs: "rs = concat (map expand_planned (plan @ fin))"
    and fin: "final_plan N names (providers \<noteq> []) plan fin"
    by (rule expand_OkE [OF assms])
  have "\<forall>r\<in>set (expand_planned q). rule_ok N names r" if "q \<in> set plan" for q
  proof -
    have "Some q \<in> set (map (planned_of N ts names) sources)" using that p by simp
    then obtain source where "planned_of N ts names source = Some q" by auto
    then show ?thesis by (rule planned_of_ok) (use load_templates_ok [OF t] in blast)
  qed
  then show ?thesis using rs fin by (auto simp: final_plan_def split: if_splits dest: rule_parse_rule_ok)
qed

subsection \<open>The final rule\<close>

lemma final_indices_last:
  assumes "final_indices rs = [length rs - 1]" "rs \<noteq> []"
  shows "r_matcher (last rs) = MatchAll \<and> (\<forall>r\<in>set (butlast rs). r_matcher r \<noteq> MatchAll)"
proof -
  have idx: "i \<in> set (final_indices rs) \<longleftrightarrow> i < length rs \<and> r_matcher (rs ! i) = MatchAll" for i
    by (auto simp: final_indices_def in_set_enumerate_eq image_iff)
  have "r_matcher (rs ! i) = MatchAll \<longleftrightarrow> i = length rs - 1" if "i < length rs" for i
    using idx [of i] that assms(1) by simp
  then show ?thesis using assms(2)
    by (auto simp: last_conv_nth in_set_conv_nth nth_butlast)
qed

lemma matcher_kind_MATCH: "matcher_kind N m = ''MATCH'' \<longleftrightarrow> m = MatchAll"
  by (cases m) auto

lemma rule_parse_MatchAll:
  "rule_parse N source names = Ok r \<Longrightarrow> r_matcher r = MatchAll \<longleftrightarrow> rule_fields source ! 0 = ''MATCH''"
  by (auto simp: rule_parse_def Let_def result_simps matcher_kind_MATCH dest!: parse_matcher_Ok)

lemma planned_of_final:
  assumes "planned_of N ts names source = Some p" "is_final p" shows "rule_fields source ! 0 = ''MATCH''"
  using assms
  by (cases p) (auto simp: planned_of_def bind_eq_Some_conv rule_parse_MatchAll split: if_splits result.splits)

lemma match_reject_fields: "rule_fields ''MATCH,REJECT'' = [''MATCH'', ''REJECT'']"
  using rule_fields_join [of "[''MATCH'', ''REJECT'']"] plain_field_eval plain_fieldI [of "''REJECT''"] by simp

lemma rule_parse_match_reject:
  "rule_parse N ''MATCH,REJECT'' names = Ok r \<Longrightarrow> names ''REJECT'' = Some (r_proxy r)"
  by (auto simp: rule_parse_def match_reject_fields parse_matcher_def result_simps)

text \<open>A managed configuration without its own \<open>MATCH\<close> rule ends in \<open>REJECT\<close>.\<close>

lemma expand_fail_closed:
  assumes "expand N P url_parse sources providers assets names = Ok rs" "providers \<noteq> []"
  shows "rs \<noteq> [] \<and> r_matcher (last rs) = MatchAll \<and> (\<forall>r\<in>set (butlast rs). r_matcher r \<noteq> MatchAll)
     \<and> ((\<forall>s\<in>set sources. rule_fields s ! 0 \<noteq> ''MATCH'') \<longrightarrow> names ''REJECT'' = Some (r_proxy (last rs)))"
proof -
  obtain ts plan fin where
    p: "map (planned_of N ts names) sources = map Some plan"
    and rs: "rs = concat (map expand_planned (plan @ fin))"
    and fin: "final_plan N names (providers \<noteq> []) plan fin"
    and last: "rs \<noteq> [] \<and> final_indices rs = [length rs - 1]"
    by (rule expand_OkE [OF assms(1)]) (use assms(2) in blast)
  have "names ''REJECT'' = Some (r_proxy (last rs))"
    if no: "\<forall>s\<in>set sources. rule_fields s ! 0 \<noteq> ''MATCH''"
  proof -
    have "\<not> is_final q" if "q \<in> set plan" for q
    proof -
      have "Some q \<in> set (map (planned_of N ts names) sources)" using that p by simp
      then obtain s where "s \<in> set sources" "planned_of N ts names s = Some q" by auto
      then show ?thesis using no planned_of_final by blast
    qed
    then have "\<not> list_ex is_final plan" by (simp add: list_ex_iff)
    then obtain rule where "rule_parse N ''MATCH,REJECT'' names = Ok rule" "fin = [PlannedRule rule]"
      using fin assms(2) by (auto simp: final_plan_def)
    then show ?thesis using rs rule_parse_match_reject by simp
  qed
  then show ?thesis using final_indices_last last by blast
qed

end
