(* ===== verification/Config.thy ===== *)
theory Config
  imports Config_Proxy Config_Provider
begin

text \<open>
  The configuration (\<open>src/src/config.rs\<close>): \<open>Config::parse_inner\<close> and the checks it makes, the
  invariant of a \<open>Config\<close>, the selections of its groups (\<open>resolve_proxy\<close>, \<open>selected\<close>, \<open>selection\<close>,
  \<open>set_selections\<close>, \<open>select\<close>), the controller endpoint and the JSON views.

  The derived deserialiser of \<open>RawConfig\<close> is generated code: \<open>deserialize\<close> is an argument.  The
  \<open>RwLock\<close> around the selections is the state the operations pass on.  The lemmas show that parsing
  establishes the invariant, that every selection operation keeps it, and that under it the selected
  leaf of every node exists.
\<close>

section \<open>Types\<close>

datatype raw_entry = EntryProxy raw_proxy | EntryGroup raw_group

record raw_config =
  rc_proxies :: "raw_entry list"
  rc_proxy_groups :: "raw_group list"
  rc_rules :: "string list"
  rc_rule_providers :: "(string \<times> provider) list"
  rc_allow_lan :: bool
  rc_bind_address :: "string option"
  rc_mixed_port :: "u16 option"
  rc_port :: "u16 option"
  rc_socks_port :: "u16 option"
  rc_mode :: "string option"
  rc_log_level :: "string option"
  rc_external_controller :: "string option"
  rc_secret :: "string option"

record 'net config =
  c_bind_address :: ip_addr
  c_proxies :: "proxy list"
  c_rules :: "'net rule list"
  c_groups :: "group list"
  c_selections :: "nat list"
  c_mode :: string
  c_controller :: "socket_addr option"
  c_secret :: string
  c_document :: json

datatype config_error =
    DocumentInvalid doc_error
  | AnyTlsFields
  | CollectionLimit
  | MemberLimit
  | DeserializeFailed
  | StandaloneListener
  | ModeInvalid
  | ControllerInvalid rule_error
  | LogLevelInvalid
  | BindInvalid
  | LanRequired
  | ProxyCount
  | ProxyInvalid proxy_error
  | GroupCount
  | GroupInvalid group_error
  | ProviderInvalid provider_error
  | UnknownGroup
  | NotAMember
  | SelectionCount
  | ControllerSecret

definition MAX_PROXIES :: nat where "MAX_PROXIES = 4096"
definition MAX_GROUPS :: nat where "MAX_GROUPS = 1024"
definition MAX_MIXED_PROXIES :: nat where "MAX_MIXED_PROXIES = MAX_PROXIES + MAX_GROUPS"
definition MAX_MEMBERS :: nat where "MAX_MEMBERS = 5122"

section \<open>Checks on the document\<close>

text \<open>\<open>validate_anytls_fields\<close>.\<close>

definition anytls_field_ok :: "string \<times> json \<Rightarrow> bool" where
  "anytls_field_ok = (\<lambda>(key, value).
     if key \<in> {''name'', ''type'', ''server'', ''port'', ''password'', ''sni'', ''skip-cert-verify''} then True
     else if key = ''network'' then value = JStr ''tcp''
     else if key = ''udp'' \<or> key = ''tls'' then value = JBool False
     else if key = ''alterId'' then value = JInt 0
     else if key = ''disable-reuse'' then value = JBool True
     else False)"

definition validate_anytls_fields :: "json \<Rightarrow> (unit, config_error) result" where
  "validate_anytls_fields document =
     (let nodes = (case as_array (json_index document ''proxies'') of Some vs \<Rightarrow> vs | None \<Rightarrow> [])
      in if list_all (\<lambda>p. json_index p ''type'' = JStr ''anytls'' \<longrightarrow>
               (case as_object p of None \<Rightarrow> False | Some fs \<Rightarrow> list_all anytls_field_ok fs)) nodes
         then Ok () else Err AnyTlsFields)"

definition field_array :: "json \<Rightarrow> string \<Rightarrow> json list" where
  "field_array v f = (case Option.bind (json_get f v) as_array of Some vs \<Rightarrow> vs | None \<Rightarrow> [])"

definition check_collections :: "json \<Rightarrow> (unit, config_error) result" where
  "check_collections document =
     (if list_ex (\<lambda>(f, limit). limit < length (field_array document f))
           [(''proxies'', MAX_MIXED_PROXIES), (''proxy-groups'', MAX_GROUPS), (''rules'', MAX_RULES)]
      then Err CollectionLimit
      else if list_ex (\<lambda>f. list_ex (\<lambda>e. MAX_MEMBERS < length (field_array e ''proxies''))
                              (field_array document f)) [''proxies'', ''proxy-groups'']
      then Err MemberLimit
      else Ok ())"

section \<open>Listener settings\<close>

definition check_listeners :: "raw_config \<Rightarrow> (unit, config_error) result" where
  "check_listeners raw =
     (let unwrap = (\<lambda>p. case p of Some n \<Rightarrow> n | None \<Rightarrow> 0)
      in if unwrap (rc_mixed_port raw) = 0 \<and> (unwrap (rc_port raw) \<noteq> 0 \<or> unwrap (rc_socks_port raw) \<noteq> 0)
         then Err StandaloneListener else Ok ())"

definition check_mode :: "raw_config \<Rightarrow> (unit, config_error) result" where
  "check_mode raw = (case rc_mode raw of
       None \<Rightarrow> Ok ()
     | Some m \<Rightarrow> if m \<in> {''rule'', ''global'', ''direct''} then Ok () else Err ModeInvalid)"

definition check_controller :: "raw_config \<Rightarrow> (socket_addr option, config_error) result" where
  "check_controller raw = (case rc_external_controller raw of
       None \<Rightarrow> Ok None
     | Some e \<Rightarrow> and_then (lift_err ControllerInvalid (parse_controller_endpoint e)) (\<lambda>a. Ok (Some a)))"

definition check_log_level :: "raw_config \<Rightarrow> (unit, config_error) result" where
  "check_log_level raw = (case rc_log_level raw of
       None \<Rightarrow> Ok ()
     | Some l \<Rightarrow> if l \<in> {''silent'', ''error'', ''warning'', ''info'', ''debug''} then Ok ()
                 else Err LogLevelInvalid)"

definition check_bind_address :: "raw_config \<Rightarrow> (ip_addr, config_error) result" where
  "check_bind_address raw =
     and_then (case rc_bind_address raw of
         Some a \<Rightarrow> if a = ''*'' then Ok (V4 0 0 0 0) else ok_or BindInvalid (parse_ip a)
       | None \<Rightarrow> Ok (if rc_allow_lan raw then V4 0 0 0 0 else V4 127 0 0 1)) (\<lambda>address.
     if \<not> rc_allow_lan raw \<and> \<not> is_loopback address then Err LanRequired else Ok address)"

section \<open>Building the tables\<close>

definition builtin_proxies :: "proxy list" where
  "builtin_proxies =
     [\<lparr>p_name = ''DIRECT'', p_kind = Direct, p_udp = True, p_obfs = None\<rparr>,
      \<lparr>p_name = ''REJECT'', p_kind = Reject, p_udp = False, p_obfs = None\<rparr>]"

fun build_entries ::
  "(string \<Rightarrow> bool) \<Rightarrow> raw_entry list \<Rightarrow> proxy list \<Rightarrow> raw_group list
   \<Rightarrow> (proxy list \<times> raw_group list, config_error) result" where
  "build_entries server_name [] proxies groups = Ok (proxies, groups)"
| "build_entries server_name (EntryProxy p # es) proxies groups =
     (if length proxies = MAX_PROXIES + 2 then Err ProxyCount
      else and_then (lift_err ProxyInvalid (build server_name p)) (\<lambda>q.
           build_entries server_name es (proxies @ [q]) groups))"
| "build_entries server_name (EntryGroup g # es) proxies groups =
     build_entries server_name es proxies (groups @ [g])"

fun add_proxy_names ::
  "nat \<Rightarrow> proxy list \<Rightarrow> (string \<rightharpoonup> nat) \<Rightarrow> ((string \<rightharpoonup> nat), config_error) result" where
  "add_proxy_names i [] names = Ok names"
| "add_proxy_names i (p # ps) names =
     and_then (lift_err GroupInvalid (validate_name (p_name p))) (\<lambda>_.
     if names (p_name p) \<noteq> None then Err (GroupInvalid NameDuplicate)
     else add_proxy_names (Suc i) ps (names(p_name p \<mapsto> i)))"

text \<open>The external code a parse depends on.\<close>

record 'net environment =
  e_net :: "'net ipnet"
  e_parsers :: parsers
  e_url_parse :: "string \<Rightarrow> (string \<times> bool) option"
  e_server_name :: "string \<Rightarrow> bool"
  e_deserialize :: "json \<Rightarrow> raw_config option"

definition build_config ::
  "'net environment \<Rightarrow> json \<Rightarrow> raw_config \<Rightarrow> socket_addr option \<Rightarrow> ip_addr \<Rightarrow> assets option
   \<Rightarrow> ('net config, config_error) result" where
  "build_config E document raw controller address assets =
     and_then (build_entries (e_server_name E) (rc_proxies raw) builtin_proxies []) (\<lambda>(proxies, groups0).
     let raw_groups = groups0 @ rc_proxy_groups raw
     in if MAX_GROUPS < length raw_groups then Err GroupCount
        else and_then (add_proxy_names 0 proxies Map.empty) (\<lambda>names.
             and_then (lift_err GroupInvalid (resolve_groups raw_groups names (length proxies))) (\<lambda>(groups, names).
             and_then (lift_err ProviderInvalid (case assets of
                 Some assets \<Rightarrow> expand (e_net E) (e_parsers E) (e_url_parse E) (rc_rules raw)
                                 (rc_rule_providers raw) assets names
               | None \<Rightarrow> and_then (validate_rule_declarations (e_net E) (e_url_parse E) (rc_rules raw)
                                     (rc_rule_providers raw) names) (\<lambda>_. Ok []))) (\<lambda>rs.
             Ok \<lparr>c_bind_address = address, c_proxies = proxies, c_rules = rs, c_groups = groups,
                 c_selections = replicate (length groups) 0,
                 c_mode = (case rc_mode raw of Some m \<Rightarrow> m | None \<Rightarrow> ''rule''),
                 c_controller = controller,
                 c_secret = (case rc_secret raw of Some s \<Rightarrow> s | None \<Rightarrow> []),
                 c_document = document\<rparr>))))"

definition parse_inner ::
  "'net environment \<Rightarrow> string \<Rightarrow> assets option \<Rightarrow> ('net config, config_error) result" where
  "parse_inner E source assets =
     and_then (lift_err DocumentInvalid (parse_document (e_parsers E) source)) (\<lambda>document.
     and_then (validate_anytls_fields document) (\<lambda>_.
     and_then (check_collections document) (\<lambda>_.
     and_then (ok_or DeserializeFailed (e_deserialize E document)) (\<lambda>raw.
     and_then (check_listeners raw) (\<lambda>_.
     and_then (check_mode raw) (\<lambda>_.
     and_then (check_controller raw) (\<lambda>controller.
     and_then (check_log_level raw) (\<lambda>_.
     and_then (check_bind_address raw) (\<lambda>address.
     build_config E document raw controller address assets)))))))))"

definition parse_with_assets ::
  "'net environment \<Rightarrow> string \<Rightarrow> assets \<Rightarrow> ('net config, config_error) result" where
  "parse_with_assets E source assets = parse_inner E source (Some assets)"

definition parse :: "'net environment \<Rightarrow> string \<Rightarrow> ('net config, config_error) result" where
  "parse E source = parse_with_assets E source []"

definition validate_declarations :: "'net environment \<Rightarrow> string \<Rightarrow> (unit, config_error) result" where
  "validate_declarations E source = and_then (parse_inner E source None) (\<lambda>_. Ok ())"

section \<open>Reading a configuration\<close>

definition node_name :: "'net config \<Rightarrow> nat \<Rightarrow> string" where
  "node_name c index =
     (if index < length (c_proxies c) then p_name (c_proxies c ! index)
      else g_name (c_groups c ! (index - length (c_proxies c))))"

definition resolve_proxy :: "'net config \<Rightarrow> nat \<Rightarrow> nat option" where
  "resolve_proxy c index =
     resolve_proxy_loop (length (c_proxies c)) (c_groups c) (c_selections c)
       (Suc (length (c_groups c))) index"

definition selected :: "'net config \<Rightarrow> (string \<times> string) list" where
  "selected c =
     foldl (\<lambda>m (g, sel). btree_insert (g_name g) (node_name c (g_members g ! sel)) m) []
       (zip (c_groups c) (c_selections c))"

definition selection :: "'net config \<Rightarrow> string \<Rightarrow> string \<Rightarrow> (nat \<times> nat, config_error) result" where
  "selection c grp prx =
     and_then (ok_or UnknownGroup (position (\<lambda>g. g_name g = grp) (c_groups c))) (\<lambda>index.
     and_then (ok_or NotAMember
         (position (\<lambda>node. node_name c node = prx) (g_members (c_groups c ! index)))) (\<lambda>mem.
     Ok (index, mem)))"

fun next_selections ::
  "'net config \<Rightarrow> (string \<times> string) list \<Rightarrow> nat list \<Rightarrow> (nat list, config_error) result" where
  "next_selections c [] next = Ok next"
| "next_selections c ((grp, prx) # rest) next =
     and_then (selection c grp prx) (\<lambda>(index, mem). next_selections c rest (next[index := mem]))"

definition set_selections ::
  "(string \<times> string) list \<Rightarrow> 'net config \<Rightarrow> (unit, config_error) result \<times> 'net config" where
  "set_selections selections c =
     (if MAX_GROUPS < length selections then (Err SelectionCount, c)
      else case next_selections c selections (replicate (length (c_groups c)) 0) of
          Err e \<Rightarrow> (Err e, c)
        | Ok next \<Rightarrow> (Ok (), c\<lparr>c_selections := next\<rparr>))"

definition select :: "string \<Rightarrow> string \<Rightarrow> 'net config \<Rightarrow> (unit, config_error) result \<times> 'net config" where
  "select grp prx c = (case selection c grp prx of
       Err e \<Rightarrow> (Err e, c)
     | Ok (index, mem) \<Rightarrow> (Ok (), c\<lparr>c_selections := (c_selections c)[index := mem]\<rparr>))"

definition controller_client_endpoint :: "'net config \<Rightarrow> socket_addr option" where
  "controller_client_endpoint c =
     map_option (\<lambda>a. \<lparr>sa_ip = V4 127 0 0 1, sa_port = sa_port a\<rparr>) (c_controller c)"

definition controller_requires_auth :: "'net config \<Rightarrow> bool" where
  "controller_requires_auth c = (case c_controller c of None \<Rightarrow> False | Some a \<Rightarrow> is_unspecified (sa_ip a))"

definition validate_controller_auth :: "'net config \<Rightarrow> (unit, config_error) result" where
  "validate_controller_auth c =
     (if controller_requires_auth c \<and> c_secret c = [] then Err ControllerSecret else Ok ())"

text \<open>The type names the views print.\<close>

definition kind_name :: "proxy_kind \<Rightarrow> string" where
  "kind_name k = (case k of Direct \<Rightarrow> ''Direct'' | Reject \<Rightarrow> ''Reject'' | Shadowsocks _ _ _ _ \<Rightarrow> ''Shadowsocks''
     | AnyTls _ _ _ _ _ \<Rightarrow> ''AnyTLS'' | Trojan _ _ _ _ _ \<Rightarrow> ''Trojan'')"

definition proxy_json :: "proxy \<Rightarrow> json" where
  "proxy_json p =
     (let (server, port) = (case p_kind p of
          Shadowsocks h n _ _ \<Rightarrow> (h, n) | AnyTls h n _ _ _ \<Rightarrow> (h, n) | Trojan h n _ _ _ \<Rightarrow> (h, n)
        | Direct \<Rightarrow> ([], 0) | Reject \<Rightarrow> ([], 0))
      in JObj [(''name'', JStr (p_name p)), (''port'', JInt (uint port)), (''server'', JStr server),
               (''type'', JStr (kind_name (p_kind p)))])"

definition proxies_json :: "'net config \<Rightarrow> json" where
  "proxies_json c = JObj [(''proxies'', JArr (map proxy_json (drop 2 (c_proxies c))))]"

definition rule_view :: "'net config \<Rightarrow> nat \<Rightarrow> nat \<times> string \<times> string \<times> string" where
  "rule_view c index =
     (let r = c_rules c ! index in (index, r_kind r, r_payload r, node_name c (r_proxy r)))"

definition proxy_view :: "'net config \<Rightarrow> nat \<Rightarrow> string \<times> string" where
  "proxy_view c index = (p_name (c_proxies c ! index), kind_name (p_kind (c_proxies c ! index)))"

definition rules_json :: "'net config \<Rightarrow> json" where
  "rules_json c = JObj [(''rules'', JArr (map (\<lambda>r. JObj [(''payload'', JStr (r_payload r)),
     (''target'', JStr (node_name c (r_proxy r))), (''type'', JStr (r_kind r))]) (c_rules c)))]"

section \<open>The invariant\<close>

text \<open>All names of a configuration: those of the proxies, then those of the groups.\<close>

definition node_names :: "'net config \<Rightarrow> string list" where
  "node_names c = map p_name (c_proxies c) @ map g_name (c_groups c)"

definition config_ok :: "'net config \<Rightarrow> bool" where
  "config_ok c \<longleftrightarrow>
     take 2 (c_proxies c) = builtin_proxies
     \<and> list_all proxy_ok (c_proxies c)
     \<and> graph_ok (length (c_proxies c)) (c_groups c)
     \<and> selections_ok (c_groups c) (c_selections c)
     \<and> distinct (node_names c)
     \<and> length (c_proxies c) \<le> MAX_PROXIES + 2 \<and> length (c_groups c) \<le> MAX_GROUPS
     \<and> length (c_rules c) \<le> MAX_RULES
     \<and> list_all (\<lambda>r. matcher_ok (r_matcher r)
          \<and> r_proxy r < length (c_proxies c) + length (c_groups c)) (c_rules c)"

lemma build_entries_Ok:
  assumes "build_entries server_name es ps gs = Ok (ps', gs')" "list_all proxy_ok ps"
    "length ps \<le> MAX_PROXIES + 2"
  shows "list_all proxy_ok ps' \<and> length ps' \<le> MAX_PROXIES + 2 \<and> (\<exists>more. ps' = ps @ more)"
  using assms
proof (induction server_name es ps gs rule: build_entries.induct)
  case (2 server_name p es ps gs)
  from 2(2) obtain q where q: "length ps \<noteq> MAX_PROXIES + 2" "build server_name p = Ok q"
      "build_entries server_name es (ps @ [q]) gs = Ok (ps', gs')"
    by (auto simp: result_simps split: if_splits)
  then show ?case using 2(1) 2(3,4) build_proxy_ok [OF q(2)] by (auto simp: result_simps)
qed auto

lemma add_proxy_names_Ok:
  assumes "add_proxy_names i ps names = Ok names'"
  shows "distinct (map p_name ps) \<and> dom names' = dom names \<union> p_name ` set ps
     \<and> dom names \<inter> p_name ` set ps = {} \<and> ran names' \<subseteq> ran names \<union> {i..<i + length ps}"
  using assms
proof (induction i ps names rule: add_proxy_names.induct)
  case (2 i p ps names)
  from 2(2) have new: "names (p_name p) = None"
      and rest: "add_proxy_names (Suc i) ps (names(p_name p \<mapsto> i)) = Ok names'"
    by (auto simp: result_simps split: if_splits)
  have "ran (names(p_name p \<mapsto> i)) = insert i (ran names)" using new by simp
  moreover have "distinct (map p_name ps) \<and> dom names' = dom (names(p_name p \<mapsto> i)) \<union> p_name ` set ps
     \<and> dom (names(p_name p \<mapsto> i)) \<inter> p_name ` set ps = {}
     \<and> ran names' \<subseteq> ran (names(p_name p \<mapsto> i)) \<union> {Suc i..<Suc i + length ps}"
    using 2(1) new rest by blast
  ultimately show ?case using new by (auto simp del: fun_upd_apply)
qed auto

lemma builtin_ok: "list_all proxy_ok builtin_proxies" "length builtin_proxies = 2"
  by (simp_all add: builtin_proxies_def proxy_ok_def)

lemma resolve_groups_names:
  assumes "resolve_groups groups names pc = Ok (gs, names')" "ran names \<subseteq> {..<pc}"
  shows "distinct (map g_name gs) \<and> g_name ` set gs \<inter> dom names = {}
     \<and> dom names' = dom names \<union> g_name ` set gs"
proof -
  note r = assms(1)[unfolded resolve_groups_Ok_iff [OF assms(2)]]
  have len: "length (index_edges groups names pc) = length groups" by (simp add: index_edges_def)
  have "map g_name gs = map rg_name groups" using r len by (auto intro!: nth_equalityI)
  then have "g_name ` set gs = rg_name ` set groups" "distinct (map g_name gs) = distinct (map rg_name groups)"
    by (metis set_map)+
  then show ?thesis using r by (auto simp: groups_valid_def dom_all_names)
qed

lemma build_config_ok:
  assumes "build_config E document raw controller address assets = Ok c"
  shows "config_ok c"
proof -
  from assms obtain proxies groups0 names gs names' rs where
    b: "build_entries (e_server_name E) (rc_proxies raw) builtin_proxies [] = Ok (proxies, groups0)"
    and gl: "length (groups0 @ rc_proxy_groups raw) \<le> MAX_GROUPS"
    and n: "add_proxy_names 0 proxies Map.empty = Ok names"
    and g: "resolve_groups (groups0 @ rc_proxy_groups raw) names (length proxies) = Ok (gs, names')"
    and x: "(case assets of
                 Some assets \<Rightarrow> expand (e_net E) (e_parsers E) (e_url_parse E) (rc_rules raw)
                                 (rc_rule_providers raw) assets names'
               | None \<Rightarrow> and_then (validate_rule_declarations (e_net E) (e_url_parse E) (rc_rules raw)
                                     (rc_rule_providers raw) names') (\<lambda>_. Ok [])) = Ok rs"
    and c: "c_proxies c = proxies" "c_groups c = gs" "c_selections c = replicate (length gs) 0" "c_rules c = rs"
    unfolding build_config_def
    by (elim and_thenE)
       (auto simp: Let_def lift_err_Ok_iff not_less split: prod.splits if_splits elim!: and_thenE)
  have ps: "list_all proxy_ok proxies" "length proxies \<le> MAX_PROXIES + 2" "\<exists>more. proxies = builtin_proxies @ more"
    using build_entries_Ok [OF b] by (simp_all add: builtin_ok)
  have names: "distinct (map p_name proxies)" "dom names = p_name ` set proxies" "ran names \<subseteq> {..<length proxies}"
    using add_proxy_names_Ok [OF n] by auto
  note gr = resolve_groups_graph_ok [OF g names(3)] and gn = resolve_groups_names [OF g names(3)]
  have rules: "length rs \<le> MAX_RULES" "\<forall>r\<in>set rs. rule_ok (e_net E) names' r"
    using x by (auto split: option.splits simp: result_simps elim: expand_OkE dest: expand_rules_ok)
  have "\<forall>r\<in>set rs. matcher_ok (r_matcher r) \<and> r_proxy r < length proxies + length gs"
    using rules(2) gr(4) by (auto simp: rule_ok_def)
  moreover have "distinct (node_names c)"
    using names(1,2) gn c by (auto simp: node_names_def)
  ultimately show ?thesis
    unfolding config_ok_def c using ps gr rules(1) gl builtin_ok(2) by (auto simp: list_all_iff)
qed

lemma parse_inner_build:
  assumes "parse_inner E source assets = Ok c"
  obtains document raw controller address where
    "parse_document (e_parsers E) source = Ok document" "e_deserialize E document = Some raw"
    "check_controller raw = Ok controller" "check_bind_address raw = Ok address"
    "build_config E document raw controller address assets = Ok c"
  using assms unfolding parse_inner_def
  by (elim and_thenE) (auto simp: result_simps)

lemma parse_inner_ok: "parse_inner E source assets = Ok c \<Longrightarrow> config_ok c"
  by (elim parse_inner_build) (rule build_config_ok)

section \<open>Selections\<close>

lemma resolve_proxy_leaf:
  assumes "config_ok c" "i < length (c_proxies c) + length (c_groups c)"
  shows "\<exists>leaf<length (c_proxies c). resolve_proxy c i = Some leaf
     \<and> (i, leaf) \<in> (selected_rel (length (c_proxies c)) (c_groups c) (c_selections c))\<^sup>*"
  unfolding resolve_proxy_def
  using assms by (intro resolve_proxy_loop_leaf [where V = "{}"]) (auto simp: config_ok_def)

lemma node_name_nth:
  "i < length (c_proxies c) + length (c_groups c) \<Longrightarrow> node_name c i = node_names c ! i"
  by (auto simp: node_name_def node_names_def nth_append)

lemma node_name_inject:
  assumes "config_ok c" "i < length (c_proxies c) + length (c_groups c)"
    "j < length (c_proxies c) + length (c_groups c)"
  shows "node_name c i = node_name c j \<longleftrightarrow> i = j"
  using assms by (simp add: node_name_nth config_ok_def nth_eq_iff_index_eq node_names_def)

lemma member_bound:
  assumes "config_ok c" "i < length (c_groups c)" "k < length (g_members (c_groups c ! i))"
  shows "g_members (c_groups c ! i) ! k < length (c_proxies c) + length (c_groups c)"
  using assms edges_okD [of "length (c_proxies c)" "map g_members (c_groups c)" i k]
  by (auto simp: config_ok_def graph_ok_def)

lemma selection_Ok:
  assumes "selection c grp prx = Ok (i, k)"
  shows "i < length (c_groups c) \<and> g_name (c_groups c ! i) = grp
     \<and> k < length (g_members (c_groups c ! i)) \<and> node_name c (g_members (c_groups c ! i) ! k) = prx"
  using assms by (auto simp: selection_def result_simps position_Some_iff)

lemma selections_ok_update:
  "selections_ok gs sel \<Longrightarrow> i < length gs \<Longrightarrow> k < length (g_members (gs ! i)) \<Longrightarrow> selections_ok gs (sel[i := k])"
  by (auto simp: selections_ok_def list_all2_conv_all_nth nth_list_update)


lemma config_ok_set:
  "config_ok c \<Longrightarrow> selections_ok (c_groups c) sel \<Longrightarrow> config_ok (c\<lparr>c_selections := sel\<rparr>)"
  by (simp add: config_ok_def node_names_def)

lemma config_ok_selections_ok: "config_ok c \<Longrightarrow> selections_ok (c_groups c) (c_selections c)"
  by (simp add: config_ok_def)

lemma select_config_ok: "config_ok c \<Longrightarrow> config_ok (snd (select grp prx c))"
  by (auto simp: select_def split: result.splits dest!: selection_Ok
      intro!: config_ok_set selections_ok_update config_ok_selections_ok)

lemma next_selections_ok:
  "next_selections c kvs next = Ok next' \<Longrightarrow> selections_ok (c_groups c) next \<Longrightarrow> selections_ok (c_groups c) next'"
proof (induction c kvs "next" rule: next_selections.induct)
  case (2 c grp prx rest "next")
  then show ?case by (auto elim!: and_thenE dest!: selection_Ok intro: selections_ok_update)
qed simp

lemma selections_ok_default: "graph_ok pc gs \<Longrightarrow> selections_ok gs (replicate (length gs) 0)"
  by (auto simp: selections_ok_def list_all2_conv_all_nth graph_ok_def)

lemma set_selections_config_ok: "config_ok c \<Longrightarrow> config_ok (snd (set_selections kvs c))"
proof -
  assume c: "config_ok c"
  have "selections_ok (c_groups c) next"
    if "next_selections c kvs (replicate (length (c_groups c)) 0) = Ok next" for "next"
    by (rule next_selections_ok [OF that selections_ok_default [of "length (c_proxies c)"]])
       (use c in \<open>simp add: config_ok_def\<close>)
  then show ?thesis using c by (simp add: set_selections_def config_ok_set split: result.splits)
qed

subsection \<open>The published choices\<close>

lemma map_of_foldl_btree_insert:
  "map_of (foldl (\<lambda>m x. btree_insert (f x) (h x) m) m0 xs) = map_of m0 ++ map_of (rev (map (\<lambda>x. (f x, h x)) xs))"
  by (induction xs arbitrary: m0) (auto simp: map_of_btree_insert map_add_assoc map_of_append fun_eq_iff map_add_def split: option.splits)

lemma map_of_rev_distinct: "distinct (map fst kvs) \<Longrightarrow> map_of (rev kvs) = map_of kvs"
  by (rule map_of_inject_set [THEN iffD2]) (simp_all flip: rev_map)

lemma map_of_selected:
  assumes "distinct (map g_name (c_groups c))" "length (c_selections c) = length (c_groups c)"
  shows "map_of (selected c) = map_of (map2 (\<lambda>g s. (g_name g, node_name c (g_members g ! s))) (c_groups c) (c_selections c))"
proof -
  let ?kvs = "map2 (\<lambda>g s. (g_name g, node_name c (g_members g ! s))) (c_groups c) (c_selections c)"
  have "map fst ?kvs = map g_name (c_groups c)" using assms(2) by (auto intro!: nth_equalityI)
  then have "map_of (rev ?kvs) = map_of ?kvs" using assms(1) by (simp add: map_of_rev_distinct del: map_map)
  then show ?thesis
    using map_of_foldl_btree_insert [of "\<lambda>(g, s). g_name g" "\<lambda>(g, s). node_name c (g_members g ! s)" "[]"
        "zip (c_groups c) (c_selections c)"]
    by (simp add: selected_def case_prod_unfold)
qed

lemma config_okD:
  assumes "config_ok c"
  shows "distinct (map g_name (c_groups c))" "length (c_selections c) = length (c_groups c)"
    "i < length (c_groups c) \<Longrightarrow> c_selections c ! i < length (g_members (c_groups c ! i))"
  using assms
  by (auto simp: config_ok_def graph_ok_def selections_ok_def list_all2_conv_all_nth)

text \<open>The choice of a group in \<open>selected\<close>: the name of the member its selection points at.\<close>

lemma selected_nth:
  assumes "config_ok c" "i < length (c_groups c)"
  shows "map_of (selected c) (g_name (c_groups c ! i))
       = Some (node_name c (g_members (c_groups c ! i) ! (c_selections c ! i)))"
proof -
  note d = config_okD [OF assms(1)]
  let ?kvs = "map2 (\<lambda>g s. (g_name g, node_name c (g_members g ! s))) (c_groups c) (c_selections c)"
  have "map fst ?kvs = map g_name (c_groups c)" using d(2) by (auto intro!: nth_equalityI)
  then have "distinct (map fst ?kvs)" using d(1) by (simp only:)
  moreover have "?kvs ! i \<in> set ?kvs" using assms(2) d(2) by (intro nth_mem) simp
  ultimately have "map_of ?kvs (g_name (c_groups c ! i))
      = Some (node_name c (g_members (c_groups c ! i) ! (c_selections c ! i)))"
    using assms(2) d(2) by (intro map_of_is_SomeI) simp_all
  then show ?thesis by (simp only: map_of_selected [OF d(1,2)])
qed

lemma selected_dom: "config_ok c \<Longrightarrow> dom (map_of (selected c)) = g_name ` set (c_groups c)"
  using map_of_selected [OF config_okD(1,2), of c] config_okD(2) [of c]
  by (force simp: dom_map_of_conv_image_fst set_zip in_set_conv_nth image_iff)

lemma group_index_unique:
  assumes "config_ok c" "i < length (c_groups c)" "j < length (c_groups c)"
  shows "g_name (c_groups c ! i) = g_name (c_groups c ! j) \<longleftrightarrow> i = j"
  using config_okD(1) [OF assms(1)] assms(2,3) by (metis length_map nth_eq_iff_index_eq nth_map)

lemma node_name_selections [simp]: "node_name (c\<lparr>c_selections := sel\<rparr>) i = node_name c i"
  by (simp add: node_name_def)

lemma select_selected:
  assumes "config_ok c" "select grp prx c = (Ok (), c')"
  shows "map_of (selected c') = (map_of (selected c))(grp \<mapsto> prx)"
proof
  fix g
  obtain i k where s: "selection c grp prx = Ok (i, k)"
    and c': "c' = c\<lparr>c_selections := (c_selections c)[i := k]\<rparr>"
    using assms(2) by (auto simp: select_def split: result.splits)
  note sel = selection_Ok [OF s]
  have ok: "config_ok c'" using select_config_ok [OF assms(1), of grp prx] assms(2) by simp
  show "map_of (selected c') g = ((map_of (selected c))(grp \<mapsto> prx)) g"
  proof (cases "g \<in> g_name ` set (c_groups c)")
    case True
    then obtain j where j: "j < length (c_groups c)" "g = g_name (c_groups c ! j)"
      by (auto simp: in_set_conv_nth)
    show ?thesis
      using selected_nth [OF ok, of j] selected_nth [OF assms(1) j(1)] j sel config_okD(2) [OF assms(1)]
        group_index_unique [OF assms(1), of j i]
      by (cases "i = j") (auto simp: c')
  next
    case False
    then have "g \<noteq> grp" using sel by auto
    have "g \<notin> dom (map_of (selected c'))" "g \<notin> dom (map_of (selected c))"
      unfolding selected_dom [OF ok] selected_dom [OF assms(1)] using False by (simp_all add: c')
    then have "map_of (selected c') g = None" "map_of (selected c) g = None" by (simp_all only: domIff not_not)
    with \<open>g \<noteq> grp\<close> show ?thesis by simp
  qed
qed

text \<open>
  Restoring a snapshot: the groups it names get the named members, the others their first member, and
  the snapshot of the current choices restores the current choices.
\<close>

lemma next_selections_spec:
  assumes "next_selections c kvs next = Ok next'" "distinct (map fst kvs)" "config_ok c"
    "selections_ok (c_groups c) next" "i < length (c_groups c)"
  shows "case map_of kvs (g_name (c_groups c ! i)) of
      Some prx \<Rightarrow> node_name c (g_members (c_groups c ! i) ! (next' ! i)) = prx
    | None \<Rightarrow> next' ! i = next ! i"
  using assms
proof (induction c kvs "next" rule: next_selections.induct)
  case (2 c grp prx rest "next")
  from 2(2) obtain j k where s: "selection c grp prx = Ok (j, k)"
      and r: "next_selections c rest (next[j := k]) = Ok next'" by (auto elim!: and_thenE)
  note sel = selection_Ok [OF s]
  have len: "length next = length (c_groups c)"
    using 2(5) by (simp add: selections_ok_def list_all2_lengthD)
  have ok: "selections_ok (c_groups c) (next[j := k])" using 2(5) sel by (simp add: selections_ok_update)
  have ih: "case map_of rest (g_name (c_groups c ! i)) of
      Some prx \<Rightarrow> node_name c (g_members (c_groups c ! i) ! (next' ! i)) = prx
    | None \<Rightarrow> next' ! i = next[j := k] ! i"
    using 2(1) [OF r _ 2(4) ok 2(6)] 2(3) by simp
  show ?case
  proof (cases "i = j")
    case True
    then have "g_name (c_groups c ! i) = grp" using sel by simp
    moreover have "map_of rest grp = None" using 2(3) by (simp add: map_of_eq_None_iff)
    ultimately show ?thesis using ih True sel len by simp
  next
    case False
    then have "g_name (c_groups c ! i) \<noteq> grp" using sel group_index_unique [OF 2(4,6), of j] by auto
    then show ?thesis using ih False by (simp split: option.splits)
  qed
qed simp

lemma next_selections_total:
  assumes "\<forall>(grp, prx)\<in>set kvs. \<exists>r. selection c grp prx = Ok r"
  shows "\<exists>next'. next_selections c kvs next = Ok next'"
  using assms
proof (induction c kvs "next" rule: next_selections.induct)
  case (2 c grp prx rest "next")
  then obtain j k where "selection c grp prx = Ok (j, k)" by auto
  then show ?case using 2 by simp
qed simp

lemma selection_current:
  assumes "config_ok c" "(grp, prx) \<in> set (selected c)" "distinct (map fst (selected c))"
  shows "\<exists>r. selection c grp prx = Ok r"
proof -
  have m: "map_of (selected c) grp = Some prx" using assms(2,3) by simp
  then obtain i where i: "i < length (c_groups c)" "grp = g_name (c_groups c ! i)"
    using selected_dom [OF assms(1)] by (metis domI imageE in_set_conv_nth)
  let ?g = "c_groups c ! i"
  have prx: "prx = node_name c (g_members ?g ! (c_selections c ! i))"
    using m selected_nth [OF assms(1) i(1)] i(2) by simp
  have "position (\<lambda>g. g_name g = grp) (c_groups c) = Some i"
    using i group_index_unique [OF assms(1)] by (auto simp: position_Some_iff)
  moreover have "position (\<lambda>node. node_name c node = prx) (g_members ?g) \<noteq> None"
    using config_okD(3) [OF assms(1) i(1)] prx by (auto simp: position_None_iff)
  ultimately show ?thesis by (auto simp: selection_def)
qed

lemma sorted_foldl_btree_insert:
  "sorted_wrt (<) (map fst m) \<Longrightarrow> sorted_wrt (<) (map fst (foldl (\<lambda>m x. btree_insert (f x) (h x) m) m xs))"
  by (induction xs arbitrary: m) (simp_all add: sorted_btree_insert)

lemma selected_sorted: "sorted_wrt (<) (map fst (selected c))"
  using sorted_foldl_btree_insert [of "[]" "\<lambda>(g, s). g_name g" "\<lambda>(g, s). node_name c (g_members g ! s)"
      "zip (c_groups c) (c_selections c)"]
  by (simp add: selected_def case_prod_unfold)

lemma selected_distinct: "distinct (map fst (selected c))"
  using selected_sorted strict_sorted_iff by blast

lemma length_selected: "config_ok c \<Longrightarrow> length (selected c) \<le> MAX_GROUPS"
proof -
  assume c: "config_ok c"
  have "length (selected c) = card (g_name ` set (c_groups c))"
    using distinct_card [OF selected_distinct, of c] selected_dom [OF c]
    by (simp add: dom_map_of_conv_image_fst)
  also have "\<dots> \<le> length (c_groups c)" by (metis card_length length_map set_map)
  finally show ?thesis using c by (simp add: config_ok_def)
qed

lemma selected_cong:
  assumes "length sel = length (c_groups c)" "length (c_selections c) = length (c_groups c)"
    "\<And>i. i < length (c_groups c) \<Longrightarrow>
       node_name c (g_members (c_groups c ! i) ! (sel ! i))
         = node_name c (g_members (c_groups c ! i) ! (c_selections c ! i))"
  shows "selected (c\<lparr>c_selections := sel\<rparr>) = selected c"
proof -
  let ?kvs = "\<lambda>s. map2 (\<lambda>g s. (g_name g, node_name c (g_members g ! s))) (c_groups c) s"
  have foldl: "foldl (\<lambda>m (g, s). btree_insert (g_name g) (node_name c (g_members g ! s)) m) [] (zip (c_groups c) s)
      = foldl (\<lambda>m (k, v). btree_insert k v m) [] (?kvs s)" for s
    by (simp add: foldl_map case_prod_unfold)
  have "?kvs sel = ?kvs (c_selections c)"
    using assms by (intro nth_equalityI) simp_all
  then show ?thesis by (simp add: selected_def foldl)
qed

lemma resolve_proxy_loop_cong:
  assumes "\<And>i. i < length gs \<Longrightarrow> g_members (gs ! i) ! (sel ! i) = g_members (gs ! i) ! (sel' ! i)"
    "selections_ok gs sel" "selections_ok gs sel'"
  shows "resolve_proxy_loop pc gs sel n i = resolve_proxy_loop pc gs sel' n i"
proof (induction n arbitrary: i)
  case (Suc n)
  show ?case
    using Suc assms(1) [of "i - pc"] selections_okD [OF assms(2), of "i - pc"]
      selections_okD [OF assms(3), of "i - pc"]
    by (auto simp: Let_def)
qed simp

lemma set_selections_selected:
  assumes "config_ok c"
  shows "\<exists>c'. set_selections (selected c) c = (Ok (), c') \<and> selected c' = selected c
     \<and> (\<forall>i. resolve_proxy c' i = resolve_proxy c i)"
proof -
  let ?first = "replicate (length (c_groups c)) 0"
  have first: "selections_ok (c_groups c) ?first"
    using assms selections_ok_default by (auto simp: config_ok_def)
  obtain sel where sel: "next_selections c (selected c) ?first = Ok sel"
    using next_selections_total [of "selected c" c] selection_current [OF assms _ selected_distinct] by blast
  have ok: "selections_ok (c_groups c) sel" by (rule next_selections_ok [OF sel first])
  have nn: "node_name c (g_members (c_groups c ! i) ! (sel ! i))
      = node_name c (g_members (c_groups c ! i) ! (c_selections c ! i))" if "i < length (c_groups c)" for i
    using next_selections_spec [OF sel selected_distinct assms first that] selected_nth [OF assms that] by simp
  then have mem: "g_members (c_groups c ! i) ! (sel ! i) = g_members (c_groups c ! i) ! (c_selections c ! i)"
    if "i < length (c_groups c)" for i
    using that node_name_inject [OF assms] member_bound [OF assms that] selections_okD [OF ok that]
      config_okD(3) [OF assms that] by blast
  have "set_selections (selected c) c = (Ok (), c\<lparr>c_selections := sel\<rparr>)"
    using length_selected [OF assms] sel by (simp add: set_selections_def)
  moreover have "selected (c\<lparr>c_selections := sel\<rparr>) = selected c"
    using ok nn config_okD(2) [OF assms]
    by (intro selected_cong) (simp_all add: selections_ok_def list_all2_lengthD)
  moreover have "resolve_proxy (c\<lparr>c_selections := sel\<rparr>) i = resolve_proxy c i" for i
    unfolding resolve_proxy_def
    using resolve_proxy_loop_cong [OF mem ok config_ok_selections_ok [OF assms]]
    by (simp del: resolve_proxy_loop.simps)
  ultimately show ?thesis by blast
qed

section \<open>The controller and the listener\<close>

lemma check_controller_Ok:
  "check_controller raw = Ok (Some a) \<Longrightarrow> sa_ip a \<in> {V4 127 0 0 1, V4 0 0 0 0} \<and> sa_port a \<noteq> 0"
  by (auto simp: check_controller_def parse_controller_endpoint_def result_simps
      split: option.splits if_splits dest: parse_port_nonzero)

lemma build_config_fields:
  "build_config E document raw controller address assets = Ok c \<Longrightarrow>
     c_controller c = controller \<and> c_bind_address c = address \<and> c_document c = document"
  unfolding build_config_def
  by (elim and_thenE) (auto simp: Let_def lift_err_Ok_iff split: prod.splits if_splits elim!: and_thenE)

lemma check_bind_address_Ok:
  "check_bind_address raw = Ok a \<Longrightarrow> rc_allow_lan raw \<or> is_loopback a"
  by (auto simp: check_bind_address_def and_then_Ok_iff split: if_splits)

lemma parse_inner_controller:
  assumes "parse_inner E source assets = Ok c" "c_controller c = Some a"
  shows "sa_ip a \<in> {V4 127 0 0 1, V4 0 0 0 0} \<and> sa_port a \<noteq> 0"
  using assms(1)
proof (rule parse_inner_build)
  fix document raw controller address
  assume k: "check_controller raw = Ok controller"
    and b: "build_config E document raw controller address assets = Ok c"
  have "controller = Some a" using build_config_fields [OF b] assms(2) by simp
  then show ?thesis using k check_controller_Ok by simp
qed

text \<open>Credentials: replace every password of a node.\<close>

fun replace_password :: "string \<Rightarrow> proxy_kind \<Rightarrow> proxy_kind" where
  "replace_password pw (Shadowsocks h n _ c) = Shadowsocks h n pw c"
| "replace_password pw (AnyTls h n _ sni skip) = AnyTls h n pw sni skip"
| "replace_password pw (Trojan h n _ sni skip) = Trojan h n pw sni skip"
| "replace_password pw k = k"

definition replace_passwords :: "(nat \<Rightarrow> string) \<Rightarrow> 'net config \<Rightarrow> 'net config" where
  "replace_passwords f c = c\<lparr>c_proxies := map2 (\<lambda>i p. p\<lparr>p_kind := replace_password (f i) (p_kind p)\<rparr>)
     [0..<length (c_proxies c)] (c_proxies c)\<rparr>"

lemma proxy_json_replace [simp]: "proxy_json (p\<lparr>p_kind := replace_password pw (p_kind p)\<rparr>) = proxy_json p"
  by (cases "p_kind p") (simp_all add: proxy_json_def kind_name_def)

lemma proxies_json_replace: "proxies_json (replace_passwords f c) = proxies_json c"
proof -
  have "map proxy_json (map2 (\<lambda>i p. p\<lparr>p_kind := replace_password (f i) (p_kind p)\<rparr>)
      [0..<length (c_proxies c)] (c_proxies c)) = map proxy_json (c_proxies c)"
    by (rule nth_equalityI) simp_all
  then have "map proxy_json (drop 2 (map2 (\<lambda>i p. p\<lparr>p_kind := replace_password (f i) (p_kind p)\<rparr>)
      [0..<length (c_proxies c)] (c_proxies c))) = map proxy_json (drop 2 (c_proxies c))"
    by (metis drop_map)
  then show ?thesis by (simp add: proxies_json_def replace_passwords_def)
qed

end
