(* ===== verification/Geoip.thy ===== *)
theory Geoip
  imports Rust_Net
begin

text \<open>
  The country table (\<open>src/src/config.rs\<close>, \<open>geoip_country\<close>): the ranges of the source, one definition
  per country in the order of the table, and the first-match lookup.  The lemmas characterise the
  lookup and show which part of the table it can never reach.
\<close>

section \<open>The table\<close>

definition geoip_CN :: "(u32 \<times> u32 \<times> string) list" where
  "geoip_CN =
     [(0x01000000, 0x01ffffff, ''CN''),
      (0x0a000000, 0x0affffff, ''CN''),
      (0x22300000, 0x223fffff, ''CN''),
      (0x2e000000, 0x2effffff, ''CN''),
      (0x3a800000, 0x3abfffff, ''CN''),
      (0x3c000000, 0x3dffffff, ''CN''),
      (0x3e000000, 0x3effffff, ''CN''),
      (0x59300000, 0x593fffff, ''CN''),
      (0x63000000, 0x63ffffff, ''CN''),
      (0x67000000, 0x67ffffff, ''CN''),
      (0xa0000000, 0xa000ffff, ''CN''),
      (0xa1a80000, 0xa1a8ffff, ''CN''),
      (0xac100000, 0xac1fffff, ''CN''),
      (0xb7000000, 0xb7ffffff, ''CN''),
      (0xbc000000, 0xbdffffff, ''CN''),
      (0xc0000000, 0xc0ffffff, ''CN''),
      (0xd8000000, 0xdfffffff, ''CN'')]"

definition geoip_US :: "(u32 \<times> u32 \<times> string) list" where
  "geoip_US =
     [(0x01000000, 0x01ffffff, ''US''),
      (0x02000000, 0x02ffffff, ''US''),
      (0x03000000, 0x03ffffff, ''US''),
      (0x04000000, 0x04ffffff, ''US''),
      (0x06000000, 0x07ffffff, ''US''),
      (0x08000000, 0x08ffffff, ''US''),
      (0x09000000, 0x09ffffff, ''US''),
      (0x0b000000, 0x0bffffff, ''US''),
      (0x0c000000, 0x0dffffff, ''US''),
      (0x0e000000, 0x0effffff, ''US''),
      (0x11000000, 0x11ffffff, ''US''),
      (0x12000000, 0x12ffffff, ''US''),
      (0x17000000, 0x17ffffff, ''US''),
      (0x18000000, 0x18ffffff, ''US''),
      (0x1a000000, 0x1affffff, ''US''),
      (0x1b000000, 0x1bffffff, ''US''),
      (0x1c000000, 0x1cffffff, ''US''),
      (0x1d000000, 0x1dffffff, ''US''),
      (0x1e000000, 0x1effffff, ''US''),
      (0x1f000000, 0x1fffffff, ''US''),
      (0x20000000, 0x20ffffff, ''US''),
      (0x21000000, 0x21ffffff, ''US''),
      (0x22000000, 0x22ffffff, ''US''),
      (0x23000000, 0x23ffffff, ''US''),
      (0x24000000, 0x24ffffff, ''US''),
      (0x26000000, 0x26ffffff, ''US''),
      (0x27000000, 0x27ffffff, ''US''),
      (0x28000000, 0x28ffffff, ''US''),
      (0x29000000, 0x29ffffff, ''US''),
      (0x2a000000, 0x2affffff, ''US''),
      (0x2b000000, 0x2bffffff, ''US''),
      (0x2c000000, 0x2cffffff, ''US''),
      (0x2d000000, 0x2dffffff, ''US''),
      (0x2f000000, 0x2fffffff, ''US''),
      (0x30000000, 0x30ffffff, ''US''),
      (0x32000000, 0x32ffffff, ''US''),
      (0x33000000, 0x33ffffff, ''US''),
      (0x34000000, 0x35ffffff, ''US''),
      (0x36000000, 0x37ffffff, ''US''),
      (0x38000000, 0x39ffffff, ''US''),
      (0x3f000000, 0x3fffffff, ''US''),
      (0x44000000, 0x45ffffff, ''US''),
      (0x47000000, 0x47ffffff, ''US''),
      (0x48000000, 0x48ffffff, ''US''),
      (0x49000000, 0x49ffffff, ''US''),
      (0x4a000000, 0x4affffff, ''US''),
      (0x4b000000, 0x4bffffff, ''US''),
      (0x4c000000, 0x4cffffff, ''US''),
      (0x4d000000, 0x4dffffff, ''US''),
      (0x4e000000, 0x4fffffff, ''US''),
      (0x50000000, 0x50ffffff, ''US''),
      (0x52000000, 0x52ffffff, ''US''),
      (0x53000000, 0x53ffffff, ''US''),
      (0x54000000, 0x55ffffff, ''US''),
      (0x8b000000, 0x8bffffff, ''US''),
      (0x8d000000, 0x8dffffff, ''US''),
      (0x8e000000, 0x8effffff, ''US''),
      (0x91000000, 0x91ffffff, ''US''),
      (0x96000000, 0x96ffffff, ''US''),
      (0x98000000, 0x98ffffff, ''US''),
      (0x99000000, 0x99ffffff, ''US''),
      (0xc0000200, 0xc00002ff, ''US''),
      (0xc0586300, 0xc05863ff, ''US''),
      (0xc6120000, 0xc613ffff, ''US''),
      (0xc7000000, 0xc7ffffff, ''US'')]"

definition geoip_JP :: "(u32 \<times> u32 \<times> string) list" where
  "geoip_JP =
     [(0x29000000, 0x29ffffff, ''JP''),
      (0x51000000, 0x51ffffff, ''JP''),
      (0x60000000, 0x60ffffff, ''JP''),
      (0x76000000, 0x76ffffff, ''JP''),
      (0x8a000000, 0x8affffff, ''JP''),
      (0xa2000000, 0xa2ffffff, ''JP''),
      (0xa9000000, 0xa9ffffff, ''JP''),
      (0xc2000000, 0xc2ffffff, ''JP''),
      (0xc5000000, 0xc5ffffff, ''JP''),
      (0xc6000000, 0xc6ffffff, ''JP'')]"

definition geoip_HK :: "(u32 \<times> u32 \<times> string) list" where
  "geoip_HK =
     [(0x2b000000, 0x2bffffff, ''HK''),
      (0x3b400000, 0x3b7fffff, ''HK''),
      (0x57000000, 0x57ffffff, ''HK''),
      (0x61000000, 0x61ffffff, ''HK''),
      (0xa1000000, 0xa1ffffff, ''HK''),
      (0xce000000, 0xceffffff, ''HK''),
      (0xcf000000, 0xcfffffff, ''HK'')]"

definition geoip_SG :: "(u32 \<times> u32 \<times> string) list" where
  "geoip_SG =
     [(0x2f000000, 0x2fffffff, ''SG''),
      (0x3e800000, 0x3e8fffff, ''SG''),
      (0x67000000, 0x67ffffff, ''SG''),
      (0x8c000000, 0x8cffffff, ''SG''),
      (0xc1000000, 0xc1ffffff, ''SG'')]"

definition geoip_KR :: "(u32 \<times> u32 \<times> string) list" where
  "geoip_KR =
     [(0x3a000000, 0x3a3fffff, ''KR''),
      (0x57000000, 0x57ffffff, ''KR''),
      (0x7a000000, 0x7affffff, ''KR''),
      (0xa5000000, 0xa5ffffff, ''KR''),
      (0xd5000000, 0xd5ffffff, ''KR''),
      (0xd9000000, 0xd9ffffff, ''KR''),
      (0xe0000000, 0xe0ffffff, ''KR'')]"

definition geoip_RU :: "(u32 \<times> u32 \<times> string) list" where
  "geoip_RU =
     [(0x05000000, 0x05ffffff, ''RU''),
      (0x1f000000, 0x1f1fffff, ''RU''),
      (0x2d000000, 0x2dffffff, ''RU''),
      (0x5f000000, 0x5fffffff, ''RU''),
      (0x77000000, 0x77ffffff, ''RU''),
      (0x7b000000, 0x7bffffff, ''RU''),
      (0x85000000, 0x85ffffff, ''RU''),
      (0x8f000000, 0x8fffffff, ''RU''),
      (0x90000000, 0x90ffffff, ''RU''),
      (0x92000000, 0x92ffffff, ''RU''),
      (0x94000000, 0x94ffffff, ''RU''),
      (0x9d000000, 0x9dffffff, ''RU''),
      (0xb3000000, 0xb3ffffff, ''RU''),
      (0xb7000000, 0xb7ffffff, ''RU''),
      (0xc2000000, 0xc2ffffff, ''RU''),
      (0xc7000000, 0xc7ffffff, ''RU''),
      (0xcb000000, 0xcbffffff, ''RU''),
      (0xd4000000, 0xd4ffffff, ''RU''),
      (0xd8000000, 0xd8ffffff, ''RU'')]"

definition geoip_GB :: "(u32 \<times> u32 \<times> string) list" where
  "geoip_GB =
     [(0x02000000, 0x02ffffff, ''GB''),
      (0x1e000000, 0x1effffff, ''GB''),
      (0x5c000000, 0x5dffffff, ''GB''),
      (0x81000000, 0x81ffffff, ''GB''),
      (0x8b000000, 0x8bffffff, ''GB''),
      (0xa3000000, 0xa3ffffff, ''GB''),
      (0xb1000000, 0xb1ffffff, ''GB''),
      (0xb2000000, 0xb2ffffff, ''GB''),
      (0xb3000000, 0xb3ffffff, ''GB''),
      (0xb8000000, 0xb8ffffff, ''GB''),
      (0xb9000000, 0xb9ffffff, ''GB''),
      (0xc3000000, 0xc3ffffff, ''GB''),
      (0xc4000000, 0xc4ffffff, ''GB'')]"

definition geoip_DE :: "(u32 \<times> u32 \<times> string) list" where
  "geoip_DE =
     [(0x03000000, 0x03ffffff, ''DE''),
      (0x2f000000, 0x2fffffff, ''DE''),
      (0x4d000000, 0x4dffffff, ''DE''),
      (0x53000000, 0x53ffffff, ''DE''),
      (0x78000000, 0x79ffffff, ''DE''),
      (0x87000000, 0x87ffffff, ''DE''),
      (0x93000000, 0x93ffffff, ''DE''),
      (0xa0000000, 0xa0ffffff, ''DE''),
      (0xa4000000, 0xa4ffffff, ''DE''),
      (0xae000000, 0xaeffffff, ''DE''),
      (0xba000000, 0xbaffffff, ''DE''),
      (0xc3000000, 0xc3ffffff, ''DE'')]"

definition geoip_FR :: "(u32 \<times> u32 \<times> string) list" where
  "geoip_FR =
     [(0x05000000, 0x05ffffff, ''FR''),
      (0x50000000, 0x50ffffff, ''FR''),
      (0x5a000000, 0x5affffff, ''FR''),
      (0x5f000000, 0x5fffffff, ''FR''),
      (0x81000000, 0x81ffffff, ''FR''),
      (0x83000000, 0x83ffffff, ''FR''),
      (0x88000000, 0x88ffffff, ''FR''),
      (0x89000000, 0x89ffffff, ''FR''),
      (0x90000000, 0x90ffffff, ''FR''),
      (0x93000000, 0x93ffffff, ''FR''),
      (0x9a000000, 0x9affffff, ''FR''),
      (0xa7000000, 0xa7ffffff, ''FR''),
      (0xa9000000, 0xa9ffffff, ''FR''),
      (0xbc000000, 0xbcffffff, ''FR''),
      (0xc0000000, 0xc0ffffff, ''FR'')]"

definition geoip_AU :: "(u32 \<times> u32 \<times> string) list" where
  "geoip_AU =
     [(0x01000000, 0x01ffffff, ''AU''),
      (0x1e000000, 0x1effffff, ''AU''),
      (0x27000000, 0x27ffffff, ''AU''),
      (0x2e000000, 0x2effffff, ''AU''),
      (0x3b000000, 0x3bffffff, ''AU''),
      (0x61000000, 0x61ffffff, ''AU''),
      (0x97000000, 0x97ffffff, ''AU''),
      (0x9e000000, 0x9effffff, ''AU''),
      (0xa5000000, 0xa5ffffff, ''AU''),
      (0xb7000000, 0xb7ffffff, ''AU''),
      (0xbd000000, 0xbdffffff, ''AU''),
      (0xc0000000, 0xc0ffffff, ''AU''),
      (0xc1000000, 0xc1ffffff, ''AU''),
      (0xc7000000, 0xc7ffffff, ''AU''),
      (0xce000000, 0xceffffff, ''AU''),
      (0xd4000000, 0xd4ffffff, ''AU''),
      (0xd9000000, 0xd9ffffff, ''AU'')]"

definition geoip_CA :: "(u32 \<times> u32 \<times> string) list" where
  "geoip_CA =
     [(0x02000000, 0x02ffffff, ''CA''),
      (0x0a000000, 0x0affffff, ''CA''),
      (0x1c000000, 0x1cffffff, ''CA''),
      (0x1f000000, 0x1fffffff, ''CA''),
      (0x24000000, 0x24ffffff, ''CA''),
      (0x2f000000, 0x2fffffff, ''CA''),
      (0x3a000000, 0x3affffff, ''CA''),
      (0x47000000, 0x47ffffff, ''CA''),
      (0x4a000000, 0x4affffff, ''CA''),
      (0x54000000, 0x55ffffff, ''CA''),
      (0x63000000, 0x63ffffff, ''CA''),
      (0x64000000, 0x65ffffff, ''CA''),
      (0x69000000, 0x69ffffff, ''CA''),
      (0x6c000000, 0x6cffffff, ''CA''),
      (0x71000000, 0x71ffffff, ''CA''),
      (0x72000000, 0x72ffffff, ''CA''),
      (0x7d000000, 0x7dffffff, ''CA''),
      (0x80000000, 0x80ffffff, ''CA''),
      (0x84000000, 0x84ffffff, ''CA''),
      (0x86000000, 0x86ffffff, ''CA''),
      (0x8c000000, 0x8cffffff, ''CA''),
      (0x92000000, 0x92ffffff, ''CA''),
      (0x96000000, 0x96ffffff, ''CA''),
      (0x9a000000, 0x9affffff, ''CA''),
      (0xa3000000, 0xa3ffffff, ''CA''),
      (0xa6000000, 0xa6ffffff, ''CA''),
      (0xa7000000, 0xa7ffffff, ''CA''),
      (0xb2000000, 0xb2ffffff, ''CA''),
      (0xb4000000, 0xb4ffffff, ''CA''),
      (0xb8000000, 0xb8ffffff, ''CA''),
      (0xc2000000, 0xc2ffffff, ''CA''),
      (0xc3000000, 0xc3ffffff, ''CA''),
      (0xc4000000, 0xc4ffffff, ''CA''),
      (0xc5000000, 0xc5ffffff, ''CA''),
      (0xc7000000, 0xc7ffffff, ''CA''),
      (0xca000000, 0xcaffffff, ''CA''),
      (0xd4000000, 0xd4ffffff, ''CA''),
      (0xd6000000, 0xd6ffffff, ''CA'')]"

definition geoip_NL :: "(u32 \<times> u32 \<times> string) list" where
  "geoip_NL =
     [(0x05000000, 0x05ffffff, ''NL''),
      (0x31000000, 0x31ffffff, ''NL''),
      (0x4d000000, 0x4dffffff, ''NL''),
      (0x81000000, 0x81ffffff, ''NL''),
      (0x83000000, 0x83ffffff, ''NL''),
      (0x91000000, 0x91ffffff, ''NL''),
      (0x94000000, 0x94ffffff, ''NL''),
      (0x9d000000, 0x9dffffff, ''NL''),
      (0xa2000000, 0xa2ffffff, ''NL''),
      (0xa9000000, 0xa9ffffff, ''NL''),
      (0xba000000, 0xbaffffff, ''NL''),
      (0xc0000000, 0xc0ffffff, ''NL''),
      (0xc1000000, 0xc1ffffff, ''NL''),
      (0xc2000000, 0xc2ffffff, ''NL''),
      (0xc3000000, 0xc3ffffff, ''NL'')]"

definition geoip_IN :: "(u32 \<times> u32 \<times> string) list" where
  "geoip_IN =
     [(0x01000000, 0x01ffffff, ''IN''),
      (0x2f000000, 0x2fffffff, ''IN''),
      (0x59000000, 0x59ffffff, ''IN''),
      (0x61000000, 0x61ffffff, ''IN''),
      (0x9e000000, 0x9effffff, ''IN''),
      (0xa4000000, 0xa4ffffff, ''IN''),
      (0xc0000000, 0xc0ffffff, ''IN'')]"

definition geoip_TW :: "(u32 \<times> u32 \<times> string) list" where
  "geoip_TW =
     [(0x01000000, 0x01ffffff, ''TW''),
      (0x3b400000, 0x3b7fffff, ''TW''),
      (0x57000000, 0x57ffffff, ''TW''),
      (0x61000000, 0x61ffffff, ''TW''),
      (0xa1000000, 0xa1ffffff, ''TW''),
      (0xce000000, 0xceffffff, ''TW''),
      (0xcf000000, 0xcfffffff, ''TW'')]"

definition geoip_BR :: "(u32 \<times> u32 \<times> string) list" where
  "geoip_BR =
     [(0x01000000, 0x01ffffff, ''BR''),
      (0x5f000000, 0x5fffffff, ''BR''),
      (0x64000000, 0x65ffffff, ''BR''),
      (0x8d000000, 0x8dffffff, ''BR''),
      (0x96000000, 0x96ffffff, ''BR''),
      (0xa9000000, 0xa9ffffff, ''BR''),
      (0xb1000000, 0xb1ffffff, ''BR''),
      (0xb2000000, 0xb2ffffff, ''BR''),
      (0xb7000000, 0xb7ffffff, ''BR''),
      (0xbd000000, 0xbdffffff, ''BR''),
      (0xc0000000, 0xc0ffffff, ''BR''),
      (0xc1000000, 0xc1ffffff, ''BR''),
      (0xc2000000, 0xc2ffffff, ''BR''),
      (0xc3000000, 0xc3ffffff, ''BR''),
      (0xc4000000, 0xc4ffffff, ''BR''),
      (0xc5000000, 0xc5ffffff, ''BR''),
      (0xc7000000, 0xc7ffffff, ''BR''),
      (0xc8000000, 0xc8ffffff, ''BR''),
      (0xc9000000, 0xc9ffffff, ''BR''),
      (0xca000000, 0xcaffffff, ''BR''),
      (0xcb000000, 0xcbffffff, ''BR''),
      (0xcc000000, 0xccffffff, ''BR''),
      (0xcd000000, 0xcdffffff, ''BR''),
      (0xce000000, 0xceffffff, ''BR''),
      (0xcf000000, 0xcfffffff, ''BR'')]"

definition ENTRIES :: "(u32 \<times> u32 \<times> string) list" where
  "ENTRIES = geoip_CN @ geoip_US @ geoip_JP @ geoip_HK @ geoip_SG @ geoip_KR @ geoip_RU @ geoip_GB @ geoip_DE @ geoip_FR @ geoip_AU @ geoip_CA @ geoip_NL @ geoip_IN @ geoip_TW @ geoip_BR"

section \<open>The lookup\<close>

definition geoip_country :: "ip_addr \<Rightarrow> string option" where
  "geoip_country ip = (case ip of
       V6 _ _ _ _ _ _ _ _ \<Rightarrow> None
     | V4 a b c d \<Rightarrow>
         let n = u32_from_be a b c d
         in map_option (\<lambda>x. snd (snd x)) (find (\<lambda>(start, stop, _). start \<le> n \<and> n \<le> stop) ENTRIES))"

lemma geoip_country_V6 [simp]: "geoip_country (V6 a b c d e f g h) = None"
  by (simp add: geoip_country_def)

definition in_range :: "u32 \<Rightarrow> u32 \<times> u32 \<times> string \<Rightarrow> bool" where
  "in_range n e \<longleftrightarrow> fst e \<le> n \<and> n \<le> fst (snd e)"

lemma geoip_country_V4:
  "geoip_country (V4 a b c d) = map_option (\<lambda>x. snd (snd x)) (find (in_range (u32_from_be a b c d)) ENTRIES)"
  by (simp add: geoip_country_def Let_def in_range_def [abs_def] case_prod_unfold)

lemma geoip_country_V4_iff:
  "geoip_country (V4 a b c d) = Some country \<longleftrightarrow>
     (\<exists>i<length ENTRIES. snd (snd (ENTRIES ! i)) = country \<and> in_range (u32_from_be a b c d) (ENTRIES ! i)
        \<and> (\<forall>j<i. \<not> in_range (u32_from_be a b c d) (ENTRIES ! j)))"
  by (simp add: geoip_country_V4 find_Some_iff del: split_paired_Ex) blast

lemma find_append: "find P (xs @ ys) = (case find P xs of None \<Rightarrow> find P ys | Some x \<Rightarrow> Some x)"
  by (induction xs) auto

text \<open>The ranges of \<open>TW\<close> are all ranges of earlier countries, so no address has that country.\<close>

definition before_TW :: "(u32 \<times> u32 \<times> string) list" where
  "before_TW = geoip_CN @ geoip_US @ geoip_JP @ geoip_HK @ geoip_SG @ geoip_KR @ geoip_RU @ geoip_GB
     @ geoip_DE @ geoip_FR @ geoip_AU @ geoip_CA @ geoip_NL @ geoip_IN"

lemma ENTRIES_TW: "ENTRIES = before_TW @ geoip_TW @ geoip_BR"
  by (simp add: ENTRIES_def before_TW_def)

lemma other_countries:
  "list_all (\<lambda>e. snd (snd e) \<noteq> ''TW'') before_TW" "list_all (\<lambda>e. snd (snd e) \<noteq> ''TW'') geoip_BR"
  by code_simp+

lemma TW_shadowed:
  "list_all (\<lambda>t. list_ex (\<lambda>e. fst e = fst t \<and> fst (snd e) = fst (snd t)) (geoip_CN @ geoip_HK)) geoip_TW"
  by code_simp

lemma geoip_country_not_TW: "geoip_country ip \<noteq> Some ''TW''"
proof (cases ip)
  case (V4 a b c d)
  let ?P = "in_range (u32_from_be a b c d)"
  have pre: "\<forall>e\<in>set before_TW. snd (snd e) \<noteq> ''TW''" and post: "\<forall>e\<in>set geoip_BR. snd (snd e) \<noteq> ''TW''"
    using other_countries by (simp_all only: list_all_iff)
  have tw: "find ?P geoip_TW = None" if none: "find ?P before_TW = None"
  proof -
    have "\<not> ?P t" if "t \<in> set geoip_TW" for t
    proof -
      have "\<exists>e\<in>set (geoip_CN @ geoip_HK). fst e = fst t \<and> fst (snd e) = fst (snd t)"
        using TW_shadowed that unfolding list_all_iff list_ex_iff by blast
      moreover have "set (geoip_CN @ geoip_HK) \<subseteq> set before_TW" unfolding before_TW_def set_append by blast
      ultimately obtain e where "e \<in> set before_TW" "fst e = fst t" "fst (snd e) = fst (snd t)" by blast
      moreover from this have "\<not> ?P e" using none by (simp add: find_None_iff del: split_paired_All split_paired_Ex)
      ultimately show ?thesis by (simp add: in_range_def)
    qed
    then show ?thesis by (simp add: find_None_iff del: split_paired_All split_paired_Ex)
  qed
  have "snd (snd e) \<noteq> ''TW''" if "find ?P ENTRIES = Some e" for e
  proof (cases "find ?P before_TW")
    case None
    then have "find ?P geoip_BR = Some e" using that tw by (simp add: ENTRIES_TW find_append)
    then show ?thesis using post by (auto simp: find_Some_iff)
  next
    case (Some x)
    then have "x = e" using that by (simp add: ENTRIES_TW find_append)
    then show ?thesis using Some pre by (auto simp: find_Some_iff)
  qed
  then show ?thesis using V4 by (auto simp: geoip_country_V4)
qed simp

end
