(* ===== verification/Dns.thy ===== *)
theory Dns
  imports Target
begin

text \<open>
  The resolver (\<open>src/src/dns.rs\<close>): \<open>validate_config\<close> and \<open>resolve_inner\<close>.  The Hickory resolver is not
  part of the repository: what it answers for a name is the argument \<open>lookup\<close>.  The semaphore is the
  number of free slots.  The lemmas show that a successful answer has between 1 and 64 addresses and
  that an address literal needs neither a slot nor a lookup.
\<close>

definition DNS_LIMIT :: nat where "DNS_LIMIT = 64"

datatype dns_error =
    Concurrency
  | ResolverUnavailable
  | LookupFailed
  | TimedOut
  | AddressCount
  | NoNameservers
  | ConfigLimit

text \<open>What the resolver library answers, within or after the time limit.\<close>

datatype dns_answer =
    NoResolver
  | Failed
  | Silent
  | Addresses "ip_addr list"

definition validate_resolver :: "nat list \<Rightarrow> nat \<Rightarrow> (unit, dns_error) result" where
  "validate_resolver server_connections search =
     (if server_connections = [] then Err NoNameservers
      else if DNS_LIMIT < length server_connections \<or> DNS_LIMIT < search
              \<or> DNS_LIMIT < sum_list server_connections then Err ConfigLimit
      else Ok ())"

definition resolve_inner ::
  "nat \<Rightarrow> (string \<Rightarrow> dns_answer) \<Rightarrow> target \<Rightarrow> (ip_addr list, dns_error) result" where
  "resolve_inner free lookup t = (case parse_ip (t_host t) of
       Some ip \<Rightarrow> Ok [ip]
     | None \<Rightarrow>
         if free < 2 then Err Concurrency
         else case lookup (t_host t) of
             NoResolver \<Rightarrow> Err ResolverUnavailable
           | Failed \<Rightarrow> Err LookupFailed
           | Silent \<Rightarrow> Err TimedOut
           | Addresses ips \<Rightarrow>
               let addresses = take (DNS_LIMIT + 1) ips
               in if addresses = [] \<or> DNS_LIMIT < length addresses then Err AddressCount
                  else Ok addresses)"

lemma resolve_inner_Ok:
  "resolve_inner free lookup t = Ok ips \<Longrightarrow> ips \<noteq> [] \<and> length ips \<le> DNS_LIMIT"
  by (auto simp: resolve_inner_def Let_def DNS_LIMIT_def split: option.splits if_splits dns_answer.splits)

lemma resolve_inner_literal:
  "parse_ip (t_host t) = Some ip \<Longrightarrow> resolve_inner free lookup t = Ok [ip]"
  by (simp add: resolve_inner_def)

end
