(* ===== verification/Config_Route.thy ===== *)
theory Config_Route
  imports Config Geoip Dns
begin

text \<open>
  Routing (\<open>src/src/config.rs\<close>, \<open>Config::route_inner\<close>): the rules are tried in order; an address rule on
  a domain name needs the addresses of the name, which are looked up once and kept.

  The resolver is a state transformer \<open>D\<close>: it gets the world and the target and returns an answer and
  the next world, so that every lookup is visible in the world.  The lemmas show that the loop is a
  first-match search over one snapshot of addresses, that a literal address never causes a lookup, that
  at most one lookup is made, and when the routed target is an address of the snapshot rather than the
  name.
\<close>

section \<open>The loop\<close>

record match_context =
  source_ip :: "ip_addr option"
  source_port :: "u16 option"
  process_name :: "string option"

record route =
  rt_rule_index :: nat
  rt_leaf_index :: nat
  rt_target :: target

datatype route_error =
    RouteDns dns_error
  | RouteTarget target_error
  | NoRuleMatched
  | RoutePanic

type_synonym 'w dns = "'w \<Rightarrow> target \<Rightarrow> (ip_addr list, dns_error) result \<times> 'w"

definition literal_ip :: "target \<Rightarrow> ip_addr option" where
  "literal_ip t = parse_ip (t_host t)"

definition target_domain :: "target \<Rightarrow> string option" where
  "target_domain t = (if literal_ip t = None then Some (canonical_domain (t_host t)) else None)"

fun resolves :: "'net matcher \<Rightarrow> bool" where
  "resolves (Ip _ no_resolve) = (\<not> no_resolve)"
| "resolves (GeoIp _ no_resolve) = (\<not> no_resolve)"
| "resolves _ = False"

definition domain_suffix_matches :: "string \<Rightarrow> string \<Rightarrow> bool" where
  "domain_suffix_matches suffix domain \<longleftrightarrow> domain = suffix
     \<or> (case strip_suffix suffix domain of Some prefix \<Rightarrow> ends_with ''.'' prefix | None \<Rightarrow> False)"

text \<open>
  The test of an address rule on one address, and the tests of the other rules, which need no address.
\<close>

fun address_test :: "'net ipnet \<Rightarrow> 'net matcher \<Rightarrow> ip_addr \<Rightarrow> bool" where
  "address_test N (Ip network _) ip = net_contains N network ip"
| "address_test N (GeoIp country _) ip = (geoip_country ip = Some country)"
| "address_test N _ ip = False"

fun plain_test :: "'net ipnet \<Rightarrow> target \<Rightarrow> match_context \<Rightarrow> 'net matcher \<Rightarrow> bool" where
  "plain_test N t ctx MatchAll = True"
| "plain_test N t ctx (SourceIp network) =
     (case source_ip ctx of None \<Rightarrow> False | Some ip \<Rightarrow> net_contains N network ip)"
| "plain_test N t ctx (SourcePort lo hi) =
     (case source_port ctx of None \<Rightarrow> False | Some p \<Rightarrow> lo \<le> p \<and> p \<le> hi)"
| "plain_test N t ctx (ProcessName name) =
     (case process_name ctx of None \<Rightarrow> False | Some p \<Rightarrow> p = name)"
| "plain_test N t ctx (DestinationPort lo hi) = (lo \<le> t_port t \<and> t_port t \<le> hi)"
| "plain_test N t ctx (Domain expected) =
     (case target_domain t of None \<Rightarrow> False | Some d \<Rightarrow> d = expected)"
| "plain_test N t ctx (DomainSuffix suffix) =
     (case target_domain t of None \<Rightarrow> False | Some d \<Rightarrow> domain_suffix_matches suffix d)"
| "plain_test N t ctx (DomainKeyword keyword) =
     (case target_domain t of None \<Rightarrow> False | Some d \<Rightarrow> contains_sub keyword d)"
| "plain_test N t ctx _ = False"

fun is_address_rule :: "'net matcher \<Rightarrow> bool" where
  "is_address_rule (Ip _ _) = True"
| "is_address_rule (GeoIp _ _) = True"
| "is_address_rule _ = False"

text \<open>The \<open>match\<close> of one iteration: whether the rule matches, the pinned address, the addresses.\<close>

definition match_rule ::
  "'net ipnet \<Rightarrow> 'w dns \<Rightarrow> target \<Rightarrow> match_context \<Rightarrow> 'net matcher \<Rightarrow> ip_addr list option \<Rightarrow> 'w
   \<Rightarrow> (bool \<times> ip_addr option \<times> ip_addr list option, route_error) result \<times> 'w" where
  "match_rule N D t ctx m resolved w =
     (if is_address_rule m
      then case literal_ip t of
          Some ip \<Rightarrow> (Ok (address_test N m ip, None, resolved), w)
        | None \<Rightarrow>
            if \<not> resolves m then (Ok (False, None, resolved), w)
            else let (answer, w') = (case resolved of
                         Some addresses \<Rightarrow> (Ok addresses, w)
                       | None \<Rightarrow> (case D w t of (r, w') \<Rightarrow> (lift_err RouteDns r, w')))
                 in (and_then answer (\<lambda>addresses.
                       let pinned = find (address_test N m) addresses
                       in Ok (pinned \<noteq> None, pinned, Some addresses)), w')
      else (Ok (plain_test N t ctx m, None, resolved), w))"

definition is_remote :: "proxy_kind \<Rightarrow> bool" where
  "is_remote k = (case k of Shadowsocks _ _ _ _ \<Rightarrow> True | Trojan _ _ _ _ _ \<Rightarrow> True
     | AnyTls _ _ _ _ _ \<Rightarrow> True | _ \<Rightarrow> False)"

text \<open>Whether the rule's proxy is statically \<open>DIRECT\<close>; a group index is outside the proxies.\<close>

definition static_direct :: "'net config \<Rightarrow> 'net rule \<Rightarrow> bool" where
  "static_direct c r \<longleftrightarrow> r_proxy r < length (c_proxies c) \<and> p_kind (c_proxies c ! r_proxy r) = Direct"

text \<open>The \<open>if matched\<close> block: the address to pin, the target, the route.\<close>

definition pin_address ::
  "bool \<Rightarrow> ip_addr option \<Rightarrow> ip_addr list option \<Rightarrow> (ip_addr option, route_error) result" where
  "pin_address remote_domain pinned resolved = (case pinned of
       Some ip \<Rightarrow> Ok (Some ip)
     | None \<Rightarrow>
         if remote_domain then Ok None
         else (case resolved of
             None \<Rightarrow> Ok None
           | Some [] \<Rightarrow> Err RoutePanic
           | Some (a # _) \<Rightarrow> Ok (Some a)))"

definition pinned_target :: "target \<Rightarrow> ip_addr option \<Rightarrow> (target, route_error) result" where
  "pinned_target t pinned = (case pinned of
       Some ip \<Rightarrow> lift_err RouteTarget (target_new (ip_string ip) (t_port t))
     | None \<Rightarrow> Ok t)"

definition finish_route ::
  "'net config \<Rightarrow> target \<Rightarrow> nat \<Rightarrow> 'net rule \<Rightarrow> bool \<Rightarrow> ip_addr option \<Rightarrow> ip_addr list option
   \<Rightarrow> (route, route_error) result" where
  "finish_route c t index r allowed pinned resolved = (case resolve_proxy c (r_proxy r) of
       None \<Rightarrow> Err RoutePanic
     | Some leaf \<Rightarrow>
         if length (c_proxies c) \<le> leaf then Err RoutePanic
         else let remote_domain = (allowed \<and> is_remote (p_kind (c_proxies c ! leaf)))
         in and_then (pin_address remote_domain pinned resolved) (\<lambda>pinned.
            and_then (pinned_target t pinned) (\<lambda>target.
            Ok \<lparr>rt_rule_index = index, rt_leaf_index = leaf, rt_target = target\<rparr>)))"

fun route_loop ::
  "'net ipnet \<Rightarrow> 'w dns \<Rightarrow> 'net config \<Rightarrow> target \<Rightarrow> match_context \<Rightarrow> 'net rule list \<Rightarrow> nat \<Rightarrow> bool
   \<Rightarrow> ip_addr list option \<Rightarrow> 'w \<Rightarrow> (route, route_error) result \<times> 'w" where
  "route_loop N D c t ctx [] index allowed resolved w = (Err NoRuleMatched, w)"
| "route_loop N D c t ctx (r # rs) index allowed resolved w =
     (let allowed' = (if resolves (r_matcher r) then allowed \<and> static_direct c r else allowed)
      in case match_rule N D t ctx (r_matcher r) resolved w of
          (Err e, w') \<Rightarrow> (Err e, w')
        | (Ok (matched, pinned, resolved'), w') \<Rightarrow>
            if matched then (finish_route c t index r allowed' pinned resolved', w')
            else route_loop N D c t ctx rs (Suc index) allowed' resolved' w')"

definition route_inner ::
  "'net ipnet \<Rightarrow> 'w dns \<Rightarrow> 'net config \<Rightarrow> target \<Rightarrow> match_context \<Rightarrow> bool \<Rightarrow> 'w
   \<Rightarrow> (route, route_error) result \<times> 'w" where
  "route_inner N D c t ctx remote_domain_allowed w =
     route_loop N D c t ctx (c_rules c) 0 remote_domain_allowed None w"

definition route_with_context ::
  "'net ipnet \<Rightarrow> 'w dns \<Rightarrow> 'net config \<Rightarrow> target \<Rightarrow> match_context \<Rightarrow> 'w \<Rightarrow> (route, route_error) result \<times> 'w" where
  "route_with_context N D c t ctx w = route_inner N D c t ctx True w"

definition route_udp_with_context ::
  "'net ipnet \<Rightarrow> 'w dns \<Rightarrow> 'net config \<Rightarrow> target \<Rightarrow> match_context \<Rightarrow> 'w \<Rightarrow> (route, route_error) result \<times> 'w" where
  "route_udp_with_context N D c t ctx w = route_inner N D c t ctx False w"

section \<open>First match over one snapshot\<close>

text \<open>
  What a rule means, given the addresses of the name: an address rule holds of a literal if its test
  does, and of a name if it may resolve and some address passes.
\<close>

definition rule_matches ::
  "'net ipnet \<Rightarrow> target \<Rightarrow> match_context \<Rightarrow> ip_addr list \<Rightarrow> 'net matcher \<Rightarrow> bool" where
  "rule_matches N t ctx addresses m =
     (if is_address_rule m
      then case literal_ip t of
          Some ip \<Rightarrow> address_test N m ip
        | None \<Rightarrow> resolves m \<and> list_ex (address_test N m) addresses
      else plain_test N t ctx m)"

definition needs_lookup :: "target \<Rightarrow> 'net rule \<Rightarrow> bool" where
  "needs_lookup t r \<longleftrightarrow> literal_ip t = None \<and> resolves (r_matcher r)"

definition hint_rule :: "'net config \<Rightarrow> 'net rule \<Rightarrow> bool" where
  "hint_rule c r \<longleftrightarrow> (resolves (r_matcher r) \<longrightarrow> static_direct c r)"

text \<open>The declarative router: the first rule that matches decides.\<close>

definition route_spec ::
  "'net ipnet \<Rightarrow> 'net config \<Rightarrow> target \<Rightarrow> match_context \<Rightarrow> ip_addr list \<Rightarrow> 'net rule list \<Rightarrow> nat \<Rightarrow> bool \<Rightarrow> bool
   \<Rightarrow> (route, route_error) result \<times> bool" where
  "route_spec N c t ctx addresses rs index allowed looked =
     (case position (\<lambda>r. rule_matches N t ctx addresses (r_matcher r)) rs of
        None \<Rightarrow> (Err NoRuleMatched, looked \<or> list_ex (needs_lookup t) rs)
      | Some k \<Rightarrow>
          let looked' = (looked \<or> list_ex (needs_lookup t) (take (Suc k) rs));
              allowed' = (allowed \<and> list_all (hint_rule c) (take (Suc k) rs));
              pinned = (if needs_lookup t (rs ! k) then find (address_test N (r_matcher (rs ! k))) addresses
                        else None)
          in (finish_route c t (index + k) (rs ! k) allowed' pinned (if looked' then Some addresses else None),
              looked'))"

lemma resolves_address_rule: "resolves m \<Longrightarrow> is_address_rule m"
  by (cases m) auto

lemma find_Some_list_ex: "(\<exists>y. find P xs = Some y) \<longleftrightarrow> list_ex P xs"
  using find_None_iff [of P xs] by (auto simp: list_ex_iff)

lemma match_rule_snapshot:
  assumes "D w t = (Ok addresses, wn)"
  shows "match_rule N D t ctx m (if looked then Some addresses else None) (if looked then wn else w)
     = (let looked' = (looked \<or> (literal_ip t = None \<and> resolves m))
        in (Ok (rule_matches N t ctx addresses m,
                if literal_ip t = None \<and> resolves m then find (address_test N m) addresses else None,
                if looked' then Some addresses else None), if looked' then wn else w))"
  using assms resolves_address_rule [of m]
  by (cases "literal_ip t"; cases looked) (simp_all add: match_rule_def rule_matches_def Let_def find_Some_list_ex)

lemma route_spec_Cons:
  "route_spec N c t ctx addresses (r # rs) index allowed looked =
     (if rule_matches N t ctx addresses (r_matcher r)
      then let looked' = (looked \<or> needs_lookup t r);
               pinned = (if needs_lookup t r then find (address_test N (r_matcher r)) addresses else None)
           in (finish_route c t index r (allowed \<and> hint_rule c r) pinned (if looked' then Some addresses else None),
               looked')
      else route_spec N c t ctx addresses rs (Suc index) (allowed \<and> hint_rule c r) (looked \<or> needs_lookup t r))"
  by (cases "position (\<lambda>r. rule_matches N t ctx addresses (r_matcher r)) rs")
     (simp_all add: route_spec_def Let_def disj_assoc conj_assoc)

lemma route_loop_snapshot:
  assumes "D w t = (Ok addresses, wn)"
  shows "route_loop N D c t ctx rs index allowed (if looked then Some addresses else None) (if looked then wn else w)
     = (case route_spec N c t ctx addresses rs index allowed looked of
          (result, looked') \<Rightarrow> (result, if looked' then wn else w))"
proof (induction rs arbitrary: index allowed looked)
  case (Cons r rs)
  let ?need = "literal_ip t = None \<and> resolves (r_matcher r)"
  have step: "match_rule N D t ctx (r_matcher r) (if looked then Some addresses else None) (if looked then wn else w)
      = (Ok (rule_matches N t ctx addresses (r_matcher r),
             if ?need then find (address_test N (r_matcher r)) addresses else None,
             if looked \<or> ?need then Some addresses else None), if looked \<or> ?need then wn else w)"
    using match_rule_snapshot [where D = D and w = w and t = t, OF assms] by (simp only: Let_def)
  have allowed: "(if resolves (r_matcher r) then allowed \<and> static_direct c r else allowed) = (allowed \<and> hint_rule c r)"
    by (auto simp: hint_rule_def)
  have need: "needs_lookup t r = ?need" by (simp add: needs_lookup_def)
  show ?case
    unfolding route_spec_Cons route_loop.simps Let_def step allowed need
    using Cons.IH [of "Suc index" "allowed \<and> hint_rule c r" "looked \<or> ?need"] by simp
qed (simp add: route_spec_def)

lemma route_inner_snapshot:
  assumes "D w t = (Ok addresses, wn)"
  shows "route_inner N D c t ctx allowed w
     = (case route_spec N c t ctx addresses (c_rules c) 0 allowed False of
          (result, looked) \<Rightarrow> (result, if looked then wn else w))"
  using route_loop_snapshot [where D = D and w = w and t = t and looked = False, OF assms]
  by (simp add: route_inner_def)

section \<open>Lookups\<close>

lemma match_rule_literal:
  "literal_ip t = Some ip \<Longrightarrow> match_rule N D t ctx m resolved w = (fst (match_rule N D' t ctx m resolved w'), w)"
  by (simp add: match_rule_def)

lemma route_loop_literal:
  "literal_ip t = Some ip \<Longrightarrow>
     route_loop N D c t ctx rs index allowed resolved w
       = (fst (route_loop N D' c t ctx rs index allowed resolved w'), w)"
proof (induction rs arbitrary: index allowed resolved)
  case (Cons r rs)
  have m: "match_rule N D t ctx (r_matcher r) resolved w = (fst (match_rule N D' t ctx (r_matcher r) resolved w'), w)"
    "match_rule N D' t ctx (r_matcher r) resolved w' = (fst (match_rule N D' t ctx (r_matcher r) resolved w'), w')"
    by (rule match_rule_literal [OF Cons.prems])+
  show ?case
  proof (cases "fst (match_rule N D' t ctx (r_matcher r) resolved w')")
    case (Ok x)
    then show ?thesis
      using m Cons.IH [OF Cons.prems] by (cases x) (simp add: Let_def)
  next
    case (Err e)
    then show ?thesis using m by (simp add: Let_def)
  qed
qed simp

lemma match_rule_resolved:
  "snd (match_rule N D t ctx m (Some a) w) = w
   \<and> (\<forall>b p res. fst (match_rule N D t ctx m (Some a) w) = Ok (b, p, res) \<longrightarrow> res = Some a)"
  by (cases "literal_ip t") (simp_all add: match_rule_def Let_def)

lemma route_loop_resolved: "snd (route_loop N D c t ctx rs index allowed (Some a) w) = w"
proof (induction rs arbitrary: index allowed)
  case (Cons r rs)
  obtain x where x: "match_rule N D t ctx (r_matcher r) (Some a) w = (x, w)"
      "\<forall>b p res. x = Ok (b, p, res) \<longrightarrow> res = Some a"
    using match_rule_resolved [of N D t ctx "r_matcher r" a w] by (metis prod.collapse)
  then show ?case using Cons by (auto simp: Let_def split: result.splits)
qed simp

text \<open>The world after a route is the world before it or the world after one lookup of the target.\<close>

lemma match_rule_world:
  "snd (match_rule N D t ctx m None w) = w
     \<and> (\<forall>b p res. fst (match_rule N D t ctx m None w) = Ok (b, p, res) \<longrightarrow> res = None)
   \<or> snd (match_rule N D t ctx m None w) = snd (D w t)
     \<and> (\<forall>b p res. fst (match_rule N D t ctx m None w) = Ok (b, p, res) \<longrightarrow> res \<noteq> None)"
  by (auto simp: match_rule_def Let_def result_simps split: option.splits prod.splits)

lemma route_loop_world:
  "snd (route_loop N D c t ctx rs index allowed None w) \<in> {w, snd (D w t)}"
proof (induction rs arbitrary: index allowed)
  case (Cons r rs)
  obtain x w' where x: "match_rule N D t ctx (r_matcher r) None w = (x, w')" by (meson surj_pair)
  show ?case
  proof (cases x)
    case (Ok y)
    obtain b p res where y: "y = (b, p, res)" by (cases y)
    have "w' = w \<and> res = None \<or> w' = snd (D w t) \<and> (\<exists>a. res = Some a)"
      using match_rule_world [of N D t ctx "r_matcher r" w] x Ok y by auto
    then show ?thesis using x Ok y Cons route_loop_resolved by (fastforce simp: Let_def)
  next
    case (Err e)
    then show ?thesis using x match_rule_world [of N D t ctx "r_matcher r" w] by (auto simp: Let_def)
  qed
qed simp

section \<open>Pinning\<close>

definition at_address :: "target \<Rightarrow> ip_addr \<Rightarrow> target" where
  "at_address t ip = \<lparr>t_host = ip_string ip, t_port = t_port t\<rparr>"

lemma pinned_target_Ok_iff:
  "pinned_target t pinned = Ok t' \<longleftrightarrow>
     (case pinned of None \<Rightarrow> t' = t | Some ip \<Rightarrow> t_port t \<noteq> 0 \<and> t' = at_address t ip)"
  by (auto simp: pinned_target_def at_address_def result_simps split: option.splits)

lemma pin_address_Ok_iff:
  "pin_address remote_domain pinned resolved = Ok x \<longleftrightarrow>
     (if pinned \<noteq> None then x = pinned
      else if remote_domain \<or> resolved = None then x = None
      else \<exists>a as. resolved = Some (a # as) \<and> x = Some a)"
  by (auto simp: pin_address_def split: option.splits list.splits)

lemma finish_route_Ok_iff:
  "finish_route c t index r allowed pinned resolved = Ok rt \<longleftrightarrow>
     rt_rule_index rt = index \<and> resolve_proxy c (r_proxy r) = Some (rt_leaf_index rt)
     \<and> rt_leaf_index rt < length (c_proxies c)
     \<and> (\<exists>x. pin_address (allowed \<and> is_remote (p_kind (c_proxies c ! rt_leaf_index rt))) pinned resolved = Ok x
          \<and> pinned_target t x = Ok (rt_target rt))"
  by (cases rt) (auto simp: finish_route_def Let_def and_then_Ok_iff split: option.splits if_splits)

lemma finish_route_total:
  assumes "config_ok c" "r_proxy r < length (c_proxies c) + length (c_groups c)" "t_port t \<noteq> 0" "resolved \<noteq> Some []"
  shows "\<exists>rt. finish_route c t index r allowed pinned resolved = Ok rt"
proof -
  obtain leaf where "leaf < length (c_proxies c)" "resolve_proxy c (r_proxy r) = Some leaf"
    using resolve_proxy_leaf [OF assms(1,2)] by blast
  then show ?thesis using assms(3,4)
    by (cases pinned; cases resolved) (auto simp: finish_route_def Let_def pin_address_def pinned_target_def
        neq_Nil_conv split: list.splits)
qed

text \<open>Suffix rules respect label boundaries.\<close>

lemma split_char_append_sep: "split_char c (a @ c # b) = split_char c a @ split_char c b"
proof (induction a)
  case (Cons x a)
  then show ?case by (cases "split_char c a") auto
qed simp

lemma join_char_append:
  "ps \<noteq> [] \<Longrightarrow> qs \<noteq> [] \<Longrightarrow> join_char c (ps @ qs) = join_char c ps @ c # join_char c qs"
  by (induction c ps rule: join_char.induct) (auto simp: neq_Nil_conv)

lemma domain_suffix_labels:
  "domain_suffix_matches suffix domain \<longleftrightarrow>
     (\<exists>pre. split_char (CHR ''.'') domain = pre @ split_char (CHR ''.'') suffix)"
proof
  assume "domain_suffix_matches suffix domain"
  then consider "domain = suffix" | q where "domain = q @ CHR ''.'' # suffix"
    by (auto simp: domain_suffix_matches_def strip_suffix_Some_iff ends_with_iff split: option.splits)
  then show "\<exists>pre. split_char (CHR ''.'') domain = pre @ split_char (CHR ''.'') suffix"
    by cases (auto simp: split_char_append_sep)
next
  assume "\<exists>pre. split_char (CHR ''.'') domain = pre @ split_char (CHR ''.'') suffix"
  then obtain pre where pre: "split_char (CHR ''.'') domain = pre @ split_char (CHR ''.'') suffix" by blast
  have d: "domain = join_char (CHR ''.'') (pre @ split_char (CHR ''.'') suffix)"
    by (metis pre join_split_char)
  show "domain_suffix_matches suffix domain"
  proof (cases "pre = []")
    case True
    then show ?thesis using d by (simp add: domain_suffix_matches_def join_split_char)
  next
    case False
    then have "domain = (join_char (CHR ''.'') pre @ ''.'') @ suffix"
      using d by (simp add: join_char_append join_split_char)
    then show ?thesis
      unfolding domain_suffix_matches_def using strip_suffix_append [of suffix "join_char (CHR ''.'') pre @ ''.''"]
      by (simp add: ends_with_iff)
  qed
qed

section \<open>Properties\<close>

text \<open>
  C1 (route_inner_first_match).  Routing refines the first-match specification: with the answer the
  resolver would give, \<open>Config::route_inner\<close> returns the route of the first rule that matches the
  destination over that one answer (or that no rule matches), and the resolver is consulted exactly
  when a visited address rule needs the addresses of a name.
\<close>

theorem route_inner_first_match:
  assumes "D w t = (Ok addresses, wn)"
  shows "route_inner N D c t ctx tcp w
     = (case route_spec N c t ctx addresses (c_rules c) 0 tcp False of
          (result, looked) \<Rightarrow> (result, if looked then wn else w))"
  by (rule route_inner_snapshot [where D = D and w = w and t = t, OF assms])

lemma route_spec_Ok:
  assumes "route_spec N c t ctx addresses rs 0 tcp False = (Ok rt, looked)"
  shows "\<exists>k<length rs. rt_rule_index rt = k \<and> rule_matches N t ctx addresses (r_matcher (rs ! k))
     \<and> (\<forall>j<k. \<not> rule_matches N t ctx addresses (r_matcher (rs ! j)))
     \<and> looked = list_ex (needs_lookup t) (take (Suc k) rs)
     \<and> finish_route c t k (rs ! k) (tcp \<and> list_all (hint_rule c) (take (Suc k) rs))
         (if needs_lookup t (rs ! k) then find (address_test N (r_matcher (rs ! k))) addresses else None)
         (if looked then Some addresses else None) = Ok rt"
  using assms
  by (auto simp: route_spec_def Let_def position_Some_iff finish_route_Ok_iff split: option.splits)

lemma route_inner_Ok:
  assumes "D w t = (Ok addresses, wn)" "route_inner N D c t ctx tcp w = (Ok rt, w')"
  shows "\<exists>looked. route_spec N c t ctx addresses (c_rules c) 0 tcp False = (Ok rt, looked)"
  using assms(2) unfolding route_inner_snapshot [where D = D and w = w and t = t, OF assms(1)] by (auto split: prod.splits)

text \<open>
  C2 (route_pinning).  The address that was checked is the address that is dialled.  For a domain
  name: if the matching rule is an address rule, the routed target is an address of the answer that
  passes that very rule; and whenever a visited rule needed the addresses, the routed target is one of
  them, unless the route is a TCP route to a remote proxy and every visited address rule points
  statically at \<open>DIRECT\<close>, in which case alone the name itself is kept.
\<close>

theorem route_pinning:
  assumes "D w t = (Ok addresses, wn)" "literal_ip t = None"
    and "route_inner N D c t ctx tcp w = (Ok rt, w')"
    and "visited = take (Suc (rt_rule_index rt)) (c_rules c)" "r = c_rules c ! rt_rule_index rt"
  shows "(resolves (r_matcher r) \<longrightarrow>
            (\<exists>a\<in>set addresses. address_test N (r_matcher r) a \<and> rt_target rt = at_address t a))
     \<and> (list_ex (\<lambda>r. resolves (r_matcher r)) visited \<longrightarrow>
            (\<exists>a\<in>set addresses. rt_target rt = at_address t a)
            \<or> rt_target rt = t \<and> tcp \<and> is_remote (p_kind (c_proxies c ! rt_leaf_index rt))
                \<and> list_all (\<lambda>r. resolves (r_matcher r) \<longrightarrow> static_direct c r) visited)"
proof -
  obtain looked where "route_spec N c t ctx addresses (c_rules c) 0 tcp False = (Ok rt, looked)"
    using route_inner_Ok [OF assms(1,3)] by blast
  from route_spec_Ok [OF this]
  have m: "rule_matches N t ctx addresses (r_matcher r)"
    and l: "looked = list_ex (needs_lookup t) visited"
    and f: "finish_route c t (rt_rule_index rt) r (tcp \<and> list_all (hint_rule c) visited)
        (if needs_lookup t r then find (address_test N (r_matcher r)) addresses else None)
        (if looked then Some addresses else None) = Ok rt"
    by (auto simp: assms(4,5))
  have need: "needs_lookup t = (\<lambda>r. resolves (r_matcher r))" using assms(2) by (simp add: needs_lookup_def fun_eq_iff)
  have hint: "list_all (hint_rule c) visited = list_all (\<lambda>r. resolves (r_matcher r) \<longrightarrow> static_direct c r) visited"
    by (simp add: hint_rule_def [abs_def])
  have pin: "\<exists>a\<in>set addresses. address_test N (r_matcher r) a \<and> find (address_test N (r_matcher r)) addresses = Some a"
    if "resolves (r_matcher r)"
  proof -
    have "list_ex (address_test N (r_matcher r)) addresses"
      using m that assms(2) resolves_address_rule [OF that] by (simp add: rule_matches_def)
    then have "\<exists>a. find (address_test N (r_matcher r)) addresses = Some a" by (simp only: find_Some_list_ex)
    then obtain a where a: "find (address_test N (r_matcher r)) addresses = Some a" ..
    then show ?thesis by (auto simp: find_Some_iff)
  qed
  obtain x where x: "pin_address ((tcp \<and> list_all (hint_rule c) visited)
          \<and> is_remote (p_kind (c_proxies c ! rt_leaf_index rt)))
        (if resolves (r_matcher r) then find (address_test N (r_matcher r)) addresses else None)
        (if looked then Some addresses else None) = Ok x"
      "pinned_target t x = Ok (rt_target rt)"
    using f unfolding finish_route_Ok_iff need by blast
  show ?thesis
  proof (cases "resolves (r_matcher r)")
    case True
    from pin [OF this] obtain a where a: "a \<in> set addresses" "address_test N (r_matcher r) a"
      "find (address_test N (r_matcher r)) addresses = Some a" by blast
    then have "rt_target rt = at_address t a"
      using x True by (simp add: pin_address_Ok_iff pinned_target_Ok_iff)
    then show ?thesis using a by blast
  next
    case False
    then show ?thesis
      using x unfolding l need hint
      by (auto simp: pin_address_Ok_iff pinned_target_Ok_iff split: if_splits)
  qed
qed

text \<open>
  A destination that is an address literal never causes a DNS lookup, and any
  other destination causes at most one lookup, of that destination.
\<close>

theorem route_lookups:
  "snd (route_inner N D c t ctx tcp w) \<in> (if literal_ip t = None then {w, snd (D w t)} else {w})"
proof (cases "literal_ip t")
  case None
  then show ?thesis using route_loop_world [of N D c t ctx "c_rules c" 0 tcp w] by (simp add: route_inner_def)
next
  case (Some ip)
  have "snd (route_inner N D c t ctx tcp w) = w"
    unfolding route_inner_def by (subst route_loop_literal [OF Some, of N D _ _ _ _ _ _ _ D w]) simp
  then show ?thesis using Some by simp
qed

text \<open>
  C3 (route_total).  On a well-formed configuration and a resolver answer with at least one address,
  routing ends with a route exactly when some rule matches; otherwise the connection is denied.  No
  index is out of range and the selected leaf always exists.
\<close>

theorem route_total:
  assumes "config_ok c" "t_port t \<noteq> 0" "D w t = (Ok addresses, wn)" "addresses \<noteq> []"
  shows "if list_ex (\<lambda>r. rule_matches N t ctx addresses (r_matcher r)) (c_rules c)
         then \<exists>rt. fst (route_inner N D c t ctx tcp w) = Ok rt \<and> rt_leaf_index rt < length (c_proxies c)
         else fst (route_inner N D c t ctx tcp w) = Err NoRuleMatched"
proof (cases "position (\<lambda>r. rule_matches N t ctx addresses (r_matcher r)) (c_rules c)")
  case None
  then have "\<not> list_ex (\<lambda>r. rule_matches N t ctx addresses (r_matcher r)) (c_rules c)"
    by (simp add: position_None_iff list_ex_iff)
  with None show ?thesis
    unfolding route_inner_snapshot [where D = D and w = w and t = t, OF assms(3)]
    by (simp add: route_spec_def)
next
  case (Some k)
  then have k: "k < length (c_rules c)" "rule_matches N t ctx addresses (r_matcher (c_rules c ! k))"
    by (auto simp: position_Some_iff)
  then have "r_proxy (c_rules c ! k) < length (c_proxies c) + length (c_groups c)"
    using assms(1) by (auto simp: config_ok_def list_all_length)
  note total = finish_route_total [OF assms(1) this assms(2)]
  have "\<exists>rt. finish_route c t k (c_rules c ! k) a p (if l then Some addresses else None) = Ok rt
      \<and> rt_leaf_index rt < length (c_proxies c)" for a p l
  proof -
    obtain rt where "finish_route c t k (c_rules c ! k) a p (if l then Some addresses else None) = Ok rt"
      using total [of "if l then Some addresses else None" k a p] assms(4) by (cases l) auto
    moreover from this have "rt_leaf_index rt < length (c_proxies c)" by (simp add: finish_route_Ok_iff)
    ultimately show ?thesis by blast
  qed
  moreover have "\<exists>a p l. fst (route_inner N D c t ctx tcp w)
      = finish_route c t k (c_rules c ! k) a p (if l then Some addresses else None)"
    unfolding route_inner_snapshot [where D = D and w = w and t = t, OF assms(3)] using Some
    by (auto simp: route_spec_def Let_def)
  moreover have "list_ex (\<lambda>r. rule_matches N t ctx addresses (r_matcher r)) (c_rules c)"
    using k by (auto simp: list_ex_length)
  ultimately show ?thesis by (simp only: if_True) metis
qed

text \<open>
  A \<open>DOMAIN-SUFFIX\<close> rule matches a domain exactly when the labels of the
  suffix are the last labels of the domain: it never matches in the middle of a label.
\<close>

theorem domain_suffix_boundary:
  "domain_suffix_matches suffix domain \<longleftrightarrow>
     (\<exists>pre. split_char (CHR ''.'') domain = pre @ split_char (CHR ''.'') suffix)"
  by (rule domain_suffix_labels)

section \<open>A concrete route\<close>

definition demo_net :: "unit ipnet" where
  "demo_net = \<lparr>net_parse = \<lambda>_. Some (), net_addr = \<lambda>_. V4 10 0 0 0, net_contains = \<lambda>_ ip. ip = V4 10 0 0 1\<rparr>"

definition demo_config :: "unit config" where
  "demo_config = \<lparr>c_bind_address = V4 127 0 0 1, c_proxies = builtin_proxies,
     c_rules = [\<lparr>r_matcher = Ip () False, r_proxy = 0, r_kind = ''IP-CIDR'', r_payload = ''10.0.0.1/32''\<rparr>,
                \<lparr>r_matcher = MatchAll, r_proxy = 1, r_kind = ''MATCH'', r_payload = []\<rparr>],
     c_groups = [], c_selections = [], c_mode = ''rule'', c_controller = None, c_secret = [],
     c_document = JNull\<rparr>"

definition demo_dns :: "nat dns" where
  "demo_dns w t = (Ok [V4 10 0 0 1], Suc w)"

definition demo_target :: target where
  "demo_target = \<lparr>t_host = ''x.example'', t_port = 80\<rparr>"

definition demo_context :: match_context where
  "demo_context = \<lparr>source_ip = None, source_port = None, process_name = None\<rparr>"

definition demo_route :: route where
  "demo_route = \<lparr>rt_rule_index = 0, rt_leaf_index = 0, rt_target = at_address demo_target (V4 10 0 0 1)\<rparr>"

lemma demo_literal: "literal_ip demo_target = None"
  by (simp add: literal_ip_def demo_target_def parse_ip_other to_digit_def)

lemma demo_route_inner:
  "route_inner demo_net demo_dns demo_config demo_target demo_context True 0 = (Ok demo_route, 1)"
  using demo_literal target_new_ip [of 80 "V4 10 0 0 1"]
  by (simp add: route_inner_def demo_config_def match_rule_def demo_dns_def demo_net_def demo_route_def
      finish_route_def resolve_proxy_def builtin_proxies_def pin_address_def pinned_target_def at_address_def
      demo_target_def)

lemma demo_config_ok: "config_ok demo_config"
  by (simp add: config_ok_def demo_config_def graph_ok_def edges_ok_def edge_rel_def acyclic_def
      selections_ok_def node_names_def builtin_proxies_def proxy_ok_def MAX_PROXIES_def MAX_RULES_def)

theorem route_inner_first_match_witness:
  "demo_dns 0 demo_target = (Ok [V4 10 0 0 1], 1)
   \<and> route_inner demo_net demo_dns demo_config demo_target demo_context True 0
     = (case route_spec demo_net demo_config demo_target demo_context [V4 10 0 0 1] (c_rules demo_config) 0 True False of
          (result, looked) \<Rightarrow> (result, if looked then 1 else 0))"
  using route_inner_first_match [where D = demo_dns and w = 0 and t = demo_target and wn = 1
      and addresses = "[V4 10 0 0 1]"]
  by (simp add: demo_dns_def)

theorem route_pinning_witness:
  "literal_ip demo_target = None
   \<and> route_inner demo_net demo_dns demo_config demo_target demo_context True 0 = (Ok demo_route, 1)
   \<and> (\<exists>a\<in>set [V4 10 0 0 1]. rt_target demo_route = at_address demo_target a)"
  using route_pinning [where D = demo_dns and w = 0 and t = demo_target and wn = 1 and rt = demo_route
      and addresses = "[V4 10 0 0 1]" and w' = 1 and N = demo_net and c = demo_config and ctx = demo_context
      and tcp = True, OF _ demo_literal demo_route_inner refl refl]
    demo_literal demo_route_inner
  by (simp add: demo_dns_def demo_route_def demo_config_def)

lemma demo_matches:
  "list_ex (\<lambda>r. rule_matches demo_net demo_target demo_context [V4 10 0 0 1] (r_matcher r)) (c_rules demo_config)"
  by (simp add: demo_config_def rule_matches_def)

theorem route_total_witness:
  "config_ok demo_config \<and> t_port demo_target \<noteq> 0
   \<and> (\<exists>rt. fst (route_inner demo_net demo_dns demo_config demo_target demo_context True 0) = Ok rt
        \<and> rt_leaf_index rt < length (c_proxies demo_config))"
  using route_total [where D = demo_dns and w = 0 and t = demo_target and wn = 1 and addresses = "[V4 10 0 0 1]"
      and N = demo_net and c = demo_config and ctx = demo_context and tcp = True, OF demo_config_ok]
    demo_config_ok
  unfolding if_P [OF demo_matches] by (simp add: demo_dns_def demo_target_def)

end
