(* ===== verification/Config_Facts.thy ===== *)
theory Config_Facts
  imports Config_Route
begin

text \<open>
  The properties of the configuration (\<open>src/src/config.rs\<close>, \<open>src/src/config_provider.rs\<close>) that span its
  theories: a parsed configuration is well formed and stays so, groups are accepted exactly when their
  graph is acyclic, selections survive a snapshot, resources are bounded, routing fails closed.  Each is
  applied to one concrete configuration, with a rule provider, a group and a controller.
\<close>

section \<open>A concrete configuration\<close>

definition demo_entry :: string where "demo_entry = ''DOMAIN-KEYWORD,tracker''"

definition demo_providers :: "(string \<times> provider) list" where
  "demo_providers = [(''ads'', \<lparr>pv_kind = ''file'', pv_behavior = ''classical'', pv_path = ''ads.txt'',
     pv_url = None, pv_interval = 3600\<rparr>)]"

definition demo_assets :: assets where
  "demo_assets = [(''ads.txt'', str_bytes demo_entry)]"

definition demo_sources :: "string list" where
  "demo_sources = [''RULE-SET,ads,REJECT'', ''MATCH,pick'']"

definition demo_groups :: "raw_group list" where
  "demo_groups = [\<lparr>rg_name = ''pick'', rg_kind = ''select'', rg_proxies = [''DIRECT'', ''REJECT'']\<rparr>]"

definition demo_raw :: raw_config where
  "demo_raw = \<lparr>rc_proxies = [], rc_proxy_groups = demo_groups, rc_rules = demo_sources,
     rc_rule_providers = demo_providers, rc_allow_lan = False, rc_bind_address = None, rc_mixed_port = Some 7890,
     rc_port = None, rc_socks_port = None, rc_mode = None, rc_log_level = None,
     rc_external_controller = Some ''127.0.0.1:9090'', rc_secret = None\<rparr>"

definition demo_environment :: "unit environment" where
  "demo_environment = \<lparr>e_net = demo_net,
     e_parsers = \<lparr>json_stream = \<lambda>_. None, yaml_stream = \<lambda>_. Ok [RMap [(''rules'', RSeq [])]]\<rparr>,
     e_url_parse = \<lambda>_. None, e_server_name = \<lambda>_. True, e_deserialize = \<lambda>_. Some demo_raw\<rparr>"


definition demo_names :: "string \<rightharpoonup> nat" where "demo_names = [''DIRECT'' \<mapsto> 0, ''REJECT'' \<mapsto> 1, ''pick'' \<mapsto> 2]"

definition demo_rule :: "nat \<Rightarrow> unit rule" where
  "demo_rule p = \<lparr>r_matcher = DomainKeyword ''tracker'', r_proxy = p, r_kind = ''DOMAIN-KEYWORD'', r_payload = ''tracker''\<rparr>"

definition demo_final :: "unit rule" where
  "demo_final = \<lparr>r_matcher = MatchAll, r_proxy = 2, r_kind = ''MATCH'', r_payload = []\<rparr>"

lemma trim_start_with_none: "find (\<lambda>w. w \<noteq> [] \<and> starts_with w s) ws = None \<Longrightarrow> trim_start_with ws s = s"
  by (subst trim_start_with.simps) simp

lemma white_space_codes:
  "w \<in> set white_space \<Longrightarrow> w \<noteq> [] \<and> (code (hd w) \<le> 32 \<or> 128 \<le> code (hd w)) \<and> (code (last w) \<le> 32 \<or> 128 \<le> code (last w))"
  by (auto simp: white_space_def)

text \<open>Nothing is trimmed from a text that starts and ends with a printable ASCII character.\<close>

lemma trim_printable:
  assumes "s \<noteq> []" "32 < code (hd s)" "code (hd s) < 128" "32 < code (last s)" "code (last s) < 128"
  shows "trim s = s"
proof -
  have "find (\<lambda>w. w \<noteq> [] \<and> starts_with w s) white_space = None"
  proof -
    have "\<not> starts_with w s" if "w \<in> set white_space" for w
      using white_space_codes [OF that] assms by (cases w) (auto simp: starts_with_iff)
    then show ?thesis by (auto simp: find_None_iff)
  qed
  moreover have "find (\<lambda>w. w \<noteq> [] \<and> starts_with w (rev s)) (map rev white_space) = None"
  proof -
    have "\<not> starts_with (rev w) (rev s)" if "w \<in> set white_space" for w
      using white_space_codes [OF that] assms by (cases w rule: rev_cases) (auto simp: starts_with_iff rev_swap)
    then show ?thesis by (auto simp: find_None_iff)
  qed
  ultimately show ?thesis by (simp add: trim_def trim_start_def trim_end_def trim_start_with_none)
qed

lemma demo_trim: "trim demo_entry = demo_entry"
  by (rule trim_printable) (simp_all add: demo_entry_def)

lemma demo_kind_trim: "trim ''DOMAIN-KEYWORD'' = ''DOMAIN-KEYWORD''"
  by (rule trim_printable) simp_all

lemma demo_lines: "lines demo_entry = [demo_entry]"
  by code_simp

lemma demo_entries: "entries P demo_entry ''classical'' = Ok [demo_entry]"
proof -
  have "first_line demo_entry = demo_entry" by (simp add: first_line_def demo_lines demo_trim) (simp add: demo_entry_def)
  moreover have "raw_classical ''classical'' demo_entry"
    by (simp add: raw_classical_def demo_entry_def demo_kind_trim classical_kinds_def)
  moreover have "strip_prefix byte_order_mark demo_entry = None" "list_line demo_entry = Some demo_entry" by code_simp+
  ultimately show ?thesis by (simp add: entries_def demo_lines MAX_RULES_def)
qed

lemma demo_source_fields:
  "rule_fields ''DOMAIN-KEYWORD,tracker,DIRECT'' = [''DOMAIN-KEYWORD'', ''tracker'', ''DIRECT'']"
  "rule_fields ''RULE-SET,ads,REJECT'' = [''RULE-SET'', ''ads'', ''REJECT'']"
  "rule_fields ''MATCH,pick'' = [''MATCH'', ''pick'']"
  by code_simp+

lemma demo_domain_matcher:
  "domain_matcher ''DOMAIN-KEYWORD'' ''tracker'' = Ok (DomainKeyword ''tracker'' :: unit matcher)"
  by (simp add: domain_matcher_def canonical_domain_def) code_simp

lemma demo_rule_parse: "rule_parse demo_net ''DOMAIN-KEYWORD,tracker,DIRECT'' demo_names = Ok (demo_rule 0)"
  "rule_parse demo_net ''MATCH,pick'' demo_names = Ok demo_final"
  by (simp_all add: rule_parse_def demo_source_fields parse_matcher_def demo_domain_matcher demo_rule_def demo_final_def demo_names_def)

lemma demo_provider_rule: "provider_rule demo_net demo_entry ''classical'' demo_names = Ok (demo_rule 0)"
proof -
  have "provider_source demo_entry ''classical'' = Ok (''DOMAIN-KEYWORD,tracker,DIRECT'', False)" by code_simp
  then show ?thesis by (simp add: provider_rule_def demo_rule_parse)
qed

lemma demo_asset_text: "is_str demo_entry"
  by code_simp

lemma demo_validate_names:
  "validate_name ''ads'' = Ok ()" "validate_name ''DIRECT'' = Ok ()" "validate_name ''REJECT'' = Ok ()"
  "validate_name ''pick'' = Ok ()"
  by (simp_all add: validate_name_def trim_printable is_ascii_control_def)

lemma demo_templates:
  "load_templates demo_net P demo_assets demo_names demo_providers 0 0 0
     = Ok [(''ads'', [demo_rule 0], length demo_entry)]"
  by (simp add: demo_assets_def demo_providers_def demo_asset_text demo_entries demo_provider_rule add_budget_def
      MAX_AGGREGATE_BYTES_def MAX_RULES_def) (simp add: demo_entry_def)

lemma demo_expand:
  "expand demo_net P url demo_sources demo_providers demo_assets demo_names = Ok [demo_rule 1, demo_final]"
proof -
  have "validate url demo_providers = Ok ()" "asset_budget demo_assets = Ok ()"
    by (simp_all add: validate_def demo_providers_def validate_provider_def demo_validate_names MAX_PROVIDERS_def
        asset_budget_def demo_assets_def add_budget_def MAX_SOURCE_BYTES_def MAX_AGGREGATE_BYTES_def demo_entry_def)
  moreover have "plan_sources demo_net [(''ads'', [demo_rule 0], length demo_entry)] demo_names demo_sources 0 0
      = Ok ([PlannedProvider [demo_rule 0] 1 False, PlannedRule demo_final], 2, 32)"
    by (simp add: demo_sources_def plan_source_def demo_source_fields plan_rule_set_def rule_set_fields_def
        plan_rule_def demo_rule_parse(2) add_budget_def MAX_RULES_def MAX_AGGREGATE_BYTES_def demo_entry_def)
       (simp add: demo_final_def demo_names_def)
  ultimately show ?thesis
    by (simp add: expand_def demo_templates plan_final_def final_indices_def)
       (simp add: demo_rule_def demo_final_def demo_providers_def)
qed

lemma demo_resolve_groups:
  "resolve_groups demo_groups [''DIRECT'' \<mapsto> 0, ''REJECT'' \<mapsto> 1] 2
     = Ok ([\<lparr>g_name = ''pick'', g_members = [0, 1]\<rparr>], demo_names)"
  by (simp add: resolve_groups_def demo_groups_def demo_validate_names group_edges_def numeral_2_eq_2 numeral_3_eq_3
      demo_names_def)

definition demo_parsed :: "unit config" where
  "demo_parsed = \<lparr>c_bind_address = V4 127 0 0 1, c_proxies = builtin_proxies, c_rules = [demo_rule 1, demo_final],
     c_groups = [\<lparr>g_name = ''pick'', g_members = [0, 1]\<rparr>], c_selections = [0], c_mode = ''rule'',
     c_controller = Some \<lparr>sa_ip = V4 127 0 0 1, sa_port = 9090\<rparr>, c_secret = [],
     c_document = JObj [(''rules'', JArr [])]\<rparr>"

lemma demo_document: "parse_document (e_parsers demo_environment) [] = Ok (JObj [(''rules'', JArr [])])"
  by (simp add: parse_document_def yaml_value_def MAX_SOURCE_BYTES_def json_fast_path_def trim_start_def
      yaml_value_inner_def demo_environment_def visit_document_def MAX_DOCUMENT_DEPTH_def MAX_COLLECTION_ENTRIES_def
      charge_def)

lemma demo_controller:
  "parse_controller_endpoint ''127.0.0.1:9090'' = Ok \<lparr>sa_ip = V4 127 0 0 1, sa_port = 9090\<rparr>"
  by (simp add: parse_controller_endpoint_def parse_port_def parse_uint_def dec_val_def is_ascii_digit_def)

lemma length_builtin_proxies: "length builtin_proxies = 2"
  by (simp add: builtin_proxies_def)

lemma demo_group_count: "length demo_groups = 1"
  by (simp add: demo_groups_def)

lemma demo_parse: "parse_inner demo_environment [] (Some demo_assets) = Ok demo_parsed"
proof -
  have "add_proxy_names 0 builtin_proxies Map.empty = Ok [''DIRECT'' \<mapsto> 0, ''REJECT'' \<mapsto> 1]"
    by (simp add: builtin_proxies_def demo_validate_names)
  then have "build_config demo_environment (JObj [(''rules'', JArr [])]) demo_raw
      (Some \<lparr>sa_ip = V4 127 0 0 1, sa_port = 9090\<rparr>) (V4 127 0 0 1) (Some demo_assets) = Ok demo_parsed"
    by (simp add: build_config_def demo_raw_def demo_environment_def MAX_GROUPS_def demo_parsed_def
        length_builtin_proxies demo_group_count demo_resolve_groups demo_expand del: One_nat_def)
  moreover have "e_deserialize demo_environment j = Some demo_raw" for j by (simp add: demo_environment_def)
  moreover have "check_listeners demo_raw = Ok ()" "check_mode demo_raw = Ok ()"
    "check_controller demo_raw = Ok (Some \<lparr>sa_ip = V4 127 0 0 1, sa_port = 9090\<rparr>)"
    "check_log_level demo_raw = Ok ()" "check_bind_address demo_raw = Ok (V4 127 0 0 1)"
    by (simp_all add: demo_raw_def check_listeners_def check_mode_def check_controller_def demo_controller
        check_log_level_def check_bind_address_def)
  ultimately show ?thesis
    by (simp add: parse_inner_def demo_document validate_anytls_fields_def json_index_def json_get_def
        check_collections_def field_array_def)
qed

section \<open>Properties\<close>

text \<open>
  C8 (parse_well_formed).  A configuration that parses is well formed: the two built-in nodes come
  first, every node satisfies the rules of its protocol, names are unique, the group graph is acyclic with in-range
  members and selections, every rule has a canonical matcher and a target in range, and all tables are within
  their limits.
\<close>

theorem parse_well_formed:
  "parse_inner E source assets = Ok c \<Longrightarrow> config_ok c"
  by (rule parse_inner_ok)

theorem parse_well_formed_witness:
  "parse_inner demo_environment [] (Some demo_assets) = Ok demo_parsed \<and> config_ok demo_parsed"
  using parse_well_formed [OF demo_parse] demo_parse by simp

text \<open>
  Whatever is selected, one group or a whole snapshot, successful or
  not, a well-formed configuration stays well formed.
\<close>

theorem selecting_keeps_well_formed:
  "config_ok c \<Longrightarrow> config_ok (snd (select grp prx c)) \<and> config_ok (snd (set_selections kvs c))"
  by (simp add: select_config_ok set_selections_config_ok)

theorem selecting_keeps_well_formed_witness:
  "config_ok demo_parsed \<and> config_ok (snd (select ''pick'' ''REJECT'' demo_parsed))"
  using selecting_keeps_well_formed [OF parse_inner_ok [OF demo_parse]] parse_inner_ok [OF demo_parse] by blast

text \<open>
  A successful selection changes the choice of the named group to the
  named node and of no other group.
\<close>

theorem select_updates_one_group:
  assumes "config_ok c" "select grp prx c = (Ok (), c')"
  shows "map_of (selected c') = (map_of (selected c))(grp \<mapsto> prx)"
  using assms by (rule select_selected)

lemma demo_select:
  "select ''pick'' ''REJECT'' demo_parsed = (Ok (), demo_parsed\<lparr>c_selections := [1]\<rparr>)"
  by (simp add: select_def selection_def demo_parsed_def node_name_def builtin_proxies_def)

theorem select_updates_one_group_witness:
  "select ''pick'' ''REJECT'' demo_parsed = (Ok (), demo_parsed\<lparr>c_selections := [1]\<rparr>)
   \<and> map_of (selected (demo_parsed\<lparr>c_selections := [1]\<rparr>)) ''pick'' = Some ''REJECT''"
  using select_updates_one_group [OF parse_inner_ok [OF demo_parse] demo_select] demo_select by simp

text \<open>
  C9 (selections_round_trip).  Restoring the snapshot of the current selections succeeds, gives the
  same snapshot, and every node resolves to the same proxy as before.
\<close>

theorem selections_round_trip:
  assumes "config_ok c"
  shows "\<exists>c'. set_selections (selected c) c = (Ok (), c') \<and> selected c' = selected c
     \<and> (\<forall>i. resolve_proxy c' i = resolve_proxy c i)"
  using assms by (rule set_selections_selected)

theorem selections_round_trip_witness:
  "config_ok demo_parsed
   \<and> (\<exists>c'. set_selections (selected demo_parsed) demo_parsed = (Ok (), c') \<and> selected c' = selected demo_parsed)"
  using selections_round_trip [OF parse_inner_ok [OF demo_parse]] parse_inner_ok [OF demo_parse] by blast

text \<open>
  C10 (resolve_proxy_terminates).  The walk through nested groups always ends, within as many rounds as
  there are groups plus one, at a proxy that the current selections reach; the panic after the loop is
  unreachable.
\<close>

theorem resolve_proxy_terminates:
  assumes "config_ok c" "i < length (c_proxies c) + length (c_groups c)"
  shows "\<exists>leaf<length (c_proxies c). resolve_proxy c i = Some leaf
     \<and> (i, leaf) \<in> (selected_rel (length (c_proxies c)) (c_groups c) (c_selections c))\<^sup>*"
  using assms by (rule resolve_proxy_leaf)

theorem resolve_proxy_terminates_witness:
  "config_ok demo_parsed \<and> (\<exists>leaf<2. resolve_proxy demo_parsed 2 = Some leaf)"
  using resolve_proxy_terminates [OF parse_inner_ok [OF demo_parse], of 2] parse_inner_ok [OF demo_parse]
  by (auto simp: demo_parsed_def length_builtin_proxies)

text \<open>
  C11 (group_cycles_detected).  For groups with valid, fresh and distinct names and known members, the
  depth-first search accepts exactly the acyclic member relations; it rejects every other one as a
  cycle, and its array accesses never go out of range.
\<close>

theorem group_cycles_detected:
  assumes "groups_valid groups names" "ran names \<subseteq> {..<pc}"
  shows "resolve_groups groups names pc =
     (if acyclic (member_rel groups)
      then Ok (map2 (\<lambda>g ms. \<lparr>g_name = rg_name g, g_members = ms\<rparr>) groups (index_edges groups names pc),
               all_names groups names pc)
      else Err GroupCycle)"
  using assms by (rule resolve_groups_eq)

definition demo_cycle :: "raw_group list" where
  "demo_cycle = [\<lparr>rg_name = ''pick'', rg_kind = ''select'', rg_proxies = [''ads'']\<rparr>,
     \<lparr>rg_name = ''ads'', rg_kind = ''select'', rg_proxies = [''DIRECT'', ''pick'']\<rparr>]"

theorem group_cycles_detected_witness:
  "groups_valid demo_cycle [''DIRECT'' \<mapsto> 0] \<and> resolve_groups demo_cycle [''DIRECT'' \<mapsto> 0] 1 = Err GroupCycle"
proof -
  have v: "groups_valid demo_cycle [''DIRECT'' \<mapsto> 0]"
    by (simp add: groups_valid_def demo_cycle_def demo_validate_names)
  have "(''pick'', ''ads'') \<in> member_rel demo_cycle" "(''ads'', ''pick'') \<in> member_rel demo_cycle"
    unfolding member_rel_def demo_cycle_def by force+
  then have "(''pick'', ''pick'') \<in> (member_rel demo_cycle)\<^sup>+" by (meson trancl.simps)
  then have "\<not> acyclic (member_rel demo_cycle)" by (auto simp: acyclic_def)
  then show ?thesis using group_cycles_detected [OF v, of 1] v by auto
qed

text \<open>
  C12 (parsed_rule_well_formed).  A rule that parses has a canonical matcher of the type its text names,
  and a target that is a known node.
\<close>

theorem parsed_rule_well_formed:
  "rule_parse N source names = Ok r \<Longrightarrow> rule_ok N names r"
  by (rule rule_parse_rule_ok)

theorem parsed_rule_well_formed_witness:
  "rule_parse demo_net ''MATCH,pick'' demo_names = Ok demo_final \<and> rule_ok demo_net demo_names demo_final"
  using parsed_rule_well_formed [OF demo_rule_parse(2)] demo_rule_parse(2) by simp

text \<open>
  C13 (rule_text_round_trip).  Printing a matcher with its target and options, and parsing the text,
  gives the rule back; \<open>show_net\<close> prints a network that \<open>net_parse\<close> reads back.
\<close>

theorem rule_text_round_trip:
  assumes "writable N show_net m" "plain_field name" "names name = Some p"
  shows "rule_parse N (matcher_text N show_net m name) names
       = Ok \<lparr>r_matcher = m, r_proxy = p, r_kind = matcher_kind N m,
             r_payload = (case matcher_payload show_net m of [] \<Rightarrow> [] | s # _ \<Rightarrow> s)\<rparr>"
  using assms by (rule rule_parse_matcher_text)

theorem rule_text_round_trip_witness:
  "writable demo_net (\<lambda>_. ''10.0.0.0/8'') (Ip () True)
   \<and> rule_parse demo_net (matcher_text demo_net (\<lambda>_. ''10.0.0.0/8'') (Ip () True) ''pick'') demo_names
     = Ok \<lparr>r_matcher = Ip () True, r_proxy = 2, r_kind = ''IP-CIDR'', r_payload = ''10.0.0.0/8''\<rparr>"
proof -
  have "plain_field ''10.0.0.0/8''" "plain_field ''pick''" by (rule plain_fieldI, simp)+
  then show ?thesis
    using rule_text_round_trip [of demo_net "\<lambda>_. ''10.0.0.0/8''" "Ip () True" "''pick''" demo_names 2]
    by (simp add: demo_net_def demo_names_def)
qed

text \<open>
  C14 (built_node_safe).  A proxy node that is built has a valid server, a non-empty password without
  control characters, one of the three AEAD ciphers, and, unless certificate verification is off, a TLS
  name that is a DNS name and not an address.
\<close>

theorem built_node_safe:
  "build server_name p = Ok q \<Longrightarrow> proxy_ok q \<and> p_name q = rp_name p"
  by (rule build_proxy_ok)

definition demo_node :: raw_proxy where
  "demo_node = \<lparr>rp_name = ''n'', rp_kind = ''ss'', rp_server = ''10.0.0.1'', rp_port = 443, rp_password = ''pw'',
     rp_cipher = Some ''chacha20-poly1305'', rp_sni = None, rp_skip_cert_verify = None, rp_tls = None,
     rp_network = None, rp_udp = True, rp_plugin = None, rp_disable_reuse = None, rp_plugin_opts = None\<rparr>"

definition demo_proxy :: proxy where
  "demo_proxy = \<lparr>p_name = ''n'', p_kind = Shadowsocks ''10.0.0.1'' 443 ''pw'' ''chacha20-ietf-poly1305'',
     p_udp = True, p_obfs = None\<rparr>"

lemma demo_node_build: "build (\<lambda>_. True) demo_node = Ok demo_proxy"
proof -
  have "ip_string (V4 10 0 0 1) = ''10.0.0.1''" by (simp add: ip4_string_def dec.simps)
  then have "is_ok (target_new ''10.0.0.1'' 443)" using target_new_ip [of 443 "V4 10 0 0 1"] by simp
  then show ?thesis
    by (auto simp: build_def demo_node_def demo_proxy_def build_obfs_def build_shadowsocks_def ss_cipher_def
        is_ascii_control_def is_ok_iff)
qed

theorem built_node_safe_witness:
  "build (\<lambda>_. True) demo_node = Ok demo_proxy \<and> proxy_ok demo_proxy"
  using built_node_safe [OF demo_node_build] demo_node_build by simp

text \<open>
  C15 (document_bounded).  A document that is accepted is a mapping of at most 262144 entries nested at
  most 129 deep, with ascending keys, no merge keys and finite numbers, and its source has at most 16 MiB.
\<close>

theorem document_bounded:
  "parse_document P source = Ok j \<Longrightarrow>
     json_ok j \<and> json_depth j \<le> 129 \<and> json_entries j \<le> 262144 \<and> length source \<le> 16777216
     \<and> (\<exists>kvs. j = JObj kvs)"
  using parse_document_ok [of P source j]
  by (auto simp: document_ok_def MAX_DOCUMENT_DEPTH_def MAX_COLLECTION_ENTRIES_def MAX_SOURCE_BYTES_def)

theorem document_bounded_witness:
  "parse_document (e_parsers demo_environment) [] = Ok (JObj [(''rules'', JArr [])])
   \<and> json_depth (JObj [(''rules'', JArr [])]) \<le> 129"
  using document_bounded [OF demo_document] demo_document by simp

text \<open>
  C16 (expansion_fails_closed).  When rule providers are used, the expanded rule list ends with the only
  unconditional rule; where the configuration has no final rule of its own, that rule rejects.  The list has
  at most 262144 rules, and each is well formed.
\<close>

theorem expansion_fails_closed:
  assumes "expand N P url_parse sources providers assets names = Ok rs" "providers \<noteq> []"
  shows "r_matcher (last rs) = MatchAll \<and> (\<forall>r\<in>set (butlast rs). r_matcher r \<noteq> MatchAll)
     \<and> ((\<forall>s\<in>set sources. rule_fields s ! 0 \<noteq> ''MATCH'') \<longrightarrow> names ''REJECT'' = Some (r_proxy (last rs)))
     \<and> rs \<noteq> [] \<and> length rs \<le> 262144 \<and> (\<forall>r\<in>set rs. rule_ok N names r)"
proof -
  have "length rs \<le> 262144" using assms(1) by (rule expand_OkE) (simp add: MAX_RULES_def)
  then show ?thesis using expand_fail_closed [OF assms] expand_rules_ok [OF assms(1)] by blast
qed

theorem expansion_fails_closed_witness:
  "expand demo_net (e_parsers demo_environment) (\<lambda>_. None) demo_sources demo_providers demo_assets demo_names
     = Ok [demo_rule 1, demo_final]
   \<and> r_matcher demo_final = MatchAll \<and> rule_ok demo_net demo_names (demo_rule 1)"
  using expansion_fails_closed [OF demo_expand] demo_expand by (simp add: demo_providers_def)

text \<open>
  Whatever the servers answer, the downloaded provider files stay within
  the limits that a later parse enforces: at most 4096 files, 16 MiB each, 64 MiB together.
\<close>

theorem downloads_within_budget:
  assumes "fetch_assets get pvs 0 [] = Ok assets" "length pvs \<le> MAX_PROVIDERS"
  shows "asset_budget assets = Ok ()
     \<and> (\<forall>bs\<in>snd ` set assets. length bs \<le> MAX_SOURCE_BYTES)
     \<and> sum_list (map (length \<circ> snd) assets) \<le> MAX_AGGREGATE_BYTES"
  using fetch_assets_budget [OF assms] asset_budget_Ok_iff [of assets "()"] by simp

definition demo_fetched :: provider where
  "demo_fetched = \<lparr>pv_kind = ''http'', pv_behavior = ''domain'', pv_path = ''a'', pv_url = Some ''u'', pv_interval = 1\<rparr>"

lemma demo_fetch: "fetch_assets (\<lambda>_. Response (Some 2) True [[1, 2]] False) [demo_fetched] 0 [] = Ok [(''a'', [1, 2])]"
  by (simp add: demo_fetched_def download_def MAX_SOURCE_BYTES_def MAX_AGGREGATE_BYTES_def)

theorem downloads_within_budget_witness:
  "fetch_assets (\<lambda>_. Response (Some 2) True [[1, 2]] False) [demo_fetched] 0 [] = Ok [(''a'', [1, 2])]
   \<and> asset_budget [(''a'', [1, 2 :: u8])] = Ok ()"
  using downloads_within_budget [OF demo_fetch] demo_fetch by (simp add: MAX_PROVIDERS_def)

text \<open>
  C17 (controller_is_local_or_authenticated).  The controller listens on the loopback address or on
  all interfaces, with a port other than zero, and a configuration passes the start-up check for all
  interfaces only with a secret.
\<close>

theorem controller_is_local_or_authenticated:
  assumes "parse_inner E source assets = Ok c" "c_controller c = Some a" "validate_controller_auth c = Ok ()"
  shows "sa_port a \<noteq> 0 \<and> (sa_ip a = V4 127 0 0 1 \<or> sa_ip a = V4 0 0 0 0 \<and> c_secret c \<noteq> [])"
  using parse_inner_controller [OF assms(1,2)] assms(2,3)
  by (auto simp: validate_controller_auth_def controller_requires_auth_def split: if_splits)

theorem controller_is_local_or_authenticated_witness:
  "validate_controller_auth demo_parsed = Ok ()
   \<and> c_controller demo_parsed = Some \<lparr>sa_ip = V4 127 0 0 1, sa_port = 9090\<rparr> \<and> (9090 :: u16) \<noteq> 0"
proof -
  have "validate_controller_auth demo_parsed = Ok ()"
    by (simp add: validate_controller_auth_def controller_requires_auth_def demo_parsed_def)
  then show ?thesis
    using controller_is_local_or_authenticated [OF demo_parse, of "\<lparr>sa_ip = V4 127 0 0 1, sa_port = 9090\<rparr>"]
    by (simp add: demo_parsed_def)
qed

text \<open>
  The proxy listing of the controller does not depend on passwords:
  replacing every password gives the same document.
\<close>

theorem listing_hides_credentials:
  "proxies_json (replace_passwords f c) = proxies_json c"
  by (rule proxies_json_replace)

end
