(* ===== verification/Connection.thy ===== *)
theory Connection
  imports Config_Route Btree
begin

text \<open>
  The connection registry (\<open>src/src/connection.rs\<close>): entries with their metadata, \<open>register\<close>, \<open>close\<close>,
  the \<open>Guard\<close> that updates and finally drops an entry, identifiers and \<open>split_id\<close>, and the order in which
  the runtime (\<open>src/src/runtime.rs\<close>) drives a guard.

  The mutex makes every operation one atomic step on the registry.  The lemmas show the registry
  invariant, that identifiers are never reused, that closing is final, and that in every interleaving
  of connections, closes and drops each entry has the shape that readers of the listing check.
\<close>

section \<open>Types\<close>

datatype phase = Handshake | Routing | Connecting | Active | Idle | UdpWait | Rejected | Closing

datatype protocol = Tcp | Udp

datatype inbound = HttpConnect | HttpForward | Socks5Connect | Socks5Udp

record metadata =
  m_id :: string
  m_source :: socket_addr
  m_protocol :: protocol
  m_phase :: phase
  m_inbound :: "inbound option"
  m_target :: "target option"
  m_routed_target :: "target option"
  m_datagram_source :: "socket_addr option"
  m_target_scope :: "string option"

record entry =
  e_metadata :: metadata
  e_route :: "(nat \<times> nat) option"
  e_cancel :: bool

record registry =
  r_nonce :: string
  r_sequence :: u64
  r_entries :: "(u64 \<times> entry) list"

datatype close_error = CloseInvalid | CloseInstance | CloseMissing

definition CONNECTION_LIMIT :: nat where "CONNECTION_LIMIT = 1024"

section \<open>Operations\<close>

definition for_instance :: "string \<Rightarrow> registry" where
  "for_instance nonce = \<lparr>r_nonce = nonce, r_sequence = 0, r_entries = []\<rparr>"

definition connection_id :: "string \<Rightarrow> u64 \<Rightarrow> string" where
  "connection_id nonce sequence = nonce @ ''-'' @ dec (unat sequence)"

definition new_entry :: "string \<Rightarrow> u64 \<Rightarrow> socket_addr \<Rightarrow> entry" where
  "new_entry nonce sequence source =
     \<lparr>e_metadata = \<lparr>m_id = connection_id nonce sequence, m_source = source, m_protocol = Tcp,
        m_phase = Handshake, m_inbound = None, m_target = None, m_routed_target = None,
        m_datagram_source = None, m_target_scope = None\<rparr>,
      e_route = None, e_cancel = False\<rparr>"

text \<open>\<open>register\<close>: the sequence number of the new guard, and the registry; \<open>checked_add\<close> refuses to wrap.\<close>

definition register :: "socket_addr \<Rightarrow> registry \<Rightarrow> u64 option \<times> registry" where
  "register source r =
     (if CONNECTION_LIMIT \<le> length (r_entries r) then (None, r)
      else if r_sequence r = - 1 then (None, r)
      else let sequence = r_sequence r + 1
           in (Some sequence,
               r\<lparr>r_sequence := sequence,
                 r_entries := btree_insert sequence (new_entry (r_nonce r) sequence source) (r_entries r)\<rparr>))"

definition split_id :: "string \<Rightarrow> (string \<times> u64) option" where
  "split_id s = Option.bind (rsplit_once (CHR ''-'') s) (\<lambda>(nonce, sequence).
     if length nonce \<noteq> 32 \<or> \<not> list_all is_lower_hex nonce \<or> starts_with ''0'' sequence
        \<or> \<not> list_all is_ascii_digit sequence then None
     else map_option (\<lambda>n. (nonce, of_nat n)) (parse_uint (2 ^ 64 - 1) sequence))"

definition close_entry :: "entry \<Rightarrow> entry" where
  "close_entry e = e\<lparr>e_metadata := (e_metadata e)\<lparr>m_phase := Closing\<rparr>, e_cancel := True\<rparr>"

definition close :: "string \<Rightarrow> registry \<Rightarrow> (unit, close_error) result \<times> registry" where
  "close s r = (case split_id s of
       None \<Rightarrow> (Err CloseInvalid, r)
     | Some (nonce, sequence) \<Rightarrow>
         if nonce \<noteq> r_nonce r then (Err CloseInstance, r)
         else (case map_of (r_entries r) sequence of
             None \<Rightarrow> (Err CloseMissing, r)
           | Some e \<Rightarrow> (Ok (), r\<lparr>r_entries := btree_insert sequence (close_entry e) (r_entries r)\<rparr>)))"

definition closing :: "entry \<Rightarrow> bool" where
  "closing e \<longleftrightarrow> m_phase (e_metadata e) = Closing"

text \<open>\<open>Guard::update\<close>: an entry that is closing, or gone, is left alone.\<close>

definition update :: "u64 \<Rightarrow> (entry \<Rightarrow> entry) \<Rightarrow> registry \<Rightarrow> registry" where
  "update sequence change r = (case map_of (r_entries r) sequence of
       None \<Rightarrow> r
     | Some e \<Rightarrow> if closing e then r
                 else r\<lparr>r_entries := btree_insert sequence (change e) (r_entries r)\<rparr>)"

definition set_phase :: "phase \<Rightarrow> entry \<Rightarrow> entry" where
  "set_phase p e = e\<lparr>e_metadata := (e_metadata e)\<lparr>m_phase := p\<rparr>\<rparr>"

definition set_inbound :: "inbound \<Rightarrow> entry \<Rightarrow> entry" where
  "set_inbound i e =
     (let m = (e_metadata e)\<lparr>m_inbound := Some i\<rparr>
      in e\<lparr>e_metadata := (if i = Socks5Udp then m\<lparr>m_protocol := Udp, m_phase := UdpWait\<rparr> else m)\<rparr>)"

definition set_target :: "target \<Rightarrow> socket_addr option \<Rightarrow> inbound \<Rightarrow> entry \<Rightarrow> entry" where
  "set_target t datagram_source i e =
     e\<lparr>e_metadata := (e_metadata e)\<lparr>m_inbound := Some i, m_target := Some t, m_routed_target := None,
          m_phase := Routing, m_datagram_source := datagram_source,
          m_target_scope := map_option (\<lambda>_. ''first_datagram'') datagram_source\<rparr>,
       e_route := None\<rparr>"

definition set_routed :: "route \<Rightarrow> entry \<Rightarrow> entry" where
  "set_routed rt e =
     e\<lparr>e_metadata := (e_metadata e)\<lparr>m_routed_target := Some (rt_target rt), m_phase := Connecting\<rparr>,
       e_route := Some (rt_rule_index rt, rt_leaf_index rt)\<rparr>"

definition set_idle :: "entry \<Rightarrow> entry" where
  "set_idle e =
     e\<lparr>e_metadata := (e_metadata e)\<lparr>m_phase := Idle, m_target := None, m_routed_target := None\<rparr>,
       e_route := None\<rparr>"

definition drop_guard :: "u64 \<Rightarrow> registry \<Rightarrow> registry" where
  "drop_guard sequence r = r\<lparr>r_entries := btree_remove sequence (r_entries r)\<rparr>"

section \<open>Identifiers\<close>

lemma minus_notin_lower_hex: "list_all is_lower_hex s \<Longrightarrow> CHR ''-'' \<notin> set s"
  by (auto simp: list_all_iff is_lower_hex_def is_ascii_digit_def)

lemma connection_id_inject [simp]: "connection_id nonce j = connection_id nonce k \<longleftrightarrow> j = k"
  by (simp add: connection_id_def word_unat_eq_iff)

lemma split_id_connection_id:
  assumes "length nonce = 32" "list_all is_lower_hex nonce" "sequence \<noteq> 0"
  shows "split_id (connection_id nonce sequence) = Some (nonce, sequence)"
proof -
  have d: "\<not> starts_with ''0'' (dec (unat sequence))"
    using hd_dec_zero [of "unat sequence"] assms(3) by (simp add: starts_with_single unat_eq_0)
  have "rsplit_once (CHR ''-'') (connection_id nonce sequence) = Some (nonce, dec (unat sequence))"
    using minus_notin_dec by (simp add: rsplit_once_Some_iff connection_id_def)
  moreover have "unat sequence \<le> 2 ^ 64 - 1"
    using unsigned_less [of sequence, where ?'a = nat] by simp
  ultimately show ?thesis using assms(1,2) d by (simp add: split_id_def)
qed

lemma split_id_SomeD:
  assumes "split_id s = Some (nonce, sequence)"
  shows "s = connection_id nonce sequence \<and> length nonce = 32 \<and> list_all is_lower_hex nonce \<and> sequence \<noteq> 0"
proof -
  obtain ds n where ds: "s = nonce @ CHR ''-'' # ds" "length nonce = 32" "list_all is_lower_hex nonce"
      "\<not> starts_with ''0'' ds" "list_all is_ascii_digit ds" "parse_uint (2 ^ 64 - 1) ds = Some n"
    and sequence: "sequence = of_nat n"
    using assms by (auto simp: split_id_def bind_eq_Some_conv rsplit_once_Some_iff split: if_splits)
  have ne: "ds \<noteq> []" using ds(6) by (auto simp: parse_uint_def)
  then have n: "n = dec_val ds" "n \<le> 2 ^ 64 - 1"
    using ds(5,6) by (auto simp: parse_uint_digits split: if_splits)
  have "hd ds \<noteq> CHR ''0''" using ds(4) ne by (simp add: starts_with_single)
  then have dec: "dec n = ds" using ds(5) ne n(1) by (simp add: dec_dec_val)
  have u: "unat sequence = n" using n(2) by (simp add: sequence unsigned_of_nat take_bit_eq_mod)
  have "n \<noteq> 0" using hd_dec_zero [of n] dec \<open>hd ds \<noteq> CHR ''0''\<close> by simp
  then show ?thesis using ds(1-3) dec u by (auto simp: connection_id_def)
qed

section \<open>The registry invariant\<close>

text \<open>
  The nonce is 32 lower-case hexadecimal digits; the entries are below the limit, in order, with keys
  between 1 and the last sequence number; and every entry carries the identifier of its key.
\<close>

definition registry_ok :: "registry \<Rightarrow> bool" where
  "registry_ok r \<longleftrightarrow> length (r_nonce r) = 32 \<and> list_all is_lower_hex (r_nonce r)
     \<and> btree_ok (r_entries r) \<and> length (r_entries r) \<le> CONNECTION_LIMIT
     \<and> (\<forall>k e. map_of (r_entries r) k = Some e \<longrightarrow>
          0 < k \<and> k \<le> r_sequence r \<and> m_id (e_metadata e) = connection_id (r_nonce r) k
          \<and> (closing e \<longrightarrow> e_cancel e))"

interpretation guards: guarded_map btree_ok "[]" map_of btree_insert btree_remove length closing
  by unfold_locales

lemma update_eq: "update k f r = r\<lparr>r_entries := guards.guarded k f (r_entries r)\<rparr>"
  by (simp add: update_def guards.guarded_def split: option.splits)

lemma for_instance_ok:
  "length nonce = 32 \<Longrightarrow> list_all is_lower_hex nonce \<Longrightarrow> registry_ok (for_instance nonce)"
  by (simp add: for_instance_def registry_ok_def)

lemma word_less_add_one: "w \<noteq> - 1 \<Longrightarrow> w < w + (1 :: u64)"
proof -
  assume "w \<noteq> - 1"
  then have "1 + w \<noteq> 0" by (metis add.commute add_eq_0_iff)
  then have "unat (1 + w) = Suc (unat w)" by (rule unatSuc)
  then show ?thesis by (simp add: word_less_nat_alt add.commute)
qed

lemma registry_okD:
  "registry_ok r \<Longrightarrow> map_of (r_entries r) k = Some e \<Longrightarrow>
     0 < k \<and> k \<le> r_sequence r \<and> m_id (e_metadata e) = connection_id (r_nonce r) k \<and> (closing e \<longrightarrow> e_cancel e)"
  unfolding registry_ok_def by blast

lemma map_of_sequence_fresh:
  assumes "registry_ok r" "r_sequence r < k" shows "map_of (r_entries r) k = None"
proof (rule ccontr)
  assume "map_of (r_entries r) k \<noteq> None"
  then obtain e where "map_of (r_entries r) k = Some e" by blast
  from registry_okD [OF assms(1) this] have "k \<le> r_sequence r" by blast
  with assms(2) show False by (simp add: leD)
qed

lemma register_Some:
  assumes "register source r = (Some k, r')"
  shows "r_sequence r < k \<and> r_sequence r' = k \<and> r_nonce r' = r_nonce r \<and> length (r_entries r) < CONNECTION_LIMIT
     \<and> r_entries r' = btree_insert k (new_entry (r_nonce r) k source) (r_entries r)"
  using assms word_less_add_one [of "r_sequence r"]
  by (auto simp: register_def Let_def not_le split: if_splits)

lemma register_None: "register source r = (None, r') \<Longrightarrow> r' = r"
  by (auto simp: register_def Let_def split: if_splits)

lemma register_ok:
  assumes "registry_ok r" shows "registry_ok (snd (register source r))"
proof (cases "fst (register source r)")
  case None
  then show ?thesis using register_None assms by (metis prod.collapse)
next
  case (Some k)
  then have reg: "register source r = (Some k, snd (register source r))" by (metis prod.collapse)
  let ?r = "snd (register source r)"
  note s = register_Some [OF reg]
  have new: "map_of (r_entries r) k = None" by (rule map_of_sequence_fresh [OF assms conjunct1 [OF s]])
  have "0 < k" by (rule order.strict_trans1 [OF word_zero_le conjunct1 [OF s]])
  have entries: "0 < j \<and> j \<le> r_sequence ?r \<and> m_id (e_metadata e) = connection_id (r_nonce ?r) j \<and> (closing e \<longrightarrow> e_cancel e)"
    if "map_of (r_entries ?r) j = Some e" for j e
  proof (cases "j = k")
    case True
    then have "e = new_entry (r_nonce r) k source" using that s by (simp add: map_of_btree_insert)
    then show ?thesis using True \<open>0 < k\<close> s by (simp add: new_entry_def closing_def)
  next
    case False
    then have "map_of (r_entries r) j = Some e" using that s by (simp add: map_of_btree_insert)
    from registry_okD [OF assms this] show ?thesis using s by auto
  qed
  have "btree_ok (r_entries ?r)" "length (r_entries ?r) \<le> CONNECTION_LIMIT"
    using s new assms by (simp_all add: registry_ok_def btree_ok_insert length_btree_insert)
  moreover have "length (r_nonce ?r) = 32" "list_all is_lower_hex (r_nonce ?r)"
    using s assms by (simp_all add: registry_ok_def)
  ultimately show ?thesis using entries unfolding registry_ok_def by blast
qed

lemma close_Ok:
  assumes "close s r = (Ok (), r')"
  shows "\<exists>k e. split_id s = Some (r_nonce r, k) \<and> map_of (r_entries r) k = Some e
     \<and> r' = r\<lparr>r_entries := btree.modify k close_entry (r_entries r)\<rparr>"
  using assms by (auto simp: close_def btree.modify_def split: option.splits prod.splits if_splits)

lemma close_Err: "close s r = (Err e, r') \<Longrightarrow> r' = r"
  by (auto simp: close_def split: option.splits prod.splits if_splits)

text \<open>Every change of an entry that keeps its identifier keeps the invariant.\<close>

lemma registry_ok_modify:
  assumes "registry_ok r" "\<And>e. map_of (r_entries r) k = Some e \<Longrightarrow>
      m_id (e_metadata (f e)) = m_id (e_metadata e) \<and> (closing (f e) \<longrightarrow> e_cancel (f e))"
  shows "registry_ok (r\<lparr>r_entries := btree.modify k f (r_entries r)\<rparr>)"
  using assms unfolding registry_ok_def
  by (auto simp: btree.ok_modify btree.len_modify btree.get_modify split: if_splits)

lemma close_ok: "registry_ok r \<Longrightarrow> registry_ok (snd (close s r))"
proof (cases "fst (close s r)")
  case (Ok u)
  assume r: "registry_ok r"
  have "close s r = (Ok (), snd (close s r))" using Ok by (metis prod.collapse unit_eq)
  from close_Ok [OF this] show ?thesis
    using registry_ok_modify [OF r, of _ close_entry] by (auto simp: close_entry_def closing_def)
next
  case (Err e)
  assume "registry_ok r"
  then show ?thesis using close_Err [of s r e "snd (close s r)"] Err by (metis prod.collapse)
qed

lemma update_ok:
  assumes "registry_ok r" "\<And>e. map_of (r_entries r) k = Some e \<Longrightarrow> \<not> closing e \<Longrightarrow>
      m_id (e_metadata (f e)) = m_id (e_metadata e) \<and> \<not> closing (f e)"
  shows "registry_ok (update k f r)"
  using assms unfolding update_eq registry_ok_def
  by (auto simp: guards.ok_guarded guards.len_guarded guards.get_guarded split: if_splits)

lemma drop_guard_ok: "registry_ok r \<Longrightarrow> registry_ok (drop_guard k r)"
  unfolding registry_ok_def drop_guard_def
  by (auto simp: btree.ok_del btree.len_del btree.get_del split: if_splits)

section \<open>The life of a connection\<close>

text \<open>
  The shape of an entry that the reader of a listing checks (\<open>valid_response\<close>): which fields a phase
  requires and excludes, that UDP is exactly the SOCKS association, and that a route, its target and the
  datagram fields come and go together.
\<close>

definition entry_ok :: "entry \<Rightarrow> bool" where
  "entry_ok e \<longleftrightarrow>
     (let m = e_metadata e; udp = (m_protocol m = Udp); datagram = (udp \<and> m_target m \<noteq> None)
      in (e_route e = None) = (m_routed_target m = None)
       \<and> (m_phase m \<in> {Idle, Handshake, UdpWait} \<longrightarrow> m_target m = None \<and> e_route e = None)
       \<and> (m_phase m \<in> {Active, Connecting, Rejected} \<longrightarrow>
            m_target m \<noteq> None \<and> e_route e \<noteq> None \<and> m_inbound m \<noteq> None)
       \<and> (m_phase m = Routing \<longrightarrow> m_target m \<noteq> None \<and> e_route e = None)
       \<and> udp = (m_inbound m = Some Socks5Udp)
       \<and> (m_phase m = UdpWait \<longrightarrow> udp) \<and> (m_phase m = Handshake \<longrightarrow> \<not> udp)
       \<and> (m_datagram_source m \<noteq> None) = datagram \<and> (m_target_scope m \<noteq> None) = datagram
       \<and> (m_target_scope m \<noteq> None \<longrightarrow> m_target_scope m = Some ''first_datagram'')
       \<and> (m_phase m = Idle \<longrightarrow> m_inbound m = Some HttpForward)
       \<and> (m_routed_target m \<noteq> None \<longrightarrow> m_target m \<noteq> None))"

text \<open>
  Where the task of a connection is (\<open>serve\<close>, \<open>dial\<close>, \<open>associate\<close> and \<open>udp_relay\<close> in
  \<open>src/src/runtime.rs\<close>), and what its entry looks like there unless it is closing.
\<close>

datatype point =
    AtStart
  | AtUdpWait
  | AtTarget inbound
  | AtRouted inbound
  | AtActive inbound
  | AtRejected inbound
  | AtIdle

definition shaped :: "phase \<Rightarrow> inbound option \<Rightarrow> bool \<Rightarrow> bool \<Rightarrow> entry \<Rightarrow> bool" where
  "shaped ph inb has_target has_route e \<longleftrightarrow>
     (let m = e_metadata e
      in m_phase m = ph \<and> m_inbound m = inb
       \<and> m_protocol m = (if inb = Some Socks5Udp then Udp else Tcp)
       \<and> (m_target m \<noteq> None) = has_target \<and> (m_routed_target m \<noteq> None) = has_route
       \<and> (e_route e \<noteq> None) = has_route
       \<and> (m_datagram_source m \<noteq> None) = (has_target \<and> inb = Some Socks5Udp)
       \<and> m_target_scope m = map_option (\<lambda>_. ''first_datagram'') (m_datagram_source m))"

fun at_point :: "point \<Rightarrow> entry \<Rightarrow> bool" where
  "at_point AtStart e = shaped Handshake None False False e"
| "at_point AtUdpWait e = shaped UdpWait (Some Socks5Udp) False False e"
| "at_point (AtTarget i) e = shaped Routing (Some i) True False e"
| "at_point (AtRouted i) e = shaped Connecting (Some i) True True e"
| "at_point (AtActive i) e = shaped Active (Some i) True True e"
| "at_point (AtRejected i) e = shaped Rejected (Some i) True True e"
| "at_point AtIdle e = shaped Idle (Some HttpForward) False False e"

text \<open>
  One step of the runtime.  \<open>T\<close> and \<open>R\<close> say which targets a request may name and which routes a dial
  may take; the guard never looks at them.
\<close>

type_synonym world = "registry \<times> (u64 \<rightharpoonup> point)"

inductive conn_step :: "(target \<Rightarrow> bool) \<Rightarrow> (route \<Rightarrow> bool) \<Rightarrow> world \<Rightarrow> world \<Rightarrow> bool" for T R where
  accept: "register source r = (Some k, r') \<Longrightarrow> conn_step T R (r, p) (r', p(k \<mapsto> AtStart))"
| refuse: "register source r = (None, r') \<Longrightarrow> conn_step T R (r, p) (r', p)"
| socks_connect: "p k = Some AtStart \<Longrightarrow> T t \<Longrightarrow>
    conn_step T R (r, p) (update k (set_target t None Socks5Connect) r, p(k \<mapsto> AtTarget Socks5Connect))"
| http_request: "p k = Some AtStart \<or> p k = Some AtIdle \<Longrightarrow> i = HttpForward \<or> i = HttpConnect \<Longrightarrow> T t \<Longrightarrow>
    conn_step T R (r, p) (update k (set_target t None i) r, p(k \<mapsto> AtTarget i))"
| associate: "p k = Some AtStart \<Longrightarrow>
    conn_step T R (r, p) (update k (set_inbound Socks5Udp) r, p(k \<mapsto> AtUdpWait))"
| first_datagram: "p k = Some AtUdpWait \<Longrightarrow> T t \<Longrightarrow>
    conn_step T R (r, p) (update k (set_target t (Some sender) Socks5Udp) r, p(k \<mapsto> AtTarget Socks5Udp))"
| routed: "p k = Some (AtTarget i) \<Longrightarrow> R rt \<Longrightarrow>
    conn_step T R (r, p) (update k (set_routed rt) r, p(k \<mapsto> AtRouted i))"
| rejected: "p k = Some (AtRouted i) \<Longrightarrow>
    conn_step T R (r, p) (update k (set_phase Rejected) r, p(k \<mapsto> AtRejected i))"
| active: "p k = Some (AtRouted i) \<Longrightarrow>
    conn_step T R (r, p) (update k (set_phase Active) r, p(k \<mapsto> AtActive i))"
| idle: "p k = Some (AtActive HttpForward) \<Longrightarrow>
    conn_step T R (r, p) (update k set_idle r, p(k \<mapsto> AtIdle))"
| closed: "conn_step T R (r, p) (snd (close s r), p)"
| dropped: "p k \<noteq> None \<Longrightarrow> conn_step T R (r, p) (drop_guard k r, p(k := None))"

inductive_cases conn_stepE: "conn_step T R (r, p) w"

definition world_ok :: "world \<Rightarrow> bool" where
  "world_ok = (\<lambda>(r, p). registry_ok r
     \<and> (\<forall>k e. map_of (r_entries r) k = Some e \<longrightarrow>
          entry_ok e \<and> (\<exists>q. p k = Some q \<and> (closing e \<or> at_point q e))))"

lemma at_point_entry_ok: "at_point q e \<Longrightarrow> entry_ok e"
  by (cases q; cases "e_route e") (auto simp: shaped_def entry_ok_def Let_def)

lemma at_point_not_closing: "at_point q e \<Longrightarrow> \<not> closing e"
  by (cases q) (auto simp: shaped_def closing_def Let_def)

lemma entry_ok_close: "entry_ok e \<Longrightarrow> entry_ok (close_entry e) \<and> closing (close_entry e)"
  by (auto simp: entry_ok_def close_entry_def closing_def Let_def)

lemma world_ok_update:
  assumes "world_ok (r, p)" "p k = Some q"
    and "\<And>e. at_point q e \<Longrightarrow> at_point q' (f e) \<and> m_id (e_metadata (f e)) = m_id (e_metadata e)"
  shows "world_ok (update k f r, p(k \<mapsto> q'))"
proof -
  have r: "registry_ok r" and es: "\<And>j e. map_of (r_entries r) j = Some e \<Longrightarrow>
      entry_ok e \<and> (\<exists>q. p j = Some q \<and> (closing e \<or> at_point q e))"
    using assms(1) unfolding world_ok_def by blast+
  have ok: "btree_ok (r_entries r)" using r by (simp add: registry_ok_def)
  have at: "at_point q e" if "map_of (r_entries r) k = Some e" "\<not> closing e" for e
    using es [OF that(1)] that(2) assms(2) by auto
  have "registry_ok (update k f r)"
  proof (rule update_ok [OF r])
    fix e assume "map_of (r_entries r) k = Some e" "\<not> closing e"
    then show "m_id (e_metadata (f e)) = m_id (e_metadata e) \<and> \<not> closing (f e)"
      using assms(3) at at_point_not_closing by blast
  qed
  moreover have "entry_ok e \<and> (\<exists>q. (p(k \<mapsto> q')) j = Some q \<and> (closing e \<or> at_point q e))"
    if e: "map_of (r_entries (update k f r)) j = Some e" for j e
  proof (cases "j = k")
    case True
    then obtain e' where e': "map_of (r_entries r) k = Some e'" "e = (if closing e' then e' else f e')"
      using e ok by (auto simp: update_eq guards.get_guarded)
    show ?thesis
    proof (cases "closing e'")
      case False
      then have "at_point q' e" using assms(3) at e' by simp
      then show ?thesis using True at_point_entry_ok by auto
    qed (use True es e' in auto)
  next
    case False
    then have "map_of (r_entries r) j = Some e" using e ok by (simp add: update_eq guards.get_guarded)
    from es [OF this] show ?thesis using False by auto
  qed
  ultimately show ?thesis unfolding world_ok_def by blast
qed

lemma world_ok_registry: "world_ok (r, p) \<Longrightarrow> registry_ok r"
  by (simp add: world_ok_def)

lemma world_ok_accept:
  assumes w: "world_ok (r, p)" and reg: "register source r = (Some k, r')"
  shows "world_ok (r', p(k \<mapsto> AtStart))"
proof -
  note r = world_ok_registry [OF w] and s = register_Some [OF reg]
  have "registry_ok r'" using register_ok [OF r, of source] reg by simp
  moreover have "entry_ok e \<and> (\<exists>q. (p(k \<mapsto> AtStart)) j = Some q \<and> (closing e \<or> at_point q e))"
    if "map_of (r_entries r') j = Some e" for j e
  proof (cases "j = k")
    case True
    then have "at_point AtStart e" using that s
      by (auto simp: map_of_btree_insert new_entry_def shaped_def)
    with at_point_entry_ok [OF this] True show ?thesis by auto
  next
    case False
    then have "map_of (r_entries r) j = Some e" using that s by (simp add: map_of_btree_insert)
    then show ?thesis using w False by (auto simp: world_ok_def)
  qed
  ultimately show ?thesis unfolding world_ok_def by blast
qed

lemma world_ok_close:
  assumes w: "world_ok (r, p)" shows "world_ok (snd (close s r), p)"
proof (cases "close s r")
  case (Pair res r')
  show ?thesis
  proof (cases res)
    case (Ok u)
    then have "close s r = (Ok (), r')" using Pair by simp
    from close_Ok [OF this] obtain k where
      r': "r' = r\<lparr>r_entries := btree.modify k close_entry (r_entries r)\<rparr>" by blast
    have ok: "btree_ok (r_entries r)" using world_ok_registry [OF w] by (simp add: registry_ok_def)
    have "registry_ok r'" using close_ok [OF world_ok_registry [OF w], of s] Pair by simp
    moreover have "entry_ok e \<and> (\<exists>q. p j = Some q \<and> (closing e \<or> at_point q e))"
      if "map_of (r_entries r') j = Some e" for j e
      using that ok w entry_ok_close unfolding world_ok_def r'
      by (fastforce simp: btree.get_modify split: if_splits)
    ultimately show ?thesis using Pair unfolding world_ok_def by simp
  qed (use close_Err Pair w in auto)
qed

lemma world_ok_drop: "world_ok (r, p) \<Longrightarrow> world_ok (drop_guard k r, p(k := None))"
  using drop_guard_ok [of r k] unfolding world_ok_def
  by (auto simp: drop_guard_def registry_ok_def btree.get_del split: if_splits)

lemmas change_defs = set_phase_def set_inbound_def set_target_def set_routed_def set_idle_def shaped_def Let_def

lemma conn_step_ok: "conn_step T R w w' \<Longrightarrow> world_ok w \<Longrightarrow> world_ok w'"
proof (induction rule: conn_step.induct)
  case accept
  then show ?case by (blast intro: world_ok_accept)
next
  case (refuse source r r' p)
  then show ?case using register_None by blast
next
  case (socks_connect p k t r)
  then show ?case by (intro world_ok_update [where q = AtStart]) (auto simp: change_defs)
next
  case (http_request p k i t r)
  then show ?case
    using world_ok_update [of r p k AtStart "AtTarget i" "set_target t None i"]
      world_ok_update [of r p k AtIdle "AtTarget i" "set_target t None i"]
    by (auto simp: change_defs)
next
  case (associate p k r)
  then show ?case by (intro world_ok_update [where q = AtStart]) (auto simp: change_defs)
next
  case (first_datagram p k t r sender)
  then show ?case by (intro world_ok_update [where q = AtUdpWait]) (auto simp: change_defs)
next
  case (routed p k i rt r)
  then show ?case by (intro world_ok_update [where q = "AtTarget i"]) (auto simp: change_defs)
next
  case (rejected p k i r)
  then show ?case by (intro world_ok_update [where q = "AtRouted i"]) (auto simp: change_defs)
next
  case (active p k i r)
  then show ?case by (intro world_ok_update [where q = "AtRouted i"]) (auto simp: change_defs)
next
  case (idle p k r)
  then show ?case by (intro world_ok_update [where q = "AtActive HttpForward"]) (auto simp: change_defs)
next
  case closed
  then show ?case by (rule world_ok_close)
next
  case dropped
  then show ?case by (blast intro: world_ok_drop)
qed

lemma conn_steps_ok: "(conn_step T R)\<^sup>*\<^sup>* w w' \<Longrightarrow> world_ok w \<Longrightarrow> world_ok w'"
  by (induction rule: rtranclp_induct) (auto intro: conn_step_ok)

lemma for_instance_world_ok:
  "length nonce = 32 \<Longrightarrow> list_all is_lower_hex nonce \<Longrightarrow> world_ok (for_instance nonce, Map.empty)"
  using for_instance_ok [of nonce] by (simp add: world_ok_def for_instance_def)

section \<open>What holds along every run\<close>

lemma close_cases:
  assumes "close s r = (res, r')"
  obtains (err) e where "res = Err e" "r' = r"
  | (ok) k e where "res = Ok ()" "split_id s = Some (r_nonce r, k)" "map_of (r_entries r) k = Some e"
      "r' = r\<lparr>r_entries := btree.modify k close_entry (r_entries r)\<rparr>"
proof (cases res)
  case (Ok u)
  then show ?thesis using assms close_Ok [of s r r'] ok by auto
next
  case (Err e)
  then show ?thesis using assms close_Err err by blast
qed

text \<open>The sequence number of a registry never falls, and its nonce never changes.\<close>

lemma conn_step_sequence:
  "conn_step T R w w' \<Longrightarrow> r_sequence (fst w) \<le> r_sequence (fst w') \<and> r_nonce (fst w') = r_nonce (fst w)"
proof (induction rule: conn_step.induct)
  case (accept source r k r' p)
  then show ?case using register_Some [OF accept] by auto
next
  case (closed r p s)
  show ?case by (cases "close s r" rule: prod.exhaust) (auto elim: close_cases)
qed (auto dest: register_None simp: update_eq drop_guard_def)

lemma conn_steps_nonce: "(conn_step T R)\<^sup>*\<^sup>* w w' \<Longrightarrow> r_nonce (fst w') = r_nonce (fst w)"
  by (induction rule: rtranclp_induct) (auto dest: conn_step_sequence)

text \<open>An entry that is closing stays as it is until it is gone.\<close>

definition settled :: "u64 \<Rightarrow> entry option \<Rightarrow> world \<Rightarrow> bool" where
  "settled k o' = (\<lambda>(r, p). world_ok (r, p) \<and> k \<le> r_sequence r
     \<and> (map_of (r_entries r) k = None \<or> map_of (r_entries r) k = o'))"

lemma close_entry_closing: "closing e \<Longrightarrow> e_cancel e \<Longrightarrow> close_entry e = e"
  by (simp add: close_entry_def closing_def)

lemma conn_step_settled:
  assumes "conn_step T R w w'" "settled k o' w" "\<And>e. o' = Some e \<Longrightarrow> closing e"
  shows "settled k o' w'"
proof -
  have ok: "world_ok w'" and le: "k \<le> r_sequence (fst w')"
    using conn_step_ok [OF assms(1)] conn_step_sequence [OF assms(1)] assms(2)
    by (auto simp: settled_def split: prod.splits intro: order.trans)
  obtain r p where w: "w = (r, p)" by (cases w)
  have r: "registry_ok r" "btree_ok (r_entries r)" and kr: "k \<le> r_sequence r"
    and o': "map_of (r_entries r) k = None \<or> map_of (r_entries r) k = o'"
    using assms(2) by (auto simp: settled_def w world_ok_def registry_ok_def)
  have cancel: "e_cancel e" if "map_of (r_entries r) k = Some e" "closing e" for e
    using registry_okD [OF r(1) that(1)] that(2) by blast
  have upd: "map_of (r_entries (update j f r)) k = None \<or> map_of (r_entries (update j f r)) k = o'" for j f
    using o' assms(3) r(2) by (cases "map_of (r_entries r) k") (auto simp: update_eq guards.get_guarded)
  have "map_of (r_entries (fst w')) k = None \<or> map_of (r_entries (fst w')) k = o'"
    using assms(1) unfolding w
  proof (cases rule: conn_step.cases)
    case (accept source j r' )
    then have "r_sequence r < j" "r_entries r' = btree_insert j (new_entry (r_nonce r) j source) (r_entries r)"
      using register_Some [of source r j r'] by blast+
    then show ?thesis using kr o' r(2) accept(1) by (auto simp: map_of_btree_insert)
  next
    case (closed s)
    obtain res r' where c: "close s r = (res, r')" by (cases "close s r")
    show ?thesis using c
    proof (cases rule: close_cases)
      case (ok j e)
      then show ?thesis using closed c o' r(2) assms(3) cancel
        by (auto simp: btree.get_modify close_entry_closing)
    qed (use closed c o' in auto)
  qed (use upd o' r(2) in \<open>auto dest: register_None simp: drop_guard_def btree.get_del\<close>)
  then show ?thesis using ok le by (auto simp: settled_def split: prod.splits)
qed

lemma conn_steps_settled:
  "(conn_step T R)\<^sup>*\<^sup>* w w' \<Longrightarrow> settled k o' w \<Longrightarrow> (\<And>e. o' = Some e \<Longrightarrow> closing e) \<Longrightarrow> settled k o' w'"
  by (induction rule: rtranclp_induct) (auto intro: conn_step_settled)

section \<open>Properties\<close>

text \<open>
  . \<open>split_id\<close> accepts exactly the identifiers that \<open>register\<close> issues,
  and recovers their nonce and sequence number: nothing else can name a connection.
\<close>

theorem connection_id_round_trip:
  "split_id s = Some (nonce, sequence) \<longleftrightarrow>
     s = connection_id nonce sequence \<and> length nonce = 32 \<and> list_all is_lower_hex nonce \<and> sequence \<noteq> 0"
  using split_id_SomeD [of s nonce sequence] split_id_connection_id [of nonce sequence] by blast

text \<open>
  C4 (reachable_entries_ok).  In every interleaving of accepted connections, their progress through
  handshake, routing, dialling and relaying, closes and drops, the registry holds at most 1024 entries,
  each under the identifier of its key, with pairwise different identifiers, and every entry has the shape that
  its phase and protocol prescribe.
\<close>

theorem reachable_entries_ok:
  assumes "length nonce = 32" "list_all is_lower_hex nonce"
    and "(conn_step T R)\<^sup>*\<^sup>* (for_instance nonce, Map.empty) (r, p)"
  shows "list_all (\<lambda>(k, e). entry_ok e \<and> m_id (e_metadata e) = connection_id nonce k \<and> (closing e \<longrightarrow> e_cancel e))
           (r_entries r)
     \<and> length (r_entries r) \<le> 1024 \<and> distinct (map (\<lambda>(k, e). m_id (e_metadata e)) (r_entries r))"
proof -
  have w: "world_ok (r, p)" by (rule conn_steps_ok [OF assms(3) for_instance_world_ok [OF assms(1,2)]])
  note r = world_ok_registry [OF w]
  have n: "r_nonce r = nonce"
    using conn_steps_nonce [OF assms(3)] by (simp add: for_instance_def)
  have e: "entry_ok e \<and> m_id (e_metadata e) = connection_id nonce k \<and> (closing e \<longrightarrow> e_cancel e)"
    if "(k, e) \<in> set (r_entries r)" for k e
  proof -
    have "map_of (r_entries r) k = Some e" using that r by (simp add: registry_ok_def btree_ok_distinct)
    then show ?thesis using registry_okD [OF r] w n by (auto simp: world_ok_def)
  qed
  have ids: "map (\<lambda>(k, e). m_id (e_metadata e)) (r_entries r) = map (connection_id nonce) (map fst (r_entries r))"
    using e by auto
  have "inj_on (connection_id nonce) (set (map fst (r_entries r)))" by (rule inj_onI) simp
  moreover have "distinct (map fst (r_entries r))" using r by (simp add: registry_ok_def btree_ok_distinct)
  ultimately have "distinct (map (\<lambda>(k, e). m_id (e_metadata e)) (r_entries r))"
    unfolding ids distinct_map [of "connection_id nonce"] by blast
  then show ?thesis using e r by (auto simp: list_all_iff registry_ok_def CONNECTION_LIMIT_def)
qed

text \<open>
  C5 (closing_is_final).  Once a close request is accepted, the connection is signalled, and in every
  continuation its entry is the same closing entry or gone: no late update revives it, and its
  identifier is never given to another connection.
\<close>

theorem closing_is_final:
  assumes "world_ok (r, p)" "close s r = (Ok (), r')" "(conn_step T R)\<^sup>*\<^sup>* (r', p) (rn, pn)"
  shows "\<exists>k e. split_id s = Some (r_nonce r, k) \<and> map_of (r_entries r') k = Some e \<and> closing e \<and> e_cancel e
     \<and> (map_of (r_entries rn) k = None \<or> map_of (r_entries rn) k = Some e)"
  using assms(2)
proof (cases rule: close_cases)
  case (ok k e)
  have w': "world_ok (r', p)" using world_ok_close [OF assms(1), of s] assms(2) by simp
  have b: "btree_ok (r_entries r)" using world_ok_registry [OF assms(1)] by (simp add: registry_ok_def)
  have m: "map_of (r_entries r') k = Some (close_entry e)" using ok b by (simp add: btree.get_modify)
  have c: "closing (close_entry e)" "e_cancel (close_entry e)" by (simp_all add: closing_def close_entry_def)
  have "k \<le> r_sequence r'" using registry_okD [OF world_ok_registry [OF w'] m] by blast
  then have "settled k (Some (close_entry e)) (r', p)" using w' m by (simp add: settled_def)
  from conn_steps_settled [OF assms(3) this] c have "settled k (Some (close_entry e)) (rn, pn)" by simp
  then show ?thesis using ok(2) m c by (auto simp: settled_def)
qed simp

text \<open>
  C6 (connection_ids_never_reused).  A connection that has ended never comes back: an issued identifier
  without an entry has no entry in any continuation.
\<close>

theorem connection_ids_never_reused:
  assumes "world_ok (r, p)" "k \<le> r_sequence r" "map_of (r_entries r) k = None"
    and "(conn_step T R)\<^sup>*\<^sup>* (r, p) (rn, pn)"
  shows "map_of (r_entries rn) k = None \<and> fst (close (connection_id (r_nonce r) k) rn) \<noteq> Ok ()"
proof -
  have "settled k None (rn, pn)"
    by (rule conn_steps_settled [OF assms(4)]) (use assms in \<open>auto simp: settled_def\<close>)
  then have "map_of (r_entries rn) k = None" by (auto simp: settled_def)
  moreover have "r_nonce rn = r_nonce r" using conn_steps_nonce [OF assms(4)] by simp
  ultimately show ?thesis
    by (auto simp: close_def split: option.splits if_splits prod.splits dest!: split_id_SomeD)
qed

text \<open>
  C7 (close_exact).  A close request changes exactly the entry that it names: it succeeds exactly for
  the identifier of an entry of this instance, whose phase it sets and whose task it signals.  The three errors
  are a malformed identifier, another instance, and an identifier of this instance without an entry;
  they change nothing.
\<close>

theorem close_exact:
  assumes "registry_ok r"
  shows "map_of (r_entries (snd (close s r))) =
       (\<lambda>k. if connection_id (r_nonce r) k = s then map_option close_entry (map_of (r_entries r) k)
            else map_of (r_entries r) k)
     \<and> fst (close s r) =
       (if \<exists>k\<in>dom (map_of (r_entries r)). s = connection_id (r_nonce r) k then Ok ()
        else if split_id s = None then Err CloseInvalid
        else if \<exists>k. s = connection_id (r_nonce r) k then Err CloseMissing
        else Err CloseInstance)"
proof (cases "split_id s")
  case None
  have "map_of (r_entries r) k = None" if "connection_id (r_nonce r) k = s" for k
  proof (rule ccontr)
    assume "map_of (r_entries r) k \<noteq> None"
    then obtain e where "map_of (r_entries r) k = Some e" by blast
    from registry_okD [OF assms this] have "k \<noteq> 0" by auto
    then show False using None that split_id_connection_id [of "r_nonce r" k] assms
      by (simp add: registry_ok_def)
  qed
  then show ?thesis using None by (auto simp: close_def fun_eq_iff domIff)
next
  case (Some nk)
  then obtain nonce j where nk: "split_id s = Some (nonce, j)" by (cases nk) auto
  note s = split_id_SomeD [OF nk]
  have b: "btree_ok (r_entries r)" using assms by (simp add: registry_ok_def)
  have other: "nonce = r_nonce r" if "s = connection_id (r_nonce r) k" for k
    using that s assms by (simp add: connection_id_def registry_ok_def)
  show ?thesis
  proof (cases "nonce = r_nonce r")
    case True
    then have "s = connection_id (r_nonce r) j" using s by simp
    then show ?thesis using nk True b
      by (auto simp: close_def fun_eq_iff map_of_btree_insert domIff split: option.splits)
  next
    case False
    then show ?thesis using nk other by (auto simp: close_def fun_eq_iff)
  qed
qed

section \<open>A concrete connection\<close>

definition demo_nonce :: string where
  "demo_nonce = replicate 32 (CHR ''a'')"

definition demo_source :: socket_addr where
  "demo_source = \<lparr>sa_ip = V4 127 0 0 1, sa_port = 5000\<rparr>"

definition demo_registry :: registry where
  "demo_registry = snd (register demo_source (for_instance demo_nonce))"

definition demo_closed :: registry where
  "demo_closed = snd (close (connection_id demo_nonce 1) demo_registry)"

lemma demo_nonce_ok: "length demo_nonce = 32" "list_all is_lower_hex demo_nonce"
  by (simp_all add: demo_nonce_def list_all_iff is_lower_hex_def)

lemma demo_split: "split_id (connection_id demo_nonce 1) = Some (demo_nonce, 1)"
  by (rule split_id_connection_id [OF demo_nonce_ok]) simp

lemma demo_registry_eq:
  "demo_registry = \<lparr>r_nonce = demo_nonce, r_sequence = 1, r_entries = [(1, new_entry demo_nonce 1 demo_source)]\<rparr>"
  by (simp add: demo_registry_def register_def for_instance_def CONNECTION_LIMIT_def)

lemma demo_closed_eq:
  "demo_closed = demo_registry\<lparr>r_entries := [(1, close_entry (new_entry demo_nonce 1 demo_source))]\<rparr>"
  "close (connection_id demo_nonce 1) demo_registry = (Ok (), demo_closed)"
  by (simp_all add: demo_closed_def close_def demo_split demo_registry_eq)

lemma demo_step: "conn_step (\<lambda>_. True) (\<lambda>_. True) (for_instance demo_nonce, Map.empty) (demo_registry, [1 \<mapsto> AtStart])"
  by (rule conn_step.accept [of demo_source])
     (simp add: demo_registry_def register_def for_instance_def CONNECTION_LIMIT_def)

lemma demo_world_ok: "world_ok (demo_registry, [1 \<mapsto> AtStart])"
  by (rule conn_step_ok [OF demo_step for_instance_world_ok [OF demo_nonce_ok]])

lemma demo_late:
  "conn_step (\<lambda>_. True) (\<lambda>_. True) (demo_closed, [1 \<mapsto> AtStart]) (update 1 (set_inbound Socks5Udp) demo_closed, [1 \<mapsto> AtStart, 1 \<mapsto> AtUdpWait])"
  by (rule conn_step.associate) simp

theorem reachable_entries_ok_witness:
  "(conn_step (\<lambda>_. True) (\<lambda>_. True))\<^sup>*\<^sup>* (for_instance demo_nonce, Map.empty) (demo_registry, [1 \<mapsto> AtStart])
   \<and> list_all (\<lambda>(k, e). entry_ok e \<and> m_id (e_metadata e) = connection_id demo_nonce k \<and> (closing e \<longrightarrow> e_cancel e))
       [(1, new_entry demo_nonce 1 demo_source)]"
  using reachable_entries_ok [OF demo_nonce_ok r_into_rtranclp [of "conn_step (\<lambda>_. True) (\<lambda>_. True)", OF demo_step]] r_into_rtranclp [of "conn_step (\<lambda>_. True) (\<lambda>_. True)", OF demo_step]
  by (simp add: demo_registry_eq)

theorem closing_is_final_witness:
  "close (connection_id demo_nonce 1) demo_registry = (Ok (), demo_closed)
   \<and> conn_step (\<lambda>_. True) (\<lambda>_. True) (demo_closed, [1 \<mapsto> AtStart]) (update 1 (set_inbound Socks5Udp) demo_closed, [1 \<mapsto> AtStart, 1 \<mapsto> AtUdpWait])
   \<and> (\<exists>e. map_of (r_entries demo_closed) 1 = Some e \<and> closing e \<and> e_cancel e
        \<and> (map_of (r_entries (update 1 (set_inbound Socks5Udp) demo_closed)) 1 = None
           \<or> map_of (r_entries (update 1 (set_inbound Socks5Udp) demo_closed)) 1 = Some e))"
proof -
  have "r_nonce demo_registry = demo_nonce" by (simp add: demo_registry_eq)
  then show ?thesis
    using closing_is_final [OF demo_world_ok demo_closed_eq(2) r_into_rtranclp [of "conn_step (\<lambda>_. True) (\<lambda>_. True)", OF demo_late]]
      demo_closed_eq(2) demo_late demo_split by auto
qed

theorem connection_ids_never_reused_witness:
  "conn_step (\<lambda>_. True) (\<lambda>_. True) (drop_guard 1 demo_registry, Map.empty) (snd (register demo_source (drop_guard 1 demo_registry)), [2 \<mapsto> AtStart])
   \<and> map_of (r_entries (snd (register demo_source (drop_guard 1 demo_registry)))) 1 = None"
proof -
  have reg: "register demo_source (drop_guard 1 demo_registry)
      = (Some 2, snd (register demo_source (drop_guard 1 demo_registry)))"
    by (simp add: register_def drop_guard_def demo_registry_eq CONNECTION_LIMIT_def)
  note step = conn_step.accept [OF reg, of "\<lambda>_. True" "\<lambda>_. True" Map.empty]
  have "world_ok (drop_guard 1 demo_registry, [1 \<mapsto> AtStart](1 := None))" by (rule world_ok_drop [OF demo_world_ok])
  then have "world_ok (drop_guard 1 demo_registry, Map.empty)" by simp
  from connection_ids_never_reused [OF this _ _ r_into_rtranclp [of "conn_step (\<lambda>_. True) (\<lambda>_. True)", OF step], of 1] step show ?thesis
    by (simp add: drop_guard_def demo_registry_eq)
qed

theorem close_exact_witness:
  "registry_ok demo_registry \<and> fst (close (connection_id demo_nonce 2) demo_registry) = Err CloseMissing"
proof -
  have "split_id (connection_id demo_nonce 2) = Some (demo_nonce, 2)"
    by (rule split_id_connection_id [OF demo_nonce_ok]) simp
  then show ?thesis
    using close_exact [OF world_ok_registry [OF demo_world_ok], of "connection_id demo_nonce 2"]
      world_ok_registry [OF demo_world_ok] by (auto simp: demo_registry_eq)
qed

end
