(* ===== verification/Rust_Addr.thy ===== *)
theory Rust_Addr
  imports Target
begin

text \<open>
  Socket addresses of \<open>std::net\<close>: \<open>Display\<close> and \<open>FromStr\<close> of \<open>SocketAddr\<close> (an IPv6 address in
  brackets; flow information and scope identifier are zero), and two facts on the readers of
  \<open>Rust_Net\<close>: they do not depend on the case of hexadecimal digits, and they stop before a closing bracket.
  The lemmas show that a printed socket address parses back.
\<close>

section \<open>Changes of the text that a reader follows\<close>

locale text_change =
  fixes f :: "string \<Rightarrow> string"
  assumes number: "radix = 10 \<or> radix = 16 \<Longrightarrow>
      read_number radix n z b (f s) = map_option (map_prod id f) (read_number radix n z b s)"
    and chr: "c = CHR '':'' \<or> c = CHR ''.'' \<Longrightarrow> read_char c (f s) = map_option (map_prod id f) (read_char c s)"
begin

lemma separator:
  assumes "c = CHR '':'' \<or> c = CHR ''.''" "\<And>s. r (f s) = map_option (map_prod id f) (r s)"
  shows "read_separator c i r (f s) = map_option (map_prod id f) (read_separator c i r s)"
  using chr [OF assms(1)] assms(2) by (auto simp: read_separator_def split: Option.bind_splits)

lemma ipv4: "read_ipv4 (f s) = map_option (map_prod id f) (read_ipv4 s)"
proof -
  have "read_separator (CHR ''.'') i read_octet (f s) = map_option (map_prod id f) (read_separator (CHR ''.'') i read_octet s)"
    for i s by (rule separator) (simp_all add: read_octet_def number)
  then show ?thesis unfolding read_ipv4_def by (auto split: Option.bind_splits)
qed

lemma groups: "read_groups i k (f s) = map_prod id (map_prod id f) (read_groups i k s)"
proof (induction i k s rule: read_groups.induct)
  case (2 i k s)
  have quad: "read_separator (CHR '':'') i read_ipv4 (f s)
      = map_option (map_prod id f) (read_separator (CHR '':'') i read_ipv4 s)"
    by (rule separator) (simp_all add: ipv4)
  have grp: "read_separator (CHR '':'') i (read_number 16 4 True 65535) (f s)
      = map_option (map_prod id f) (read_separator (CHR '':'') i (read_number 16 4 True 65535) s)"
    by (rule separator) (simp_all add: number)
  show ?case
  proof (cases "if 1 \<le> k then read_separator (CHR '':'') i read_ipv4 s else None")
    case None
    show ?thesis
    proof (cases "read_separator (CHR '':'') i (read_number 16 4 True 65535) s")
      case (Some gt)
      then show ?thesis using 2 None quad grp by (cases gt) (auto simp: Let_def split: if_splits prod.splits)
    qed (use None quad grp in \<open>auto split: if_splits\<close>)
  next
    case (Some q)
    then show ?thesis using quad by (cases q) (auto split: if_splits)
  qed
qed simp

lemma ipv6: "read_ipv6 (f s) = map_option (map_prod id f) (read_ipv6 s)"
  unfolding read_ipv6_def using chr [of "CHR '':''"]
  by (auto simp: Let_def groups map_prod_def option.map_comp comp_def split: prod.splits Option.bind_splits)

end

text \<open>A reader stops before a character that is neither a digit nor a separator.\<close>

lemma text_change_stop:
  assumes "to_digit 16 c = None" "c \<noteq> CHR '':''" "c \<noteq> CHR ''.''"
  shows "text_change (\<lambda>s. s @ c # u)"
proof
  fix radix n z b s
  assume r: "radix = (10 :: nat) \<or> radix = 16"
  then have d: "to_digit radix c = None" using assms(1) to_digit_16_None by auto
  have "takeWhile (\<lambda>c. to_digit radix c \<noteq> None) (s @ c # u) = takeWhile (\<lambda>c. to_digit radix c \<noteq> None) s"
    "dropWhile (\<lambda>c. to_digit radix c \<noteq> None) (s @ c # u) = dropWhile (\<lambda>c. to_digit radix c \<noteq> None) s @ c # u"
    for s by (induction s) (simp_all add: d)
  then show "read_number radix n z b (s @ c # u) = map_option (map_prod id (\<lambda>s. s @ c # u)) (read_number radix n z b s)"
    unfolding read_number_def by (simp add: Let_def)
next
  fix x s
  assume "x = CHR '':'' \<or> x = CHR ''.''"
  then show "read_char x (s @ c # u) = map_option (map_prod id (\<lambda>s. s @ c # u)) (read_char x s)"
    using assms by (auto simp: read_char_def split: list.splits)
qed

text \<open>ASCII case does not matter.\<close>

lemma to_digit_lower [simp]: "to_digit 16 (lower_char c) = to_digit 16 c" "to_digit 10 (lower_char c) = to_digit 10 c"
  using code_lower_char [of c]
  by (auto simp: to_digit_def is_ascii_digit_def is_ascii_lower_def is_ascii_upper_def Let_def)

lemma lower_char_sep [simp]: "lower_char b = CHR '':'' \<longleftrightarrow> b = CHR '':''" "lower_char b = CHR ''0'' \<longleftrightarrow> b = CHR ''0''"
  by (rule lower_char_eq_iff; simp add: is_ascii_upper_def is_ascii_lower_def)+

lemma read_number_lower:
  assumes "radix = 10 \<or> radix = 16"
  shows "read_number radix n z b (map lower_char s) = map_option (map_prod id (map lower_char)) (read_number radix n z b s)"
proof -
  have d: "to_digit radix (lower_char c) = to_digit radix c" for c using assms by auto
  have "takeWhile (\<lambda>c. to_digit radix c \<noteq> None) (map lower_char s) = map lower_char (takeWhile (\<lambda>c. to_digit radix c \<noteq> None) s)"
    "dropWhile (\<lambda>c. to_digit radix c \<noteq> None) (map lower_char s) = map lower_char (dropWhile (\<lambda>c. to_digit radix c \<noteq> None) s)" for s
    by (induction s) (simp_all add: d)
  then show ?thesis unfolding read_number_def by (auto simp: Let_def foldl_map d hd_map split: if_splits)
qed

interpretation lower: text_change "map lower_char"
  by unfold_locales (simp_all add: read_number_lower, auto simp: read_char_def split: list.splits)

lemma parse_ip_lower: "parse_ip (to_ascii_lowercase s) = parse_ip s"
  using lower.ipv4 [of s] lower.ipv6 [of s]
  unfolding parse_ip_def parse_ipv4_def parse_ipv6_def to_ascii_lowercase_def
  by (auto split: option.splits list.splits prod.splits)

text \<open>A closing bracket ends every number, and is no separator.\<close>

lemma to_digit_bracket: "to_digit 16 (CHR '']'') = None" "to_digit 10 (CHR '']'') = None"
  by (simp_all add: to_digit_def is_ascii_digit_def is_ascii_lower_def is_ascii_upper_def)

interpretation bracket: text_change "\<lambda>s. s @ CHR '']'' # u" for u
  by (rule text_change_stop) (simp_all add: to_digit_bracket)

section \<open>Socket addresses\<close>

definition socket_string :: "socket_addr \<Rightarrow> string" where
  "socket_string a = (if is_ipv4 (sa_ip a) then ip_string (sa_ip a) else ''['' @ ip_string (sa_ip a) @ '']'')
     @ '':'' @ dec (unat (sa_port a))"

text \<open>A port has any number of digits, with leading zeros; \<open>length s\<close> bounds the number of digits.\<close>

definition read_port :: "nat reader" where
  "read_port s = Option.bind (read_char (CHR '':'') s) (\<lambda>(_, t). read_number 10 (length t) True 65535 t)"

definition read_socket_v4 :: "socket_addr reader" where
  "read_socket_v4 s =
     Option.bind (read_ipv4 s) (\<lambda>((a, b, c, d), s).
     Option.bind (read_port s) (\<lambda>(p, s).
     Some (\<lparr>sa_ip = V4 (of_nat a) (of_nat b) (of_nat c) (of_nat d), sa_port = of_nat p\<rparr>, s)))"

text \<open>The scope identifier is read and dropped.\<close>

definition read_scope :: "string \<Rightarrow> string" where
  "read_scope s = (case Option.bind (read_char (CHR ''%'') s) (\<lambda>(_, t). read_number 10 (length t) True (2 ^ 32 - 1) t) of
       Some (_, t) \<Rightarrow> t | None \<Rightarrow> s)"

definition read_socket_v6 :: "socket_addr reader" where
  "read_socket_v6 s =
     Option.bind (read_char (CHR ''['') s) (\<lambda>(_, s).
     Option.bind (read_ipv6 s) (\<lambda>(ip, s).
     Option.bind (read_char (CHR '']'') (read_scope s)) (\<lambda>(_, s).
     Option.bind (read_port s) (\<lambda>(p, s).
     Some (\<lparr>sa_ip = ip, sa_port = of_nat p\<rparr>, s)))))"

definition parse_socket_addr :: "string \<Rightarrow> socket_addr option" where
  "parse_socket_addr s = (case read_socket_v4 s of
       Some (a, t) \<Rightarrow> if t = [] then Some a else None
     | None \<Rightarrow> (case read_socket_v6 s of Some (a, []) \<Rightarrow> Some a | _ \<Rightarrow> None))"

lemma read_port_dec: "read_port ('':'' @ dec (unat (p :: u16))) = Some (unat p, [])"
proof -
  have d: "list_all (\<lambda>c. to_digit 10 c \<noteq> None) (dec (unat p))"
    using dec_digits [of "unat p"] by (auto simp: list_all_iff to_digit_10)
  have "foldl (\<lambda>n c. 10 * n + the (to_digit 10 c)) 0 (dec (unat p)) = unat p"
    using foldl_dec [OF dec_digits [of "unat p"]] dec_val_dec by simp
  moreover have "unat p \<le> 65535" using unat_u16_less [of p] by linarith
  ultimately show ?thesis
    using d by (simp add: read_port_def read_char_def read_number_def Let_def list_all_iff
        takeWhile_eq_all_conv [THEN iffD2] dropWhile_eq_Nil_conv)
qed

lemma read_ipv6_ip_string:
  assumes "\<not> is_ipv4 ip" shows "read_ipv6 (ip_string ip) = Some (ip, [])"
proof -
  have "read_ipv4 (ip_string ip) = None"
  proof (rule ccontr)
    assume "read_ipv4 (ip_string ip) \<noteq> None"
    then obtain q where "read_ipv4 (ip_string ip) = Some q" by blast
    then have "parse_ip (ip_string ip) = parse_ipv4 (ip_string ip)" by (simp add: parse_ip_def)
    then have "parse_ipv4 (ip_string ip) = Some ip" by simp
    then show False using assms by (cases ip) (auto simp: parse_ipv4_def split: option.splits prod.splits list.splits)
  qed
  then have "parse_ipv6 (ip_string ip) = Some ip" using parse_ip_string [of ip] by (simp add: parse_ip_def)
  then show ?thesis by (auto simp: parse_ipv6_def split: option.splits prod.splits list.splits)
qed

lemma parse_socket_string [simp]: "parse_socket_addr (socket_string a) = Some a"
proof (cases "sa_ip a")
  case (V4 p q r s)
  have "read_socket_v4 (socket_string a) = Some (a, [])"
    using read_ipv4_ip4_string [of "'':'' @ dec (unat (sa_port a))" p q r s] read_port_dec [of "sa_port a"] V4
    by (simp add: read_socket_v4_def socket_string_def)
  then show ?thesis by (simp add: parse_socket_addr_def)
next
  case (V6 a' b c d e f g h)
  then have six: "\<not> is_ipv4 (sa_ip a)" by simp
  let ?p = "'':'' @ dec (unat (sa_port a))"
  have shown: "socket_string a = CHR ''['' # ip_string (sa_ip a) @ CHR '']'' # ?p"
    using six by (simp add: socket_string_def)
  have "read_ipv4 (CHR ''['' # t) = None" for t
    using read_ipv4_SomeD [of "CHR ''['' # t"]
    by (cases "read_ipv4 (CHR ''['' # t)") (auto simp: to_digit_def is_ascii_digit_def is_ascii_lower_def is_ascii_upper_def)
  then have "read_socket_v4 (socket_string a) = None" by (simp add: shown read_socket_v4_def)
  moreover have "read_ipv6 (ip_string (sa_ip a) @ CHR '']'' # ?p) = Some (sa_ip a, CHR '']'' # ?p)"
    using bracket.ipv6 [of "ip_string (sa_ip a)" ?p] read_ipv6_ip_string [OF six] by simp
  then have "read_socket_v6 (socket_string a) = Some (a, [])"
    using read_port_dec [of "sa_port a"]
    by (simp add: shown read_socket_v6_def read_char_def read_scope_def)
  ultimately show ?thesis by (simp add: parse_socket_addr_def)
qed

section \<open>Characters of an address\<close>

lemma parse_ip_chars:
  assumes "parse_ip s \<noteq> None" "c \<in> set s"
  shows "to_digit 16 c \<noteq> None \<or> c = CHR '':'' \<or> c = CHR ''.''"
proof (rule ccontr)
  assume n: "\<not> ?thesis"
  obtain a b where s: "s = a @ c # b" using split_list [OF assms(2)] by blast
  have "text_change (\<lambda>s. s @ c # b)" using n text_change_stop by blast
  from text_change.ipv4 [OF this, of a] text_change.ipv6 [OF this, of a] have "parse_ip s = None"
    by (auto simp: s parse_ip_def parse_ipv4_def parse_ipv6_def split: option.splits list.splits)
  then show False using assms(1) by simp
qed

lemma read_ipv4_consumed:
  assumes "read_ipv4 s = Some (q, t)"
  shows "\<exists>x. s = x @ t \<and> CHR '':'' \<notin> set x"
proof -
  have d: "to_digit 10 (CHR '':'') = None" by (simp add: to_digit_def is_ascii_digit_def is_ascii_lower_def is_ascii_upper_def)
  have octet: "\<exists>x. s = x @ t \<and> CHR '':'' \<notin> set x" if "read_octet s = Some (n, t)" for s n t
  proof -
    have "s = takeWhile (\<lambda>c. to_digit 10 c \<noteq> None) s @ t" using read_octet_SomeD [OF that] by simp
    moreover have "CHR '':'' \<notin> set (takeWhile (\<lambda>c. to_digit 10 c \<noteq> None) s)" using d by (auto dest: set_takeWhileD)
    ultimately show ?thesis by blast
  qed
  have sep: "\<exists>x. s = x @ t \<and> CHR '':'' \<notin> set x" if r: "read_separator (CHR ''.'') i read_octet s = Some (n, t)" for i s n t
  proof (cases "i = 0")
    case True
    then show ?thesis using r octet by (simp add: read_separator_def)
  next
    case False
    then obtain u where "s = CHR ''.'' # u" "read_octet u = Some (n, t)"
      using r by (auto simp: read_separator_def read_char_def split: Option.bind_splits list.splits if_splits)
    then obtain x where "s = (CHR ''.'' # x) @ t" "CHR '':'' \<notin> set x" using octet [of u n t] by auto
    then show ?thesis by (intro exI [of _ "CHR ''.'' # x"]) simp
  qed
  obtain a s1 b s2 c s3 e where
    "read_separator (CHR ''.'') 0 read_octet s = Some (a, s1)" "read_separator (CHR ''.'') 1 read_octet s1 = Some (b, s2)"
    "read_separator (CHR ''.'') 2 read_octet s2 = Some (c, s3)" "read_separator (CHR ''.'') 3 read_octet s3 = Some (e, t)"
    using assms by (auto simp: read_ipv4_def split: Option.bind_splits)
  from this [THEN sep] obtain x y z w where "s = (x @ y @ z @ w) @ t" "CHR '':'' \<notin> set (x @ y @ z @ w)" by auto
  then show ?thesis by blast
qed

lemma parse_ip_colon:
  assumes "parse_ip s \<noteq> None" "CHR '':'' \<in> set s"
  shows "parse_ipv6 s \<noteq> None"
proof (cases "read_ipv4 s")
  case None
  then show ?thesis using assms by (simp add: parse_ip_def)
next
  case (Some q)
  then obtain a where "read_ipv4 s = Some (a, [])"
    using assms(1) by (auto simp: parse_ip_def parse_ipv4_def split: option.splits list.splits prod.splits)
  then show ?thesis using read_ipv4_consumed [of s] assms(2) by auto
qed
text \<open>An address text is short.\<close>

lemma read_number_length: "read_number radix n z b s = Some (v, t) \<Longrightarrow> length s \<le> length t + n"
proof -
  assume r: "read_number radix n z b s = Some (v, t)"
  define P where "P = (\<lambda>c. to_digit radix c \<noteq> None)"
  have "t = dropWhile P s" "length (takeWhile P s) \<le> n"
    using r by (auto simp: read_number_def Let_def not_less P_def split: if_splits)
  moreover have "length s = length (takeWhile P s) + length (dropWhile P s)" by (metis length_append takeWhile_dropWhile_id)
  ultimately show ?thesis by simp
qed

lemma read_separator_length:
  assumes "read_separator c i r s = Some (v, t)" "\<And>s v t. r s = Some (v, t) \<Longrightarrow> length s \<le> length t + n"
  shows "length s \<le> length t + Suc n"
  using assms(1) assms(2) [of s v t] assms(2) [of "tl s" v t]
  by (auto simp: read_separator_def read_char_def le_SucI split: if_splits list.splits)

lemma read_ipv4_length:
  assumes "read_ipv4 s = Some (q, t)" shows "length s \<le> length t + 16"
proof -
  have octet: "length s \<le> length t + 4" if "read_separator (CHR ''.'') i read_octet s = Some (v, t)" for i s v t
    using read_separator_length [OF that, of 3] read_number_length [of 10 3 False 255] by (fastforce simp: read_octet_def)
  obtain a s1 b s2 c s3 e where
    "read_separator (CHR ''.'') 0 read_octet s = Some (a, s1)" "read_separator (CHR ''.'') 1 read_octet s1 = Some (b, s2)"
    "read_separator (CHR ''.'') 2 read_octet s2 = Some (c, s3)" "read_separator (CHR ''.'') 3 read_octet s3 = Some (e, t)"
    using assms by (auto simp: read_ipv4_def split: Option.bind_splits)
  from this [THEN octet] show ?thesis by linarith
qed

lemma read_groups_length: "read_groups i k s = (gs, q, t) \<Longrightarrow> length s \<le> length t + 5 * k + 17"
proof (induction i k s arbitrary: gs q t rule: read_groups.induct)
  case (2 i k s)
  show ?case
  proof (cases "if 1 \<le> k then read_separator (CHR '':'') i read_ipv4 s else None")
    case None
    show ?thesis
    proof (cases "read_separator (CHR '':'') i (read_number 16 4 True 65535) s")
      case (Some gu)
      obtain g u where gu: "gu = (g, u)" by fastforce
      obtain gs' q' where r: "read_groups (Suc i) k u = (gs', q', t)"
        using 2(2) None Some gu by (auto simp: Let_def split: prod.splits)
      have "length s \<le> length u + 5"
        using read_separator_length [of "CHR '':''" i "read_number 16 4 True 65535" s g u 4] Some gu read_number_length by auto
      then show ?thesis using 2(1) [OF None Some [unfolded gu] refl r] by simp
    qed (use 2(2) None in auto)
  next
    case (Some x)
    obtain qd u where x: "x = (qd, u)" by fastforce
    have "read_separator (CHR '':'') i read_ipv4 s = Some (qd, u)" using Some x by (auto split: if_splits)
    then have "length s \<le> length u + 17" using read_separator_length [of _ i read_ipv4 s qd u 16] read_ipv4_length by auto
    moreover have "u = t" using 2(2) Some x by (cases qd) auto
    ultimately show ?thesis by simp
  qed
qed simp

lemma parse_ip_length: "parse_ip s \<noteq> None \<Longrightarrow> length s \<le> 255"
proof (cases "read_ipv4 s")
  case (Some q)
  assume "parse_ip s \<noteq> None"
  then obtain v where "read_ipv4 s = Some (v, [])"
    using Some by (auto simp: parse_ip_def parse_ipv4_def split: option.splits list.splits prod.splits)
  from read_ipv4_length [OF this] show ?thesis by simp
next
  case None
  assume "parse_ip s \<noteq> None"
  then obtain ip where "read_ipv6 s = Some (ip, [])"
    using None by (auto simp: parse_ip_def parse_ipv6_def split: option.splits list.splits prod.splits)
  moreover obtain head quad s1 where h: "read_groups 0 8 s = (head, quad, s1)" by (cases "read_groups 0 8 s")
  ultimately have "s1 = [] \<or> (\<exists>s3 tail q. s1 = CHR '':'' # CHR '':'' # s3 \<and> read_groups 0 (7 - length head) s3 = (tail, q, []))"
    by (auto simp: read_ipv6_def read_char_def Let_def split: if_splits Option.bind_splits list.splits prod.splits)
  then show ?thesis using read_groups_length [OF h] by (auto dest!: read_groups_length)
qed

end
