(* ===== verification/Probes.thy ===== *)
theory Probes
  imports Connection Rust_Addr
begin

text \<open>
  Probe tickets (\<open>src/src/connection/probes.rs\<close>): bounded request tickets that a client reserves for a
  target, that one proxied request claims, and that records the route this request took.

  The clock and the random bytes are arguments.  The lemmas show the ticket invariant, that a token is
  issued once and claimed at most once, that the recorded route is the first one, and that target
  normalisation is idempotent.
\<close>

section \<open>Types\<close>

datatype probe_error =
    ProbeInvalid
  | ProbeInstance
  | ProbeMissing
  | ProbeConsumed
  | ProbeTarget
  | ProbeQuota
  | ProbeUnavailable
  | ProbeResponseTooLarge

record claim =
  cl_connection_id :: string
  cl_request_index :: u32
  cl_route :: "(nat \<times> nat) option"

record ticket =
  tk_reserved :: nat
  tk_target :: target
  tk_claim :: "claim option"

record tickets =
  ts_sequence :: u32
  ts_entries :: "(string \<times> ticket) list"

definition PROBE_LIMIT :: nat where "PROBE_LIMIT = 256"

text \<open>Instants are in nanoseconds.\<close>

definition RETENTION :: nat where "RETENTION = 120 * 1000000000"

section \<open>Operations\<close>

definition expire :: "nat \<Rightarrow> tickets \<Rightarrow> tickets" where
  "expire now ts = ts\<lparr>ts_entries := filter (\<lambda>(_, t). now - tk_reserved t < RETENTION) (ts_entries ts)\<rparr>"

definition normalized :: "target \<Rightarrow> (target, probe_error) result" where
  "normalized t =
     (let h = (case parse_ip (t_host t) of Some ip \<Rightarrow> ip_string ip | None \<Rightarrow> to_ascii_lowercase (t_host t))
      in case target_new h (t_port t) of Ok u \<Rightarrow> Ok u | Err _ \<Rightarrow> Err ProbeInvalid)"

definition token_part :: "string \<Rightarrow> bool" where
  "token_part s \<longleftrightarrow> length s = 32 \<and> list_all is_lower_hex s"

definition validate_probe_token :: "string \<Rightarrow> string \<Rightarrow> (unit, probe_error) result" where
  "validate_probe_token self_nonce token =
     and_then (ok_or ProbeInvalid (split_once (CHR ''.'') token)) (\<lambda>(nonce, random).
     if \<not> token_part nonce \<or> \<not> token_part random then Err ProbeInvalid
     else if nonce \<noteq> self_nonce then Err ProbeInstance
     else Ok ())"

text \<open>The token: nonce, 12 random bytes and the sequence number, all in hexadecimal.\<close>

definition probe_token :: "string \<Rightarrow> bytes \<Rightarrow> u32 \<Rightarrow> string" where
  "probe_token nonce random sequence =
     nonce @ ''.'' @ concat (map (\<lambda>b. hex_pad 2 (unat b)) random) @ hex_pad 8 (unat sequence)"

definition reserve_probe ::
  "string \<Rightarrow> nat \<Rightarrow> bytes option \<Rightarrow> target \<Rightarrow> tickets \<Rightarrow> (string, probe_error) result \<times> tickets" where
  "reserve_probe nonce now random t ts0 =
     (let ts = expire now ts0
      in case normalized t of
          Err e \<Rightarrow> (Err e, ts)
        | Ok u \<Rightarrow>
            if PROBE_LIMIT \<le> length (ts_entries ts) then (Err ProbeQuota, ts)
            else if ts_sequence ts = - 1 then (Err ProbeQuota, ts)
            else (case random of
                None \<Rightarrow> (Err ProbeUnavailable, ts)
              | Some rnd \<Rightarrow>
                  let sequence = ts_sequence ts + 1;
                      token = probe_token nonce rnd sequence
                  in (Ok token, ts\<lparr>ts_sequence := sequence,
                        ts_entries := btree_insert token
                          \<lparr>tk_reserved = now, tk_target = u, tk_claim = None\<rparr> (ts_entries ts)\<rparr>)))"

definition release_probe :: "string \<Rightarrow> nat \<Rightarrow> string \<Rightarrow> tickets \<Rightarrow> (unit, probe_error) result \<times> tickets" where
  "release_probe nonce now token ts0 =
     (let ts = expire now ts0
      in case validate_probe_token nonce token of
          Err e \<Rightarrow> (Err e, ts)
        | Ok _ \<Rightarrow>
            if map_of (ts_entries ts) token = None then (Err ProbeMissing, ts)
            else (Ok (), ts\<lparr>ts_entries := btree_remove token (ts_entries ts)\<rparr>))"

text \<open>The view of a ticket, in the field order of the source; absent options are skipped.\<close>

definition target_json :: "target \<Rightarrow> json" where
  "target_json t = JObj [(''host'', JStr (t_host t)), (''port'', JInt (uint (t_port t)))]"

definition proxy_view_json :: "string \<times> string \<Rightarrow> json" where
  "proxy_view_json = (\<lambda>(name, kind). JObj [(''name'', JStr name), (''type'', JStr kind)])"

definition probe_view :: "string \<Rightarrow> ticket \<Rightarrow> 'net config \<Rightarrow> json" where
  "probe_view token t c =
     (let route = Option.bind (tk_claim t) cl_route
      in JObj ([(''token'', JStr token),
                (''state'', JStr (if route \<noteq> None then ''routed'' else if tk_claim t \<noteq> None then ''claimed'' else ''reserved'')),
                (''target'', target_json (tk_target t))]
               @ (case tk_claim t of None \<Rightarrow> [] | Some cl \<Rightarrow>
                    [(''connection_id'', JStr (cl_connection_id cl)),
                     (''request_index'', JInt (uint (cl_request_index cl)))])
               @ (case route of None \<Rightarrow> [] | Some (_, leaf) \<Rightarrow> [(''proxy'', proxy_view_json (proxy_view c leaf))])))"

text \<open>\<open>write_probe\<close>; \<open>fits\<close> tells whether the caller's bounded writer takes the document.\<close>

definition write_probe ::
  "(json \<Rightarrow> bool) \<Rightarrow> string \<Rightarrow> nat \<Rightarrow> string \<Rightarrow> 'net config \<Rightarrow> tickets \<Rightarrow> (json, probe_error) result \<times> tickets" where
  "write_probe fits nonce now token c ts0 =
     (let ts = expire now ts0
      in case validate_probe_token nonce token of
          Err e \<Rightarrow> (Err e, ts)
        | Ok _ \<Rightarrow> (case map_of (ts_entries ts) token of
              None \<Rightarrow> (Err ProbeMissing, ts)
            | Some t \<Rightarrow> let view = probe_view token t c
                        in (if fits view then Ok view else Err ProbeResponseTooLarge, ts)))"

definition claim_ticket :: "string \<Rightarrow> u32 \<Rightarrow> ticket \<Rightarrow> ticket" where
  "claim_ticket connection request_index t =
     t\<lparr>tk_claim := Some \<lparr>cl_connection_id = connection, cl_request_index = request_index, cl_route = None\<rparr>\<rparr>"

definition claim_probe ::
  "string \<Rightarrow> u64 \<Rightarrow> nat \<Rightarrow> string \<Rightarrow> target \<Rightarrow> u32 \<Rightarrow> tickets \<Rightarrow> (string, probe_error) result \<times> tickets" where
  "claim_probe nonce guard_sequence now token t request_index ts0 =
     (let ts = expire now ts0
      in case validate_probe_token nonce token of
          Err e \<Rightarrow> (Err e, ts)
        | Ok _ \<Rightarrow> (case normalized t of
              Err e \<Rightarrow> (Err e, ts)
            | Ok u \<Rightarrow> (case map_of (ts_entries ts) token of
                  None \<Rightarrow> (Err ProbeMissing, ts)
                | Some tk \<Rightarrow>
                    if tk_claim tk \<noteq> None then (Err ProbeConsumed, ts)
                    else if tk_target tk \<noteq> u then (Err ProbeTarget, ts)
                    else (Ok token, ts\<lparr>ts_entries := btree_insert token
                            (claim_ticket (connection_id nonce guard_sequence) request_index tk) (ts_entries ts)\<rparr>))))"

definition route_ticket :: "route \<Rightarrow> ticket \<Rightarrow> ticket" where
  "route_ticket rt t = (case tk_claim t of
       None \<Rightarrow> t
     | Some cl \<Rightarrow> if cl_route cl = None
                 then t\<lparr>tk_claim := Some (cl\<lparr>cl_route := Some (rt_rule_index rt, rt_leaf_index rt)\<rparr>)\<rparr> else t)"

definition probe_routed :: "nat \<Rightarrow> string \<Rightarrow> route \<Rightarrow> tickets \<Rightarrow> tickets" where
  "probe_routed now token rt ts0 =
     (let ts = expire now ts0
      in case map_of (ts_entries ts) token of
          None \<Rightarrow> ts
        | Some t \<Rightarrow> ts\<lparr>ts_entries := btree_insert token (route_ticket rt t) (ts_entries ts)\<rparr>)"

section \<open>Normalisation\<close>

lemma normalized_Ok:
  "normalized t = Ok u \<longleftrightarrow> t_port t \<noteq> 0 \<and> (parse_ip (t_host t) \<noteq> None \<or> dns_name (t_host t))
     \<and> u = \<lparr>t_host = (case parse_ip (t_host t) of Some ip \<Rightarrow> ip_string ip | None \<Rightarrow> to_ascii_lowercase (t_host t)),
             t_port = t_port t\<rparr>"
  by (auto simp: normalized_def Let_def target_new_def parse_ip_lower split: option.splits if_splits)

lemma normalized_idem: "normalized t = Ok u \<Longrightarrow> normalized u = Ok u"
  by (auto simp: normalized_Ok parse_ip_lower split: option.splits)

section \<open>The ticket invariant\<close>

definition token_sequence :: "string \<Rightarrow> nat" where
  "token_sequence token = hex_val (drop 57 token)"

text \<open>
  Every ticket is under a token of this instance whose sequence number has been issued; there are at
  most 256, none of them older than the retention at the last expiry; targets are normalised.
\<close>

definition ticket_ok :: "string \<Rightarrow> u32 \<Rightarrow> string \<Rightarrow> ticket \<Rightarrow> bool" where
  "ticket_ok nonce sequence token t \<longleftrightarrow>
     validate_probe_token nonce token = Ok () \<and> 0 < token_sequence token \<and> token_sequence token \<le> unat sequence
     \<and> normalized (tk_target t) = Ok (tk_target t)"

definition tickets_ok :: "string \<Rightarrow> tickets \<Rightarrow> bool" where
  "tickets_ok nonce ts \<longleftrightarrow> token_part nonce \<and> btree_ok (ts_entries ts) \<and> length (ts_entries ts) \<le> PROBE_LIMIT
     \<and> (\<forall>k t. map_of (ts_entries ts) k = Some t \<longrightarrow> ticket_ok nonce (ts_sequence ts) k t)"

lemma dot_notin_token_part: "token_part s \<Longrightarrow> CHR ''.'' \<notin> set s"
  by (auto simp: token_part_def list_all_iff is_lower_hex_def is_ascii_digit_def)

lemma length_concat_hex: "length (concat (map (\<lambda>b. hex_pad 2 (unat (b :: u8))) rnd)) = 2 * length rnd"
proof -
  have "length (hex_pad 2 (unat b)) = 2" for b :: u8
    using length_hex_pad [of "unat b" 2] unat_u8_less [of b] by simp
  then show ?thesis by (induction rnd) auto
qed

lemma unat_u32_less: "unat (w :: u32) < 16 ^ 8"
  using unsigned_less [of w, where ?'a = nat] by simp

lemma token_random_part:
  "length (rnd :: bytes) = 12 \<Longrightarrow>
     token_part (concat (map (\<lambda>b. hex_pad 2 (unat b)) rnd) @ hex_pad 8 (unat (sequence :: u32)))"
  using length_concat_hex [of rnd] length_hex_pad [OF unat_u32_less [of sequence]] hex_pad_lower
  by (auto simp: token_part_def list_all_iff)

lemma probe_token_valid:
  assumes "token_part nonce" "length rnd = 12"
  shows "validate_probe_token nonce (probe_token nonce rnd sequence) = Ok ()"
  using assms token_random_part [OF assms(2), of sequence] dot_notin_token_part [OF assms(1)]
  by (simp add: validate_probe_token_def probe_token_def)

lemma token_sequence_probe_token:
  assumes "token_part nonce" "length rnd = 12"
  shows "token_sequence (probe_token nonce rnd sequence) = unat sequence"
proof -
  have "length (nonce @ ''.'' @ concat (map (\<lambda>b. hex_pad 2 (unat b)) rnd)) = 57"
    using assms length_concat_hex [of rnd] by (simp add: token_part_def)
  then have "drop 57 (probe_token nonce rnd sequence) = hex_pad 8 (unat sequence)"
    unfolding probe_token_def by (metis append.assoc append_eq_conv_conj)
  then show ?thesis by (simp add: token_sequence_def hex_pad_def hex_val_zeros)
qed

lemma tickets_okD:
  "tickets_ok nonce ts \<Longrightarrow> map_of (ts_entries ts) k = Some t \<Longrightarrow> ticket_ok nonce (ts_sequence ts) k t"
  unfolding tickets_ok_def by blast

lemma expire_simps [simp]: "ts_sequence (expire now ts) = ts_sequence ts"
  by (simp add: expire_def)

lemma map_of_expire:
  "tickets_ok nonce ts \<Longrightarrow> map_of (ts_entries (expire now ts)) k =
     (case map_of (ts_entries ts) k of None \<Rightarrow> None
      | Some t \<Rightarrow> if now - tk_reserved t < RETENTION then Some t else None)"
  by (cases "map_of (ts_entries ts) k") (simp_all add: expire_def tickets_ok_def map_of_filter_btree)

lemma map_of_expireD:
  "tickets_ok nonce ts \<Longrightarrow> map_of (ts_entries (expire now ts)) k = Some t \<Longrightarrow> map_of (ts_entries ts) k = Some t"
  by (simp add: map_of_expire split: option.splits if_splits)

lemma expire_ok:
  assumes "tickets_ok nonce ts" shows "tickets_ok nonce (expire now ts)"
proof -
  have "ticket_ok nonce (ts_sequence ts) k t" if "map_of (ts_entries (expire now ts)) k = Some t" for k t
    by (rule tickets_okD [OF assms map_of_expireD [OF assms that]])
  moreover have "length (ts_entries (expire now ts)) \<le> length (ts_entries ts)"
    "btree_ok (ts_entries (expire now ts))"
    using assms by (simp_all add: expire_def tickets_ok_def btree_ok_filter)
  ultimately show ?thesis using assms unfolding tickets_ok_def by simp
qed

lemma tickets_ok_modify:
  assumes "tickets_ok nonce ts" "\<And>t. tk_target (f t) = tk_target t"
  shows "tickets_ok nonce (ts\<lparr>ts_entries := btree.modify k f (ts_entries ts)\<rparr>)"
  using assms unfolding tickets_ok_def ticket_ok_def
  by (auto simp: btree.ok_modify btree.len_modify btree.get_modify split: if_splits)

lemma reserve_probe_cases:
  assumes "reserve_probe nonce now random t ts = (res, ts')"
  obtains (err) e where "res = Err e" "ts' = expire now ts"
  | (ok) u rnd where "normalized t = Ok u" "random = Some rnd" "ts_sequence ts \<noteq> - 1"
      "length (ts_entries (expire now ts)) < PROBE_LIMIT" "res = Ok (probe_token nonce rnd (ts_sequence ts + 1))"
      "ts' = (expire now ts)\<lparr>ts_sequence := ts_sequence ts + 1, ts_entries :=
         btree_insert (probe_token nonce rnd (ts_sequence ts + 1))
           \<lparr>tk_reserved = now, tk_target = u, tk_claim = None\<rparr> (ts_entries (expire now ts))\<rparr>"
  using assms by (auto simp: reserve_probe_def Let_def not_le split: result.splits if_splits option.splits)

lemma claim_probe_cases:
  assumes "claim_probe nonce g now token t i ts = (res, ts')"
  obtains (err) e where "res = Err e" "ts' = expire now ts"
  | (ok) u tk where "res = Ok token" "normalized t = Ok u" "map_of (ts_entries (expire now ts)) token = Some tk"
      "tk_claim tk = None" "tk_target tk = u"
      "ts' = (expire now ts)\<lparr>ts_entries :=
         btree.modify token (claim_ticket (connection_id nonce g) i) (ts_entries (expire now ts))\<rparr>"
proof (cases "validate_probe_token nonce token")
  case (Ok v)
  note valid = Ok
  show ?thesis
  proof (cases "normalized t")
    case (Ok u)
    note norm = Ok
    show ?thesis
    proof (cases "map_of (ts_entries (expire now ts)) token")
      case None
      then show ?thesis using assms valid norm err by (auto simp: claim_probe_def)
    next
      case (Some tk)
      then show ?thesis
        using assms valid norm err ok [OF _ norm Some]
        by (auto simp: claim_probe_def btree.modify_def Let_def split: if_splits)
    qed
  qed (use assms valid err in \<open>auto simp: claim_probe_def\<close>)
next
  case (Err e)
  then show ?thesis using assms by (intro err [of e]) (simp_all add: claim_probe_def)
qed

lemma release_probe_cases:
  assumes "release_probe nonce now token ts = (res, ts')"
  obtains "ts' = expire now ts"
  | "ts' = (expire now ts)\<lparr>ts_entries := btree_remove token (ts_entries (expire now ts))\<rparr>"
  using assms by (auto simp: release_probe_def Let_def split: result.splits if_splits)

lemma write_probe_state: "snd (write_probe fits nonce now token c ts) = expire now ts"
  by (simp add: write_probe_def Let_def split: result.splits option.splits)

lemma probe_routed_eq:
  "probe_routed now token rt ts
     = (expire now ts)\<lparr>ts_entries := btree.modify token (route_ticket rt) (ts_entries (expire now ts))\<rparr>"
  by (simp add: probe_routed_def btree.modify_def Let_def split: option.splits)

lemma u32_succ: "(w :: u32) \<noteq> - 1 \<Longrightarrow> unat (w + 1) = Suc (unat w)"
proof -
  assume "w \<noteq> - 1"
  then have "1 + w \<noteq> 0" by (metis add.commute add_eq_0_iff)
  then show ?thesis using unatSuc [of w] by (simp add: add.commute)
qed

lemma new_token_fresh:
  assumes "tickets_ok nonce ts" "ts_sequence ts \<noteq> - 1" "length rnd = 12"
  shows "map_of (ts_entries ts) (probe_token nonce rnd (ts_sequence ts + 1)) = None"
proof (rule ccontr)
  let ?k = "probe_token nonce rnd (ts_sequence ts + 1)"
  assume "map_of (ts_entries ts) ?k \<noteq> None"
  then obtain t where "map_of (ts_entries ts) ?k = Some t" by blast
  from tickets_okD [OF assms(1) this] have "token_sequence ?k \<le> unat (ts_sequence ts)"
    by (simp add: ticket_ok_def)
  moreover have "token_part nonce" using assms(1) by (simp add: tickets_ok_def)
  ultimately show False using assms(2,3) by (simp add: token_sequence_probe_token u32_succ)
qed

lemma reserve_probe_ok:
  assumes "tickets_ok nonce ts" "\<And>rnd. random = Some rnd \<Longrightarrow> length rnd = 12"
    "reserve_probe nonce now random t ts = (res, ts')"
  shows "tickets_ok nonce ts'"
  using assms(3)
proof (cases rule: reserve_probe_cases)
  case err
  then show ?thesis using expire_ok [OF assms(1)] by simp
next
  case (ok u rnd)
  let ?e = "expire now ts" and ?k = "probe_token nonce rnd (ts_sequence ts + 1)"
  note e = expire_ok [OF assms(1), of now]
  have n: "token_part nonce" "length rnd = 12" using assms(1,2) ok(2) by (simp_all add: tickets_ok_def)
  have b: "btree_ok (ts_entries ?e)" using e by (simp add: tickets_ok_def)
  have "map_of (ts_entries ?e) ?k = None" using new_token_fresh [OF e _ n(2)] ok(3) by simp
  then have len: "length (ts_entries ts') \<le> PROBE_LIMIT" using ok(4,6) b by (simp add: btree.len_ins)
  have new: "ticket_ok nonce (ts_sequence ts + 1) ?k \<lparr>tk_reserved = now, tk_target = u, tk_claim = None\<rparr>"
    using n probe_token_valid [OF n] normalized_idem [OF ok(1)] token_sequence_probe_token [OF n] ok(3)
    by (simp add: ticket_ok_def u32_succ)
  have old: "ticket_ok nonce (ts_sequence ts + 1) k tk" if "map_of (ts_entries ?e) k = Some tk" for k tk
    using tickets_okD [OF e that] ok(3) by (simp add: ticket_ok_def u32_succ)
  show ?thesis using n(1) b len new old ok(6)
    by (auto simp: tickets_ok_def btree.ok_ins btree.get_ins split: if_splits)
qed

lemma claim_probe_ok:
  assumes "tickets_ok nonce ts" "claim_probe nonce g now token t i ts = (res, ts')"
  shows "tickets_ok nonce ts'"
  using assms(2) expire_ok [OF assms(1)]
  by (cases rule: claim_probe_cases) (auto intro!: tickets_ok_modify simp: claim_ticket_def)

lemma probe_routed_ok: "tickets_ok nonce ts \<Longrightarrow> tickets_ok nonce (probe_routed now token rt ts)"
  unfolding probe_routed_eq
  by (intro tickets_ok_modify expire_ok) (auto simp: route_ticket_def split: option.splits)

lemma release_probe_ok:
  assumes "tickets_ok nonce ts" "release_probe nonce now token ts = (res, ts')"
  shows "tickets_ok nonce ts'"
  using assms(2)
proof (cases rule: release_probe_cases)
  case 2
  then show ?thesis using expire_ok [OF assms(1), of now] unfolding tickets_ok_def
    by (auto simp: btree.ok_del btree.len_del btree.get_del split: if_splits)
qed (use expire_ok [OF assms(1)] in simp)

section \<open>Runs\<close>

text \<open>
  A run of the registry: the clock moves forward, clients reserve, read and release, connections claim and
  record routes.  The histories of issued tokens and of accepted claims are kept beside the state.
\<close>

record probe_world =
  pw_now :: nat
  pw_tickets :: tickets
  pw_issued :: "string list"
  pw_claims :: "string list"

fun add_ok :: "(string, 'e) result \<Rightarrow> string list \<Rightarrow> string list" where
  "add_ok (Ok token) log = token # log"
| "add_ok (Err _) log = log"

inductive probe_step :: "string \<Rightarrow> probe_world \<Rightarrow> probe_world \<Rightarrow> bool" for nonce where
  tick: "pw_now w \<le> now \<Longrightarrow> probe_step nonce w (w\<lparr>pw_now := now\<rparr>)"
| reserve: "(\<And>rnd. random = Some rnd \<Longrightarrow> length rnd = 12) \<Longrightarrow>
    reserve_probe nonce (pw_now w) random t (pw_tickets w) = (res, ts) \<Longrightarrow>
    probe_step nonce w (w\<lparr>pw_tickets := ts, pw_issued := add_ok res (pw_issued w)\<rparr>)"
| release: "release_probe nonce (pw_now w) token (pw_tickets w) = (rel, ts) \<Longrightarrow>
    probe_step nonce w (w\<lparr>pw_tickets := ts\<rparr>)"
| read: "probe_step nonce w (w\<lparr>pw_tickets := snd (write_probe fits nonce (pw_now w) token (c :: unit config) (pw_tickets w))\<rparr>)"
| claim: "claim_probe nonce g (pw_now w) token t i (pw_tickets w) = (res, ts) \<Longrightarrow>
    probe_step nonce w (w\<lparr>pw_tickets := ts, pw_claims := add_ok res (pw_claims w)\<rparr>)"
| route: "probe_step nonce w (w\<lparr>pw_tickets := probe_routed (pw_now w) token rt (pw_tickets w)\<rparr>)"

definition probe_start :: probe_world where
  "probe_start = \<lparr>pw_now = 0, pw_tickets = \<lparr>ts_sequence = 0, ts_entries = []\<rparr>, pw_issued = [], pw_claims = []\<rparr>"

definition probe_inv :: "string \<Rightarrow> tickets \<Rightarrow> string list \<Rightarrow> string list \<Rightarrow> bool" where
  "probe_inv nonce ts issued claims \<longleftrightarrow> tickets_ok nonce ts
     \<and> distinct issued \<and> distinct claims \<and> set claims \<subseteq> set issued
     \<and> (\<forall>k\<in>set issued. token_sequence k \<le> unat (ts_sequence ts))
     \<and> (\<forall>k t. map_of (ts_entries ts) k = Some t \<longrightarrow>
          k \<in> set issued \<and> (k \<in> set claims \<longleftrightarrow> tk_claim t \<noteq> None))"

definition probe_ok :: "string \<Rightarrow> probe_world \<Rightarrow> bool" where
  "probe_ok nonce w \<longleftrightarrow> probe_inv nonce (pw_tickets w) (pw_issued w) (pw_claims w)"

lemma probe_invD:
  assumes "probe_inv nonce ts issued claims"
  shows "tickets_ok nonce ts" "distinct issued" "distinct claims" "set claims \<subseteq> set issued"
    and "\<And>k. k \<in> set issued \<Longrightarrow> token_sequence k \<le> unat (ts_sequence ts)"
    and "\<And>k t. map_of (ts_entries ts) k = Some t \<Longrightarrow> k \<in> set issued"
    and "\<And>k t. map_of (ts_entries ts) k = Some t \<Longrightarrow> k \<in> set claims \<longleftrightarrow> tk_claim t \<noteq> None"
  using assms unfolding probe_inv_def by blast+

lemma probe_inv_entries: "probe_inv nonce ts issued claims \<Longrightarrow> btree_ok (ts_entries (expire now ts))"
  using expire_ok probe_invD(1) unfolding tickets_ok_def by blast

text \<open>Operations that issue nothing and claim nothing.\<close>

lemma probe_inv_quiet:
  assumes i: "probe_inv nonce ts issued claims" and "tickets_ok nonce ts'" "ts_sequence ts' = ts_sequence ts"
    and e: "\<And>k t. map_of (ts_entries ts') k = Some t \<Longrightarrow>
      \<exists>t'. map_of (ts_entries ts) k = Some t' \<and> (tk_claim t = None \<longleftrightarrow> tk_claim t' = None)"
  shows "probe_inv nonce ts' issued claims"
proof -
  have "k \<in> set issued \<and> (k \<in> set claims \<longleftrightarrow> tk_claim t \<noteq> None)"
    if "map_of (ts_entries ts') k = Some t" for k t
    using e [OF that] probe_invD(6,7) [OF i] by metis
  then show ?thesis using assms(2) probe_invD(2-5) [OF i] unfolding probe_inv_def assms(3) by blast
qed

lemma probe_inv_expire:
  assumes "probe_inv nonce ts issued claims" shows "probe_inv nonce (expire now ts) issued claims"
  by (rule probe_inv_quiet [OF assms expire_ok [OF probe_invD(1) [OF assms]]])
     (use map_of_expireD [OF probe_invD(1) [OF assms]] in auto)

lemma claim_route_ticket: "tk_claim (route_ticket rt t) = None \<longleftrightarrow> tk_claim t = None"
  by (simp add: route_ticket_def split: option.splits)

lemma probe_inv_reserve:
  assumes i: "probe_inv nonce ts issued claims" and len: "\<And>rnd. random = Some rnd \<Longrightarrow> length rnd = 12"
    and res: "reserve_probe nonce now random t ts = (res, ts')"
  shows "probe_inv nonce ts' (add_ok res issued) claims"
  using res
proof (cases rule: reserve_probe_cases)
  case err
  then show ?thesis using probe_inv_expire [OF i] by simp
next
  case (ok u rnd)
  let ?k = "probe_token nonce rnd (ts_sequence ts + 1)"
  note d = probe_invD [OF i] and e = probe_invD [OF probe_inv_expire [OF i, of now]]
    and b = probe_inv_entries [OF i, of now]
  have n: "token_part nonce" "length rnd = 12" using d(1) len ok(2) by (simp_all add: tickets_ok_def)
  have s: "token_sequence ?k = Suc (unat (ts_sequence ts))"
    using token_sequence_probe_token [OF n] ok(3) by (simp add: u32_succ)
  have fresh: "?k \<notin> set issued" using d(5) [of ?k] s by auto
  have ts': "tickets_ok nonce ts'" by (rule reserve_probe_ok [OF d(1) len res])
  have "\<forall>k\<in>set (?k # issued). token_sequence k \<le> unat (ts_sequence ts')"
    using d(5) s ok(3,6) by (auto simp: u32_succ intro: le_SucI)
  moreover have "k \<in> set (?k # issued) \<and> (k \<in> set claims \<longleftrightarrow> tk_claim tk \<noteq> None)"
    if k: "map_of (ts_entries ts') k = Some tk" for k tk
  proof (cases "k = ?k")
    case True
    then have "tk_claim tk = None" using k ok(6) b by (simp add: btree.get_ins) auto
    then show ?thesis using True fresh d(4) by auto
  next
    case False
    then have "map_of (ts_entries (expire now ts)) k = Some tk" using k ok(6) b by (simp add: btree.get_ins)
    then show ?thesis using e(6,7) by auto
  qed
  moreover have "distinct (?k # issued)" "set claims \<subseteq> set (?k # issued)" using d(2,4) fresh by auto
  ultimately show ?thesis using ts' ok(5) d(3) unfolding probe_inv_def add_ok.simps by simp
qed

lemma probe_inv_claim:
  assumes i: "probe_inv nonce ts issued claims" and res: "claim_probe nonce g now token t n ts = (res, ts')"
  shows "probe_inv nonce ts' issued (add_ok res claims)"
  using res
proof (cases rule: claim_probe_cases)
  case err
  then show ?thesis using probe_inv_expire [OF i] by simp
next
  case (ok u tk)
  note d = probe_invD [OF i] and e = probe_invD [OF probe_inv_expire [OF i, of now]]
    and b = probe_inv_entries [OF i, of now]
  have new: "token \<in> set issued" "token \<notin> set claims" using e(6,7) [OF ok(3)] ok(4) by auto
  have ts': "tickets_ok nonce ts'" by (rule claim_probe_ok [OF d(1) res])
  have "k \<in> set issued \<and> (k \<in> set (token # claims) \<longleftrightarrow> tk_claim tk' \<noteq> None)"
    if k: "map_of (ts_entries ts') k = Some tk'" for k tk'
  proof (cases "k = token")
    case True
    then have "tk_claim tk' \<noteq> None" using k ok(3,6) b by (auto simp: btree.get_modify claim_ticket_def)
    then show ?thesis using True new by simp
  next
    case False
    then have "map_of (ts_entries (expire now ts)) k = Some tk'" using k ok(6) b by (simp add: btree.get_modify)
    then show ?thesis using e(6,7) False by auto
  qed
  moreover have "distinct (token # claims)" "set (token # claims) \<subseteq> set issued" using d(3,4) new by auto
  moreover have "ts_sequence ts' = ts_sequence ts" using ok(6) by simp
  ultimately show ?thesis using ts' ok(1) d(2,5) unfolding probe_inv_def by auto
qed

lemma probe_inv_release:
  assumes i: "probe_inv nonce ts issued claims" and rel: "release_probe nonce now token ts = (rel, ts')"
  shows "probe_inv nonce ts' issued claims"
  using rel
proof (cases rule: release_probe_cases)
  case 2
  note e = probe_inv_expire [OF i, of now]
  show ?thesis
    by (rule probe_inv_quiet [OF e release_probe_ok [OF probe_invD(1) [OF i] rel]])
       (use 2 probe_inv_entries [OF i, of now] in \<open>auto simp: btree.get_del split: if_splits\<close>)
qed (use probe_inv_expire [OF i] in simp)

lemma probe_inv_routed:
  assumes i: "probe_inv nonce ts issued claims"
  shows "probe_inv nonce (probe_routed now token rt ts) issued claims"
  by (rule probe_inv_quiet [OF probe_inv_expire [OF i, of now] probe_routed_ok [OF probe_invD(1) [OF i]]])
     (use probe_inv_entries [OF i, of now] claim_route_ticket in
       \<open>auto simp: probe_routed_eq btree.get_modify split: if_splits\<close>)

lemma probe_step_ok: "probe_step nonce w w' \<Longrightarrow> probe_ok nonce w \<Longrightarrow> probe_ok nonce w'"
  unfolding probe_ok_def
proof (induction rule: probe_step.induct)
  case (reserve random w t res ts)
  show ?case using probe_inv_reserve [OF reserve(3,1,2)] by simp
next
  case (release w token rel ts)
  show ?case using probe_inv_release [OF release(2,1)] by simp
next
  case (claim g w token t i res ts)
  show ?case using probe_inv_claim [OF claim(2,1)] by simp
qed (simp_all add: write_probe_state probe_inv_expire probe_inv_routed)

lemma probe_steps_ok: "(probe_step nonce)\<^sup>*\<^sup>* w w' \<Longrightarrow> probe_ok nonce w \<Longrightarrow> probe_ok nonce w'"
  by (induction rule: rtranclp_induct) (auto intro: probe_step_ok)

lemma probe_start_ok: "token_part nonce \<Longrightarrow> probe_ok nonce probe_start"
  by (simp add: probe_ok_def probe_inv_def probe_start_def tickets_ok_def)

text \<open>A recorded claim only gains its route.\<close>

definition claim_extends :: "claim option \<Rightarrow> claim option \<Rightarrow> bool" where
  "claim_extends old new \<longleftrightarrow> (case old of
       None \<Rightarrow> True
     | Some cl \<Rightarrow> (\<exists>cl'. new = Some cl' \<and> cl_connection_id cl' = cl_connection_id cl
         \<and> cl_request_index cl' = cl_request_index cl \<and> (cl_route cl \<noteq> None \<longrightarrow> cl_route cl' = cl_route cl)))"

lemma claim_extends_refl [simp]: "claim_extends cl cl"
  by (cases cl) (auto simp: claim_extends_def)

lemma claim_extends_trans: "claim_extends a b \<Longrightarrow> claim_extends b c \<Longrightarrow> claim_extends a c"
  by (cases a) (auto simp: claim_extends_def)

lemma route_ticket_extends:
  "claim_extends (tk_claim t) (tk_claim (route_ticket rt t))" "tk_target (route_ticket rt t) = tk_target t"
  "tk_reserved (route_ticket rt t) = tk_reserved t"
  by (auto simp: route_ticket_def claim_extends_def split: option.splits)

text \<open>Each operation keeps or drops a ticket, or extends its claim; a missing token stays missing.\<close>

definition ticket_kept :: "ticket option \<Rightarrow> ticket option \<Rightarrow> bool" where
  "ticket_kept old new \<longleftrightarrow> (case new of
       None \<Rightarrow> True
     | Some t' \<Rightarrow> (\<exists>t. old = Some t \<and> tk_target t' = tk_target t \<and> tk_reserved t' = tk_reserved t
         \<and> claim_extends (tk_claim t) (tk_claim t')))"

lemma ticket_kept_expire:
  "probe_inv nonce ts issued claims \<Longrightarrow>
     ticket_kept (map_of (ts_entries ts) k) (map_of (ts_entries (expire now ts)) k)"
  by (auto simp: ticket_kept_def map_of_expire [OF probe_invD(1)] split: option.splits)

lemma ticket_kept_trans: "ticket_kept a b \<Longrightarrow> ticket_kept b c \<Longrightarrow> ticket_kept a c"
  by (auto simp: ticket_kept_def split: option.splits intro: claim_extends_trans)

lemma ticket_kept_modify:
  assumes "btree_ok m" "\<And>t. map_of m k = Some t \<Longrightarrow>
    claim_extends (tk_claim t) (tk_claim (f t)) \<and> tk_target (f t) = tk_target t \<and> tk_reserved (f t) = tk_reserved t"
  shows "ticket_kept (map_of m j) (map_of (btree.modify k f m) j)"
  using assms by (auto simp: ticket_kept_def btree.get_modify split: option.splits)

lemma probe_step_kept:
  assumes "probe_step nonce w w'" "probe_ok nonce w" "k \<in> set (pw_issued w)"
  shows "ticket_kept (map_of (ts_entries (pw_tickets w)) k) (map_of (ts_entries (pw_tickets w')) k)
     \<and> k \<in> set (pw_issued w')"
  using assms(1)
proof (cases rule: probe_step.cases)
  note i = assms(2) [unfolded probe_ok_def]
  note ex = ticket_kept_expire [OF i, of k "pw_now w"] and b = probe_inv_entries [OF i, of "pw_now w"]
  case (reserve random t res ts)
  from reserve(3) show ?thesis
  proof (cases rule: reserve_probe_cases)
    case (ok u rnd)
    let ?k = "probe_token nonce rnd (ts_sequence (pw_tickets w) + 1)"
    have n: "token_part nonce" "length rnd = 12"
      using probe_invD(1) [OF i] reserve(2) ok(2) by (simp_all add: tickets_ok_def)
    have "token_sequence ?k = Suc (unat (ts_sequence (pw_tickets w)))"
      using token_sequence_probe_token [OF n] ok(3) by (simp add: u32_succ)
    then have "k \<noteq> ?k" using probe_invD(5) [OF i assms(3)] by auto
    then show ?thesis using ex ok(5,6) reserve(1) b assms(3) by (simp add: btree.get_ins)
  qed (use ex reserve(1) assms(3) in simp)
next
  note i = assms(2) [unfolded probe_ok_def]
  note ex = ticket_kept_expire [OF i, of k "pw_now w"] and b = probe_inv_entries [OF i, of "pw_now w"]
  case (claim g token t n res ts)
  from claim(2) show ?thesis
  proof (cases rule: claim_probe_cases)
    case (ok u tk)
    have "ticket_kept (map_of (ts_entries (expire (pw_now w) (pw_tickets w))) k) (map_of (ts_entries ts) k)"
      using ticket_kept_modify [OF b, of token "claim_ticket (connection_id nonce g) n" k] ok(3,4,6)
      by (simp add: claim_ticket_def claim_extends_def)
    then show ?thesis using ticket_kept_trans [OF ex] claim(1) assms(3) by simp
  qed (use ex claim(1) assms(3) in simp)
next
  note i = assms(2) [unfolded probe_ok_def]
  note ex = ticket_kept_expire [OF i, of k "pw_now w"] and b = probe_inv_entries [OF i, of "pw_now w"]
  case (release token rel ts)
  from release(2) show ?thesis
  proof (cases rule: release_probe_cases)
    case 2
    then show ?thesis using ex release(1) b assms(3) by (auto simp: btree.get_del ticket_kept_def)
  qed (use ex release(1) assms(3) in simp)
next
  note i = assms(2) [unfolded probe_ok_def]
  note ex = ticket_kept_expire [OF i, of k "pw_now w"] and b = probe_inv_entries [OF i, of "pw_now w"]
  case (route token rt)
  have "ticket_kept (map_of (ts_entries (expire (pw_now w) (pw_tickets w))) k)
      (map_of (ts_entries (probe_routed (pw_now w) token rt (pw_tickets w))) k)"
    unfolding probe_routed_eq using ticket_kept_modify [OF b, of token "route_ticket rt" k]
    by (simp add: route_ticket_extends)
  then show ?thesis using ticket_kept_trans [OF ex] route(1) assms(3) by simp
next
  note i = assms(2) [unfolded probe_ok_def]
  case (read fits token c)
  then show ?thesis using ticket_kept_expire [OF i, of k "pw_now w"] assms(3) by (simp add: write_probe_state)
qed (use assms(3) in \<open>auto simp: ticket_kept_def split: option.splits\<close>)

lemma probe_steps_kept:
  "(probe_step nonce)\<^sup>*\<^sup>* w w' \<Longrightarrow> probe_ok nonce w \<Longrightarrow> k \<in> set (pw_issued w) \<Longrightarrow>
     ticket_kept (map_of (ts_entries (pw_tickets w)) k) (map_of (ts_entries (pw_tickets w')) k)
     \<and> k \<in> set (pw_issued w')"
proof (induction rule: rtranclp_induct)
  case base
  then show ?case by (auto simp: ticket_kept_def split: option.splits)
next
  case (step w1 w2)
  then show ?case using probe_step_kept [OF step(2) probe_steps_ok [OF step(1)]] ticket_kept_trans by blast
qed

section \<open>Properties\<close>

text \<open>
  C18 (probe_tokens_once).  In every run, whatever the clock, the random bytes and the order of requests,
  no token is issued twice, no token is claimed twice, only issued tokens are claimed, and at most 256 tickets
  are held.
\<close>

theorem probe_tokens_once:
  assumes "token_part nonce" "(probe_step nonce)\<^sup>*\<^sup>* probe_start w"
  shows "distinct (pw_issued w) \<and> distinct (pw_claims w) \<and> set (pw_claims w) \<subseteq> set (pw_issued w)
     \<and> length (ts_entries (pw_tickets w)) \<le> 256"
proof -
  have "probe_inv nonce (pw_tickets w) (pw_issued w) (pw_claims w)"
    using probe_steps_ok [OF assms(2) probe_start_ok [OF assms(1)]] by (simp add: probe_ok_def)
  from probe_invD [OF this] show ?thesis by (simp add: tickets_ok_def PROBE_LIMIT_def)
qed

text \<open>
  C19 (probe_history_final).  What a ticket records is never rewritten: in every continuation it keeps its
  target and time of reservation, a claim keeps its connection and request, and a recorded route stays the
  first one; a ticket that is released or has expired never comes back.
\<close>

theorem probe_history_final:
  assumes "probe_ok nonce w" "(probe_step nonce)\<^sup>*\<^sup>* w w'" "k \<in> set (pw_issued w)"
  shows "case map_of (ts_entries (pw_tickets w')) k of
       None \<Rightarrow> True
     | Some t' \<Rightarrow> (\<exists>t. map_of (ts_entries (pw_tickets w)) k = Some t
         \<and> tk_target t' = tk_target t \<and> tk_reserved t' = tk_reserved t
         \<and> claim_extends (tk_claim t) (tk_claim t'))"
  using probe_steps_kept [OF assms(2,1,3)] unfolding ticket_kept_def by blast

text \<open>
  A claim succeeds exactly for a well-formed token of this instance whose
  ticket is held, not expired, not claimed, and reserved for the same normalised target; every other outcome is
  the error of the first check that fails, and changes no ticket beyond the expiry.
\<close>

theorem probe_claim_exact:
  assumes "tickets_ok nonce ts"
  shows "fst (claim_probe nonce g now token t i ts) =
     (case validate_probe_token nonce token of
        Err e \<Rightarrow> Err e
      | Ok _ \<Rightarrow> (case normalized t of
          Err e \<Rightarrow> Err e
        | Ok u \<Rightarrow> (case map_of (ts_entries ts) token of
            None \<Rightarrow> Err ProbeMissing
          | Some tk \<Rightarrow>
              if RETENTION \<le> now - tk_reserved tk then Err ProbeMissing
              else if tk_claim tk \<noteq> None then Err ProbeConsumed
              else if tk_target tk \<noteq> u then Err ProbeTarget
              else Ok token)))
   \<and> (\<forall>k. k \<noteq> token \<longrightarrow> map_of (ts_entries (snd (claim_probe nonce g now token t i ts))) k
        = map_of (ts_entries (expire now ts)) k)"
proof
  show "fst (claim_probe nonce g now token t i ts) =
     (case validate_probe_token nonce token of
        Err e \<Rightarrow> Err e
      | Ok _ \<Rightarrow> (case normalized t of
          Err e \<Rightarrow> Err e
        | Ok u \<Rightarrow> (case map_of (ts_entries ts) token of
            None \<Rightarrow> Err ProbeMissing
          | Some tk \<Rightarrow>
              if RETENTION \<le> now - tk_reserved tk then Err ProbeMissing
              else if tk_claim tk \<noteq> None then Err ProbeConsumed
              else if tk_target tk \<noteq> u then Err ProbeTarget
              else Ok token)))"
    by (simp add: claim_probe_def Let_def map_of_expire [OF assms] not_le split: result.splits option.splits)
  have b: "btree_ok (ts_entries (expire now ts))" using expire_ok [OF assms] by (simp add: tickets_ok_def)
  obtain res ts' where c: "claim_probe nonce g now token t i ts = (res, ts')"
    by (cases "claim_probe nonce g now token t i ts")
  then show "\<forall>k. k \<noteq> token \<longrightarrow> map_of (ts_entries (snd (claim_probe nonce g now token t i ts))) k
        = map_of (ts_entries (expire now ts)) k"
    by (cases rule: claim_probe_cases) (use c b in \<open>simp_all add: btree.get_modify\<close>)
qed

section \<open>A concrete ticket\<close>

definition demo_random :: bytes where "demo_random = replicate 12 0"

definition demo_token :: string where "demo_token = probe_token demo_nonce demo_random 1"

definition demo_reserved :: probe_world where
  "demo_reserved = probe_start\<lparr>pw_tickets := \<lparr>ts_sequence = 1,
     ts_entries = [(demo_token, \<lparr>tk_reserved = 0, tk_target = demo_target, tk_claim = None\<rparr>)]\<rparr>,
     pw_issued := [demo_token]\<rparr>"

lemma demo_token_part: "token_part demo_nonce"
  using demo_nonce_ok by (simp add: token_part_def)

lemma demo_normalized: "normalized demo_target = Ok demo_target"
proof -
  have "parse_ip ''x.example'' = None" using demo_literal by (simp add: literal_ip_def demo_target_def)
  moreover have "dns_name ''x.example''" "to_ascii_lowercase ''x.example'' = ''x.example''" by code_simp+
  ultimately show ?thesis by (simp add: normalized_Ok demo_target_def)
qed

lemma demo_reserve_step: "probe_step demo_nonce probe_start demo_reserved"
proof -
  have "reserve_probe demo_nonce (pw_now probe_start) (Some demo_random) demo_target (pw_tickets probe_start)
      = (Ok demo_token, pw_tickets demo_reserved)"
    by (simp add: reserve_probe_def demo_normalized probe_start_def expire_def PROBE_LIMIT_def demo_token_def
        demo_reserved_def Let_def)
  from probe_step.reserve [OF _ this] show ?thesis
    by (simp add: demo_random_def demo_reserved_def probe_start_def)
qed

lemma demo_reserved_ok: "probe_ok demo_nonce demo_reserved"
  by (rule probe_step_ok [OF demo_reserve_step probe_start_ok [OF demo_token_part]])

theorem probe_tokens_once_witness:
  "probe_step demo_nonce probe_start demo_reserved \<and> distinct (pw_issued demo_reserved)
   \<and> pw_issued demo_reserved = [demo_token]"
  using probe_tokens_once [OF demo_token_part r_into_rtranclp [of "probe_step demo_nonce", OF demo_reserve_step]]
    demo_reserve_step by (simp add: demo_reserved_def)

theorem probe_history_final_witness:
  "probe_ok demo_nonce demo_reserved \<and> demo_token \<in> set (pw_issued demo_reserved)
   \<and> probe_step demo_nonce demo_reserved (demo_reserved\<lparr>pw_now := 5\<rparr>)
   \<and> (\<exists>t. map_of (ts_entries (pw_tickets demo_reserved)) demo_token = Some t \<and> tk_target t = demo_target)"
proof -
  have step: "probe_step demo_nonce demo_reserved (demo_reserved\<lparr>pw_now := 5\<rparr>)"
    by (rule probe_step.tick) (simp add: demo_reserved_def probe_start_def)
  have i: "demo_token \<in> set (pw_issued demo_reserved)" by (simp add: demo_reserved_def)
  from probe_history_final [OF demo_reserved_ok r_into_rtranclp [of "probe_step demo_nonce", OF step] i]
  show ?thesis using demo_reserved_ok step i by (simp add: demo_reserved_def)
qed

theorem probe_claim_exact_witness:
  "tickets_ok demo_nonce (pw_tickets demo_reserved)
   \<and> fst (claim_probe demo_nonce 7 1 demo_token demo_target 0 (pw_tickets demo_reserved)) = Ok demo_token"
proof -
  have t: "tickets_ok demo_nonce (pw_tickets demo_reserved)"
    using demo_reserved_ok by (auto simp: probe_ok_def dest: probe_invD(1))
  have "validate_probe_token demo_nonce demo_token = Ok ()"
    unfolding demo_token_def by (rule probe_token_valid [OF demo_token_part]) (simp add: demo_random_def)
  then show ?thesis using probe_claim_exact [OF t, of 7 1 demo_token demo_target 0] t
    by (simp add: demo_normalized demo_reserved_def RETENTION_def)
qed

end
