(* ===== verification/Listing.thy ===== *)
theory Listing
  imports Probes Config_Facts
begin

text \<open>
  The listing of connections and its reader (\<open>src/src/connection.rs\<close>): \<open>write_list\<close>, which the
  controller serves, and \<open>valid_response\<close>, with which the command line checks a response before it prints it.

  The JSON text between the two is a value whose object fields are looked up by name.  The main lemma
  shows that the two sides agree: the reader accepts the listing of every reachable registry.
\<close>

section \<open>The writer\<close>

fun phase_name :: "phase \<Rightarrow> string" where
  "phase_name Handshake = ''handshake''"
| "phase_name Routing = ''routing''"
| "phase_name Connecting = ''connecting''"
| "phase_name Active = ''active''"
| "phase_name Idle = ''idle''"
| "phase_name UdpWait = ''udp_wait''"
| "phase_name Rejected = ''rejected''"
| "phase_name Closing = ''closing''"

fun protocol_name :: "protocol \<Rightarrow> string" where
  "protocol_name Tcp = ''tcp''"
| "protocol_name Udp = ''udp''"

fun inbound_name :: "inbound \<Rightarrow> string" where
  "inbound_name HttpConnect = ''http_connect''"
| "inbound_name HttpForward = ''http_forward''"
| "inbound_name Socks5Connect = ''socks5_connect''"
| "inbound_name Socks5Udp = ''socks5_udp''"

text \<open>A field that is skipped when it is absent.\<close>

definition opt_field :: "string \<Rightarrow> ('a \<Rightarrow> json) \<Rightarrow> 'a option \<Rightarrow> (string \<times> json) list" where
  "opt_field k f o' = (case o' of None \<Rightarrow> [] | Some x \<Rightarrow> [(k, f x)])"

definition metadata_fields :: "metadata \<Rightarrow> (string \<times> json) list" where
  "metadata_fields m =
     [(''id'', JStr (m_id m)), (''source'', JStr (socket_string (m_source m))),
      (''protocol'', JStr (protocol_name (m_protocol m))), (''phase'', JStr (phase_name (m_phase m)))]
     @ opt_field ''inbound'' (JStr \<circ> inbound_name) (m_inbound m)
     @ opt_field ''target'' target_json (m_target m)
     @ opt_field ''routed_target'' target_json (m_routed_target m)
     @ opt_field ''datagram_source'' (JStr \<circ> socket_string) (m_datagram_source m)
     @ opt_field ''target_scope'' JStr (m_target_scope m)"

definition rule_view_json :: "nat \<times> string \<times> string \<times> string \<Rightarrow> json" where
  "rule_view_json = (\<lambda>(index, kind, payload, target).
     JObj [(''index'', JInt (int index)), (''type'', JStr kind), (''payload'', JStr payload), (''target'', JStr target)])"

definition entry_view :: "'net config \<Rightarrow> metadata \<Rightarrow> (nat \<times> nat) option \<Rightarrow> json" where
  "entry_view c m route = JObj (metadata_fields m
     @ opt_field ''rule'' (\<lambda>(rule, _). rule_view_json (rule_view c rule)) route
     @ opt_field ''proxy'' (\<lambda>(_, leaf). proxy_view_json (proxy_view c leaf)) route)"

definition write_list :: "'net config \<Rightarrow> registry \<Rightarrow> json" where
  "write_list c r = JObj [(''connections'',
     JArr (map (\<lambda>(_, e). entry_view c (e_metadata e) (e_route e)) (r_entries r)))]"

section \<open>The reader\<close>

definition response_keys :: "json \<Rightarrow> string list \<Rightarrow> string list \<Rightarrow> bool" where
  "response_keys v required optional = (case as_object v of
       None \<Rightarrow> False
     | Some kvs \<Rightarrow> list_all (\<lambda>k. k \<in> fst ` set kvs) required
         \<and> list_all (\<lambda>k. k \<in> set required \<or> k \<in> set optional) (map fst kvs))"

definition response_target :: "json \<Rightarrow> bool" where
  "response_target v \<longleftrightarrow> response_keys v [''host'', ''port''] []
     \<and> (case as_str (json_index v ''host'') of None \<Rightarrow> False | Some s \<Rightarrow> s \<noteq> [] \<and> length s \<le> 255)
     \<and> (case as_u64 (json_index v ''port'') of None \<Rightarrow> False | Some p \<Rightarrow> 1 \<le> p \<and> p \<le> 65535)"

definition str_in :: "json \<Rightarrow> string list \<Rightarrow> bool" where
  "str_in v names = (case as_str v of None \<Rightarrow> False | Some s \<Rightarrow> s \<in> set names)"

definition is_str_value :: "json \<Rightarrow> bool" where
  "is_str_value v \<longleftrightarrow> as_str v \<noteq> None"

definition address_text :: "json \<Rightarrow> bool" where
  "address_text v \<longleftrightarrow> Option.bind (as_str v) parse_socket_addr \<noteq> None"

definition opt_ok :: "(json \<Rightarrow> bool) \<Rightarrow> json option \<Rightarrow> bool" where
  "opt_ok P o' = (case o' of None \<Rightarrow> True | Some v \<Rightarrow> P v)"

definition response_rule :: "json \<Rightarrow> bool" where
  "response_rule v \<longleftrightarrow> response_keys v [''index'', ''type'', ''payload'', ''target''] []
     \<and> (case as_u64 (json_index v ''index'') of None \<Rightarrow> False | Some i \<Rightarrow> i < 262144)
     \<and> is_str_value (json_index v ''type'') \<and> is_str_value (json_index v ''payload'')
     \<and> is_str_value (json_index v ''target'')"

definition response_proxy :: "json \<Rightarrow> bool" where
  "response_proxy v \<longleftrightarrow> response_keys v [''name'', ''type''] [] \<and> is_str_value (json_index v ''name'')
     \<and> str_in (json_index v ''type'') [''Direct'', ''Reject'', ''Shadowsocks'', ''Trojan'', ''AnyTLS'']"

text \<open>The checks on one entry, from the addresses to the last one, in their order.\<close>

definition response_entry :: "json \<Rightarrow> bool" where
  "response_entry e =
     (let has = (\<lambda>k. json_get k e \<noteq> None); phase = json_index e ''phase'';
          udp = (json_index e ''protocol'' = JStr ''udp'');
          datagram = (udp \<and> has ''target'')
      in address_text (json_index e ''source'')
       \<and> str_in (json_index e ''protocol'') [''tcp'', ''udp'']
       \<and> str_in phase [''handshake'', ''routing'', ''connecting'', ''active'', ''idle'', ''udp_wait'', ''rejected'', ''closing'']
       \<and> opt_ok (\<lambda>v. str_in v [''http_connect'', ''http_forward'', ''socks5_connect'', ''socks5_udp'']) (json_get ''inbound'' e)
       \<and> opt_ok response_target (json_get ''target'' e) \<and> opt_ok response_target (json_get ''routed_target'' e)
       \<and> opt_ok address_text (json_get ''datagram_source'' e)
       \<and> opt_ok (\<lambda>v. v = JStr ''first_datagram'' \<and> udp \<and> has ''datagram_source'') (json_get ''target_scope'' e)
       \<and> has ''rule'' = has ''proxy'' \<and> has ''rule'' = has ''routed_target''
       \<and> opt_ok response_rule (json_get ''rule'' e) \<and> opt_ok response_proxy (json_get ''proxy'' e)
       \<and> \<not> (str_in phase [''idle'', ''handshake'', ''udp_wait''] \<and> (has ''target'' \<or> has ''rule''))
       \<and> \<not> (str_in phase [''active'', ''connecting'', ''rejected''] \<and> (\<not> has ''target'' \<or> \<not> has ''rule'' \<or> \<not> has ''inbound''))
       \<and> \<not> (phase = JStr ''routing'' \<and> (\<not> has ''target'' \<or> has ''rule''))
       \<and> udp = (json_index e ''inbound'' = JStr ''socks5_udp'')
       \<and> \<not> (phase = JStr ''udp_wait'' \<and> \<not> udp) \<and> \<not> (phase = JStr ''handshake'' \<and> udp)
       \<and> has ''datagram_source'' = datagram \<and> has ''target_scope'' = datagram
       \<and> \<not> (phase = JStr ''idle'' \<and> json_index e ''inbound'' \<noteq> JStr ''http_forward'')
       \<and> (\<not> has ''routed_target'' \<or> has ''target''))"

text \<open>\<open>entries.iter().all\<close> with the set of identifiers seen so far.\<close>

fun response_entries :: "string \<Rightarrow> string list \<Rightarrow> json list \<Rightarrow> bool" where
  "response_entries nonce ids [] = True"
| "response_entries nonce ids (e # es) =
     (response_keys e [''id'', ''source'', ''protocol'', ''phase'']
        [''inbound'', ''target'', ''routed_target'', ''rule'', ''proxy'', ''datagram_source'', ''target_scope'']
      \<and> (case as_str (json_index e ''id'') of
           None \<Rightarrow> False
         | Some i \<Rightarrow> (case split_id i of None \<Rightarrow> False | Some (n, _) \<Rightarrow> n = nonce) \<and> i \<notin> set ids
             \<and> response_entry e \<and> response_entries nonce (i # ids) es))"

definition valid_response :: "json \<Rightarrow> string \<Rightarrow> string option \<Rightarrow> bool" where
  "valid_response v nonce conn = (case conn of
       Some i \<Rightarrow> response_keys v [''id'', ''phase'', ''close_requested''] []
         \<and> json_index v ''id'' = JStr i \<and> json_index v ''phase'' = JStr ''closing''
         \<and> json_index v ''close_requested'' = JBool True
     | None \<Rightarrow> response_keys v [''connections''] []
         \<and> (case as_array (json_index v ''connections'') of
              None \<Rightarrow> False
            | Some es \<Rightarrow> length es \<le> CONNECTION_LIMIT \<and> response_entries nonce [] es))"

section \<open>Fields of a written entry\<close>

lemma map_of_opt_field: "map_of (opt_field k f o') j = (if j = k then map_option f o' else None)"
  by (simp add: opt_field_def split: option.splits)

lemma entry_view_get:
  "json_get ''id'' (entry_view c m route) = Some (JStr (m_id m))"
  "json_get ''source'' (entry_view c m route) = Some (JStr (socket_string (m_source m)))"
  "json_get ''protocol'' (entry_view c m route) = Some (JStr (protocol_name (m_protocol m)))"
  "json_get ''phase'' (entry_view c m route) = Some (JStr (phase_name (m_phase m)))"
  "json_get ''inbound'' (entry_view c m route) = map_option (JStr \<circ> inbound_name) (m_inbound m)"
  "json_get ''target'' (entry_view c m route) = map_option target_json (m_target m)"
  "json_get ''routed_target'' (entry_view c m route) = map_option target_json (m_routed_target m)"
  "json_get ''datagram_source'' (entry_view c m route) = map_option (JStr \<circ> socket_string) (m_datagram_source m)"
  "json_get ''target_scope'' (entry_view c m route) = map_option JStr (m_target_scope m)"
  "json_get ''rule'' (entry_view c m route) = map_option (\<lambda>(rule, _). rule_view_json (rule_view c rule)) route"
  "json_get ''proxy'' (entry_view c m route) = map_option (\<lambda>(_, leaf). proxy_view_json (proxy_view c leaf)) route"
  by (simp_all add: json_get_def entry_view_def metadata_fields_def map_of_opt_field map_add_def split: option.splits)

lemma entry_view_keys:
  "response_keys (entry_view c m route) [''id'', ''source'', ''protocol'', ''phase'']
     [''inbound'', ''target'', ''routed_target'', ''rule'', ''proxy'', ''datagram_source'', ''target_scope'']"
  by (simp add: response_keys_def entry_view_def metadata_fields_def opt_field_def split: option.splits)

lemma protocol_name_inject [simp]: "protocol_name a = ''udp'' \<longleftrightarrow> a = Udp"
  by (cases a) simp_all

lemma inbound_name_inject [simp]:
  "inbound_name i = ''socks5_udp'' \<longleftrightarrow> i = Socks5Udp" "inbound_name i = ''http_forward'' \<longleftrightarrow> i = HttpForward"
  by (cases i; simp)+

lemma phase_name_inject [simp]:
  "phase_name ph = ''routing'' \<longleftrightarrow> ph = Routing" "phase_name ph = ''udp_wait'' \<longleftrightarrow> ph = UdpWait"
  "phase_name ph = ''handshake'' \<longleftrightarrow> ph = Handshake" "phase_name ph = ''idle'' \<longleftrightarrow> ph = Idle"
  "phase_name ph = ''active'' \<longleftrightarrow> ph = Active" "phase_name ph = ''connecting'' \<longleftrightarrow> ph = Connecting"
  "phase_name ph = ''rejected'' \<longleftrightarrow> ph = Rejected"
  by (cases ph; simp)+

section \<open>Reader and writer agree\<close>

text \<open>The targets that the constructors of \<open>Target\<close> admit into the registry, and the routes into a configuration.\<close>

definition target_ok :: "target \<Rightarrow> bool" where
  "target_ok t \<longleftrightarrow> t_host t \<noteq> [] \<and> length (t_host t) \<le> 255 \<and> t_port t \<noteq> 0"

definition route_ok :: "'net config \<Rightarrow> route \<Rightarrow> bool" where
  "route_ok c rt \<longleftrightarrow> rt_rule_index rt < length (c_rules c) \<and> rt_leaf_index rt < length (c_proxies c)
     \<and> target_ok (rt_target rt)"

lemma response_target_json: "target_ok t \<Longrightarrow> response_target (target_json t)"
proof -
  assume t: "target_ok t"
  have "unat (t_port t) \<le> 65535" using unat_u16_less [of "t_port t"] by linarith
  moreover have "unat (t_port t) \<noteq> 0" using t by (simp add: target_ok_def unat_eq_0)
  moreover have "nat (uint (t_port t)) = unat (t_port t)" by simp
  moreover have "uint (t_port t) < 2 ^ 64" "0 \<le> uint (t_port t)"
    using uint_lt2p [of "t_port t"] by simp_all
  ultimately show ?thesis using t
    by (auto simp: response_target_def target_json_def response_keys_def json_index_def json_get_def target_ok_def)
qed

lemma response_rule_json: "i < 262144 \<Longrightarrow> response_rule (rule_view_json (i, kind, payload, target))"
  by (simp add: response_rule_def rule_view_json_def response_keys_def json_index_def json_get_def is_str_value_def)

lemma response_proxy_json: "response_proxy (proxy_view_json (proxy_view c leaf))"
  by (simp add: response_proxy_def proxy_view_json_def proxy_view_def response_keys_def json_index_def json_get_def
      is_str_value_def str_in_def kind_name_def split: proxy_kind.splits)

text \<open>What an entry holds comes from requests and routes.\<close>

definition entry_from :: "(target \<Rightarrow> bool) \<Rightarrow> (route \<Rightarrow> bool) \<Rightarrow> entry \<Rightarrow> bool" where
  "entry_from T R e \<longleftrightarrow> (\<forall>t. m_target (e_metadata e) = Some t \<longrightarrow> T t)
     \<and> (e_route e = None \<and> m_routed_target (e_metadata e) = None
        \<or> (\<exists>rt. R rt \<and> e_route e = Some (rt_rule_index rt, rt_leaf_index rt)
             \<and> m_routed_target (e_metadata e) = Some (rt_target rt)))"

definition world_from :: "(target \<Rightarrow> bool) \<Rightarrow> (route \<Rightarrow> bool) \<Rightarrow> world \<Rightarrow> bool" where
  "world_from T R = (\<lambda>(r, p). world_ok (r, p) \<and> (\<forall>k e. map_of (r_entries r) k = Some e \<longrightarrow> entry_from T R e))"

lemma entry_from_change:
  assumes "entry_from T R e"
  shows "entry_from T R (set_phase ph e)" "entry_from T R (set_inbound i e)" "entry_from T R (set_idle e)"
    "T t \<Longrightarrow> entry_from T R (set_target t src i e)" "R rt \<Longrightarrow> entry_from T R (set_routed rt e)"
    "entry_from T R (close_entry e)"
  using assms by (auto simp: entry_from_def set_phase_def set_inbound_def set_idle_def set_target_def set_routed_def
      close_entry_def Let_def)

lemma conn_step_from:
  assumes "conn_step T R w w'" "world_from T R w" shows "world_from T R w'"
proof -
  obtain r p where w: "w = (r, p)" by (cases w)
  obtain r' p' where w': "w' = (r', p')" by (cases w')
  have ok: "world_ok (r, p)" using assms(2) by (simp add: world_from_def w)
  have ok': "world_ok (r', p')" using conn_step_ok [OF assms(1)] ok w w' by simp
  have b: "btree_ok (r_entries r)" using world_ok_registry [OF ok] by (simp add: registry_ok_def)
  have old: "entry_from T R e" if "map_of (r_entries r) k = Some e" for k e
    using assms(2) that unfolding w world_from_def by blast
  have upd: "entry_from T R e"
    if "map_of (r_entries (update j f r)) k = Some e" "\<And>e. entry_from T R e \<Longrightarrow> entry_from T R (f e)" for j f k e
    using that old b by (auto simp: update_eq guards.get_guarded split: if_splits)
  have "entry_from T R e" if k: "map_of (r_entries r') k = Some e" for k e
    using assms(1) unfolding w w'
  proof (cases rule: conn_step.cases)
    case (accept source j)
    then show ?thesis using register_Some [OF accept(2)] k b old [of k e]
      by (auto simp: map_of_btree_insert new_entry_def entry_from_def split: if_splits)
  next
    case (refuse source)
    then show ?thesis using register_None old k by blast
  next
    case (closed s)
    obtain res where c: "close s r = (res, r')" using closed by (cases "close s r") simp
    then show ?thesis using k b old
      by (cases rule: close_cases) (auto simp: btree.get_modify entry_from_change split: if_splits)
  next
    case (dropped j)
    then show ?thesis using old k b by (simp add: drop_guard_def btree.get_del split: if_splits)
  qed (use k in \<open>simp, blast intro: upd entry_from_change\<close>)+
  then show ?thesis using ok' unfolding w' world_from_def by blast
qed

lemma conn_steps_from: "(conn_step T R)\<^sup>*\<^sup>* w w' \<Longrightarrow> world_from T R w \<Longrightarrow> world_from T R w'"
  by (induction rule: rtranclp_induct) (auto intro: conn_step_from)

lemma protocol_name_in: "str_in (JStr (protocol_name a)) [''tcp'', ''udp'']"
  by (cases a) (simp_all add: str_in_def)

lemma phase_name_in: "str_in (JStr (phase_name ph))
    [''handshake'', ''routing'', ''connecting'', ''active'', ''idle'', ''udp_wait'', ''rejected'', ''closing'']"
  by (cases ph) (simp_all add: str_in_def)

lemma inbound_name_in: "str_in (JStr (inbound_name i)) [''http_connect'', ''http_forward'', ''socks5_connect'', ''socks5_udp'']"
  by (cases i) (simp_all add: str_in_def)

lemma response_entry_view:
  assumes "config_ok c" "entry_ok e" "entry_from target_ok (route_ok c) e"
  shows "response_entry (entry_view c (e_metadata e) (e_route e))"
proof -
  let ?m = "e_metadata e" and ?v = "entry_view c (e_metadata e) (e_route e)"
  have rules: "length (c_rules c) \<le> 262144" using assms(1) by (simp add: config_ok_def MAX_RULES_def)
  have idx: "json_index ?v ''phase'' = JStr (phase_name (m_phase ?m))"
    "json_index ?v ''protocol'' = JStr (protocol_name (m_protocol ?m))"
    "json_index ?v ''source'' = JStr (socket_string (m_source ?m))"
    by (simp_all add: json_index_def entry_view_get)
  have inb: "json_index ?v ''inbound'' = JStr n \<longleftrightarrow> (\<exists>i. m_inbound ?m = Some i \<and> inbound_name i = n)" for n
    by (auto simp: json_index_def entry_view_get split: option.splits)
  have addr: "address_text (JStr (socket_string a))" for a by (simp add: address_text_def)
  have fields: "opt_ok (\<lambda>v. str_in v [''http_connect'', ''http_forward'', ''socks5_connect'', ''socks5_udp'']) (json_get ''inbound'' ?v)"
    "opt_ok response_target (json_get ''target'' ?v)" "opt_ok response_target (json_get ''routed_target'' ?v)"
    "opt_ok address_text (json_get ''datagram_source'' ?v)"
    "opt_ok response_rule (json_get ''rule'' ?v)" "opt_ok response_proxy (json_get ''proxy'' ?v)"
    using assms(3) rules inbound_name_in
    by (auto simp: opt_ok_def entry_view_get addr entry_from_def route_ok_def rule_view_def response_proxy_json Let_def
        intro!: response_target_json response_rule_json split: option.splits)
  show ?thesis
    using assms(2) fields addr protocol_name_in phase_name_in unfolding response_entry_def Let_def idx inb entry_ok_def
    by (auto simp: entry_view_get opt_ok_def str_in_def split: option.splits)
qed

lemma response_entries_view:
  assumes "\<And>k e. (k, e) \<in> set es \<Longrightarrow> response_entry (entry_view c (e_metadata e) (e_route e))
      \<and> m_id (e_metadata e) = connection_id nonce k \<and> split_id (connection_id nonce k) = Some (nonce, k)"
    and "distinct (map fst es)" "\<And>k. k \<in> fst ` set es \<Longrightarrow> connection_id nonce k \<notin> set ids"
  shows "response_entries nonce ids (map (\<lambda>(_, e). entry_view c (e_metadata e) (e_route e)) es)"
  using assms
proof (induction es arbitrary: ids)
  case (Cons ke es)
  obtain k e where ke: "ke = (k, e)" by (cases ke)
  have e: "response_entry (entry_view c (e_metadata e) (e_route e))" "m_id (e_metadata e) = connection_id nonce k"
      "split_id (connection_id nonce k) = Some (nonce, k)"
    using Cons.prems(1) [of k e] ke by simp_all
  have "response_entries nonce (connection_id nonce k # ids) (map (\<lambda>(_, e). entry_view c (e_metadata e) (e_route e)) es)"
  proof (rule Cons.IH)
    fix j assume j: "j \<in> fst ` set es"
    have "j \<noteq> k" using Cons.prems(2) ke j by auto
    then show "connection_id nonce j \<notin> set (connection_id nonce k # ids)" using Cons.prems(3) [of j] j by simp
  qed (use Cons.prems(1,2) in auto)
  then show ?case
    using e ke entry_view_keys [of c "e_metadata e" "e_route e"] Cons.prems(3) [of k]
    by (simp add: json_index_def entry_view_get)
qed simp

section \<open>Properties\<close>

text \<open>
  The reader accepts what the writer produces: for every registry that is reachable
  with well-formed targets and routes into the configuration, the listing passes the check of the command line,
  with the nonce of the instance.
\<close>

theorem listing_accepted:
  assumes "length nonce = 32" "list_all is_lower_hex nonce" "config_ok c"
    and "(conn_step target_ok (route_ok c))\<^sup>*\<^sup>* (for_instance nonce, Map.empty) (r, p)"
  shows "valid_response (write_list c r) nonce None"
proof -
  have "world_from target_ok (route_ok c) (for_instance nonce, Map.empty)"
    using for_instance_world_ok [OF assms(1,2)] by (simp add: world_from_def for_instance_def)
  from conn_steps_from [OF assms(4) this] have w: "world_from target_ok (route_ok c) (r, p)" .
  have ok: "world_ok (r, p)" using w by (simp add: world_from_def)
  note r = world_ok_registry [OF ok]
  have n: "r_nonce r = nonce" using conn_steps_nonce [OF assms(4)] by (simp add: for_instance_def)
  have "response_entries nonce [] (map (\<lambda>(_, e). entry_view c (e_metadata e) (e_route e)) (r_entries r))"
  proof (rule response_entries_view)
    fix k e assume "(k, e) \<in> set (r_entries r)"
    then have m: "map_of (r_entries r) k = Some e" using r by (simp add: registry_ok_def btree_ok_distinct)
    have "entry_ok e" "entry_from target_ok (route_ok c) e"
      using m ok w unfolding world_ok_def world_from_def by blast+
    moreover have "k \<noteq> 0" "m_id (e_metadata e) = connection_id nonce k" using registry_okD [OF r m] n by auto
    ultimately show "response_entry (entry_view c (e_metadata e) (e_route e))
        \<and> m_id (e_metadata e) = connection_id nonce k \<and> split_id (connection_id nonce k) = Some (nonce, k)"
      using response_entry_view [OF assms(3)] split_id_connection_id [OF assms(1,2)] by blast
  qed (use r in \<open>simp_all add: registry_ok_def btree_ok_distinct\<close>)
  then show ?thesis using r
    by (simp add: valid_response_def write_list_def response_keys_def json_index_def json_get_def registry_ok_def)
qed

section \<open>A concrete listing\<close>

lemma demo_listed_step:
  "conn_step target_ok (route_ok demo_parsed) (for_instance demo_nonce, Map.empty) (demo_registry, [1 \<mapsto> AtStart])"
  by (rule conn_step.accept [of demo_source])
     (simp add: demo_registry_def register_def for_instance_def CONNECTION_LIMIT_def)

lemma demo_target_step:
  "conn_step target_ok (route_ok demo_parsed) (demo_registry, [1 \<mapsto> AtStart])
     (update 1 (set_target demo_target None HttpForward) demo_registry, [1 \<mapsto> AtStart, 1 \<mapsto> AtTarget HttpForward])"
  by (rule conn_step.http_request) (simp_all add: target_ok_def demo_target_def)

theorem listing_accepted_witness:
  "config_ok demo_parsed
   \<and> valid_response (write_list demo_parsed (update 1 (set_target demo_target None HttpForward) demo_registry)) demo_nonce None"
proof -
  have "(conn_step target_ok (route_ok demo_parsed))\<^sup>*\<^sup>* (for_instance demo_nonce, Map.empty)
      (update 1 (set_target demo_target None HttpForward) demo_registry, [1 \<mapsto> AtStart, 1 \<mapsto> AtTarget HttpForward])"
    using demo_listed_step demo_target_step by (meson converse_rtranclp_into_rtranclp r_into_rtranclp)
  from listing_accepted [OF demo_nonce_ok parse_inner_ok [OF demo_parse] this]
  show ?thesis using parse_inner_ok [OF demo_parse] by simp
qed

end
