(* ===== verification/Store_Keys.thy ===== *)
theory Store_Keys
  imports Rust_Text
begin

text \<open>
  The text tests of the store (\<open>src/src/store.rs\<close>, \<open>src/src/fsutil.rs\<close>): the characters of a text,
  which texts may be shown on a terminal, and which keys may name a file.
\<close>

text \<open>The scalar values of a valid UTF-8 text (\<open>str::chars\<close>).\<close>

definition utf8_tail :: "nat \<Rightarrow> nat" where
  "utf8_tail a = (if a < 128 then 0 else if a < 224 then 1 else if a < 240 then 2 else 3)"

definition utf8_lead :: "nat \<Rightarrow> nat" where
  "utf8_lead a = (if a < 128 then a else if a < 224 then a - 192 else if a < 240 then a - 224 else a - 240)"

fun scalars :: "nat list \<Rightarrow> nat list" where
  "scalars [] = []"
| "scalars (a # s) = foldl (\<lambda>v b. 64 * v + (b - 128)) (utf8_lead a) (take (utf8_tail a) s)
     # scalars (drop (utf8_tail a) s)"

definition chars :: "string \<Rightarrow> nat list" where
  "chars s = scalars (map code s)"

text \<open>Control characters, and the characters that change the direction or the lines of a text.\<close>

definition unsafe_char :: "nat \<Rightarrow> bool" where
  "unsafe_char c \<longleftrightarrow> c \<le> 31 \<or> (127 \<le> c \<and> c \<le> 159) \<or> c = 0x61c \<or> c = 0x200e \<or> c = 0x200f
     \<or> (0x2028 \<le> c \<and> c \<le> 0x202e) \<or> (0x2066 \<le> c \<and> c \<le> 0x2069) \<or> c = 0xfeff"

definition safe_text :: "string \<Rightarrow> bool" where
  "safe_text s \<longleftrightarrow> s \<noteq> [] \<and> \<not> list_ex unsafe_char (chars s)"

definition single_component :: "string \<Rightarrow> bool" where
  "single_component name \<longleftrightarrow> name \<noteq> [] \<and> name \<noteq> ''.'' \<and> name \<noteq> ''..''
     \<and> \<not> list_ex (\<lambda>c. c = CHR ''/'' \<or> c = CHR 0x5C \<or> c = CHR 0x00) name"

definition stored_key :: "string \<Rightarrow> bool" where
  "stored_key key \<longleftrightarrow> length key \<le> 255 \<and> single_component key \<and> safe_text key"

definition valid_key :: "string \<Rightarrow> bool" where
  "valid_key key \<longleftrightarrow> length key \<le> 250 \<and> stored_key key"

lemma scalars_ascii: "list_all (\<lambda>a. a < 128) s \<Longrightarrow> scalars s = s"
  by (induction s) (auto simp: utf8_tail_def utf8_lead_def)

lemma chars_ascii: "is_ascii s \<Longrightarrow> chars s = map code s"
  unfolding chars_def by (rule scalars_ascii) (simp add: is_ascii_def list_all_iff)

end
