(* ===== verification/Streams.thy ===== *)
theory Streams
  imports Rust_Text
begin

text \<open>
  Byte streams and message heads as the readers of \<open>src/src/api.rs\<close> and \<open>src/src/runtime.rs\<close> see them:
  \<open>AsyncReadExt::read\<close> and \<open>read_exact\<close>, and the result of the HTTP head parser, which is external code.
\<close>

section \<open>Streams\<close>

text \<open>A stream is the list of the chunks that arrive; an empty chunk or the end of the list is the end of the stream.\<close>

fun read_some :: "nat \<Rightarrow> bytes list \<Rightarrow> bytes \<times> bytes list" where
  "read_some n [] = ([], [])"
| "read_some n (c # cs) = (if length c \<le> n then (c, cs) else (take n c, drop n c # cs))"

fun read_exact :: "nat \<Rightarrow> bytes list \<Rightarrow> (bytes \<times> bytes list) option" where
  "read_exact 0 cs = Some ([], cs)"
| "read_exact (Suc n) [] = None"
| "read_exact (Suc n) (c # cs) =
     (if c = [] then None
      else if Suc n < length c then Some (take (Suc n) c, drop (Suc n) c # cs)
      else map_option (\<lambda>(bs, cs). (c @ bs, cs)) (read_exact (Suc n - length c) cs))"

definition CRLF :: bytes where "CRLF = [13, 10]"

definition CRLF_text :: string where "CRLF_text = [CR, LF]"

section \<open>Heads\<close>

text \<open>What \<open>httparse::Request::parse\<close> leaves behind.\<close>

record parsed_head =
  hp_method :: "string option"
  hp_path :: "string option"
  hp_version :: "nat option"
  hp_headers :: "(string \<times> bytes) list"

section \<open>Lemmas\<close>

lemma read_some_concat: "read_some n cs = (c, cs') \<Longrightarrow> c @ concat cs' = concat cs"
  by (cases cs) (auto split: if_splits)

lemma read_exact_SomeD: "read_exact n cs = Some (bs, cs') \<Longrightarrow> length bs = n \<and> bs @ concat cs' = concat cs"
proof (induction n cs arbitrary: bs cs' rule: read_exact.induct)
  case (3 n c cs)
  show ?case
  proof (cases "Suc n < length c")
    case True
    then show ?thesis using 3(2) by (auto split: if_splits)
  next
    case False
    then obtain xs where "c \<noteq> []" "bs = c @ xs" "read_exact (Suc n - length c) cs = Some (xs, cs')"
      using 3(2) by (auto split: if_splits)
    then show ?thesis using 3(1) [of xs cs'] False by auto
  qed
qed auto

lemma read_exact_complete:
  "[] \<notin> set cs \<Longrightarrow> concat cs = bs @ r \<Longrightarrow> n = length bs \<Longrightarrow>
     \<exists>rest. read_exact n cs = Some (bs, rest) \<and> concat rest = r \<and> [] \<notin> set rest"
proof (induction n cs arbitrary: bs rule: read_exact.induct)
  case (3 n c cs)
  have e: "c @ concat cs = bs @ r" using 3(3) by simp
  have c: "c \<noteq> []" "[] \<notin> set cs" using 3(2) by auto
  show ?case
  proof (cases "Suc n < length c")
    case True
    have "take (Suc n) (c @ concat cs) = bs" "drop (Suc n) (c @ concat cs) = r" unfolding e 3(4) by simp_all
    then have "bs = take (Suc n) c" "r = drop (Suc n) c @ concat cs" using True by simp_all
    then show ?thesis using True c by simp
  next
    case False
    have "take (length c) (bs @ r) = c" "drop (length c) (bs @ r) = concat cs" unfolding e [symmetric] by simp_all
    then have t: "take (length c) bs = c" "concat cs = drop (length c) bs @ r" using False 3(4) by simp_all
    then have b: "bs = c @ drop (length c) bs" by (metis append_take_drop_id)
    obtain rest where "read_exact (Suc n - length c) cs = Some (drop (length c) bs, rest)" "concat rest = r" "[] \<notin> set rest"
      using 3(1) [OF c(1) False c(2) t(2)] 3(4) by auto
    then show ?thesis using b False c by simp
  qed
qed auto

lemma str_bytes_simps: "str_bytes [] = []" "str_bytes (c # s) = of_nat (code c) # str_bytes s"
    "str_bytes (s @ t) = str_bytes s @ str_bytes t"
  by (simp_all add: str_bytes_def)

end
