(* ===== verification/Api.thy ===== *)
theory Api
  imports Listing Store_Keys Streams
begin

text \<open>
  The controller (\<open>src/src/api.rs\<close>): reading one bounded request, authentication, the route table, the
  handlers of connections, probes and selections, and the bounded response.  \<open>encode_group\<close> is the
  client side of \<open>decode_group\<close> (\<open>src/src/daemon.rs\<close>).

  External code is an argument: \<open>httparse\<close>, the JSON reader and printer, the decoder of a reservation,
  the clock, the random bytes, and the manager of a daemon instance.
\<close>

section \<open>Types\<close>

definition HEADER_LIMIT :: nat where "HEADER_LIMIT = 16 * 1024"
definition BODY_LIMIT :: nat where "BODY_LIMIT = 64 * 1024"
definition RESPONSE_LIMIT :: nat where "RESPONSE_LIMIT = 4 * 1024 * 1024"

datatype http_error = HttpError (error_code: nat) (error_reason: string)

definition BAD :: http_error where "BAD = HttpError 400 ''Bad Request''"

record request =
  rq_method :: string
  rq_path :: string
  rq_authorization :: "bytes option"
  rq_instance :: "bytes option"
  rq_body :: bytes

record 'net managed =
  mg_status :: "json option"
  mg_select :: "string \<Rightarrow> string \<Rightarrow> json \<Rightarrow> 'net config \<Rightarrow> bool option \<times> 'net config"

record 'net api_state =
  st_config :: "'net config"
  st_managed :: "'net managed option"
  st_transient :: "(string \<times> unit) list"
  st_registry :: registry
  st_tickets :: tickets

record api_env =
  env_httparse :: "bytes \<Rightarrow> (nat \<times> parsed_head) option"
  env_parse :: "bytes \<Rightarrow> json option"
  env_text :: "json \<Rightarrow> bytes"
  env_reservation :: "bytes \<Rightarrow> (string \<times> u16) option"
  env_now :: nat
  env_random :: "bytes option"
  env_version :: string

fun probe_http_error :: "probe_error \<Rightarrow> http_error" where
  "probe_http_error ProbeInvalid = BAD"
| "probe_http_error ProbeInstance = HttpError 409 ''Connection instance changed''"
| "probe_http_error ProbeMissing = HttpError 404 ''Probe not found''"
| "probe_http_error ProbeConsumed = HttpError 409 ''Probe already claimed''"
| "probe_http_error ProbeTarget = HttpError 409 ''Probe target mismatch''"
| "probe_http_error ProbeQuota = HttpError 429 ''Probe quota exceeded''"
| "probe_http_error ProbeUnavailable = HttpError 500 ''Probe unavailable''"
| "probe_http_error ProbeResponseTooLarge = HttpError 500 ''Response Too Large''"

section \<open>Reading a request\<close>

function read_head :: "bytes \<Rightarrow> bytes list \<Rightarrow> (nat \<times> bytes \<times> bytes list, http_error) result" where
  "read_head bs stream =
     (case find_sub (CRLF @ CRLF) bs of
        Some e \<Rightarrow> if HEADER_LIMIT < e + 4 then Err (HttpError 413 ''Payload Too Large'') else Ok (e + 4, bs, stream)
      | None \<Rightarrow>
          if HEADER_LIMIT \<le> length bs then Err (HttpError 413 ''Payload Too Large'')
          else let (chunk, rest) = read_some 4096 stream
               in if chunk = [] then Err BAD else read_head (bs @ chunk) rest)"
  by pat_completeness auto
termination
  by (relation "measure (\<lambda>(bs, stream). HEADER_LIMIT - length bs)") (auto simp: diff_less_mono2)

text \<open>A carriage return stands only before a line feed, and a line feed only after a carriage return.\<close>

fun crlf_paired :: "bool \<Rightarrow> bytes \<Rightarrow> bool" where
  "crlf_paired after_cr [] \<longleftrightarrow> \<not> after_cr"
| "crlf_paired after_cr (b # bs) \<longleftrightarrow> after_cr = (b = 10) \<and> crlf_paired (b = 13) bs"

record header_fields =
  hf_length :: "nat option"
  hf_authorization :: "bytes option"
  hf_instance :: "bytes option"

definition parse_length :: "bytes \<Rightarrow> (nat, http_error) result" where
  "parse_length v =
     (if v = [] \<or> \<not> list_all is_ascii_digit (bytes_str v) then Err BAD
      else case parse_uint (2 ^ 64 - 1) (bytes_str v) of
          None \<Rightarrow> Err BAD
        | Some n \<Rightarrow> if BODY_LIMIT < n then Err (HttpError 413 ''Payload Too Large'') else Ok n)"

definition header_step :: "string \<times> bytes \<Rightarrow> header_fields \<Rightarrow> (header_fields, http_error) result" where
  "header_step = (\<lambda>(name, v) hf.
     and_then (if eq_ignore_ascii_case name ''x-zc-instance-nonce''
               then if hf_instance hf \<noteq> None then Err BAD else Ok (hf\<lparr>hf_instance := Some v\<rparr>)
               else Ok hf) (\<lambda>hf.
     if eq_ignore_ascii_case name ''transfer-encoding'' then Err (HttpError 501 ''Transfer Encoding Unsupported'')
     else and_then (if eq_ignore_ascii_case name ''content-length''
               then if hf_length hf \<noteq> None then Err BAD
                    else and_then (parse_length v) (\<lambda>n. Ok (hf\<lparr>hf_length := Some n\<rparr>))
               else Ok hf) (\<lambda>hf.
     if eq_ignore_ascii_case name ''authorization''
     then if hf_authorization hf \<noteq> None then Err BAD else Ok (hf\<lparr>hf_authorization := Some v\<rparr>)
     else Ok hf)))"

fun header_fields_of :: "(string \<times> bytes) list \<Rightarrow> header_fields \<Rightarrow> (header_fields, http_error) result" where
  "header_fields_of [] hf = Ok hf"
| "header_fields_of (h # hs) hf = and_then (header_step h hf) (header_fields_of hs)"

definition read_request :: "api_env \<Rightarrow> bytes list \<Rightarrow> (request, http_error) result" where
  "read_request E stream =
     and_then (read_head [] stream) (\<lambda>(header_end, bs, rest).
     if \<not> crlf_paired False (take header_end bs) then Err BAD
     else case env_httparse E (take header_end bs) of
         None \<Rightarrow> Err BAD
       | Some (n, p) \<Rightarrow>
           if n \<noteq> header_end then Err BAD
           else
             and_then (ok_or BAD (hp_method p)) (\<lambda>meth.
             and_then (ok_or BAD (hp_path p)) (\<lambda>path.
             if \<not> starts_with ''/'' path \<or> hp_version p \<notin> {Some 0, Some 1} then Err BAD
             else and_then (header_fields_of (hp_headers p) \<lparr>hf_length = None, hf_authorization = None, hf_instance = None\<rparr>) (\<lambda>hf.
             if meth = ''PUT'' \<and> hf_length hf = None then Err (HttpError 411 ''Length Required'')
             else let body_end = header_end + (case hf_length hf of Some n \<Rightarrow> n | None \<Rightarrow> 0)
               in if body_end < length bs then Err BAD
                  else case read_exact (body_end - length bs) rest of
                      None \<Rightarrow> Err BAD
                    | Some (tail_bs, _) \<Rightarrow>
                        Ok \<lparr>rq_method = meth, rq_path = path, rq_authorization = hf_authorization hf,
                            rq_instance = hf_instance hf, rq_body = drop header_end (bs @ tail_bs)\<rparr>))))"

section \<open>Selections as JSON\<close>

definition group_names :: "'net config \<Rightarrow> string list" where
  "group_names c = map g_name (c_groups c)"

text \<open>The index into the map of selections is total: it has every group name.\<close>

definition selected_with :: "'net config \<Rightarrow> (string \<Rightarrow> string) \<Rightarrow> json" where
  "selected_with c source = JArr (map (\<lambda>g. JObj [(''group'', JStr g),
     (''proxy'', JStr (the (map_of (selected c) g))), (''source'', JStr (source g))]) (group_names c))"

definition selected_json :: "'net config \<Rightarrow> (string \<times> unit) list \<Rightarrow> json" where
  "selected_json c persisted =
     selected_with c (\<lambda>g. if map_of persisted g \<noteq> None then ''persisted'' else ''default'')"

section \<open>Group names in paths\<close>

fun decode_bytes :: "bytes \<Rightarrow> bytes option" where
  "decode_bytes [] = Some []"
| "decode_bytes (b # bs) =
     (if b = 37 then (case bs of
          x # y # rest \<Rightarrow>
            (case (to_digit 16 (char_of (unat x)), to_digit 16 (char_of (unat y))) of
               (Some a, Some c) \<Rightarrow> map_option ((#) (of_nat (a * 16 + c))) (decode_bytes rest)
             | _ \<Rightarrow> None)
        | _ \<Rightarrow> None)
      else map_option ((#) b) (decode_bytes bs))"

definition decode_group :: "string \<Rightarrow> string option" where
  "decode_group path = Option.bind (decode_bytes (str_bytes path)) from_utf8"

definition hex_upper :: "nat \<Rightarrow> char" where
  "hex_upper d = (if d < 10 then char_of (48 + d) else char_of (55 + d))"

definition encode_byte :: "char \<Rightarrow> string" where
  "encode_byte b =
     (if is_ascii_alphanumeric b \<or> b \<in> set ''-._~'' then [b]
      else [CHR ''%'', hex_upper (code b div 16), hex_upper (code b mod 16)])"

definition encode_group :: "string \<Rightarrow> string" where
  "encode_group s = concat (map encode_byte s)"

section \<open>The bounded response\<close>

definition bounded_write :: "bytes \<Rightarrow> bytes \<Rightarrow> bytes option" where
  "bounded_write buf bs = (if RESPONSE_LIMIT - length buf < length bs then None else Some (buf @ bs))"

fun bounded_writes :: "bytes \<Rightarrow> bytes list \<Rightarrow> bytes option" where
  "bounded_writes buf [] = Some buf"
| "bounded_writes buf (c # cs) = Option.bind (bounded_write buf c) (\<lambda>buf. bounded_writes buf cs)"

definition fits :: "api_env \<Rightarrow> json \<Rightarrow> bool" where
  "fits E v \<longleftrightarrow> length (env_text E v) \<le> RESPONSE_LIMIT"

section \<open>Handlers\<close>

type_synonym 'net outcome = "(json, http_error) result \<times> 'net api_state"

definition reread :: "api_env \<Rightarrow> json \<Rightarrow> (json, http_error) result" where
  "reread E v = ok_or (HttpError 500 ''Internal Server Error'') (env_parse E (env_text E v))"

definition handle_reserve :: "api_env \<Rightarrow> request \<Rightarrow> 'net api_state \<Rightarrow> 'net outcome" where
  "handle_reserve E rq st = (case env_reservation E (rq_body rq) of
       None \<Rightarrow> (Err BAD, st)
     | Some (h, p) \<Rightarrow> (case target_new h p of
           Err _ \<Rightarrow> (Err BAD, st)
         | Ok t \<Rightarrow> (case reserve_probe (r_nonce (st_registry st)) (env_now E) (env_random E) t (st_tickets st) of
               (Err e, ts) \<Rightarrow> (Err (probe_http_error e), st\<lparr>st_tickets := ts\<rparr>)
             | (Ok token, ts) \<Rightarrow> (Ok (JObj [(''token'', JStr token)]), st\<lparr>st_tickets := ts\<rparr>))))"

definition handle_probe_read :: "api_env \<Rightarrow> string \<Rightarrow> 'net api_state \<Rightarrow> 'net outcome" where
  "handle_probe_read E token st =
     (case write_probe (fits E) (r_nonce (st_registry st)) (env_now E) token (st_config st) (st_tickets st) of
        (Err e, ts) \<Rightarrow> (Err (probe_http_error e), st\<lparr>st_tickets := ts\<rparr>)
      | (Ok v, ts) \<Rightarrow> (reread E v, st\<lparr>st_tickets := ts\<rparr>))"

definition handle_probe_release :: "api_env \<Rightarrow> string \<Rightarrow> 'net api_state \<Rightarrow> 'net outcome" where
  "handle_probe_release E token st =
     (case release_probe (r_nonce (st_registry st)) (env_now E) token (st_tickets st) of
        (Err e, ts) \<Rightarrow> (Err (probe_http_error e), st\<lparr>st_tickets := ts\<rparr>)
      | (Ok _, ts) \<Rightarrow> (Ok (JObj [(''released'', JBool True)]), st\<lparr>st_tickets := ts\<rparr>))"

definition handle_list :: "api_env \<Rightarrow> 'net api_state \<Rightarrow> 'net outcome" where
  "handle_list E st =
     (let v = write_list (st_config st) (st_registry st)
      in (if fits E v then reread E v else Err (HttpError 500 ''Response Too Large''), st))"

fun close_http_error :: "close_error \<Rightarrow> http_error" where
  "close_http_error CloseInvalid = BAD"
| "close_http_error CloseInstance = HttpError 409 ''Connection instance changed''"
| "close_http_error CloseMissing = HttpError 404 ''Connection not found''"

definition handle_close :: "string \<Rightarrow> 'net api_state \<Rightarrow> 'net outcome" where
  "handle_close i st = (case close i (st_registry st) of
       (Err e, r) \<Rightarrow> (Err (close_http_error e), st\<lparr>st_registry := r\<rparr>)
     | (Ok _, r) \<Rightarrow> (Ok (JObj [(''close_requested'', JBool True), (''id'', JStr i), (''phase'', JStr ''closing'')]),
                     st\<lparr>st_registry := r\<rparr>))"

definition handle_status :: "'net api_state \<Rightarrow> 'net outcome" where
  "handle_status st = (case st_managed st of
       Some mg \<Rightarrow> (ok_or (HttpError 409 ''Runtime changed'') (mg_status mg), st)
     | None \<Rightarrow> (Ok (JObj [(''config_key'', JNull), (''selected_proxies'', selected_with (st_config st)
           (\<lambda>g. if map_of (st_transient st) g \<noteq> None then ''transient'' else ''default''))]), st))"

text \<open>The declaration of the group in the document, and whether it lists the node.\<close>

definition group_definition :: "json \<Rightarrow> string \<Rightarrow> json option" where
  "group_definition document grp =
     find (\<lambda>e. json_index e ''name'' = JStr grp \<and> json_get ''proxies'' e \<noteq> None)
       (concat (map (\<lambda>key. case Option.bind (json_get key document) as_array of Some vs \<Rightarrow> vs | None \<Rightarrow> [])
         [''proxy-groups'', ''proxies'']))"

definition lists_member :: "json \<Rightarrow> string \<Rightarrow> bool" where
  "lists_member definition' prx = (case as_array (json_index definition' ''proxies'') of
       None \<Rightarrow> False | Some ms \<Rightarrow> list_ex (\<lambda>m. as_str m = Some prx) ms)"

definition valid_hex_value :: "json \<Rightarrow> bool" where
  "valid_hex_value v = (case as_str v of None \<Rightarrow> False | Some t \<Rightarrow> length t = 32 \<and> list_all is_lower_hex t)"

definition metadata_keys :: "string list" where
  "metadata_keys = [''instance_nonce'', ''identity_key'', ''identity_revision'', ''generation'']"

definition metadata_count :: "json \<Rightarrow> nat" where
  "metadata_count body = length (filter (\<lambda>k. json_get k body \<noteq> None) metadata_keys)"

definition metadata_valid :: "json \<Rightarrow> bool" where
  "metadata_valid body \<longleftrightarrow> metadata_count body = 0
     \<or> metadata_count body = 4
       \<and> list_all (\<lambda>k. as_str (json_index body k) \<noteq> None) (take 3 metadata_keys)
       \<and> (case as_u64 (json_index body ''generation'') of Some n \<Rightarrow> n | None \<Rightarrow> 0) \<noteq> 0
       \<and> valid_hex_value (json_index body ''instance_nonce'') \<and> valid_hex_value (json_index body ''identity_revision'')
       \<and> (case as_str (json_index body ''identity_key'') of None \<Rightarrow> False | Some k \<Rightarrow> valid_key k)"

definition apply_selection :: "string \<Rightarrow> string \<Rightarrow> json \<Rightarrow> 'net api_state \<Rightarrow> (unit, http_error) result \<times> 'net api_state" where
  "apply_selection grp prx body st = (case st_managed st of
       Some mg \<Rightarrow>
         if metadata_count body = 0 then (Err (HttpError 409 ''Managed selection metadata required''), st)
         else (case mg_select mg grp prx body (st_config st) of
             (Some True, c) \<Rightarrow> (Ok (), st\<lparr>st_config := c\<rparr>)
           | (_, c) \<Rightarrow> (Err (HttpError 409 ''Selection changed during apply''), st\<lparr>st_config := c\<rparr>))
     | None \<Rightarrow>
         if metadata_count body \<noteq> 0 then (Err (HttpError 409 ''Selection changed during apply''), st)
         else (case select grp prx (st_config st) of
             (Err _, c) \<Rightarrow> (Err (HttpError 404 ''Proxy or group not found''), st\<lparr>st_config := c\<rparr>)
           | (Ok _, c) \<Rightarrow> (Ok (), st\<lparr>st_config := c, st_transient := btree_insert grp () (st_transient st)\<rparr>)))"

definition handle_select :: "api_env \<Rightarrow> request \<Rightarrow> 'net api_state \<Rightarrow> 'net outcome" where
  "handle_select E rq st = (case decode_group (drop 9 (rq_path rq)) of
       None \<Rightarrow> (Err BAD, st)
     | Some grp \<Rightarrow> (case env_parse E (rq_body rq) of
           None \<Rightarrow> (Err BAD, st)
         | Some body \<Rightarrow> (case Option.bind (json_get ''name'' body) as_str of
               None \<Rightarrow> (Err (HttpError 400 ''Missing name in body''), st)
             | Some prx \<Rightarrow> (case group_definition (c_document (st_config st)) grp of
                   None \<Rightarrow> (Err (HttpError 404 ''Group not found''), st)
                 | Some d \<Rightarrow>
                     if \<not> lists_member d prx then (Err (HttpError 404 ''Proxy not found in group''), st)
                     else if \<not> metadata_valid body then (Err (HttpError 400 ''Invalid managed selection metadata''), st)
                     else (case apply_selection grp prx body st of
                         (Err e, st') \<Rightarrow> (Err e, st')
                       | (Ok _, st') \<Rightarrow> (Ok (JObj [(''group'', JStr grp), (''ok'', JBool True), (''proxy'', JStr prx)]), st'))))))"

section \<open>Routing\<close>

definition connection_request :: "request \<Rightarrow> bool" where
  "connection_request rq \<longleftrightarrow> rq_path rq = ''/connections'' \<or> starts_with ''/connections/'' (rq_path rq)"

definition probe_request :: "request \<Rightarrow> bool" where
  "probe_request rq \<longleftrightarrow> rq_path rq = ''/connections/probes'' \<or> starts_with ''/connections/probes/'' (rq_path rq)"

definition bearer_ok :: "string \<Rightarrow> request \<Rightarrow> bool" where
  "bearer_ok secret rq \<longleftrightarrow>
     (let a = (case rq_authorization rq of Some bs \<Rightarrow> bs | None \<Rightarrow> [])
      in \<not> (length a < 7 \<or> \<not> eq_ignore_ascii_case (bytes_str (take 7 a)) ''Bearer ''
            \<or> drop 7 a \<noteq> str_bytes secret))"

definition needs_auth :: "'net config \<Rightarrow> request \<Rightarrow> bool" where
  "needs_auth c rq \<longleftrightarrow> controller_requires_auth c
     \<or> ((rq_method rq = ''PUT'' \<or> connection_request rq) \<and> c_secret c \<noteq> [])"

definition dispatch :: "api_env \<Rightarrow> request \<Rightarrow> 'net api_state \<Rightarrow> 'net outcome" where
  "dispatch E rq st =
     (let meth = rq_method rq; path = rq_path rq
      in if meth = ''PUT'' \<and> path = ''/connections/probes'' then handle_reserve E rq st
         else if meth = ''GET'' \<and> starts_with ''/connections/probes/'' path
         then handle_probe_read E (drop (length ''/connections/probes/'') path) st
         else if meth = ''DELETE'' \<and> starts_with ''/connections/probes/'' path
         then handle_probe_release E (drop (length ''/connections/probes/'') path) st
         else if probe_request rq then (Err (HttpError 405 ''Method Not Allowed''), st)
         else if meth = ''GET'' \<and> path = ''/connections'' then handle_list E st
         else if meth = ''DELETE'' \<and> starts_with ''/connections/'' path then handle_close (drop 13 path) st
         else if meth = ''GET'' \<and> path = ''/''
         then (Ok (JObj [(''hello'', JStr ''zc''), (''version'', JStr (env_version E))]), st)
         else if meth = ''GET'' \<and> path = ''/version'' then (Ok (JObj [(''version'', JStr (env_version E))]), st)
         else if meth = ''GET'' \<and> path = ''/proxies'' then (Ok (proxies_json (st_config st)), st)
         else if meth = ''GET'' \<and> path = ''/rules'' then (Ok (rules_json (st_config st)), st)
         else if meth = ''GET'' \<and> path = ''/status'' then handle_status st
         else if meth = ''PUT'' \<and> starts_with ''/proxies/'' path then handle_select E rq st
         else if meth = ''GET'' \<or> meth = ''PUT'' then (Err (HttpError 404 ''Not Found''), st)
         else (Err (HttpError 405 ''Method Not Allowed''), st))"

text \<open>\<open>State::route\<close>: the outcome, and whether the response names the instance.\<close>

definition api_route :: "api_env \<Rightarrow> request \<Rightarrow> 'net api_state \<Rightarrow> bool \<times> 'net outcome" where
  "api_route E rq st =
     (if connection_request rq \<and> c_secret (st_config st) = []
      then (False, Err (HttpError 403 ''Connection secret required''), st)
      else if needs_auth (st_config st) rq \<and> \<not> bearer_ok (c_secret (st_config st)) rq
      then (False, Err (HttpError 401 ''Unauthorized''), st)
      else (connection_request rq,
        if connection_request rq
           \<and> (case rq_instance rq of None \<Rightarrow> False | Some n \<Rightarrow> n \<noteq> str_bytes (r_nonce (st_registry st)))
        then (Err (HttpError 409 ''Connection instance changed''), st)
        else if probe_request rq \<and> rq_instance rq = None then (Err BAD, st)
        else dispatch E rq st))"

text \<open>The response that \<open>serve\<close> writes; a timeout is an error like those of \<open>read_request\<close>.\<close>

definition error_body :: "api_env \<Rightarrow> string \<Rightarrow> bytes" where
  "error_body E reason = env_text E (JObj [(''error'', JStr reason)])"

definition response_of :: "api_env \<Rightarrow> (json, http_error) result \<Rightarrow> nat \<times> string \<times> bytes" where
  "response_of E res = (case res of
       Ok v \<Rightarrow> if fits E v then (200, ''OK'', env_text E v)
               else (500, ''Response Too Large'', error_body E ''Response Too Large'')
     | Err (HttpError c reason) \<Rightarrow> (c, reason, error_body E reason))"

definition response_head :: "string option \<Rightarrow> nat \<times> string \<times> bytes \<Rightarrow> string" where
  "response_head instance_nonce = (\<lambda>(c, reason, body).
     ''HTTP/1.1 '' @ dec c @ '' '' @ reason @ CRLF_text @ ''Content-Type: application/json'' @ CRLF_text
     @ ''Connection: close'' @ CRLF_text
     @ (case instance_nonce of None \<Rightarrow> [] | Some n \<Rightarrow> ''X-Zc-Instance-Nonce: '' @ n @ CRLF_text)
     @ ''Content-Length: '' @ dec (length body) @ CRLF_text @ CRLF_text)"

definition api_serve ::
  "api_env \<Rightarrow> (bytes list) option \<Rightarrow> 'net api_state \<Rightarrow> bytes \<times> 'net api_state" where
  "api_serve E stream st =
     (let (named, res, st') = (case stream of
          None \<Rightarrow> (False, Err (HttpError 408 ''Request Timeout''), st)
        | Some cs \<Rightarrow> (case read_request E cs of
              Ok rq \<Rightarrow> api_route E rq st
            | Err e \<Rightarrow> (False, Err e, st)));
          response = response_of E res
      in (str_bytes (response_head (if named then Some (r_nonce (st_registry st')) else None) response)
            @ snd (snd response), st'))"

section \<open>Reading is bounded\<close>

lemma read_head_Ok:
  "read_head bs cs = Ok (e, bs', rest) \<Longrightarrow>
     bs' @ concat rest = bs @ concat cs \<and> e \<le> HEADER_LIMIT \<and> e \<le> length bs' \<and> 4 \<le> e"
proof (induction bs cs rule: read_head.induct)
  case (1 bs cs)
  show ?case
  proof (cases "find_sub (CRLF @ CRLF) bs")
    case None
    obtain c cs' where c: "read_some 4096 cs = (c, cs')" by (cases "read_some 4096 cs")
    have "\<not> HEADER_LIMIT \<le> length bs" "c \<noteq> []" "read_head (bs @ c) cs' = Ok (e, bs', rest)"
      using 1(2) None c by (auto simp: read_head.simps [of bs] split: if_splits)
    then show ?thesis using 1(1) [OF None _ refl c [symmetric]] read_some_concat [OF c] by simp
  next
    case (Some n)
    then have "e = n + 4" "bs' = bs" "rest = cs" "n + 4 \<le> HEADER_LIMIT"
      using 1(2) by (auto simp: read_head.simps [of bs] split: if_splits)
    then show ?thesis using find_sub_SomeD [OF Some] by (simp add: CRLF_def)
  qed
qed

declare read_head.simps [simp del]

lemma parse_length_Ok: "parse_length v = Ok n \<Longrightarrow> n \<le> BODY_LIMIT"
  by (auto simp: parse_length_def split: if_splits option.splits)

lemma header_step_length:
  assumes "header_step h hf = Ok hf'" "\<And>n. hf_length hf = Some n \<Longrightarrow> n \<le> BODY_LIMIT" "hf_length hf' = Some n"
  shows "n \<le> BODY_LIMIT"
  using assms
  by (auto simp: header_step_def result_simps split: if_splits prod.splits dest!: parse_length_Ok)

lemma header_fields_length:
  "header_fields_of hs hf = Ok hf' \<Longrightarrow> (\<And>n. hf_length hf = Some n \<Longrightarrow> n \<le> BODY_LIMIT) \<Longrightarrow>
     hf_length hf' = Some n \<Longrightarrow> n \<le> BODY_LIMIT"
proof (induction hs hf rule: header_fields_of.induct)
  case (2 h hs hf)
  then obtain hf1 where "header_step h hf = Ok hf1" "header_fields_of hs hf1 = Ok hf'"
    by (auto simp: result_simps)
  then show ?case using 2(1) [of hf1] header_step_length [of h hf hf1] 2(3,4) by blast
qed auto

lemma read_request_OkE:
  assumes "read_request E cs = Ok rq"
  obtains e bs rest p hf tail_bs cs' where "read_head [] cs = Ok (e, bs, rest)" "crlf_paired False (take e bs)"
    "env_httparse E (take e bs) = Some (e, p)" "hp_path p = Some (rq_path rq)" "starts_with ''/'' (rq_path rq)"
    "header_fields_of (hp_headers p) \<lparr>hf_length = None, hf_authorization = None, hf_instance = None\<rparr> = Ok hf"
    "\<not> (rq_method rq = ''PUT'' \<and> hf_length hf = None)"
    "length bs \<le> e + (case hf_length hf of Some n \<Rightarrow> n | None \<Rightarrow> 0)"
    "read_exact (e + (case hf_length hf of Some n \<Rightarrow> n | None \<Rightarrow> 0) - length bs) rest = Some (tail_bs, cs')"
    "rq_body rq = drop e (bs @ tail_bs)"
  using assms
  by (auto simp: read_request_def result_simps Let_def not_less split: if_splits option.splits prod.splits)

section \<open>Responses are bounded\<close>

lemma bounded_writes_eq:
  "length buf \<le> RESPONSE_LIMIT \<Longrightarrow> bounded_writes buf cs =
     (if length buf + length (concat cs) \<le> RESPONSE_LIMIT then Some (buf @ concat cs) else None)"
  by (induction buf cs rule: bounded_writes.induct) (auto simp: bounded_write_def)

section \<open>Group names survive the path\<close>

lemma to_digit_hex_upper [simp]: "d < 16 \<Longrightarrow> to_digit 16 (hex_upper d) = Some d"
  by (auto simp: hex_upper_def to_digit_def is_ascii_digit_def is_ascii_lower_def is_ascii_upper_def)

lemma decode_bytes_encode_byte:
  "decode_bytes (str_bytes (encode_byte b) @ bs) = map_option ((#) (of_nat (code b))) (decode_bytes bs)"
proof (cases "is_ascii_alphanumeric b \<or> b \<in> set ''-._~''")
  case True
  then have "(of_nat (code b) :: u8) \<noteq> 37"
    by (auto simp: word_unat_eq_iff is_ascii_alphanumeric_def is_ascii_digit_def is_ascii_lower_def is_ascii_upper_def)
  then show ?thesis using True by (simp add: encode_byte_def str_bytes_def)
next
  case False
  have d: "code b div 16 < 16" "code b mod 16 < 16" using code_less_256 [of b] by linarith+
  have c: "char_of (unat (of_nat (code x) :: u8)) = x" for x :: char by simp
  show ?thesis using False d by (simp add: encode_byte_def str_bytes_def c)
qed

lemma decode_encode_bytes: "decode_bytes (str_bytes (encode_group s)) = Some (str_bytes s)"
  by (induction s) (simp_all add: encode_group_def decode_bytes_encode_byte str_bytes_simps)

section \<open>The state stays well formed\<close>

definition managed_ok :: "'net managed \<Rightarrow> bool" where
  "managed_ok mg \<longleftrightarrow> (\<forall>grp prx body c. config_ok c \<longrightarrow> config_ok (snd (mg_select mg grp prx body c)))"

definition api_ok :: "'net api_state \<Rightarrow> bool" where
  "api_ok st \<longleftrightarrow> config_ok (st_config st) \<and> registry_ok (st_registry st)
     \<and> tickets_ok (r_nonce (st_registry st)) (st_tickets st) \<and> btree_ok (st_transient st)
     \<and> (\<forall>mg. st_managed st = Some mg \<longrightarrow> managed_ok mg)"

lemma close_nonce: "r_nonce (snd (close i r)) = r_nonce r"
  by (cases "close i r" rule: prod.exhaust) (auto elim: close_cases)

lemma apply_selection_ok:
  assumes "api_ok st" "apply_selection grp prx body st = (res, st')" shows "api_ok st'"
proof (cases "st_managed st")
  case None
  have "config_ok (snd (select grp prx (st_config st)))" using assms(1) by (simp add: api_ok_def select_config_ok)
  then show ?thesis using assms None
    by (auto simp: apply_selection_def api_ok_def btree_ok_insert split: if_splits prod.splits result.splits)
next
  case (Some mg)
  then have "config_ok (snd (mg_select mg grp prx body (st_config st)))"
    using assms(1) by (simp add: api_ok_def managed_ok_def)
  then show ?thesis using assms Some
    by (auto simp: apply_selection_def api_ok_def split: if_splits prod.splits option.splits bool.splits)
qed

lemma handle_select_state:
  "snd (handle_select E rq st) = st \<or> (\<exists>grp prx body res. apply_selection grp prx body st = (res, snd (handle_select E rq st)))"
  by (auto simp: handle_select_def split: option.splits result.splits prod.splits)

lemma dispatch_ok:
  assumes "api_ok st" "\<And>rnd. env_random E = Some rnd \<Longrightarrow> length rnd = 12"
  shows "api_ok (snd (dispatch E rq st))"
proof -
  have t: "tickets_ok (r_nonce (st_registry st)) (st_tickets st)" using assms(1) by (simp add: api_ok_def)
  have "api_ok (snd (handle_reserve E rq st))"
    using assms(1) reserve_probe_ok [OF t assms(2)]
    by (auto simp: handle_reserve_def api_ok_def split: option.splits result.splits prod.splits)
  moreover have "api_ok (snd (handle_probe_read E token st))" for token
    using assms(1) expire_ok [OF t]
      write_probe_state [of "fits E" "r_nonce (st_registry st)" "env_now E" token "st_config st" "st_tickets st"]
    by (auto simp: handle_probe_read_def api_ok_def split: result.splits prod.splits)
  moreover have "api_ok (snd (handle_probe_release E token st))" for token
    using assms(1) release_probe_ok [OF t]
    by (auto simp: handle_probe_release_def api_ok_def split: result.splits prod.splits)
  moreover have "api_ok (snd (handle_close i st))" for i
    using assms(1) close_ok [of "st_registry st" i] close_nonce [of i "st_registry st"]
    by (auto simp: handle_close_def api_ok_def split: result.splits prod.splits)
  moreover have "api_ok (snd (handle_select E rq st))"
    using handle_select_state [of E rq st] apply_selection_ok [OF assms(1)] assms(1) by metis
  moreover have "snd (handle_list E st) = st" "snd (handle_status st) = st"
    by (simp_all add: handle_list_def handle_status_def Let_def split: option.splits)
  ultimately show ?thesis using assms(1) by (simp add: dispatch_def Let_def)
qed

lemma api_route_ok:
  assumes "api_ok st" "\<And>rnd. env_random E = Some rnd \<Longrightarrow> length rnd = 12"
  shows "api_ok (snd (snd (api_route E rq st)))"
  using assms(1) dispatch_ok [OF assms] by (simp add: api_route_def)

lemma bearer_ok_iff:
  "bearer_ok secret rq \<longleftrightarrow>
     (\<exists>scheme. rq_authorization rq = Some (str_bytes (scheme @ secret)) \<and> eq_ignore_ascii_case scheme ''Bearer '')"
proof
  assume b: "bearer_ok secret rq"
  then obtain a where a: "rq_authorization rq = Some a" "7 \<le> length a" "drop 7 a = str_bytes secret"
      "eq_ignore_ascii_case (bytes_str (take 7 a)) ''Bearer ''"
    by (auto simp: bearer_ok_def Let_def not_less split: option.splits)
  have "a = str_bytes (bytes_str (take 7 a) @ secret)"
    using append_take_drop_id [of 7 a] a(3) by (simp add: str_bytes_simps)
  then show "\<exists>scheme. rq_authorization rq = Some (str_bytes (scheme @ secret)) \<and> eq_ignore_ascii_case scheme ''Bearer ''"
    using a by metis
next
  assume "\<exists>scheme. rq_authorization rq = Some (str_bytes (scheme @ secret)) \<and> eq_ignore_ascii_case scheme ''Bearer ''"
  then obtain scheme where s: "rq_authorization rq = Some (str_bytes (scheme @ secret))" "eq_ignore_ascii_case scheme ''Bearer ''"
    by blast
  have "length scheme = length ''Bearer ''"
    using s(2) unfolding eq_ignore_ascii_case_def by (metis length_to_ascii_lowercase)
  then show "bearer_ok secret rq" using s by (simp add: bearer_ok_def str_bytes_simps)
qed

lemma handle_select_Ok:
  "handle_select E rq st = (Ok v, st') \<Longrightarrow> \<exists>grp prx body. decode_group (drop 9 (rq_path rq)) = Some grp
     \<and> apply_selection grp prx body st = (Ok (), st')
     \<and> v = JObj [(''group'', JStr grp), (''ok'', JBool True), (''proxy'', JStr prx)]"
  by (auto simp: handle_select_def split: option.splits if_splits result.splits prod.splits)

lemma handle_select_Err:
  "handle_select E rq st = (Err e, st') \<Longrightarrow> st' = st \<or> (\<exists>grp prx body. apply_selection grp prx body st = (Err e, st'))"
  by (auto simp: handle_select_def split: option.splits if_splits result.splits prod.splits)

lemma apply_selection_Err:
  "st_managed st = None \<Longrightarrow> apply_selection grp prx body st = (Err e, st') \<Longrightarrow> st' = st"
  by (auto simp: apply_selection_def select_def split: if_splits result.splits prod.splits)

lemma apply_selection_Ok:
  assumes "config_ok (st_config st)" "st_managed st = None" "apply_selection grp prx body st = (Ok (), st')"
  shows "map_of (selected (st_config st')) = (map_of (selected (st_config st)))(grp \<mapsto> prx)"
proof -
  obtain u c where c: "select grp prx (st_config st) = (Ok u, c)" "st_config st' = c"
    using assms(2,3) by (auto simp: apply_selection_def split: if_splits result.splits prod.splits)
  then show ?thesis using select_selected [OF assms(1), of grp prx c] by simp
qed

section \<open>Properties\<close>

text \<open>
  C20 (api_requires_secret).  A request for the connections, a change, or any request to a controller that
  listens on all interfaces has no effect and gets no content without the secret: unless the
  \<open>Authorization\<close> header is exactly \<open>Bearer\<close> (in any case) and the secret, the answer is 401 or 403 and
  nothing changes.  Connections are never served without a secret.
\<close>

theorem api_requires_secret:
  assumes "api_route E rq st = (named, res, st')"
    and "connection_request rq \<or> needs_auth (st_config st) rq"
    and "\<And>scheme. eq_ignore_ascii_case scheme ''Bearer '' \<Longrightarrow>
      rq_authorization rq \<noteq> Some (str_bytes (scheme @ c_secret (st_config st)))"
  shows "st' = st \<and> \<not> named
     \<and> (res = Err (HttpError 401 ''Unauthorized'') \<or> res = Err (HttpError 403 ''Connection secret required''))"
proof -
  have b: "\<not> bearer_ok (c_secret (st_config st)) rq" using assms(3) unfolding bearer_ok_iff by blast
  show ?thesis
  proof (cases "connection_request rq \<and> c_secret (st_config st) = []")
    case True
    then show ?thesis using assms(1) by (simp add: api_route_def)
  next
    case False
    then have "needs_auth (st_config st) rq" using assms(2) by (auto simp: needs_auth_def)
    then show ?thesis using assms(1) b False by (simp add: api_route_def)
  qed
qed



text \<open>
  The server recovers exactly the group name that the client wrote into the
  path, for every text.
\<close>

theorem group_path_round_trip:
  "is_str grp \<Longrightarrow> decode_group (encode_group grp) = Some grp"
  by (simp add: decode_group_def decode_encode_bytes)


text \<open>
  A successful close request closes exactly the named connection, and its
  answer is accepted by the check of the command line.
\<close>

theorem api_close_accepted:
  assumes "api_route E rq st = (named, Ok v, st')" "rq_method rq = ''DELETE''"
    and "rq_path rq = ''/connections/'' @ i" "\<not> probe_request rq"
  shows "valid_response v nonce (Some i) \<and> named
     \<and> close i (st_registry st) = (Ok (), st_registry st') \<and> st_config st' = st_config st"
proof -
  have "named" "handle_close i st = (Ok v, st')"
    using assms
    by (auto simp: api_route_def dispatch_def Let_def connection_request_def probe_request_def split: if_splits)
  then show ?thesis
    by (auto simp: handle_close_def valid_response_def response_keys_def json_index_def json_get_def
        split: result.splits prod.splits)
qed

text \<open>
  Without a manager, a selection request that succeeds changes the choice of
  exactly the decoded group to exactly the named node; one that fails leaves every choice as it was.
\<close>

theorem api_selection_exact:
  assumes "config_ok (st_config st)" "st_managed st = None"
    and "handle_select E rq st = (res, st')"
  shows "case res of
       Ok v \<Rightarrow> (\<exists>grp prx. decode_group (drop 9 (rq_path rq)) = Some grp
           \<and> map_of (selected (st_config st')) = (map_of (selected (st_config st)))(grp \<mapsto> prx)
           \<and> v = JObj [(''group'', JStr grp), (''ok'', JBool True), (''proxy'', JStr prx)])
     | Err _ \<Rightarrow> st' = st"
proof (cases res)
  case (Ok v)
  then obtain grp prx body where "decode_group (drop 9 (rq_path rq)) = Some grp"
      "apply_selection grp prx body st = (Ok (), st')"
      "v = JObj [(''group'', JStr grp), (''ok'', JBool True), (''proxy'', JStr prx)]"
    using handle_select_Ok assms(3) by blast
  then show ?thesis using Ok apply_selection_Ok [OF assms(1,2)] by auto
next
  case (Err e)
  then show ?thesis using handle_select_state [of E rq st] apply_selection_Err [OF assms(2)] assms(3)
      handle_select_Err [of E rq st e st'] by auto
qed

section \<open>A concrete controller\<close>

definition demo_state :: "unit api_state" where
  "demo_state = \<lparr>st_config = demo_parsed\<lparr>c_secret := ''s''\<rparr>, st_managed = None, st_transient = [],
     st_registry = demo_registry, st_tickets = \<lparr>ts_sequence = 0, ts_entries = []\<rparr>\<rparr>"

definition demo_env :: "json \<Rightarrow> api_env" where
  "demo_env v = \<lparr>env_httparse = \<lambda>bs. Some (length bs, \<lparr>hp_method = Some ''GET'', hp_path = Some ''/'',
       hp_version = Some 1, hp_headers = []\<rparr>),
     env_parse = \<lambda>_. Some v, env_text = \<lambda>_. [], env_reservation = \<lambda>_. None, env_now = 0, env_random = None,
     env_version = ''1''\<rparr>"

definition demo_request :: "string \<Rightarrow> string \<Rightarrow> bytes option \<Rightarrow> request" where
  "demo_request meth path auth =
     \<lparr>rq_method = meth, rq_path = path, rq_authorization = auth, rq_instance = None, rq_body = []\<rparr>"

lemma demo_state_ok: "api_ok demo_state"
proof -
  have "config_ok demo_parsed" by (rule parse_inner_ok [OF demo_parse])
  then have "config_ok (demo_parsed\<lparr>c_secret := ''s''\<rparr>)" by (simp add: config_ok_def node_names_def)
  moreover have "tickets_ok demo_nonce \<lparr>ts_sequence = 0, ts_entries = []\<rparr>"
    using demo_token_part by (simp add: tickets_ok_def)
  ultimately show ?thesis
    using world_ok_registry [OF demo_world_ok] by (simp add: api_ok_def demo_state_def demo_registry_eq)
qed

theorem api_requires_secret_witness:
  "api_route (demo_env JNull) (demo_request ''GET'' ''/connections'' None) demo_state
     = (False, Err (HttpError 401 ''Unauthorized''), demo_state)"
proof -
  obtain named res st' where r: "api_route (demo_env JNull) (demo_request ''GET'' ''/connections'' None) demo_state = (named, res, st')"
    by (metis prod.exhaust)
  have "connection_request (demo_request ''GET'' ''/connections'' None)"
    by (simp add: connection_request_def demo_request_def)
  from api_requires_secret [OF r disjI1 [OF this]] r show ?thesis
    by (auto simp: demo_request_def api_route_def demo_state_def connection_request_def needs_auth_def bearer_ok_def)
qed


lemma demo_read: "read_request (demo_env JNull) [[13, 10, 13, 10]] = Ok (demo_request ''GET'' ''/'' None)"
  by (simp add: read_request_def read_head.simps CRLF_def HEADER_LIMIT_def demo_env_def demo_request_def)


theorem group_path_round_trip_witness:
  "is_str ''a/b c'' \<and> encode_group ''a/b c'' = ''a%2Fb%20c'' \<and> decode_group ''a%2Fb%20c'' = Some ''a/b c''"
proof -
  have "is_str ''a/b c''" "encode_group ''a/b c'' = ''a%2Fb%20c''" by code_simp+
  then show ?thesis using group_path_round_trip [of "''a/b c''"] by simp
qed

definition demo_auth :: bytes where "demo_auth = str_bytes ''bearer s''"

lemma demo_bearer: "bearer_ok ''s'' (demo_request meth path (Some demo_auth))"
proof -
  have "eq_ignore_ascii_case ''bearer '' ''Bearer ''" by code_simp
  then show ?thesis unfolding bearer_ok_iff by (intro exI [of _ "''bearer ''"]) (simp add: demo_request_def demo_auth_def)
qed

lemma api_route_close:
  assumes "c_secret (st_config st) \<noteq> []" "bearer_ok (c_secret (st_config st)) rq" "rq_instance rq = None"
    and "rq_method rq = ''DELETE''" "rq_path rq = ''/connections/'' @ i" "\<not> starts_with ''probes'' i"
  shows "api_route E rq st = (True, handle_close i st) \<and> \<not> probe_request rq"
proof -
  have "\<not> starts_with ''probes/'' i" "i \<noteq> ''probes''" using assms(6) by (auto simp: starts_with_iff)
  then show ?thesis
    using assms by (simp add: api_route_def dispatch_def connection_request_def probe_request_def)
qed

theorem api_close_accepted_witness:
  "\<exists>v st'. api_route (demo_env JNull) (demo_request ''DELETE'' (''/connections/'' @ connection_id demo_nonce 1) (Some demo_auth)) demo_state
      = (True, Ok v, st') \<and> valid_response v demo_nonce (Some (connection_id demo_nonce 1))"
proof -
  let ?i = "connection_id demo_nonce 1"
  let ?rq = "demo_request ''DELETE'' (''/connections/'' @ ?i) (Some demo_auth)"
  have i: "\<not> starts_with ''probes'' ?i" by (simp add: connection_id_def demo_nonce_def numeral_eq_Suc)
  have r: "api_route (demo_env JNull) ?rq demo_state = (True, handle_close ?i demo_state) \<and> \<not> probe_request ?rq"
    using demo_bearer [of "''DELETE''" "''/connections/'' @ ?i"] i
    by (intro api_route_close) (simp_all add: demo_state_def demo_request_def del: One_nat_def)
  obtain v st' where h: "handle_close ?i demo_state = (Ok v, st')"
    using demo_closed_eq(2) by (simp add: handle_close_def demo_state_def)
  show ?thesis
    using api_close_accepted [of "demo_env JNull" ?rq demo_state True v st' ?i demo_nonce] r h
    by (auto simp: demo_request_def)
qed


theorem api_selection_exact_witness:
  "config_ok (st_config demo_state) \<and> st_managed demo_state = None
   \<and> fst (handle_select (demo_env JNull) (demo_request ''PUT'' ''/proxies/pick'' None) demo_state)
     = Err (HttpError 400 ''Missing name in body'')
   \<and> snd (handle_select (demo_env JNull) (demo_request ''PUT'' ''/proxies/pick'' None) demo_state) = demo_state"
proof -
  have "decode_group ''pick'' = Some ''pick''" by code_simp
  then have h: "handle_select (demo_env JNull) (demo_request ''PUT'' ''/proxies/pick'' None) demo_state
      = (Err (HttpError 400 ''Missing name in body''), snd (handle_select (demo_env JNull) (demo_request ''PUT'' ''/proxies/pick'' None) demo_state))"
    by (simp add: handle_select_def demo_env_def demo_request_def json_get_def)
  have c: "config_ok (st_config demo_state)" "st_managed demo_state = None"
    using demo_state_ok by (simp_all add: api_ok_def demo_state_def)
  from api_selection_exact [OF c h] show ?thesis using c h by simp
qed

end
