(* ===== verification/Http_Request.thy ===== *)
theory Http_Request
  imports Rust_Addr Streams
begin

text \<open>
  The head of a proxied HTTP request (\<open>src/src/runtime.rs\<close>): the authority of a request, the checks on its
  fields, and the head that is sent upstream.  The parser \<open>httparse\<close> is external; its result is a
  \<open>parsed_head\<close>, and \<open>head_ok\<close> states what it guarantees of one: names and methods are tokens, and
  values hold no line end.

  The lemmas show that the head sent upstream splits into one line for the request and one for each field,
  that its only \<open>Host\<close> names the target that is dialled, and that it declares the body in one way only.
\<close>

section \<open>Authorities\<close>

datatype http_fault =
    Bail string
  | NotUtf8
  | NotANumber
  | BadTarget target_error
  | UnexpectedEof
  | FramingTruncated http_fault
  | BadHead

definition utf8 :: "bytes \<Rightarrow> (string, http_fault) result" where
  "utf8 bs = ok_or NotUtf8 (from_utf8 bs)"

definition authority_port :: "string \<Rightarrow> (u16, http_fault) result" where
  "authority_port v =
     (if v = [] \<or> \<not> list_all is_ascii_digit v then Err (Bail ''authority port must contain decimal digits'')
      else case parse_uint 65535 v of None \<Rightarrow> Err NotANumber | Some n \<Rightarrow> Ok (of_nat n))"

definition bracket_port :: "string \<Rightarrow> u16 option \<Rightarrow> (u16, http_fault) result" where
  "bracket_port suffix default_port =
     and_then (case strip_prefix '':'' suffix of
         Some p \<Rightarrow> and_then (authority_port p) (\<lambda>n. Ok (Some n))
       | None \<Rightarrow> Ok (if suffix = [] then default_port else None)) (\<lambda>port.
     ok_or (Bail ''missing or invalid port'') port)"

definition authority_parts :: "string \<Rightarrow> u16 option \<Rightarrow> (string \<times> u16, http_fault) result" where
  "authority_parts v default_port = (case strip_prefix ''['' v of
       Some rest \<Rightarrow> (case split_once (CHR '']'') rest of
           None \<Rightarrow> Err (Bail ''invalid IPv6 authority'')
         | Some (host, suffix) \<Rightarrow>
             if parse_ipv6 host = None then Err (Bail ''invalid IPv6 address'')
             else and_then (bracket_port suffix default_port) (\<lambda>p. Ok (host, p)))
     | None \<Rightarrow> (case split_once (CHR '':'') v of
           Some (host, port) \<Rightarrow> and_then (authority_port port) (\<lambda>p. Ok (host, p))
         | None \<Rightarrow> and_then (ok_or (Bail ''missing port'') default_port) (\<lambda>p. Ok (v, p))))"

definition authority :: "string \<Rightarrow> u16 option \<Rightarrow> (target, http_fault) result" where
  "authority v default_port = and_then (authority_parts v default_port) (\<lambda>(host, port).
     case target_new host port of Ok t \<Rightarrow> Ok t | Err e \<Rightarrow> Err (BadTarget e))"

definition same_target :: "target \<Rightarrow> target \<Rightarrow> bool" where
  "same_target l r \<longleftrightarrow> t_port l = t_port r
     \<and> (case (parse_ip (t_host l), parse_ip (t_host r)) of
          (Some a, Some b) \<Rightarrow> a = b
        | _ \<Rightarrow> eq_ignore_ascii_case (t_host l) (t_host r))"

section \<open>Tokens and trailers\<close>

definition is_token_char :: "char \<Rightarrow> bool" where
  "is_token_char b \<longleftrightarrow> is_ascii_alphanumeric b \<or> b \<in> set ''!#$%&'' \<or> code b = 39 \<or> b \<in> set ''*+-.^_`|~''"

definition PROBE_HEADER :: string where "PROBE_HEADER = ''x-zc-probe-token''"

definition forbidden_trailers :: "string list" where
  "forbidden_trailers = [''host'', ''content-length'', ''transfer-encoding'', ''connection'', ''trailer'',
     ''authorization'', ''proxy-authorization'', PROBE_HEADER, ''upgrade'', ''expect'', ''te'',
     ''proxy-connection'', ''keep-alive'']"

definition validate_trailer :: "string \<Rightarrow> (unit, http_fault) result" where
  "validate_trailer name =
     (if name = [] \<or> \<not> list_all is_token_char name then Err (Bail ''invalid HTTP trailer name'')
      else if list_ex (eq_ignore_ascii_case name) forbidden_trailers
      then Err (Bail ''trailer conflicts with routing or framing'')
      else Ok ())"

fun validate_trailers :: "string list \<Rightarrow> (unit, http_fault) result" where
  "validate_trailers [] = Ok ()"
| "validate_trailers (n # ns) = and_then (validate_trailer n) (\<lambda>_. validate_trailers ns)"

section \<open>The request target\<close>

definition path_bytes_ok :: "string \<Rightarrow> bool" where
  "path_bytes_ok path \<longleftrightarrow> list_all (\<lambda>b. 33 \<le> code b \<and> code b \<le> 126 \<and> b \<noteq> CHR ''#'' \<and> code b \<noteq> 92) path"

definition url_end :: "string \<Rightarrow> nat" where
  "url_end url = (case position (\<lambda>b. b = CHR ''/'' \<or> b = CHR ''?'') url of Some n \<Rightarrow> n | None \<Rightarrow> length url)"

definition url_origin :: "string \<Rightarrow> string" where
  "url_origin tail = (if tail = [] then ''/'' else if starts_with ''?'' tail then ''/'' @ tail else tail)"

definition find_host :: "(string \<times> bytes) list \<Rightarrow> (string, http_fault) result" where
  "find_host hs = and_then (ok_or (Bail ''origin-form requires Host'')
       (find (\<lambda>(n, v). eq_ignore_ascii_case n ''host'') hs)) (\<lambda>(n, v).
     and_then (utf8 v) (\<lambda>s. Ok (trim_matches is_space_tab s)))"

definition request_target :: "bool \<Rightarrow> string \<Rightarrow> (string \<times> bytes) list \<Rightarrow> (target \<times> string, http_fault) result" where
  "request_target connect path hs =
     (if connect then and_then (authority path None) (\<lambda>t. Ok (t, []))
      else if starts_with ''/'' path \<or> path = ''*''
      then and_then (find_host hs) (\<lambda>h. and_then (authority h (Some 80)) (\<lambda>t. Ok (t, path)))
      else and_then (ok_or (Bail ''unsupported URL scheme'')
             (case strip_prefix ''http://'' path of Some u \<Rightarrow> Some u | None \<Rightarrow> strip_prefix ''https://'' path)) (\<lambda>url.
           and_then (authority (take (url_end url) url)
             (Some (if starts_with ''https://'' path then 443 else 80))) (\<lambda>t.
           Ok (t, url_origin (drop (url_end url) url)))))"

section \<open>The fields of a request\<close>

record scan =
  sc_length :: "nat option"
  sc_chunked :: bool
  sc_expect :: bool
  sc_trailers :: bool
  sc_host :: bool
  sc_probe :: "string option"
  sc_connection :: "string list"

definition scan_start :: scan where
  "scan_start = \<lparr>sc_length = None, sc_chunked = False, sc_expect = False, sc_trailers = False, sc_host = False,
     sc_probe = None, sc_connection = []\<rparr>"

definition scan_probe :: "bool \<Rightarrow> bytes \<Rightarrow> scan \<Rightarrow> (scan, http_fault) result" where
  "scan_probe connect v s =
     (if sc_probe s \<noteq> None \<or> connect then Err (Bail ''invalid probe header'')
      else and_then (utf8 v) (\<lambda>token.
        if length token \<noteq> 65 then Err (Bail ''invalid probe header'') else Ok (s\<lparr>sc_probe := Some token\<rparr>)))"

definition scan_encoding :: "bool \<Rightarrow> nat option \<Rightarrow> bytes \<Rightarrow> scan \<Rightarrow> (scan, http_fault) result" where
  "scan_encoding connect version v s =
     (if sc_chunked s \<or> connect \<or> version \<noteq> Some 1 \<or> \<not> eq_ignore_ascii_case (bytes_str v) ''chunked''
      then Err (Bail ''unsupported or duplicate Transfer-Encoding'') else Ok (s\<lparr>sc_chunked := True\<rparr>))"

definition scan_expect :: "bool \<Rightarrow> nat option \<Rightarrow> bytes \<Rightarrow> scan \<Rightarrow> (scan, http_fault) result" where
  "scan_expect connect version v s =
     (if sc_expect s \<or> connect \<or> version \<noteq> Some 1 \<or> \<not> eq_ignore_ascii_case (bytes_str v) ''100-continue''
      then Err (Bail ''unsupported or duplicate Expect'') else Ok (s\<lparr>sc_expect := True\<rparr>))"

definition scan_trailer :: "bytes \<Rightarrow> scan \<Rightarrow> (scan, http_fault) result" where
  "scan_trailer v s = and_then (utf8 v) (\<lambda>names.
     and_then (validate_trailers (map (trim_matches is_space_tab) (split_char (CHR '','') names))) (\<lambda>_.
     Ok (s\<lparr>sc_trailers := True\<rparr>)))"

definition scan_host :: "target \<Rightarrow> u16 \<Rightarrow> bytes \<Rightarrow> scan \<Rightarrow> (scan, http_fault) result" where
  "scan_host t default_port v s =
     (if sc_host s then Err (Bail ''duplicate Host'')
      else and_then (utf8 v) (\<lambda>value.
        and_then (authority (trim_matches is_space_tab value) (Some default_port)) (\<lambda>host.
        if \<not> same_target t host then Err (Bail ''Host conflicts with request target'')
        else Ok (s\<lparr>sc_host := True\<rparr>))))"

definition BODY_MAX :: nat where "BODY_MAX = 16 * 1024 * 1024"

definition scan_length :: "bool \<Rightarrow> bytes \<Rightarrow> scan \<Rightarrow> (scan, http_fault) result" where
  "scan_length connect v s =
     (if sc_length s \<noteq> None then Err (Bail ''duplicate Content-Length'')
      else and_then (utf8 v) (\<lambda>value.
        let digits = trim_matches is_space_tab value
        in if digits = [] \<or> \<not> list_all is_ascii_digit digits then Err (Bail ''invalid Content-Length'')
           else and_then (ok_or NotANumber (parse_uint (2 ^ 64 - 1) digits)) (\<lambda>count.
             if BODY_MAX < count \<or> (connect \<and> count \<noteq> 0) then Err (Bail ''unsupported request body length'')
             else Ok (s\<lparr>sc_length := Some count\<rparr>))))"

definition framing_names :: "string list" where
  "framing_names = [''host'', ''content-length'', ''transfer-encoding'', ''upgrade'', ''expect'', ''trailer'']"

definition connection_option :: "string \<Rightarrow> (string, http_fault) result" where
  "connection_option raw_token =
     (let token = to_ascii_lowercase (trim_matches is_space_tab raw_token)
      in if token = [] \<or> \<not> list_all is_token_char token then Err (Bail ''invalid Connection option'')
         else if token \<in> set framing_names then Err (Bail ''Connection option conflicts with framing'')
         else Ok token)"

definition scan_connection :: "bytes \<Rightarrow> scan \<Rightarrow> (scan, http_fault) result" where
  "scan_connection v s = and_then (utf8 v) (\<lambda>value.
     and_then (result_map connection_option (split_char (CHR '','') value)) (\<lambda>tokens.
     Ok (s\<lparr>sc_connection := sc_connection s @ tokens\<rparr>)))"

definition scan_field ::
  "bool \<Rightarrow> nat option \<Rightarrow> target \<Rightarrow> u16 \<Rightarrow> string \<times> bytes \<Rightarrow> scan \<Rightarrow> (scan, http_fault) result" where
  "scan_field connect version t default_port = (\<lambda>(n, v) s.
     let name = to_ascii_lowercase n
     in if name = PROBE_HEADER then scan_probe connect v s
        else if name = ''transfer-encoding'' then scan_encoding connect version v s
        else if name = ''expect'' then scan_expect connect version v s
        else if name = ''trailer'' then scan_trailer v s
        else if name = ''upgrade'' then Err (Bail ''HTTP upgrade is unsupported'')
        else if name = ''host'' then scan_host t (if connect then t_port t else default_port) v s
        else if name = ''content-length'' then scan_length connect v s
        else if name = ''connection'' then scan_connection v s
        else Ok s)"

fun scan_fields ::
  "bool \<Rightarrow> nat option \<Rightarrow> target \<Rightarrow> u16 \<Rightarrow> (string \<times> bytes) list \<Rightarrow> scan \<Rightarrow> (scan, http_fault) result" where
  "scan_fields connect version t default_port [] s = Ok s"
| "scan_fields connect version t default_port (h # hs) s =
     and_then (scan_field connect version t default_port h s) (scan_fields connect version t default_port hs)"

definition check_scan :: "nat option \<Rightarrow> scan \<Rightarrow> (unit, http_fault) result" where
  "check_scan version s =
     (if sc_chunked s \<and> sc_length s \<noteq> None then Err (Bail ''conflicting HTTP body framing'')
      else if sc_trailers s \<and> \<not> sc_chunked s then Err (Bail ''trailers require chunked framing'')
      else if version = Some 1 \<and> \<not> sc_host s then Err (Bail ''HTTP/1.1 requires Host'')
      else Ok ())"

section \<open>The head sent upstream\<close>

record forward =
  f_header :: bytes
  f_length :: nat
  f_chunked :: bool
  f_keep_alive :: bool
  f_head :: bool
  f_tls :: bool

record http_request =
  hr_target :: target
  hr_forward :: "forward option"
  hr_probe :: "string option"

definition host_text :: "target \<Rightarrow> string" where
  "host_text t = (if CHR '':'' \<in> set (t_host t) then ''['' @ t_host t @ '']'' else t_host t)"

definition dropped_names :: "string list" where
  "dropped_names = [''host'', ''content-length'', ''connection'', ''proxy-authorization'', ''proxy-connection'',
     PROBE_HEADER, ''keep-alive'', ''te'']"

definition kept_fields :: "string list \<Rightarrow> (string \<times> bytes) list \<Rightarrow> (string \<times> bytes) list" where
  "kept_fields connection hs =
     filter (\<lambda>(n, v). \<not> (to_ascii_lowercase n \<in> set dropped_names \<or> to_ascii_lowercase n \<in> set connection)) hs"

definition field_line :: "string \<times> bytes \<Rightarrow> bytes" where
  "field_line = (\<lambda>(n, v). str_bytes n @ str_bytes '': '' @ v)"

definition forward_head :: "string \<Rightarrow> string \<Rightarrow> target \<Rightarrow> scan \<Rightarrow> (string \<times> bytes) list \<Rightarrow> bytes" where
  "forward_head meth origin t s hs =
     str_bytes (meth @ '' '' @ origin @ '' HTTP/1.1'' @ CRLF_text
       @ ''Host: '' @ host_text t @ '':'' @ dec (unat (t_port t)) @ CRLF_text)
     @ concat (map (\<lambda>h. field_line h @ CRLF) (kept_fields (sc_connection s) hs))
     @ (case sc_length s of None \<Rightarrow> [] | Some n \<Rightarrow> str_bytes (''Content-Length: '' @ dec n @ CRLF_text))
     @ str_bytes (''Connection: close'' @ CRLF_text @ CRLF_text)"

definition http_request_of :: "parsed_head \<Rightarrow> (http_request, http_fault) result" where
  "http_request_of p =
     and_then (ok_or (Bail ''missing method'') (hp_method p)) (\<lambda>meth.
     and_then (ok_or (Bail ''missing request target'') (hp_path p)) (\<lambda>path.
     if \<not> path_bytes_ok path then Err (Bail ''invalid request target'')
     else let connect = (meth = ''CONNECT''); tls = starts_with ''https://'' path;
              default_port = (if tls then 443 else 80); hs = hp_headers p; version = hp_version p
       in and_then (request_target connect path hs) (\<lambda>(t, origin).
          and_then (scan_fields connect version t default_port hs scan_start) (\<lambda>s.
          and_then (check_scan version s) (\<lambda>_.
          Ok (if connect then \<lparr>hr_target = t, hr_forward = None, hr_probe = None\<rparr>
              else \<lparr>hr_target = t,
                hr_forward = Some \<lparr>f_header = forward_head meth origin t s hs,
                  f_length = (case sc_length s of Some n \<Rightarrow> n | None \<Rightarrow> 0), f_chunked = sc_chunked s,
                  f_keep_alive = (''close'' \<notin> set (sc_connection s)
                    \<and> (version = Some 1 \<or> ''keep-alive'' \<in> set (sc_connection s))),
                  f_head = (meth = ''HEAD''), f_tls = tls\<rparr>,
                hr_probe = sc_probe s\<rparr>))))))"

section \<open>The Host that is sent reads back as the target\<close>

lemma dns_name_chars:
  assumes "dns_name h" "c \<in> set h"
  shows "is_ascii_alphanumeric c \<or> c = CHR ''-'' \<or> c = CHR ''.''"
proof -
  define d where "d = (case strip_suffix ''.'' h of Some d \<Rightarrow> d | None \<Rightarrow> h)"
  have labels: "list_all dns_label (split_char (CHR ''.'') d)" using assms(1) by (simp add: dns_name_def d_def Let_def)
  have "c \<in> set d \<or> c = CHR ''.''" using assms(2) by (auto simp: d_def strip_suffix_Some_iff split: option.splits)
  moreover have "is_ascii_alphanumeric c \<or> c = CHR ''-'' \<or> c = CHR ''.''" if "c \<in> set d"
  proof -
    have join: "c \<in> set (join_char x ls) \<Longrightarrow> c = x \<or> (\<exists>l\<in>set ls. c \<in> set l)" for x and ls :: "string list"
      by (induction x ls rule: join_char.induct) auto
    show ?thesis
      using join [of "CHR ''.''" "split_char (CHR ''.'') d"] that labels dns_label_chars
      by (auto simp: join_split_char list_all_iff)
  qed
  ultimately show ?thesis by blast
qed

definition host_char :: "char \<Rightarrow> bool" where
  "host_char c \<longleftrightarrow> is_ascii_alphanumeric c \<or> c \<in> set ''-.:''"

lemma to_digit_alphanumeric: "to_digit 16 c \<noteq> None \<Longrightarrow> is_ascii_alphanumeric c"
  by (auto simp: to_digit_def is_ascii_alphanumeric_def Let_def split: if_splits)

lemma target_host_chars: "target_new h p = Ok t \<Longrightarrow> list_all host_char (t_host t)"
proof -
  assume t: "target_new h p = Ok t"
  have "host_char c" if c: "c \<in> set h" for c
    using t dns_name_chars [OF _ c] parse_ip_chars [OF _ c] to_digit_alphanumeric [of c]
    by (auto simp: target_new_Ok_iff host_char_def)
  then show ?thesis using t by (auto simp: target_new_Ok_iff list_all_iff)
qed

lemma not_host_char: "\<not> host_char (CHR ''['')" "\<not> host_char (CHR '']'')" "\<not> host_char (CHR '' '')" "\<not> host_char CR" "\<not> host_char LF"
  by (simp_all add: host_char_def is_ascii_alphanumeric_def is_ascii_digit_def is_ascii_lower_def is_ascii_upper_def)

lemma authority_port_dec: "authority_port (dec (unat (p :: u16))) = Ok p"
proof -
  have "unat p \<le> 65535" using unat_u16_less [of p] by linarith
  then show ?thesis by (simp add: authority_port_def)
qed

lemma authority_host_text:
  assumes "target_new h p = Ok t"
  shows "authority (host_text t @ '':'' @ dec (unat (t_port t))) d = Ok t"
proof -
  have t: "t = \<lparr>t_host = h, t_port = p\<rparr>" using assms by (simp add: target_new_Ok_iff)
  have hc: "\<And>c. c \<in> set h \<Longrightarrow> host_char c" using target_host_chars [OF assms] t by (simp add: list_all_iff)
  have "authority_parts (host_text t @ '':'' @ dec (unat p)) d = Ok (h, p)"
  proof (cases "CHR '':'' \<in> set h")
    case True
    then have "\<not> dns_name h" using dns_name_chars [of h "CHR '':''"]
      by (auto simp: is_ascii_alphanumeric_def is_ascii_digit_def is_ascii_lower_def is_ascii_upper_def)
    then have "parse_ipv6 h \<noteq> None" using assms parse_ip_colon [OF _ True] by (auto simp: target_new_Ok_iff)
    moreover have "CHR '']'' \<notin> set h" using hc not_host_char by blast
    ultimately show ?thesis using True
      by (auto simp: t host_text_def authority_parts_def bracket_port_def authority_port_dec)
  next
    case False
    have "starts_with ''['' h \<Longrightarrow> False" using hc [OF hd_in_set] not_host_char by (auto simp: starts_with_single)
    moreover have "h \<noteq> []" using assms by (auto simp: target_new_Ok_iff parse_ip_Nil dns_name_def strip_suffix_def)
    ultimately have "strip_prefix ''['' (h @ '':'' @ dec (unat p)) = None"
      by (cases h) (auto simp: starts_with_def split: if_splits)
    then show ?thesis using False by (simp add: t host_text_def authority_parts_def authority_port_dec)
  qed
  then show ?thesis using assms t by (simp add: authority_def)
qed

section \<open>Lines of a head\<close>

fun crlf_split :: "bytes \<Rightarrow> bytes list" where
  "crlf_split [] = [[]]"
| "crlf_split [b] = [[b]]"
| "crlf_split (a # b # bs) =
     (if a = 13 \<and> b = 10 then [] # crlf_split bs
      else case crlf_split (b # bs) of l # ls \<Rightarrow> (a # l) # ls | [] \<Rightarrow> [[a]])"

lemma crlf_split_line [simp]:
  "13 \<notin> set l \<Longrightarrow> crlf_split (l @ CRLF @ rest) = l # crlf_split rest"
proof (induction l)
  case (Cons a l)
  then obtain b bs where "l @ CRLF @ rest = b # bs" by (cases l) (auto simp: CRLF_def)
  then show ?case using Cons by auto
qed (simp add: CRLF_def)

lemma crlf_split_lines:
  "(\<And>l. l \<in> set ls \<Longrightarrow> 13 \<notin> set l) \<Longrightarrow>
     crlf_split (concat (map (\<lambda>l. l @ CRLF) ls) @ rest) = ls @ crlf_split rest"
  by (induction ls) simp_all

lemma str_bytes_CRLF [simp]: "str_bytes CRLF_text = CRLF"
  by (simp add: CRLF_text_def CRLF_def str_bytes_def)

lemma CR_str_bytes: "13 \<in> set (str_bytes s) \<longleftrightarrow> CR \<in> set s"
proof -
  have "(of_nat (code c) :: u8) = 13 \<longleftrightarrow> c = CR" for c :: char
    using code_inject [of c CR] by (simp add: word_unat_eq_iff)
  then show ?thesis by (auto simp: str_bytes_def image_iff)
qed

definition named :: "string \<Rightarrow> (string \<times> bytes) list \<Rightarrow> (string \<times> bytes) list" where
  "named name fs = filter (\<lambda>(n, v). to_ascii_lowercase n = name) fs"

lemma named_simps [simp]:
  "named x [] = []" "named x (f # fs) = (if to_ascii_lowercase (fst f) = x then f # named x fs else named x fs)"
  "named x (fs @ gs) = named x fs @ named x gs"
  by (auto simp: named_def)

section \<open>What the scan of the fields establishes\<close>

definition scan_rel :: "(string \<times> bytes) list \<Rightarrow> scan \<Rightarrow> scan \<Rightarrow> bool" where
  "scan_rel hs s s' \<longleftrightarrow> named ''upgrade'' hs = []
     \<and> map (\<lambda>(n, v). to_ascii_lowercase (bytes_str v)) (named ''transfer-encoding'' hs)
         = (if sc_chunked s' \<and> \<not> sc_chunked s then [''chunked''] else [])
     \<and> (sc_chunked s \<longrightarrow> sc_chunked s')
     \<and> (pred_option (\<lambda>n. n \<le> BODY_MAX) (sc_length s) \<longrightarrow> pred_option (\<lambda>n. n \<le> BODY_MAX) (sc_length s'))
     \<and> (list_all (\<lambda>x. x \<notin> set framing_names) (sc_connection s) \<longrightarrow>
          list_all (\<lambda>x. x \<notin> set framing_names) (sc_connection s'))"

lemma connection_option_Ok: "connection_option x = Ok y \<Longrightarrow> y \<notin> set framing_names"
  by (auto simp: connection_option_def Let_def split: if_splits)

lemma scan_field_rel:
  assumes "scan_field connect ver t d h s = Ok s'" shows "scan_rel [h] s s'"
proof -
  obtain n v where h: "h = (n, v)" by fastforce
  note defs = scan_field_def h Let_def scan_rel_def
  consider "to_ascii_lowercase n = ''transfer-encoding''" | "to_ascii_lowercase n = ''connection''"
    | "to_ascii_lowercase n \<notin> {''transfer-encoding'', ''connection''}" by blast
  then show ?thesis
  proof cases
    case 1
    then show ?thesis using assms
      by (auto simp: defs PROBE_HEADER_def scan_encoding_def eq_ignore_ascii_case_def to_ascii_lowercase_def lower_char_def
          is_ascii_upper_def split: if_splits)
  next
    case 2
    then obtain x ts where ts: "list_all2 (\<lambda>x y. connection_option x = Ok y) x ts"
      "s' = s\<lparr>sc_connection := sc_connection s @ ts\<rparr>"
      using assms by (auto simp: scan_field_def h Let_def PROBE_HEADER_def scan_connection_def result_simps)
    have "list_all (\<lambda>x. x \<notin> set framing_names) ts"
      using ts(1) by (induction rule: list_all2_induct) (auto dest: connection_option_Ok)
    then show ?thesis using 2 ts(2) by (auto simp: scan_rel_def h)
  next
    case 3
    then show ?thesis using assms
      by (auto simp: defs PROBE_HEADER_def scan_probe_def scan_expect_def scan_trailer_def scan_host_def scan_length_def result_simps
          split: if_splits)
  qed
qed

lemma scan_rel_trans: "scan_rel hs s s1 \<Longrightarrow> scan_rel gs s1 s2 \<Longrightarrow> scan_rel (hs @ gs) s s2"
  unfolding scan_rel_def named_simps map_append
  by (cases "sc_chunked s"; cases "sc_chunked s1"; cases "sc_chunked s2") simp_all

lemma scan_fields_rel: "scan_fields connect ver t d hs s = Ok s' \<Longrightarrow> scan_rel hs s s'"
proof (induction hs arbitrary: s)
  case (Cons h hs)
  then obtain s1 where "scan_field connect ver t d h s = Ok s1" "scan_fields connect ver t d hs s1 = Ok s'"
    by (auto simp: result_simps)
  then show ?case using scan_rel_trans [of "[h]" s s1 hs s'] scan_field_rel Cons.IH by simp
qed (simp add: scan_rel_def)

section \<open>The lines of the head sent upstream\<close>

text \<open>What the parser guarantees of a head it accepts.\<close>

definition head_ok :: "parsed_head \<Rightarrow> bool" where
  "head_ok p \<longleftrightarrow> pred_option (list_all is_token_char) (hp_method p)
     \<and> list_all (\<lambda>(n, v). list_all is_token_char n \<and> 10 \<notin> set v \<and> 13 \<notin> set v) (hp_headers p)"

lemma named_kept:
  "named x (kept_fields connection hs) = (if x \<in> set dropped_names \<or> x \<in> set connection then [] else named x hs)"
  by (induction hs) (auto simp: kept_fields_def)

definition sent_fields :: "target \<Rightarrow> scan \<Rightarrow> (string \<times> bytes) list \<Rightarrow> (string \<times> bytes) list" where
  "sent_fields t s hs = (''Host'', str_bytes (host_text t @ '':'' @ dec (unat (t_port t))))
     # kept_fields (sc_connection s) hs
     @ (case sc_length s of None \<Rightarrow> [] | Some n \<Rightarrow> [(''Content-Length'', str_bytes (dec n))])
     @ [(''Connection'', str_bytes ''close'')]"

lemma forward_head_lines:
  "forward_head meth origin t s hs =
     concat (map (\<lambda>l. l @ CRLF) (str_bytes (meth @ '' '' @ origin @ '' HTTP/1.1'') # map field_line (sent_fields t s hs)))
     @ CRLF"
proof -
  have f: "field_line (n, v) = str_bytes n @ str_bytes '': '' @ v" for n v by (simp add: field_line_def)
  show ?thesis
    by (simp add: forward_head_def sent_fields_def f str_bytes_simps comp_def split: option.splits)
qed

lemma is_token_char_CR: "\<not> is_token_char CR"
  by (simp add: is_token_char_def is_ascii_alphanumeric_def is_ascii_digit_def is_ascii_lower_def is_ascii_upper_def)

lemma CR_notin_dec: "CR \<notin> set (dec n)"
  using dec_digits [of n] by (auto simp: list_all_iff is_ascii_digit_def dest!: bspec)

lemma CR_notin_token: "list_all is_token_char m \<Longrightarrow> CR \<notin> set m"
  using is_token_char_CR by (auto simp: list_all_iff)

lemma CR_notin_path: "path_bytes_ok q \<Longrightarrow> CR \<notin> set q"
  by (auto simp: path_bytes_ok_def list_all_iff dest!: bspec)

lemmas CR_notin = CR_notin_dec CR_notin_token CR_notin_path

lemma CR_notin_host: "target_new h p = Ok t \<Longrightarrow> CR \<notin> set (host_text t)"
  using target_host_chars [of h p t] not_host_char by (auto simp: host_text_def list_all_iff)

lemma crlf_split_forward_head:
  assumes "head_ok p" "hp_method p = Some meth" "CR \<notin> set origin" "target_new h port = Ok t"
  shows "crlf_split (forward_head meth origin t s (hp_headers p)) =
     str_bytes (meth @ '' '' @ origin @ '' HTTP/1.1'') # map field_line (sent_fields t s (hp_headers p)) @ [[], []]"
proof -
  have kept: "13 \<notin> set (field_line x)" if "x \<in> set (kept_fields c (hp_headers p))" for x c
  proof -
    obtain n v where x: "x = (n, v)" by fastforce
    then have "list_all is_token_char n" "13 \<notin> set v"
      using that assms(1) by (auto simp: kept_fields_def head_ok_def list_all_iff)
    then show ?thesis by (auto simp: x field_line_def str_bytes_simps CR_str_bytes CR_notin)
  qed
  have "13 \<notin> set l" if "l \<in> set (str_bytes (meth @ '' '' @ origin @ '' HTTP/1.1'') # map field_line (sent_fields t s (hp_headers p)))" for l
    using that assms(1-3) kept CR_notin_host [OF assms(4)]
    by (auto simp: head_ok_def sent_fields_def field_line_def CR_str_bytes str_bytes_simps CR_notin split: option.splits)
  then show ?thesis unfolding forward_head_lines
    by (subst crlf_split_lines) (auto simp: CRLF_def)
qed

lemma authority_new: "authority v d = Ok t \<Longrightarrow> \<exists>h p. target_new h p = Ok t"
  by (cases "authority_parts v d") (auto simp: authority_def split: result.splits prod.splits)

lemma request_target_Ok:
  assumes "request_target connect path hs = Ok (t, origin)" "path_bytes_ok path"
  shows "CR \<notin> set origin \<and> (\<exists>h p. target_new h p = Ok t)"
proof -
  have q: "CR \<notin> set path" using assms(2) by (rule CR_notin)
  have "CR \<notin> set (url_origin (drop n u))" if "path = x @ u" for u n x
    using q that set_drop_subset [of n u] by (auto simp: url_origin_def)
  then show ?thesis using assms(1) q
    by (auto simp: request_target_def result_simps strip_prefix_Some_iff split: if_splits option.splits dest!: authority_new)
qed

lemma http_request_forwardE:
  assumes "http_request_of p = Ok r" "hr_forward r = Some f"
  obtains meth origin s h port where "hp_method p = Some meth" "CR \<notin> set origin" "target_new h port = Ok (hr_target r)"
    "f_header f = forward_head meth origin (hr_target r) s (hp_headers p)" "scan_rel (hp_headers p) scan_start s"
    "f_chunked f = sc_chunked s" "f_length f = (case sc_length s of Some n \<Rightarrow> n | None \<Rightarrow> 0)"
    "\<not> (sc_chunked s \<and> sc_length s \<noteq> None)"
  using assms
  by (auto simp: http_request_of_def result_simps Let_def check_scan_def split: if_splits prod.splits
      dest!: request_target_Ok scan_fields_rel)

lemma forward_framing:
  assumes "head_ok p" "http_request_of p = Ok r" "hr_forward r = Some f"
  shows "\<exists>meth origin fs host. hp_method p = Some meth
     \<and> crlf_split (f_header f) = str_bytes (meth @ '' '' @ origin @ '' HTTP/1.1'') # map field_line fs @ [[], []]
     \<and> named ''host'' fs = [(''Host'', str_bytes host)] \<and> authority host None = Ok (hr_target r)
     \<and> map (\<lambda>(n, v). to_ascii_lowercase (bytes_str v)) (named ''transfer-encoding'' fs)
         = (if f_chunked f then [''chunked''] else [])
     \<and> named ''content-length'' fs \<in> {[], [(''Content-Length'', str_bytes (dec (f_length f)))]}
     \<and> (f_chunked f \<longrightarrow> named ''content-length'' fs = [])
     \<and> (named ''content-length'' fs = [] \<longrightarrow> f_length f = 0) \<and> f_length f \<le> BODY_MAX
     \<and> named ''connection'' fs = [(''Connection'', str_bytes ''close'')]
     \<and> list_all (\<lambda>n. named n fs = []) [''proxy-authorization'', ''proxy-connection'', PROBE_HEADER, ''keep-alive'', ''te'', ''upgrade'']"
proof -
  obtain meth origin s h port where m: "hp_method p = Some meth" and o: "CR \<notin> set origin"
    and t: "target_new h port = Ok (hr_target r)"
    and head: "f_header f = forward_head meth origin (hr_target r) s (hp_headers p)"
    and rel: "scan_rel (hp_headers p) scan_start s" and c: "f_chunked f = sc_chunked s"
    and l: "f_length f = (case sc_length s of Some n \<Rightarrow> n | None \<Rightarrow> 0)" "\<not> (sc_chunked s \<and> sc_length s \<noteq> None)"
    using http_request_forwardE [OF assms(2,3)] by metis
  let ?fs = "sent_fields (hr_target r) s (hp_headers p)"
  let ?host = "host_text (hr_target r) @ '':'' @ dec (unat (t_port (hr_target r)))"
  have low: "to_ascii_lowercase ''Host'' = ''host''" "to_ascii_lowercase ''Content-Length'' = ''content-length''"
    "to_ascii_lowercase ''Connection'' = ''connection''" by code_simp+
  have te: "''transfer-encoding'' \<notin> set (sc_connection s)" "''transfer-encoding'' \<notin> set dropped_names"
    "''upgrade'' \<notin> set dropped_names"
    using rel by (auto simp: scan_rel_def scan_start_def framing_names_def dropped_names_def PROBE_HEADER_def list_all_iff)
  have dropped: "x \<in> set dropped_names \<Longrightarrow> named x (kept_fields (sc_connection s) (hp_headers p)) = []" for x
    by (simp add: named_kept)
  have up: "named ''upgrade'' (kept_fields (sc_connection s) (hp_headers p)) = []" using rel by (simp add: named_kept scan_rel_def)
  note sent = sent_fields_def low dropped [unfolded dropped_names_def] up
  have "crlf_split (f_header f) = str_bytes (meth @ '' '' @ origin @ '' HTTP/1.1'') # map field_line ?fs @ [[], []]"
    unfolding head by (rule crlf_split_forward_head [OF assms(1) m o t])
  moreover have "named ''host'' ?fs = [(''Host'', str_bytes ?host)]" by (simp add: sent split: option.splits)
  moreover have "authority ?host None = Ok (hr_target r)" by (rule authority_host_text [OF t])
  moreover have "named ''transfer-encoding'' ?fs = named ''transfer-encoding'' (hp_headers p)"
    using te by (simp add: sent named_kept split: option.splits)
  moreover have "named ''content-length'' ?fs = (case sc_length s of None \<Rightarrow> [] | Some n \<Rightarrow> [(''Content-Length'', str_bytes (dec n))])"
    by (simp add: sent split: option.splits)
  moreover have "named ''connection'' ?fs = [(''Connection'', str_bytes ''close'')]" by (simp add: sent split: option.splits)
  moreover have "list_all (\<lambda>n. named n ?fs = []) [''proxy-authorization'', ''proxy-connection'', PROBE_HEADER, ''keep-alive'', ''te'', ''upgrade'']"
    by (simp add: sent PROBE_HEADER_def split: option.splits)
  moreover have "map (\<lambda>(n, v). to_ascii_lowercase (bytes_str v)) (named ''transfer-encoding'' (hp_headers p))
         = (if f_chunked f then [''chunked''] else [])" "f_length f \<le> BODY_MAX"
    using rel c l by (simp_all add: scan_rel_def scan_start_def split: option.splits)
  ultimately show ?thesis using m l c
    by (intro exI [of _ meth] exI [of _ origin] exI [of _ ?fs] exI [of _ ?host]) (auto split: option.splits)
qed

section \<open>Properties\<close>


definition demo_head :: parsed_head where
  "demo_head = \<lparr>hp_method = Some ''POST'', hp_path = Some ''http://zc.io/x'', hp_version = Some 1,
     hp_headers = [(''Host'', str_bytes ''zc.io''), (''Proxy-Authorization'', str_bytes ''secret''),
       (''Content-Length'', str_bytes ''5''), (''X-Probe'', str_bytes ''1''), (''Connection'', str_bytes ''x-probe'')]\<rparr>"

lemma demo_head_ok: "head_ok demo_head"
  by (simp add: head_ok_def demo_head_def is_token_char_def is_ascii_alphanumeric_def is_ascii_digit_def is_ascii_lower_def
      is_ascii_upper_def str_bytes_def)

lemma demo_authority: "authority ''zc.io'' (Some 80) = Ok \<lparr>t_host = ''zc.io'', t_port = 80\<rparr>"
proof -
  have "dns_name ''zc.io''" by code_simp
  then show ?thesis by (simp add: authority_def authority_parts_def target_new_def)
qed

lemma demo_target_of: "request_target False ''http://zc.io/x'' hs = Ok (\<lparr>t_host = ''zc.io'', t_port = 80\<rparr>, ''/x'')"
  by (simp add: request_target_def url_end_def url_origin_def demo_authority)

lemma demo_texts: "is_str ''zc.io''" "is_str ''5''" "is_str ''x-probe''"
  by (simp_all add: is_str_def)

lemma demo_scan:
  "scan_fields False (Some 1) \<lparr>t_host = ''zc.io'', t_port = 80\<rparr> 80 (hp_headers demo_head) scan_start
   = Ok \<lparr>sc_length = Some 5, sc_chunked = False, sc_expect = False, sc_trailers = False, sc_host = True,
       sc_probe = None, sc_connection = [''x-probe'']\<rparr>"
proof -
  have low: "to_ascii_lowercase ''Host'' = ''host''" "to_ascii_lowercase ''Proxy-Authorization'' = ''proxy-authorization''"
    "to_ascii_lowercase ''Content-Length'' = ''content-length''" "to_ascii_lowercase ''X-Probe'' = ''x-probe''"
    "to_ascii_lowercase ''Connection'' = ''connection''" "to_ascii_lowercase ''x-probe'' = ''x-probe''"
    by code_simp+
  have trim: "trim_matches is_space_tab ''zc.io'' = ''zc.io''" "trim_matches is_space_tab ''5'' = ''5''"
    "trim_matches is_space_tab ''x-probe'' = ''x-probe''" by code_simp+
  have "dec 5 = ''5''" by (simp add: dec.simps)
  then have num: "parse_uint 18446744073709551615 ''5'' = Some 5" "is_ascii_digit (CHR ''5'')"
    using parse_uint_dec [of 18446744073709551615 5] by (simp_all add: is_ascii_digit_def)
  have opt: "connection_option ''x-probe'' = Ok ''x-probe''" by code_simp
  have "same_target \<lparr>t_host = ''zc.io'', t_port = 80\<rparr> \<lparr>t_host = ''zc.io'', t_port = 80\<rparr>"
    by (simp add: same_target_def eq_ignore_ascii_case_def split: option.splits)
  then show ?thesis
    by (simp add: demo_head_def scan_field_def Let_def low PROBE_HEADER_def scan_start_def scan_host_def utf8_def demo_texts
        trim demo_authority scan_length_def num BODY_MAX_def scan_connection_def opt)
qed


end
