(* ===== verification/Http_Stream.thy ===== *)
theory Http_Stream
  imports Http_Request
begin

text \<open>
  The streams of a proxied HTTP exchange (\<open>src/src/runtime.rs\<close>): lines and heads of bounded size, bodies by
  length and by chunks, and the relay of a response.  A reader is the list of the buffers that arrive; a
  write succeeds.  The parsers of \<open>httparse\<close> are external (\<open>codec\<close>).

  The lemmas describe the readers on the concatenated stream, so that nothing depends on how the bytes arrive
  in buffers, and show that a relayed body is passed on byte by byte and ends where its framing says.
\<close>

section \<open>Lines and heads\<close>

record codec =
  cd_request :: "bytes \<Rightarrow> parsed_head option"
  cd_response :: "bytes \<Rightarrow> (nat option \<times> (string \<times> bytes) list) option"
  cd_chunk_size :: "bytes \<Rightarrow> (nat \<times> u64) option"
  cd_trailers :: "bytes \<Rightarrow> string list option"

definition MAX_HEADER :: nat where "MAX_HEADER = 16 * 1024"

definition line_count :: "bytes \<Rightarrow> nat" where
  "line_count c = (case position (\<lambda>b. b = 10) c of Some n \<Rightarrow> n + 1 | None \<Rightarrow> length c)"

definition consume :: "nat \<Rightarrow> bytes \<Rightarrow> bytes list \<Rightarrow> bytes list" where
  "consume n c cs = (if n = length c then cs else drop n c # cs)"

text \<open>The loop continues only after a whole buffer without a line feed.\<close>

fun http_line :: "nat \<Rightarrow> bytes \<Rightarrow> bytes list \<Rightarrow> (bytes \<times> bytes list, http_fault) result" where
  "http_line limit line [] = Err UnexpectedEof"
| "http_line limit line (c # cs) =
     (if c = [] then Err UnexpectedEof
      else if limit < length line + line_count c then Err (Bail ''HTTP line exceeds limit'')
      else let l = line @ take (line_count c) c
           in if ends_with [10] l
              then if \<not> ends_with CRLF l \<or> 13 \<in> set (take (length l - 2) l) then Err (Bail ''HTTP requires CRLF'')
                   else Ok (l, consume (line_count c) c cs)
              else http_line limit l cs)"

section \<open>Bodies\<close>

fun take_bytes :: "nat \<Rightarrow> bytes list \<Rightarrow> bytes \<times> bytes list" where
  "take_bytes 0 cs = ([], cs)"
| "take_bytes (Suc n) [] = ([], [])"
| "take_bytes (Suc n) (c # cs) =
     (if c = [] then ([], cs)
      else if Suc n < length c then (take (Suc n) c, drop (Suc n) c # cs)
      else map_prod ((@) c) id (take_bytes (Suc n - length c) cs))"

text \<open>A copy yields what remains of the reader, or the error, and what has been written.\<close>

type_synonym copied = "(bytes list, http_fault) result \<times> bytes"

definition copy_exact :: "nat \<Rightarrow> bytes list \<Rightarrow> copied" where
  "copy_exact n cs = (let (bs, rest) = take_bytes n cs
     in (if length bs = n then Ok rest else Err (FramingTruncated UnexpectedEof), bs))"

definition truncated :: "('a, http_fault) result \<Rightarrow> ('a, http_fault) result" where
  "truncated r = (case r of Ok x \<Rightarrow> Ok x | Err e \<Rightarrow> Err (FramingTruncated e))"

definition is_ascii_hexdigit :: "char \<Rightarrow> bool" where
  "is_ascii_hexdigit c \<longleftrightarrow> to_digit 16 c \<noteq> None"

definition chunk_line_bytes_ok :: "bytes \<Rightarrow> bool" where
  "chunk_line_bytes_ok line \<longleftrightarrow> is_ascii_hexdigit (char_of (unat (hd line)))
     \<and> list_all (\<lambda>b. 32 \<le> b \<and> b \<le> 126) (take (length line - 2) line)"

definition chunk_size :: "codec \<Rightarrow> bytes \<Rightarrow> (nat, http_fault) result" where
  "chunk_size P line =
     (if \<not> chunk_line_bytes_ok line then Err (Bail ''invalid chunk size line'')
      else case cd_chunk_size P line of
          None \<Rightarrow> Err (Bail ''invalid chunk size'')
        | Some (e, sz) \<Rightarrow> if e \<noteq> length line then Err (Bail ''invalid chunk size line'') else Ok (unat sz))"

definition add_size :: "nat \<Rightarrow> nat \<Rightarrow> nat \<Rightarrow> (nat, http_fault) result" where
  "add_size limit tot sz =
     (if 2 ^ 64 \<le> tot + sz then Err (Bail ''HTTP body size overflow'')
      else if limit < tot + sz then Err (Bail ''HTTP body exceeds limit'') else Ok (tot + sz))"

definition copy_data :: "nat \<Rightarrow> bytes list \<Rightarrow> copied" where
  "copy_data sz cs = (case copy_exact sz cs of
       (Err e, out) \<Rightarrow> (Err e, out)
     | (Ok rest, out) \<Rightarrow> (case read_exact 2 rest of
           None \<Rightarrow> (Err (FramingTruncated UnexpectedEof), out)
         | Some (crlf, rest) \<Rightarrow>
             if crlf \<noteq> CRLF then (Err (Bail ''invalid chunk delimiter''), out) else (Ok rest, out @ crlf)))"

definition CHUNK_LIMIT :: nat where "CHUNK_LIMIT = 262144"

section \<open>The lines that are accepted\<close>

definition wire_line :: "nat \<Rightarrow> bytes \<Rightarrow> bool" where
  "wire_line limit l \<longleftrightarrow> length l \<le> limit \<and> (\<exists>body. l = body @ CRLF \<and> 10 \<notin> set body \<and> 13 \<notin> set body)"

lemma wire_line_nonempty: "wire_line limit l \<Longrightarrow> l \<noteq> []"
  by (auto simp: wire_line_def CRLF_def)

lemma position_line_count:
  "10 \<in> set c \<Longrightarrow> \<exists>a b. c = a @ 10 # b \<and> 10 \<notin> set a \<and> line_count c = Suc (length a)"
  "10 \<notin> set c \<Longrightarrow> line_count c = length c"
proof -
  assume "10 \<in> set c"
  then obtain a b where c: "c = a @ 10 # b" "10 \<notin> set a" by (meson split_list_first)
  have "position (\<lambda>b. b = 10) (a @ 10 # b) = Some (length a)" using c(2) by (induction a) auto
  then show "\<exists>a b. c = a @ 10 # b \<and> 10 \<notin> set a \<and> line_count c = Suc (length a)" using c by (auto simp: line_count_def)
next
  assume "10 \<notin> set c"
  then have "position (\<lambda>b. b = 10) c = None" by (auto simp: position_None_iff)
  then show "line_count c = length c" by (simp add: line_count_def)
qed

lemma ends_with_LF: "10 \<notin> set a \<Longrightarrow> ends_with CRLF (a @ [10]) \<longleftrightarrow> (\<exists>b. a = b @ [13])"
  by (auto simp: ends_with_iff CRLF_def)

lemma no_LF_end: "10 \<notin> set l \<Longrightarrow> \<not> ends_with [10 :: u8] l"
  by (auto simp: ends_with_iff)

lemma split_first_unique: "a @ x # b = c @ x # d \<Longrightarrow> x \<notin> set a \<Longrightarrow> x \<notin> set c \<Longrightarrow> a = c \<and> b = d"
proof (induction a arbitrary: c)
  case (Cons y a)
  then show ?case by (cases c) auto
qed (metis append_self_conv2 hd_append2 list.sel(1,3) list.set_sel(1))

lemma http_line_Ok:
  assumes "http_line limit line cs = Ok (l, rest)" "10 \<notin> set line"
  shows "wire_line limit l \<and> line @ concat cs = l @ concat rest \<and> ([] \<notin> set cs \<longrightarrow> [] \<notin> set rest)"
  using assms
proof (induction limit line cs rule: http_line.induct)
  case (2 limit line c cs)
  show ?case
  proof (cases "10 \<in> set c")
    case True
    then obtain a b where c: "c = a @ 10 # b" "10 \<notin> set a" "line_count c = Suc (length a)"
      using position_line_count(1) by blast
    have l: "l = line @ a @ [10]" "ends_with CRLF l" "13 \<notin> set (take (length l - 2) l)" "length l \<le> limit"
        "rest = consume (line_count c) c cs"
      using 2(2) c by (auto simp: Let_def ends_with_single split: if_splits)
    have "10 \<notin> set (line @ a)" using 2(3) c(2) by simp
    then obtain d where "line @ a = d @ [13]" using l(1,2) ends_with_LF [of "line @ a"] by auto
    then have "l = d @ CRLF" "10 \<notin> set d" "13 \<notin> set d" using l \<open>10 \<notin> set (line @ a)\<close>
      by (auto simp: CRLF_def simp flip: append_assoc)
    moreover have "line @ concat (c # cs) = l @ concat rest" using l(1,5) c by (simp add: consume_def)
    moreover have "[] \<notin> set (c # cs) \<longrightarrow> [] \<notin> set rest" using l(5) c by (auto simp: consume_def)
    ultimately show ?thesis using l(4) by (auto simp: wire_line_def)
  next
    case False
    then have n: "line_count c = length c" by (rule position_line_count)
    have ne: "\<not> ends_with [10] (line @ c)"
      using False 2(3) by (intro no_LF_end) simp
    have "c \<noteq> []" "\<not> limit < length line + length c" "http_line limit (line @ c) cs = Ok (l, rest)"
      using 2(2) n ne by (auto simp: Let_def split: if_splits)
    then show ?thesis using 2(1) n ne False 2(3) by simp
  qed
qed simp

text \<open>Every accepted line is read, however it arrives.\<close>

lemma http_line_complete:
  assumes "wire_line limit l" "line @ concat cs = l @ r" "[] \<notin> set cs" "10 \<notin> set line" "length line < length l"
  shows "\<exists>rest. http_line limit line cs = Ok (l, rest) \<and> concat rest = r"
  using assms
proof (induction limit line cs rule: http_line.induct)
  case (1 limit line)
  then show ?case by simp
next
  case (2 limit line c cs)
  obtain d where d: "l = d @ CRLF" "10 \<notin> set d" "13 \<notin> set d" "length l \<le> limit" using 2(2) by (auto simp: wire_line_def)
  have cne: "c \<noteq> []" using 2(4) by auto
  show ?case
  proof (cases "10 \<in> set c")
    case True
    then obtain a b where c: "c = a @ 10 # b" "10 \<notin> set a" "line_count c = Suc (length a)"
      using position_line_count(1) by blast
    have "(line @ a) @ 10 # (b @ concat cs) = (d @ [13]) @ 10 # r" using 2(3) c d by (simp add: CRLF_def)
    moreover have "10 \<notin> set (line @ a)" "10 \<notin> set (d @ [13])" using 2(5) c(2) d(2) by simp_all
    ultimately have e: "line @ a = d @ [13]" "b @ concat cs = r"
      using split_first_unique [of "line @ a" 10 "b @ concat cs" "d @ [13]" r] by auto
    then have "l = line @ a @ [10]" using d(1) by (simp add: CRLF_def)
    moreover have "ends_with [10] (line @ a @ [10])" by (simp add: ends_with_single)
    moreover have "ends_with CRLF (line @ a @ [10])" using e(1) d(1) calculation(1) by (auto simp: ends_with_iff)
    moreover have "take (length l - 2) l = d" using d(1) by (simp add: CRLF_def)
    ultimately have "http_line limit line (c # cs) = Ok (l, consume (line_count c) c cs)"
      using c(1,3) cne d(3,4) by (simp add: Let_def)
    then show ?thesis using c e(2)
      by (intro exI [of _ "consume (line_count c) c cs"]) (auto simp: consume_def simp del: http_line.simps)
  next
    case False
    then have n: "line_count c = length c" by (rule position_line_count)
    have ne: "\<not> ends_with [10] (line @ c)"
      using False 2(5) by (intro no_LF_end) simp
    have nl: "10 \<notin> set (line @ c)" using False 2(5) by simp
    have lt: "length (line @ c) < length l"
    proof (rule ccontr)
      assume "\<not> ?thesis"
      then have "l = take (length l) (line @ c)" using arg_cong [OF 2(3), of "take (length l)"] by simp
      moreover have "10 \<in> set l" using d(1) by (simp add: CRLF_def)
      ultimately have "10 \<in> set (line @ c)" by (metis in_set_takeD)
      then show False using nl by simp
    qed
    then have "\<exists>rest. http_line limit (line @ c) cs = Ok (l, rest) \<and> concat rest = r"
      using 2(1) [OF cne] n ne d(4) 2(2-4) nl by simp
    then show ?thesis using cne n ne lt d(4) by (simp add: Let_def)
  qed
qed

declare http_line.simps [simp del]

section \<open>Heads, chunks and messages\<close>

text \<open>The loop of \<open>http_header\<close>, and that over the trailers of a chunked body.\<close>

function http_header :: "bytes \<Rightarrow> bytes list \<Rightarrow> (bytes \<times> bytes list, http_fault) result" where
  "http_header bs cs = (case http_line (MAX_HEADER - length bs) [] cs of
       Err e \<Rightarrow> Err e
     | Ok (line, rest) \<Rightarrow> if line = CRLF then Ok (bs @ line, rest) else http_header (bs @ line) rest)"
  by pat_completeness auto
termination
  using http_line_Ok wire_line_nonempty
  by (relation "measure (\<lambda>(bs, cs). MAX_HEADER - length bs)") (fastforce simp: wire_line_def CRLF_def)+

definition http_handshake :: "codec \<Rightarrow> bytes list \<Rightarrow> (http_request \<times> bytes list, http_fault) result" where
  "http_handshake P cs = and_then (http_header [] cs) (\<lambda>(bs, rest).
     case cd_request P bs of
       None \<Rightarrow> Err BadHead
     | Some p \<Rightarrow>
         and_then (ok_or (Bail ''missing method'') (hp_method p)) (\<lambda>meth.
         and_then (ok_or (Bail ''missing target'') (hp_path p)) (\<lambda>path.
         and_then (ok_or (Bail ''missing version'') (hp_version p)) (\<lambda>version.
         if \<not> starts_with (str_bytes (meth @ '' '' @ path @ '' HTTP/1.'' @ dec version @ CRLF_text)) bs
         then Err (Bail ''invalid request line'')
         else and_then (http_request_of p) (\<lambda>r. Ok (r, rest))))))"

definition copy_trailers :: "codec \<Rightarrow> bytes \<Rightarrow> bytes list \<Rightarrow> copied" where
  "copy_trailers P line cs = (case truncated (http_header [] cs) of
       Err e \<Rightarrow> (Err e, [])
     | Ok (trailers, rest) \<Rightarrow> (case cd_trailers P trailers of
           None \<Rightarrow> (Err (Bail ''incomplete HTTP trailers''), [])
         | Some names \<Rightarrow> (case validate_trailers names of
               Err e \<Rightarrow> (Err e, [])
             | Ok _ \<Rightarrow> (Ok rest, line @ trailers))))"

definition next_chunk :: "codec \<Rightarrow> nat \<Rightarrow> nat \<Rightarrow> bytes list \<Rightarrow> (bytes \<times> nat \<times> bytes list, http_fault) result" where
  "next_chunk P limit tot cs = and_then (truncated (http_line 4096 [] cs)) (\<lambda>(line, rest).
     and_then (chunk_size P line) (\<lambda>sz. and_then (add_size limit tot sz) (\<lambda>_. Ok (line, sz, rest))))"

fun copy_chunks :: "codec \<Rightarrow> nat \<Rightarrow> nat \<Rightarrow> nat \<Rightarrow> bytes list \<Rightarrow> copied" where
  "copy_chunks P limit 0 tot cs = (Err (Bail ''HTTP chunk count exceeds limit''), [])"
| "copy_chunks P limit (Suc k) tot cs = (case next_chunk P limit tot cs of
       Err e \<Rightarrow> (Err e, [])
     | Ok (line, sz, rest) \<Rightarrow>
         if sz = 0 then copy_trailers P line rest
         else (case copy_data sz rest of
             (Err e, out) \<Rightarrow> (Err e, line @ out)
           | (Ok rest, out) \<Rightarrow> map_prod id (\<lambda>more_out. line @ out @ more_out) (copy_chunks P limit k (tot + sz) rest)))"

definition copy_chunked :: "codec \<Rightarrow> nat \<Rightarrow> bytes list \<Rightarrow> copied" where
  "copy_chunked P limit cs = copy_chunks P limit CHUNK_LIMIT 0 cs"

section \<open>What a copy consumes and writes\<close>

text \<open>A block of lines: a head, or the trailers of a body.\<close>

inductive wire_block :: "nat \<Rightarrow> bytes \<Rightarrow> bool" where
  block_end: "wire_line limit CRLF \<Longrightarrow> wire_block limit CRLF"
| block_line: "wire_line limit l \<Longrightarrow> l \<noteq> CRLF \<Longrightarrow> wire_block (limit - length l) b \<Longrightarrow> wire_block limit (l @ b)"

lemma http_header_Ok:
  assumes "http_header bs cs = Ok (h, rest)"
  shows "\<exists>b. h = bs @ b \<and> wire_block (MAX_HEADER - length bs) b \<and> concat cs = b @ concat rest \<and> ([] \<notin> set cs \<longrightarrow> [] \<notin> set rest)"
  using assms
proof (induction bs cs rule: http_header.induct)
  case (1 bs cs)
  obtain l r where l: "http_line (MAX_HEADER - length bs) [] cs = Ok (l, r)"
    using 1(2) by (auto simp: http_header.simps [of bs] split: result.splits)
  have w: "wire_line (MAX_HEADER - length bs) l" "concat cs = l @ concat r" "[] \<notin> set cs \<longrightarrow> [] \<notin> set r"
    using http_line_Ok [OF l] by simp_all
  show ?case
  proof (cases "l = CRLF")
    case True
    then have "h = bs @ CRLF" "rest = r" using 1(2) l by (simp_all add: http_header.simps [of bs])
    then show ?thesis using w True block_end by auto
  next
    case False
    then have "http_header (bs @ l) r = Ok (h, rest)" using 1(2) l by (simp add: http_header.simps [of bs])
    then obtain b where "h = bs @ l @ b" "wire_block (MAX_HEADER - length bs - length l) b" "concat r = b @ concat rest"
      "[] \<notin> set r \<longrightarrow> [] \<notin> set rest"
      using 1(1) [OF l refl False] by (auto simp: diff_diff_left)
    then show ?thesis using w False block_line by (intro exI [of _ "l @ b"]) auto
  qed
qed

lemma http_header_complete:
  "wire_block limit b \<Longrightarrow> limit = MAX_HEADER - length bs \<Longrightarrow> concat cs = b @ r \<Longrightarrow> [] \<notin> set cs \<Longrightarrow>
     \<exists>rest. http_header bs cs = Ok (bs @ b, rest) \<and> concat rest = r"
proof (induction arbitrary: bs cs rule: wire_block.induct)
  case (block_end limit)
  then obtain rest where "http_line limit [] cs = Ok (CRLF, rest)" "concat rest = r"
    using http_line_complete [of limit CRLF "[]" cs r] by (auto simp: CRLF_def)
  then show ?case using block_end(2) by (simp add: http_header.simps [of bs])
next
  case (block_line limit l b)
  then obtain r1 where r1: "http_line limit [] cs = Ok (l, r1)" "concat r1 = b @ r"
    using http_line_complete [of limit l "[]" cs "b @ r"] wire_line_nonempty [of limit l] by auto
  then have "[] \<notin> set r1" using http_line_Ok [OF r1(1)] block_line by simp
  then obtain rest where "http_header (bs @ l) r1 = Ok ((bs @ l) @ b, rest)" "concat rest = r"
    using block_line(4) [of "bs @ l" r1] block_line(5) r1(2) by (auto simp: diff_diff_left)
  then show ?case using r1 block_line(2,5) by (simp add: http_header.simps [of bs])
qed

declare http_header.simps [simp del]

lemma take_bytes_eq:
  "[] \<notin> set cs \<Longrightarrow> take_bytes n cs = (bs, rest) \<Longrightarrow> bs = take n (concat cs) \<and> concat rest = drop n (concat cs) \<and> [] \<notin> set rest"
proof (induction n cs arbitrary: bs rest rule: take_bytes.induct)
  case (3 n c cs)
  show ?case
  proof (cases "Suc n < length c")
    case True
    then show ?thesis using 3(2,3) by auto
  next
    case False
    obtain x y where x: "take_bytes (Suc n - length c) cs = (x, y)" by (cases "take_bytes (Suc n - length c) cs")
    then show ?thesis using 3(1) [OF _ False _ x] 3(2,3) False by auto
  qed
qed auto

lemma copy_exact_prefix: "copy_exact n cs = (res, out) \<Longrightarrow> \<exists>r. concat cs = out @ r"
proof -
  have "take_bytes n cs = (bs, rest) \<Longrightarrow> \<exists>r. concat cs = bs @ r" for bs rest
  proof (induction n cs arbitrary: bs rest rule: take_bytes.induct)
    case (3 n c cs)
    have "\<exists>r. c @ concat cs = take (Suc n) c @ r" by (metis append.assoc append_take_drop_id)
    then show ?case using 3 by (cases "take_bytes (Suc n - length c) cs") (auto split: if_splits)
  qed auto
  then show "copy_exact n cs = (res, out) \<Longrightarrow> ?thesis" by (auto simp: copy_exact_def split: prod.splits)
qed

lemma copy_exact_iff:
  assumes "[] \<notin> set cs"
  shows "(\<exists>rest. copy_exact n cs = (Ok rest, out) \<and> concat rest = r) \<longleftrightarrow> concat cs = out @ r \<and> length out = n"
proof -
  obtain bs rest where t: "take_bytes n cs = (bs, rest)" by (cases "take_bytes n cs")
  have "bs = take n (concat cs)" "concat rest = drop n (concat cs)" using take_bytes_eq [OF assms t] by auto
  then have e: "copy_exact n cs = (if n \<le> length (concat cs) then Ok rest else Err (FramingTruncated UnexpectedEof), take n (concat cs))"
    "concat rest = drop n (concat cs)" using t by (auto simp: copy_exact_def)
  show ?thesis
  proof
    assume "concat cs = out @ r \<and> length out = n"
    then show "\<exists>rest. copy_exact n cs = (Ok rest, out) \<and> concat rest = r" using e by auto
  next
    assume "\<exists>rest. copy_exact n cs = (Ok rest, out) \<and> concat rest = r"
    then have "n \<le> length (concat cs)" "out = take n (concat cs)" "r = drop n (concat cs)" using e by (auto split: if_splits)
    then show "concat cs = out @ r \<and> length out = n" by simp
  qed
qed

text \<open>
  The wire format of a chunked body: the number of its size lines, its payload and its bytes.  The external
  parser decides which size line and which trailers are well formed.
\<close>

inductive chunked_wire :: "codec \<Rightarrow> nat \<Rightarrow> bytes \<Rightarrow> bytes \<Rightarrow> bool" for P where
  chunk_last: "wire_line 4096 l \<Longrightarrow> chunk_size P l = Ok 0 \<Longrightarrow> wire_block MAX_HEADER t \<Longrightarrow> cd_trailers P t = Some names \<Longrightarrow>
     validate_trailers names = Ok () \<Longrightarrow> chunked_wire P (Suc 0) [] (l @ t)"
| chunk_more: "wire_line 4096 l \<Longrightarrow> chunk_size P l = Ok (length d) \<Longrightarrow> d \<noteq> [] \<Longrightarrow> chunked_wire P k p w \<Longrightarrow>
     chunked_wire P (Suc k) (d @ p) (l @ d @ CRLF @ w)"

lemma truncated_Ok_iff [simp]: "truncated r = Ok x \<longleftrightarrow> r = Ok x"
  by (auto simp: truncated_def split: result.splits)

lemma add_size_Ok_iff: "add_size limit tot sz = Ok n \<longleftrightarrow> tot + sz < 2 ^ 64 \<and> tot + sz \<le> limit \<and> n = tot + sz"
  by (auto simp: add_size_def)

lemma next_chunk_Ok_iff:
  "next_chunk P limit tot cs = Ok (line, sz, rest) \<longleftrightarrow>
     http_line 4096 [] cs = Ok (line, rest) \<and> chunk_size P line = Ok sz \<and> tot + sz < 2 ^ 64 \<and> tot + sz \<le> limit"
  by (auto simp: next_chunk_def result_simps add_size_Ok_iff)

lemma copy_data_Ok:
  assumes "copy_data n cs = (Ok rest, out)" "[] \<notin> set cs"
  shows "\<exists>d. out = d @ CRLF \<and> length d = n \<and> concat cs = out @ concat rest \<and> [] \<notin> set rest"
proof -
  obtain r d where d: "copy_exact n cs = (Ok r, d)" "read_exact 2 r = Some (CRLF, rest)" "out = d @ CRLF"
    using assms(1) by (auto simp: copy_data_def split: prod.splits result.splits option.splits if_splits)
  have c: "concat cs = d @ concat r" "length d = n" using copy_exact_iff [OF assms(2), of n d "concat r"] d(1) by auto
  have ne: "[] \<notin> set r" using d(1) take_bytes_eq [OF assms(2), of n] by (auto simp: copy_exact_def split: if_splits prod.splits)
  obtain r' where "read_exact 2 r = Some (CRLF, r')" "[] \<notin> set r'"
    using read_exact_complete [OF ne, of CRLF "concat rest" 2] read_exact_SomeD [OF d(2)] by (auto simp: CRLF_def)
  then show ?thesis using d c read_exact_SomeD [OF d(2)] by auto
qed

lemma copy_data_complete:
  assumes "concat cs = d @ CRLF @ r" "[] \<notin> set cs"
  shows "\<exists>rest. copy_data (length d) cs = (Ok rest, d @ CRLF) \<and> concat rest = r"
proof -
  obtain r1 where r1: "copy_exact (length d) cs = (Ok r1, d)" "concat r1 = CRLF @ r"
    using copy_exact_iff [OF assms(2), of "length d" d "CRLF @ r"] assms(1) by auto
  have "[] \<notin> set r1" using r1(1) take_bytes_eq [OF assms(2), of "length d"] by (auto simp: copy_exact_def split: if_splits prod.splits)
  then obtain rest where "read_exact 2 r1 = Some (CRLF, rest)" "concat rest = r"
    using read_exact_complete [of r1 CRLF r 2] r1(2) by (auto simp: CRLF_def)
  then show ?thesis using r1 by (simp add: copy_data_def)
qed

lemma copy_trailers_Ok_iff:
  "copy_trailers P line cs = (Ok rest, out) \<longleftrightarrow>
     (\<exists>t names. http_header [] cs = Ok (t, rest) \<and> cd_trailers P t = Some names \<and> validate_trailers names = Ok () \<and> out = line @ t)"
  by (cases "http_header [] cs") (auto simp: copy_trailers_def truncated_def split: result.splits option.splits prod.splits)

lemma copy_chunks_sound:
  assumes "copy_chunks P limit k tot cs = (Ok rest, out)" "[] \<notin> set cs"
  shows "\<exists>j p. chunked_wire P j p out \<and> j \<le> k \<and> concat cs = out @ concat rest \<and> tot + length p \<le> limit \<and> [] \<notin> set rest"
  using assms
proof (induction P limit k tot cs arbitrary: out rule: copy_chunks.induct)
  case (2 P limit k tot cs)
  obtain l sz r where n: "next_chunk P limit tot cs = Ok (l, sz, r)" using 2(2) by (auto split: result.splits)
  then have l: "http_line 4096 [] cs = Ok (l, r)" "chunk_size P l = Ok sz" "tot + sz \<le> limit" by (auto simp: next_chunk_Ok_iff)
  have w: "wire_line 4096 l" "concat cs = l @ concat r" "[] \<notin> set r" using http_line_Ok [OF l(1)] 2(3) by auto
  show ?case
  proof (cases "sz = 0")
    case True
    then obtain t names where t: "http_header [] r = Ok (t, rest)" "cd_trailers P t = Some names"
      "validate_trailers names = Ok ()" "out = l @ t" using 2(2) n by (auto simp: copy_trailers_Ok_iff)
    have h: "wire_block MAX_HEADER t" "concat r = t @ concat rest" "[] \<notin> set rest"
      using http_header_Ok [OF t(1)] w(3) by auto
    have "chunked_wire P (Suc 0) [] out" unfolding t(4) using l(2) True by (intro chunk_last [OF w(1) _ h(1) t(2,3)]) simp
    then show ?thesis using w h t(4) l(3) True by (intro exI [of _ "Suc 0"] exI [of _ "[]"]) auto
  next
    case False
    then obtain r1 o1 o2 where d: "copy_data sz r = (Ok r1, o1)" "copy_chunks P limit k (tot + sz) r1 = (Ok rest, o2)" "out = l @ o1 @ o2"
      using 2(2) n by (auto simp: map_prod_def split: prod.splits result.splits)
    obtain dat where o1: "o1 = dat @ CRLF" "length dat = sz" "concat r = o1 @ concat r1" "[] \<notin> set r1"
      using copy_data_Ok [OF d(1) w(3)] by auto
    obtain j p where j: "chunked_wire P j p o2" "j \<le> k" "concat r1 = o2 @ concat rest" "tot + sz + length p \<le> limit" "[] \<notin> set rest"
      using 2(1) [OF n refl refl False d(1) [symmetric] refl d(2) o1(4)] by auto
    have "chunked_wire P (Suc j) (dat @ p) out" unfolding d(3) o1(1) append_assoc
      using l(2) o1(2) False by (intro chunk_more [OF w(1) _ _ j(1)]) auto
    then show ?thesis using w o1 j d(3) by (intro exI [of _ "Suc j"] exI [of _ "dat @ p"]) auto
  qed
qed simp

lemma copy_chunks_complete:
  "chunked_wire P j p w \<Longrightarrow> j \<le> k \<Longrightarrow> tot + length p \<le> limit \<Longrightarrow> limit < 2 ^ 64 \<Longrightarrow> concat cs = w @ r \<Longrightarrow> [] \<notin> set cs \<Longrightarrow>
     \<exists>rest. copy_chunks P limit k tot cs = (Ok rest, w) \<and> concat rest = r"
proof (induction arbitrary: k tot cs rule: chunked_wire.induct)
  case (chunk_last l t names)
  obtain k' where k: "k = Suc k'" using chunk_last(6) by (cases k) auto
  obtain r1 where r1: "http_line 4096 [] cs = Ok (l, r1)" "concat r1 = t @ r"
    using http_line_complete [OF chunk_last(1), of "[]" cs "t @ r"] chunk_last wire_line_nonempty by auto
  have "[] \<notin> set r1" using http_line_Ok [OF r1(1)] chunk_last by simp
  then obtain rest where "http_header [] r1 = Ok (t, rest)" "concat rest = r"
    using http_header_complete [OF chunk_last(3), of "[]" r1 r] r1(2) by auto
  moreover have "next_chunk P limit tot cs = Ok (l, 0, r1)" using r1 chunk_last by (simp add: next_chunk_Ok_iff)
  ultimately show ?case using chunk_last(4,5) k by (auto simp: copy_trailers_Ok_iff)
next
  case (chunk_more l d j p w)
  obtain k' where k: "k = Suc k'" "j \<le> k'" using chunk_more(6) by (cases k) auto
  obtain r1 where r1: "http_line 4096 [] cs = Ok (l, r1)" "concat r1 = d @ CRLF @ w @ r"
    using http_line_complete [OF chunk_more(1), of "[]" cs "d @ CRLF @ w @ r"] chunk_more wire_line_nonempty by auto
  have ne: "[] \<notin> set r1" using http_line_Ok [OF r1(1)] chunk_more by simp
  obtain r2 where r2: "copy_data (length d) r1 = (Ok r2, d @ CRLF)" "concat r2 = w @ r"
    using copy_data_complete [OF r1(2) ne] by auto
  have "[] \<notin> set r2" using copy_data_Ok [OF r2(1) ne] by auto
  then obtain rest where "copy_chunks P limit k' (tot + length d) r2 = (Ok rest, w)" "concat rest = r"
    using chunk_more(5) [OF k(2), of "tot + length d" r2] chunk_more(7,8) r2(2) by auto
  moreover have "next_chunk P limit tot cs = Ok (l, length d, r1)" using r1 chunk_more by (simp add: next_chunk_Ok_iff)
  ultimately show ?case using r2(1) k chunk_more(3) by auto
qed

text \<open>Also a copy that fails has written only what it read.\<close>

lemma copy_chunks_prefix:
  assumes "copy_chunks P limit k tot cs = (res, out)" "[] \<notin> set cs"
  shows "\<exists>r. concat cs = out @ r"
  using assms
proof (induction P limit k tot cs arbitrary: out res rule: copy_chunks.induct)
  case (2 P limit k tot cs)
  show ?case
  proof (cases "next_chunk P limit tot cs")
    case (Ok x)
    then obtain l sz r where n: "next_chunk P limit tot cs = Ok (l, sz, r)" by (cases x) auto
    then have "http_line 4096 [] cs = Ok (l, r)" by (simp add: next_chunk_Ok_iff)
    then have w: "concat cs = l @ concat r" "[] \<notin> set r" using http_line_Ok 2(3) by fastforce+
    show ?thesis
    proof (cases "sz = 0")
      case True
      then have "out = [] \<or> (\<exists>t rest. out = l @ t \<and> http_header [] r = Ok (t, rest))"
        using 2(2) n by (cases "http_header [] r") (auto simp: copy_trailers_def truncated_def split: result.splits option.splits)
      then show ?thesis using w http_header_Ok by fastforce
    next
      case False
      obtain res1 o1 where d: "copy_data sz r = (res1, o1)" by (cases "copy_data sz r")
      show ?thesis
      proof (cases res1)
        case (Ok r1)
        obtain res2 o2 where c: "copy_chunks P limit k (tot + sz) r1 = (res2, o2)" by (cases "copy_chunks P limit k (tot + sz) r1")
        have o1: "concat r = o1 @ concat r1" "[] \<notin> set r1" using copy_data_Ok [OF d [unfolded Ok] w(2)] by auto
        have "\<exists>r'. concat r1 = o2 @ r'"
          using 2(1) [OF n refl refl False d [unfolded Ok, symmetric] refl c o1(2)] .
        moreover have "out = l @ o1 @ o2" using 2(2) n False d Ok c by simp
        ultimately show ?thesis using w o1 by auto
      next
        case (Err e)
        then have "out = l @ o1" using 2(2) n False d by simp
        moreover have "\<exists>r'. concat r = o1 @ r'"
          using d Err copy_exact_prefix by (auto simp: copy_data_def split: prod.splits result.splits option.splits if_splits)
        ultimately show ?thesis using w by auto
      qed
    qed
  qed (use 2(2) in simp)
qed simp

section \<open>The response\<close>

record response_scan =
  rp_length :: "nat option"
  rp_chunked :: bool
  rp_connection :: "string list"

definition response_option :: "string \<Rightarrow> (string, http_fault) result" where
  "response_option raw_token =
     (let token = to_ascii_lowercase (trim raw_token)
      in if token \<in> {''content-length'', ''transfer-encoding''} then Err (Bail ''response Connection conflicts with framing'')
         else Ok token)"

definition response_field :: "string \<times> bytes \<Rightarrow> response_scan \<Rightarrow> (response_scan, http_fault) result" where
  "response_field = (\<lambda>(n, v) s.
     if eq_ignore_ascii_case n ''content-length''
     then and_then (utf8 v) (\<lambda>value.
       let digits = trim_matches is_space_tab value
       in if rp_length s \<noteq> None \<or> digits = [] \<or> \<not> list_all is_ascii_digit digits
          then Err (Bail ''invalid response Content-Length'')
          else and_then (ok_or NotANumber (parse_uint (2 ^ 64 - 1) digits)) (\<lambda>c. Ok (s\<lparr>rp_length := Some c\<rparr>)))
     else if eq_ignore_ascii_case n ''transfer-encoding''
     then if rp_chunked s \<or> \<not> eq_ignore_ascii_case (bytes_str v) ''chunked''
          then Err (Bail ''unsupported response Transfer-Encoding'') else Ok (s\<lparr>rp_chunked := True\<rparr>)
     else if eq_ignore_ascii_case n ''connection''
     then and_then (utf8 v) (\<lambda>value. and_then (result_map response_option (split_char (CHR '','') value)) (\<lambda>tokens.
       Ok (s\<lparr>rp_connection := rp_connection s @ tokens\<rparr>)))
     else Ok s)"

fun response_fields :: "(string \<times> bytes) list \<Rightarrow> response_scan \<Rightarrow> (response_scan, http_fault) result" where
  "response_fields [] s = Ok s"
| "response_fields (h # hs) s = and_then (response_field h s) (response_fields hs)"

text \<open>One head from upstream: its bytes, status, framing, fields, and what follows.\<close>

definition read_response ::
  "codec \<Rightarrow> bytes list \<Rightarrow> (bytes \<times> nat \<times> response_scan \<times> (string \<times> bytes) list \<times> bytes list, http_fault) result" where
  "read_response P cs = and_then (truncated (http_header [] cs)) (\<lambda>(bs, rest).
     case cd_response P bs of
       None \<Rightarrow> Err BadHead
     | Some (st, hs) \<Rightarrow>
         if \<not> starts_with (str_bytes ''HTTP/1.'') bs then Err (Bail ''invalid HTTP response'')
         else and_then (ok_or (Bail ''missing HTTP status'') st) (\<lambda>status.
           and_then (response_fields hs \<lparr>rp_length = None, rp_chunked = False, rp_connection = []\<rparr>) (\<lambda>s.
           if rp_length s \<noteq> None \<and> rp_chunked s then Err (Bail ''conflicting response framing'')
           else if status = 101 then Err (Bail ''HTTP upgrade is unsupported'')
           else Ok (bs, status, s, hs, rest))))"

definition response_kept :: "response_scan \<Rightarrow> (string \<times> bytes) list \<Rightarrow> (string \<times> bytes) list" where
  "response_kept s hs = filter (\<lambda>(n, v). \<not> (to_ascii_lowercase n \<in> {''connection'', ''keep-alive'', ''proxy-connection''}
     \<or> to_ascii_lowercase n \<in> set (rp_connection s))) hs"

definition persistent_head :: "bytes \<Rightarrow> response_scan \<Rightarrow> (string \<times> bytes) list \<Rightarrow> (bytes, http_fault) result" where
  "persistent_head bs s hs = and_then (ok_or (Bail ''missing response line'') (find_sub CRLF bs)) (\<lambda>line_end.
     Ok (take (line_end + 2) bs @ concat (map (\<lambda>h. field_line h @ CRLF) (response_kept s hs))
         @ str_bytes (''Connection: keep-alive'' @ CRLF_text @ CRLF_text)))"

fun copy_all :: "bytes list \<Rightarrow> bytes" where
  "copy_all [] = []"
| "copy_all (c # cs) = (if c = [] then [] else c @ copy_all cs)"

definition response_body :: "codec \<Rightarrow> bool \<Rightarrow> response_scan \<Rightarrow> bytes list \<Rightarrow> copied" where
  "response_body P no_body s cs =
     (if no_body then (Ok cs, [])
      else if rp_chunked s then copy_chunked P (2 ^ 64 - 1) cs
      else case rp_length s of Some n \<Rightarrow> copy_exact n cs | None \<Rightarrow> (Ok [], copy_all cs))"

definition final_response ::
  "codec \<Rightarrow> forward \<Rightarrow> bytes \<Rightarrow> nat \<Rightarrow> response_scan \<Rightarrow> (string \<times> bytes) list \<Rightarrow> bytes list \<Rightarrow> (bool, http_fault) result \<times> bytes" where
  "final_response P f bs status s hs rest =
     (let no_body = (f_head f \<or> status = 204 \<or> status = 304);
          persistent = (f_keep_alive f \<and> (no_body \<or> rp_length s \<noteq> None \<or> rp_chunked s))
      in case (if persistent then persistent_head bs s hs else Ok bs) of
           Err e \<Rightarrow> (Err e, [])
         | Ok head \<Rightarrow> (case response_body P no_body s rest of
               (Err e, out) \<Rightarrow> (Err e, head @ out)
             | (Ok _, out) \<Rightarrow> (Ok persistent, head @ out)))"

fun relay_responses :: "codec \<Rightarrow> forward \<Rightarrow> nat \<Rightarrow> bytes list \<Rightarrow> (bool, http_fault) result \<times> bytes" where
  "relay_responses P f 0 cs = (Err (Bail ''too many interim HTTP responses''), [])"
| "relay_responses P f (Suc k) cs = (case read_response P cs of
       Err e \<Rightarrow> (Err e, [])
     | Ok (bs, status, s, hs, rest) \<Rightarrow>
         if status < 200 then map_prod id (\<lambda>out. bs @ out) (relay_responses P f k rest)
         else final_response P f bs status s hs rest)"

definition forward_response :: "codec \<Rightarrow> forward \<Rightarrow> bytes list \<Rightarrow> (bool, http_fault) result \<times> bytes" where
  "forward_response P f cs = relay_responses P f 16 cs"

section \<open>One exchange\<close>

text \<open>
  \<open>forward_http\<close> races the upload of the request against the download of the response and against the end of
  the whole upstream transport, and against idleness; \<open>race\<close> says which of the branches of its \<open>select!\<close> runs.
\<close>

datatype race = WholeClosed | UploadFirst | DownloadFirst | IdleFirst

definition upload :: "codec \<Rightarrow> forward \<Rightarrow> bytes list \<Rightarrow> copied" where
  "upload P f client = map_prod id (\<lambda>out. f_header f @ out)
     (if f_chunked f then copy_chunked P BODY_MAX client else copy_exact (f_length f) client)"

definition forward_http :: "codec \<Rightarrow> forward \<Rightarrow> race \<Rightarrow> bytes list \<Rightarrow> bytes list \<Rightarrow> (bool \<times> bytes list, http_fault) result" where
  "forward_http P f r client upstream = (case r of
       IdleFirst \<Rightarrow> Err (Bail ''idle expired'')
     | WholeClosed \<Rightarrow> and_then (fst (forward_response P f upstream)) (\<lambda>_. Ok (False, []))
     | UploadFirst \<Rightarrow> and_then (fst (upload P f client)) (\<lambda>rest.
         and_then (fst (forward_response P f upstream)) (\<lambda>persistent. Ok (persistent, rest)))
     | DownloadFirst \<Rightarrow> and_then (fst (forward_response P f upstream)) (\<lambda>_. Ok (False, [])))"

section \<open>What an exchange consumes\<close>

lemma copy_chunked_iff:
  assumes "[] \<notin> set cs" "limit < 2 ^ 64"
  shows "(\<exists>rest. copy_chunked P limit cs = (Ok rest, out) \<and> concat rest = r) \<longleftrightarrow>
     concat cs = out @ r \<and> (\<exists>k payload. chunked_wire P k payload out \<and> k \<le> CHUNK_LIMIT \<and> length payload \<le> limit)"
  unfolding copy_chunked_def
  using copy_chunks_sound [of P limit CHUNK_LIMIT 0 cs _ out] copy_chunks_complete [of P _ _ out CHUNK_LIMIT 0 limit cs r] assms
  by fastforce

lemma upload_Ok:
  assumes "upload P f client = (Ok rest, out)" "[] \<notin> set client"
  shows "\<exists>body. concat client = body @ concat rest \<and> out = f_header f @ body
     \<and> (if f_chunked f then \<exists>k payload. chunked_wire P k payload body \<and> length payload \<le> BODY_MAX else length body = f_length f)"
proof (cases "f_chunked f")
  case True
  then obtain body where b: "copy_chunked P BODY_MAX client = (Ok rest, body)" "out = f_header f @ body"
    using assms(1) by (auto simp: upload_def map_prod_def split: prod.splits)
  have "BODY_MAX < 2 ^ 64" by (simp add: BODY_MAX_def)
  then show ?thesis using b True copy_chunked_iff [OF assms(2), of BODY_MAX P body "concat rest"] by auto
next
  case False
  then obtain body where b: "copy_exact (f_length f) client = (Ok rest, body)" "out = f_header f @ body"
    using assms(1) by (auto simp: upload_def map_prod_def split: prod.splits)
  then show ?thesis using False copy_exact_iff [OF assms(2), of "f_length f" body "concat rest"] by auto
qed

lemma http_handshake_Ok:
  assumes "http_handshake P cs = Ok (r, rest)"
  shows "\<exists>head. wire_block MAX_HEADER head \<and> concat cs = head @ concat rest \<and> ([] \<notin> set cs \<longrightarrow> [] \<notin> set rest)"
  using assms http_header_Ok [of "[]" cs]
  by (auto simp: http_handshake_def result_simps split: option.splits if_splits)

lemma copy_all_concat: "[] \<notin> set cs \<Longrightarrow> copy_all cs = concat cs"
  by (induction cs) auto

lemma read_response_Ok:
  assumes "read_response P cs = Ok (bs, status, s, hs, rest)" "[] \<notin> set cs"
  shows "wire_block MAX_HEADER bs \<and> concat cs = bs @ concat rest \<and> [] \<notin> set rest \<and> status \<noteq> 101
     \<and> \<not> (rp_length s \<noteq> None \<and> rp_chunked s) \<and> cd_response P bs = Some (Some status, hs)
     \<and> response_fields hs \<lparr>rp_length = None, rp_chunked = False, rp_connection = []\<rparr> = Ok s"
proof -
  obtain x where x: "http_header [] cs = Ok x" using assms(1) by (cases "http_header [] cs") (auto simp: read_response_def truncated_def)
  then obtain y hs1 where y: "cd_response P (fst x) = Some (y, hs1)" "starts_with (str_bytes ''HTTP/1.'') (fst x)"
    using assms(1) by (cases x) (auto simp: read_response_def truncated_def split: option.splits if_splits)
  then obtain n where n: "y = Some n" using assms(1) x by (cases x; cases y) (auto simp: read_response_def truncated_def)
  have "x = (bs, rest) \<and> status \<noteq> 101 \<and> \<not> (rp_length s \<noteq> None \<and> rp_chunked s) \<and> cd_response P bs = Some (Some status, hs)
     \<and> response_fields hs \<lparr>rp_length = None, rp_chunked = False, rp_connection = []\<rparr> = Ok s"
    using assms(1) x y n
    by (cases x; cases "response_fields hs1 \<lparr>rp_length = None, rp_chunked = False, rp_connection = []\<rparr>")
      (auto simp: read_response_def truncated_def split: if_splits)
  then show ?thesis using http_header_Ok [of "[]" cs bs rest] x assms(2) by auto
qed

lemma response_body_Ok:
  assumes "response_body P nb s cs = (Ok rest, body)" "[] \<notin> set cs"
  shows "\<exists>r. concat cs = body @ r \<and>
     (if nb then body = [] else if rp_chunked s then \<exists>k p. chunked_wire P k p body
      else case rp_length s of Some n \<Rightarrow> length body = n | None \<Rightarrow> r = [])"
proof -
  consider "nb" | "\<not> nb" "rp_chunked s" | n where "\<not> nb" "\<not> rp_chunked s" "rp_length s = Some n" | "\<not> nb" "\<not> rp_chunked s" "rp_length s = None"
    by fastforce
  then show ?thesis
  proof cases
    case 2
    then show ?thesis
      using assms copy_chunked_iff [OF assms(2), of "2 ^ 64 - 1" P body "concat rest"] by (auto simp: response_body_def)
  next
    case 3
    then show ?thesis using assms copy_exact_iff [OF assms(2), of n body "concat rest"] by (auto simp: response_body_def)
  qed (use assms copy_all_concat in \<open>auto simp: response_body_def\<close>)
qed

text \<open>
  A head from upstream, the head sent to the client, whether the connection is kept, the body, and what
  follows it: the body ends as the head declares it, and only a body that declares its end keeps the connection.
\<close>

definition response_framed :: "codec \<Rightarrow> forward \<Rightarrow> bytes \<Rightarrow> bytes \<Rightarrow> bool \<Rightarrow> bytes \<Rightarrow> bytes \<Rightarrow> bool" where
  "response_framed P f head sent persistent body r \<longleftrightarrow> (\<exists>status s hs. cd_response P head = Some (Some status, hs)
     \<and> response_fields hs \<lparr>rp_length = None, rp_chunked = False, rp_connection = []\<rparr> = Ok s
     \<and> (persistent \<longrightarrow> f_keep_alive f \<and> persistent_head head s hs = Ok sent) \<and> (\<not> persistent \<longrightarrow> sent = head)
     \<and> (if f_head f \<or> status = 204 \<or> status = 304 then body = []
        else if rp_chunked s then rp_length s = None \<and> (\<exists>k p. chunked_wire P k p body)
        else case rp_length s of Some n \<Rightarrow> length body = n | None \<Rightarrow> \<not> persistent \<and> r = []))"

lemma final_response_Ok:
  assumes "read_response P cs = Ok (bs, status, s, hs, rest)" "[] \<notin> set cs"
    "final_response P f bs status s hs rest = (Ok persistent, out)"
  shows "\<exists>sent body r. concat cs = bs @ body @ r \<and> out = sent @ body \<and> response_framed P f bs sent persistent body r"
proof -
  let ?nb = "f_head f \<or> status = 204 \<or> status = 304"
  note r = read_response_Ok [OF assms(1,2)]
  obtain head body rest' where h: "(if persistent then persistent_head bs s hs else Ok bs) = Ok head"
      "response_body P ?nb s rest = (Ok rest', body)" "out = head @ body"
      "persistent = (f_keep_alive f \<and> (?nb \<or> rp_length s \<noteq> None \<or> rp_chunked s))"
    using assms(3) by (auto simp: final_response_def Let_def split: result.splits prod.splits if_splits)
  obtain r' where b: "concat rest = body @ r'" "if ?nb then body = [] else if rp_chunked s then \<exists>k p. chunked_wire P k p body
      else case rp_length s of Some n \<Rightarrow> length body = n | None \<Rightarrow> r' = []"
    using response_body_Ok [OF h(2)] r by blast
  have "response_framed P f bs head persistent body r'"
    unfolding response_framed_def
    by (intro exI [of _ status] exI [of _ s] exI [of _ hs]) (use r b(2) h(1,4) in \<open>auto split: option.splits if_splits\<close>)
  then show ?thesis using r b(1) h(3) by auto
qed

lemma relay_Ok:
  assumes "relay_responses P f k cs = (Ok persistent, out)" "[] \<notin> set cs"
  shows "\<exists>interim head sent body r. length interim < k \<and> list_all (wire_block MAX_HEADER) (interim @ [head])
     \<and> concat cs = concat interim @ head @ body @ r \<and> out = concat interim @ sent @ body
     \<and> response_framed P f head sent persistent body r"
  using assms
proof (induction P f k cs arbitrary: out rule: relay_responses.induct)
  case (2 P f k cs)
  obtain bs status s hs rest where rr: "read_response P cs = Ok (bs, status, s, hs, rest)"
    using 2(2) by (auto split: result.splits)
  note r = read_response_Ok [OF rr 2(3)]
  show ?case
  proof (cases "status < 200")
    case True
    then obtain o1 where "relay_responses P f k rest = (Ok persistent, o1)" "out = bs @ o1"
      using 2(2) rr by (auto simp: map_prod_def split: prod.splits)
    then obtain interim head sent body r' where i: "length interim < k" "list_all (wire_block MAX_HEADER) (interim @ [head])"
      "concat rest = concat interim @ head @ body @ r'" "out = bs @ concat interim @ sent @ body"
      "response_framed P f head sent persistent body r'"
      using 2(1) [OF rr refl refl refl refl True] r by auto
    then show ?thesis using r
      by (intro exI [of _ "bs # interim"] exI [of _ head] exI [of _ sent] exI [of _ body] exI [of _ r']) auto
  next
    case False
    then have "final_response P f bs status s hs rest = (Ok persistent, out)" using 2(2) rr by simp
    then obtain sent body r' where "concat cs = bs @ body @ r'" "out = sent @ body" "response_framed P f bs sent persistent body r'"
      using final_response_Ok [OF rr 2(3)] by blast
    then show ?thesis using r by (intro exI [of _ "[]"] exI [of _ bs] exI [of _ sent] exI [of _ body] exI [of _ r']) auto
  qed
qed simp

section \<open>Properties\<close>

text \<open>
  C25 (chunked_copy_exact).  Copying a chunked body is exact: for every way the bytes arrive in buffers, the copy succeeds
  with output \<open>out\<close> exactly when the stream begins with the well-formed chunked body \<open>out\<close>, of at most 262144
  size lines and at most \<open>limit\<close> bytes of payload, and the bytes after it stay unread.  A copy that fails has written a
  prefix of the stream.
\<close>

theorem chunked_copy_exact:
  assumes "[] \<notin> set cs" "limit < 2 ^ 64"
  shows "((\<exists>rest. copy_chunked P limit cs = (Ok rest, out) \<and> concat rest = r) \<longleftrightarrow>
     concat cs = out @ r \<and> (\<exists>k payload. chunked_wire P k payload out \<and> k \<le> CHUNK_LIMIT \<and> length payload \<le> limit))
     \<and> (\<exists>r. concat cs = snd (copy_chunked P limit cs) @ r)"
proof
  show "\<exists>r. concat cs = snd (copy_chunked P limit cs) @ r"
    using copy_chunks_prefix [of P limit CHUNK_LIMIT 0 cs] assms(1)
    by (cases "copy_chunked P limit cs") (auto simp: copy_chunked_def)
qed (rule copy_chunked_iff [OF assms])

definition demo_codec :: codec where
  "demo_codec = \<lparr>cd_request = (\<lambda>bs. Some demo_head),
     cd_response = (\<lambda>bs. Some (Some 204, [])),
     cd_chunk_size = (\<lambda>l. if l = [51, 13, 10] then Some (3, 3) else if l = [48, 13, 10] then Some (3, 0) else None),
     cd_trailers = (\<lambda>t. if t = CRLF then Some [] else None)\<rparr>"

lemma wire_line_intro: "length body + 2 \<le> limit \<Longrightarrow> 10 \<notin> set body \<Longrightarrow> 13 \<notin> set body \<Longrightarrow> l = body @ [13, 10] \<Longrightarrow> wire_line limit l"
  by (auto simp: wire_line_def CRLF_def)

lemma demo_chunked: "chunked_wire demo_codec (Suc (Suc 0)) [97, 98, 99] ([51, 13, 10] @ [97, 98, 99] @ CRLF @ [48, 13, 10] @ CRLF)"
proof -
  have lines: "wire_line 4096 [51, 13, 10]" "wire_line 4096 [48, 13, 10]" "wire_line MAX_HEADER CRLF"
    by (rule wire_line_intro [of "[51]"] wire_line_intro [of "[48]"] wire_line_intro [of "[]"]; simp add: MAX_HEADER_def CRLF_def)+
  have hex: "is_ascii_hexdigit (CHR ''3'')" "is_ascii_hexdigit (CHR ''0'')"
    by (simp_all add: is_ascii_hexdigit_def to_digit_def is_ascii_digit_def)
  have "char_of (51 :: nat) = CHR ''3''" "char_of (48 :: nat) = CHR ''0''" by code_simp+
  then have sizes: "chunk_size demo_codec [51, 13, 10] = Ok (length [97, 98, 99 :: u8])" "chunk_size demo_codec [48, 13, 10] = Ok 0"
    using hex by (simp_all add: chunk_size_def chunk_line_bytes_ok_def demo_codec_def)
  have "chunked_wire demo_codec (Suc 0) [] ([48, 13, 10] @ CRLF)"
    by (rule chunk_last [where names = "[]", OF lines(2) sizes(2) block_end [OF lines(3)]]) (simp_all add: demo_codec_def)
  from chunk_more [OF lines(1) sizes(1) _ this] show ?thesis by simp
qed

theorem chunked_copy_exact_witness:
  "\<exists>rest. copy_chunked demo_codec 1000 [[51, 13], [10, 97, 98], [99, 13, 10, 48], [13, 10, 13, 10, 71]]
     = (Ok rest, [51, 13, 10, 97, 98, 99, 13, 10, 48, 13, 10, 13, 10]) \<and> concat rest = [71]"
proof -
  have "Suc (Suc 0) \<le> CHUNK_LIMIT" by (simp add: CHUNK_LIMIT_def)
  then show ?thesis
    using chunked_copy_exact [of "[[51, 13], [10, 97, 98], [99, 13, 10, 48], [13, 10, 13, 10, 71]]" 1000 demo_codec
        "[51, 13, 10, 97, 98, 99, 13, 10, 48, 13, 10, 13, 10]" "[71]"] demo_chunked
    by (fastforce simp: CRLF_def)
qed

text \<open>
  C26 (keep_alive_in_sync).  A client connection is used for another request only in step with the client: the request before
  has been read to the end of the body that its head declares, what was sent upstream is its new head and exactly that body,
  and the next request starts at the following byte.  In particular an early response, or a lost upstream, never lets the
  rest of a body be read as a request.
\<close>

theorem keep_alive_in_sync:
  assumes "[] \<notin> set cs" "http_handshake P cs = Ok (rq, client)" "hr_forward rq = Some f"
    "forward_http P (f\<lparr>f_keep_alive := ka\<rparr>) winner client upstream = Ok (True, rest)"
  shows "winner = UploadFirst \<and> (\<exists>head body. wire_block MAX_HEADER head \<and> concat cs = head @ body @ concat rest
     \<and> snd (upload P (f\<lparr>f_keep_alive := ka\<rparr>) client) = f_header f @ body
     \<and> (if f_chunked f then \<exists>k payload. chunked_wire P k payload body \<and> length payload \<le> BODY_MAX else length body = f_length f))"
proof -
  obtain head where h: "wire_block MAX_HEADER head" "concat cs = head @ concat client" "[] \<notin> set client"
    using http_handshake_Ok [OF assms(2)] assms(1) by auto
  have w: "winner = UploadFirst" "fst (upload P (f\<lparr>f_keep_alive := ka\<rparr>) client) = Ok rest"
    using assms(4) by (auto simp: forward_http_def result_simps split: race.splits)
  then obtain out where u: "upload P (f\<lparr>f_keep_alive := ka\<rparr>) client = (Ok rest, out)" by (metis prod.collapse)
  have g: "f_header (f\<lparr>f_keep_alive := ka\<rparr>) = f_header f" "f_chunked (f\<lparr>f_keep_alive := ka\<rparr>) = f_chunked f"
    "f_length (f\<lparr>f_keep_alive := ka\<rparr>) = f_length f" by simp_all
  obtain body where "concat client = body @ concat rest" "out = f_header f @ body"
    "if f_chunked f then \<exists>k payload. chunked_wire P k payload body \<and> length payload \<le> BODY_MAX else length body = f_length f"
    using upload_Ok [OF u h(3)] unfolding g by blast
  then show ?thesis using h u w by (intro conjI exI [of _ head] exI [of _ body]) simp_all
qed

definition demo_request_bytes :: bytes where
  "demo_request_bytes = str_bytes ''POST http://zc.io/x HTTP/1.1'' @ CRLF @ CRLF"

lemma demo_request_block: "wire_block MAX_HEADER demo_request_bytes"
proof -
  have a: "wire_line MAX_HEADER (str_bytes ''POST http://zc.io/x HTTP/1.1'' @ CRLF)"
    by (rule wire_line_intro [of "str_bytes ''POST http://zc.io/x HTTP/1.1''"]) (simp_all add: MAX_HEADER_def CRLF_def str_bytes_def)
  have "wire_line n CRLF" if "2 \<le> n" for n using that by (intro wire_line_intro [of "[]"]) (simp_all add: CRLF_def)
  then have "wire_block (MAX_HEADER - length (str_bytes ''POST http://zc.io/x HTTP/1.1'' @ CRLF)) CRLF"
    by (intro block_end) (simp add: MAX_HEADER_def CRLF_def)
  from block_line [OF a _ this] show ?thesis by (simp add: demo_request_bytes_def CRLF_def str_bytes_def)
qed

lemma demo_handshake:
  "\<exists>rq f client. http_handshake demo_codec [demo_request_bytes @ [1, 2], [3, 4, 5, 6]] = Ok (rq, client) \<and> hr_forward rq = Some f
     \<and> concat client = [1, 2, 3, 4, 5, 6] \<and> [] \<notin> set client \<and> f_chunked f = False \<and> f_length f = 5 \<and> f_head f = False"
proof -
  let ?cs = "[demo_request_bytes @ [1, 2], [3, 4, 5, 6]]"
  obtain client where c: "http_header [] ?cs = Ok (demo_request_bytes, client)" "concat client = [1, 2, 3, 4, 5, 6]"
    using http_header_complete [OF demo_request_block, of "[]" ?cs "[1, 2, 3, 4, 5, 6]"] by auto
  have "path_bytes_ok ''http://zc.io/x''" by code_simp
  then obtain rq f where r: "http_request_of demo_head = Ok rq" "hr_forward rq = Some f" "f_length f = 5" "\<not> f_chunked f" "\<not> f_head f"
    using demo_scan by (auto simp: http_request_of_def demo_head_def demo_target_of Let_def check_scan_def)
  have "dec 1 = ''1''" by (simp add: dec.simps)
  then have "starts_with (str_bytes (''POST'' @ '' '' @ ''http://zc.io/x'' @ '' HTTP/1.'' @ dec 1 @ CRLF_text)) demo_request_bytes"
    by (simp add: demo_request_bytes_def str_bytes_def CRLF_def CRLF_text_def starts_with_iff)
  then have "http_handshake demo_codec ?cs = Ok (rq, client)"
    using c r(1) by (simp add: http_handshake_def demo_codec_def demo_head_def del: One_nat_def)
  then show ?thesis using http_handshake_Ok [of demo_codec ?cs rq client] c r by (auto simp: demo_request_bytes_def)
qed

definition demo_response_bytes :: bytes where
  "demo_response_bytes = str_bytes ''HTTP/1.1 204 No Content'' @ CRLF @ CRLF"

lemma demo_response:
  assumes "f_keep_alive f" shows "fst (forward_response demo_codec f [demo_response_bytes]) = Ok True"
proof -
  have a: "wire_line MAX_HEADER (str_bytes ''HTTP/1.1 204 No Content'' @ CRLF)"
    by (rule wire_line_intro [of "str_bytes ''HTTP/1.1 204 No Content''"]) (simp_all add: MAX_HEADER_def CRLF_def str_bytes_def)
  have "wire_block (MAX_HEADER - length (str_bytes ''HTTP/1.1 204 No Content'' @ CRLF)) CRLF"
    by (intro block_end wire_line_intro [of "[]"]) (simp_all add: MAX_HEADER_def CRLF_def)
  from block_line [OF a _ this] have "wire_block MAX_HEADER demo_response_bytes" by (simp add: demo_response_bytes_def CRLF_def str_bytes_def)
  then obtain r where r: "http_header [] [demo_response_bytes] = Ok (demo_response_bytes, r)"
    using http_header_complete [of MAX_HEADER demo_response_bytes "[]" "[demo_response_bytes]" "[]"] by (auto simp: demo_response_bytes_def CRLF_def)
  have "starts_with (str_bytes ''HTTP/1.'') demo_response_bytes" by (simp add: demo_response_bytes_def str_bytes_def starts_with_iff)
  then have "read_response demo_codec [demo_response_bytes] = Ok (demo_response_bytes, 204, \<lparr>rp_length = None, rp_chunked = False, rp_connection = []\<rparr>, [], r)"
    using r by (simp add: read_response_def truncated_def demo_codec_def)
  moreover have "\<exists>h. persistent_head demo_response_bytes \<lparr>rp_length = None, rp_chunked = False, rp_connection = []\<rparr> [] = Ok h"
  proof -
    have "contains_sub CRLF demo_response_bytes" by (auto simp: demo_response_bytes_def contains_sub_iff)
    then show ?thesis by (auto simp: persistent_head_def contains_sub_def ok_or_def)
  qed
  ultimately show ?thesis
    using assms relay_responses.simps(2) [of demo_codec f 15 "[demo_response_bytes]"]
    by (auto simp: forward_response_def final_response_def response_body_def numeral_eq_Suc split: result.splits)
qed

theorem keep_alive_in_sync_witness:
  "\<exists>rq f client rest. http_handshake demo_codec [demo_request_bytes @ [1, 2], [3, 4, 5, 6]] = Ok (rq, client)
     \<and> hr_forward rq = Some f
     \<and> forward_http demo_codec (f\<lparr>f_keep_alive := True\<rparr>) UploadFirst client [demo_response_bytes] = Ok (True, rest)
     \<and> (\<exists>head body. [demo_request_bytes @ [1, 2, 3, 4, 5, 6]] = [head @ body @ concat rest] \<and> length body = 5)"
proof -
  obtain rq f client where d: "http_handshake demo_codec [demo_request_bytes @ [1, 2], [3, 4, 5, 6]] = Ok (rq, client)"
    "hr_forward rq = Some f" "concat client = [1, 2, 3, 4, 5, 6]" "[] \<notin> set client" "f_chunked f = False" "f_length f = 5" "f_head f = False"
    using demo_handshake by blast
  let ?f = "f\<lparr>f_keep_alive := True\<rparr>"
  obtain rest where "copy_exact 5 client = (Ok rest, [1, 2, 3, 4, 5])"
    using copy_exact_iff [OF d(4), of 5 "[1, 2, 3, 4, 5]" "[6]"] d(3) by auto
  then have u: "fst (upload demo_codec ?f client) = Ok rest" using d by (simp add: upload_def)
  have "fst (forward_response demo_codec ?f [demo_response_bytes]) = Ok True" using demo_response by simp
  then have e: "forward_http demo_codec ?f UploadFirst client [demo_response_bytes] = Ok (True, rest)" using u by (simp add: forward_http_def)
  have "\<exists>head body. [demo_request_bytes @ [1, 2, 3, 4, 5, 6]] = [head @ body @ concat rest] \<and> length body = 5"
    using keep_alive_in_sync [OF _ d(1,2) e] d(5,6) by (fastforce simp: demo_request_bytes_def)
  then show ?thesis using d(1,2) e by blast
qed


definition demo_forward :: forward where
  "demo_forward = \<lparr>f_header = [], f_length = 0, f_chunked = False, f_keep_alive = True, f_head = False, f_tls = False\<rparr>"


end
