(* ===== verification/Socks.thy ===== *)
theory Socks
  imports Rust_Addr Streams
begin

text \<open>
  SOCKS5 addresses on the wire (\<open>src/src/runtime.rs\<close>, \<open>src/src/outbound.rs\<close>, \<open>src/src/udp.rs\<close>): the
  handshake and the request of a TCP client, the header of a UDP datagram in both directions, and the frames of
  a Trojan UDP stream.  Writing an address, and reading one from a Trojan stream, is code of the
  \<open>shadowsocks\<close> library: \<open>socks_layout\<close> states the format of RFC 1928 that it documents.

  The lemmas show that what one side writes the other side reads: the same destination, with an address
  literal in its standard text, and the same payload, however the bytes arrive.
\<close>

section \<open>Addresses\<close>

datatype address = SocketAddress ip_addr u16 | DomainNameAddress string u16

definition destination :: "target \<Rightarrow> address" where
  "destination t = (case parse_ip (t_host t) of
       Some ip \<Rightarrow> SocketAddress ip (t_port t)
     | None \<Rightarrow> DomainNameAddress (t_host t) (t_port t))"

fun address_target :: "address \<Rightarrow> (target, target_error) result" where
  "address_target (SocketAddress ip p) = target_new (ip_string ip) p"
| "address_target (DomainNameAddress h p) = target_from_socks h p"

text \<open>\<open>Ipv4Addr::from\<close> and \<open>Ipv6Addr::from\<close> on network bytes.\<close>

fun ip_octets :: "ip_addr \<Rightarrow> bytes" where
  "ip_octets (V4 a b c d) = [a, b, c, d]"
| "ip_octets (V6 a b c d e f g h) = concat (map u16_be [a, b, c, d, e, f, g, h])"

fun ip_of_octets :: "bytes \<Rightarrow> ip_addr option" where
  "ip_of_octets [a, b, c, d] = Some (V4 a b c d)"
| "ip_of_octets [a, a', b, b', c, c', d, d', e, e', f, f', g, g', h, h'] =
     Some (V6 (u16_from_be a a') (u16_from_be b b') (u16_from_be c c') (u16_from_be d d')
       (u16_from_be e e') (u16_from_be f f') (u16_from_be g g') (u16_from_be h h'))"
| "ip_of_octets _ = None"

definition ip_text :: "bytes \<Rightarrow> string" where
  "ip_text bs = ip_string (the (ip_of_octets bs))"

section \<open>TCP requests\<close>

datatype SocksRequest = Connect target | Associate socket_addr

text \<open>Reading from the client; a stream that ends, or fails, is reply code 1.\<close>

definition read_code :: "nat \<Rightarrow> bytes list \<Rightarrow> (bytes \<times> bytes list, u8) result" where
  "read_code n cs = ok_or 1 (read_exact n cs)"

definition read_host :: "u8 \<Rightarrow> bytes list \<Rightarrow> (string \<times> bytes list, u8) result" where
  "read_host kind cs =
     (if kind = 1 then and_then (read_code 4 cs) (\<lambda>(bs, cs). Ok (ip_text bs, cs))
      else if kind = 4 then and_then (read_code 16 cs) (\<lambda>(bs, cs). Ok (ip_text bs, cs))
      else if kind = 3 then and_then (read_code 1 cs) (\<lambda>(l, cs).
        if hd l = 0 then Err 8
        else and_then (read_code (unat (hd l)) cs) (\<lambda>(bs, cs).
             and_then (ok_or 8 (from_utf8 bs)) (\<lambda>h. Ok (h, cs))))
      else Err 8)"

definition be_port :: "bytes \<Rightarrow> u16" where
  "be_port bs = u16_from_be (bs ! 0) (bs ! 1)"

definition socks_request :: "bytes list \<Rightarrow> (SocksRequest \<times> bytes list, u8) result" where
  "socks_request cs = and_then (read_code 4 cs) (\<lambda>(head, cs).
     if head ! 0 \<noteq> 5 \<or> head ! 2 \<noteq> 0 then Err 1
     else if head ! 1 \<notin> {1, 3} then Err 7
     else and_then (read_host (head ! 3) cs) (\<lambda>(host, cs).
       and_then (read_code 2 cs) (\<lambda>(pb, cs).
       if head ! 1 = 3
       then (case parse_ip host of None \<Rightarrow> Err 8 | Some ip \<Rightarrow> Ok (Associate \<lparr>sa_ip = ip, sa_port = be_port pb\<rparr>, cs))
       else (case target_from_socks host (be_port pb) of Err _ \<Rightarrow> Err 8 | Ok t \<Rightarrow> Ok (Connect t, cs)))))"

definition socks_reply :: "u8 \<Rightarrow> bytes" where
  "socks_reply c = [5, c, 0, 1, 0, 0, 0, 0, 0, 0]"

text \<open>The handshake: the request, if any, and the bytes written to the client.  A stream that ends is an error.\<close>

definition socks_handshake :: "bytes list \<Rightarrow> ((SocksRequest \<times> bytes list) option, unit) result \<times> bytes" where
  "socks_handshake cs = (case read_exact 2 cs of
       None \<Rightarrow> (Err (), [])
     | Some (vc, cs) \<Rightarrow> (case read_exact (unat (vc ! 1)) cs of
           None \<Rightarrow> (Err (), [])
         | Some (methods, cs) \<Rightarrow>
             if vc ! 0 \<noteq> 5 \<or> 0 \<notin> set methods then (Ok None, [5, 255])
             else (case socks_request cs of
                 Ok r \<Rightarrow> (Ok (Some r), [5, 0])
               | Err c \<Rightarrow> (Ok None, [5, 0] @ socks_reply c))))"

definition socks_connect_error :: "io_kind option \<Rightarrow> u8" where
  "socks_connect_error kind = (case kind of
       Some PermissionDenied \<Rightarrow> 2 | Some NetworkUnreachable \<Rightarrow> 3 | Some HostUnreachable \<Rightarrow> 4
     | Some ConnectionRefused \<Rightarrow> 5 | Some TimedOut \<Rightarrow> 6 | _ \<Rightarrow> 1)"

section \<open>UDP datagrams\<close>

definition MAX_WIRE_BYTES :: nat where "MAX_WIRE_BYTES = 65507"

datatype udp_fault = UdpHeader | UdpTruncated | UdpUtf8 | UdpAddressType | UdpTarget target_error | UdpTooLong

definition slice :: "nat \<Rightarrow> nat \<Rightarrow> bytes \<Rightarrow> (bytes, udp_fault) result" where
  "slice i j bs = (if i \<le> j \<and> j \<le> length bs then Ok (take (j - i) (drop i bs)) else Err UdpTruncated)"

definition udp_host :: "bytes \<Rightarrow> (string \<times> nat, udp_fault) result" where
  "udp_host bs =
     (if length bs \<le> 3 then Err UdpAddressType
      else if bs ! 3 = 1 then and_then (slice 4 8 bs) (\<lambda>ip. Ok (ip_text ip, 8))
      else if bs ! 3 = 4 then and_then (slice 4 20 bs) (\<lambda>ip. Ok (ip_text ip, 20))
      else if bs ! 3 = 3 then
        (if length bs \<le> 4 then Err UdpTruncated
         else and_then (slice 5 (5 + unat (bs ! 4)) bs) (\<lambda>name.
              and_then (ok_or UdpUtf8 (from_utf8 name)) (\<lambda>h. Ok (h, 5 + unat (bs ! 4)))))
      else Err UdpAddressType)"

definition udp_request :: "bytes \<Rightarrow> (target \<times> bytes, udp_fault) result" where
  "udp_request bs =
     (if MAX_WIRE_BYTES < length bs \<or> \<not> starts_with [0, 0, 0] bs then Err UdpHeader
      else and_then (udp_host bs) (\<lambda>(host, e).
        and_then (slice e (e + 2) bs) (\<lambda>pb.
        case target_from_socks host (be_port pb) of
          Err f \<Rightarrow> Err (UdpTarget f)
        | Ok t \<Rightarrow> Ok (t, drop (e + 2) bs))))"

definition udp_response :: "(address \<Rightarrow> bytes) \<Rightarrow> target \<Rightarrow> bytes \<Rightarrow> (bytes, udp_fault) result" where
  "udp_response W source payload =
     (let head = [0, 0, 0] @ W (destination source)
      in if MAX_WIRE_BYTES < length head + length payload then Err UdpTooLong else Ok (head @ payload))"

section \<open>Trojan frames\<close>

text \<open>The frame of \<open>send_to\<close>, for a target that is already resolved; the length is cut to 16 bits.\<close>

definition trojan_frame :: "(address \<Rightarrow> bytes) \<Rightarrow> target \<Rightarrow> bytes \<Rightarrow> bytes" where
  "trojan_frame W t payload = W (destination t) @ u16_be (of_nat (length payload)) @ CRLF @ payload"

record datagram =
  dg_source :: target
  dg_payload :: bytes

type_synonym address_reader = "bytes list \<Rightarrow> (address \<times> bytes list) option"

definition trojan_packet :: "address_reader \<Rightarrow> bytes list \<Rightarrow> (datagram \<times> bytes list) option" where
  "trojan_packet R cs =
     Option.bind (R cs) (\<lambda>(a, cs).
     case address_target a of
       Err _ \<Rightarrow> None
     | Ok t \<Rightarrow>
         Option.bind (read_exact 2 cs) (\<lambda>(lb, cs).
         Option.bind (read_exact 2 cs) (\<lambda>(delimiter, cs).
         if delimiter \<noteq> CRLF then None
         else Option.bind (read_exact (unat (be_port lb)) cs) (\<lambda>(payload, cs).
              Some (\<lparr>dg_source = t, dg_payload = payload\<rparr>, cs)))))"

section \<open>The documented format\<close>

definition socks_layout :: "(address \<Rightarrow> bytes) \<Rightarrow> bool" where
  "socks_layout W \<longleftrightarrow>
     (\<forall>ip p. W (SocketAddress ip p) = (if is_ipv4 ip then 1 else 4) # ip_octets ip @ u16_be p)
     \<and> (\<forall>h p. length h \<le> 255 \<longrightarrow> W (DomainNameAddress h p) = 3 # of_nat (length h) # str_bytes h @ u16_be p)"

text \<open>A destination of the wire, and its standard text.\<close>

definition wire_target :: "target \<Rightarrow> bool" where
  "wire_target t \<longleftrightarrow> t_host t \<noteq> [] \<and> length (t_host t) \<le> 255 \<and> is_str (t_host t) \<and> t_port t \<noteq> 0"

definition canonical :: "target \<Rightarrow> target" where
  "canonical t = (case parse_ip (t_host t) of Some ip \<Rightarrow> t\<lparr>t_host := ip_string ip\<rparr> | None \<Rightarrow> t)"

section \<open>Addresses read back\<close>

lemma u16_be_bytes: "u16_be w = [hi_byte w, lo_byte w]"
  by (simp add: u16_be_def hi_byte_def lo_byte_def)

lemma be_port_be [simp]: "be_port (u16_be p) = p"
  by (simp add: be_port_def u16_be_bytes u16_hi_lo)

lemma ip_of_octets_octets [simp]: "ip_of_octets (ip_octets ip) = Some ip"
  by (cases ip) (simp_all add: u16_be_bytes u16_hi_lo)

lemma ip_text_octets [simp]: "ip_text (ip_octets ip) = ip_string ip"
  by (simp add: ip_text_def)

lemma length_ip_octets: "length (ip_octets ip) = (if is_ipv4 ip then 4 else 16)"
  by (cases ip) simp_all

lemma length_dec_u8: "length (dec (unat (b :: u8))) \<le> 3"
proof -
  have "unat b < 10 ^ 3" using unat_u8_less [of b] by (rule order.strict_trans) simp
  then show ?thesis by (intro length_dec) simp_all
qed

lemma length_hex_u16: "length (hex (unat (g :: u16))) \<le> 4"
  using unat_u16_less [of g] by (intro length_hex) simp_all

lemma length_fmt_groups: "length (fmt_groups gs) \<le> 5 * length gs"
proof -
  have "length (join_char (CHR '':'') xs) \<le> 5 * length xs" if "\<forall>x\<in>set xs. length x \<le> 4" for xs :: "string list"
    using that by (induction "CHR '':''" xs rule: join_char.induct) auto
  from this [of "map (\<lambda>g. hex (unat g)) gs"] show ?thesis by (simp add: fmt_groups_def length_hex_u16)
qed

lemma length_ip_string: "0 < length (ip_string ip) \<and> length (ip_string ip) \<le> 255"
proof -
  have v4: "length (ip4_string a b c d) \<le> 15" for a b c d
    using length_dec_u8 [of a] length_dec_u8 [of b] length_dec_u8 [of c] length_dec_u8 [of d] by (simp add: ip4_string_def)
  have v6: "length (fmt_ipv6 gs) \<le> 2 + 5 * length gs + 5 * length gs" for gs
  proof -
    obtain st len where z: "zero_run 0 (0, 0) (0, 0) gs = (st, len)" by fastforce
    have "length (fmt_groups (take st gs)) \<le> 5 * length gs" "length (fmt_groups (drop (st + len) gs)) \<le> 5 * length gs"
      using length_fmt_groups [of "take st gs"] length_fmt_groups [of "drop (st + len) gs"] by auto
    then show ?thesis using length_fmt_groups [of gs] z by (simp add: fmt_ipv6_def)
  qed
  have "length (ip_string ip) \<le> 255"
  proof (cases ip)
    case (V4 a b c d)
    then show ?thesis using v4 [of a b c d] by simp
  next
    case (V6 a b c d e f g h)
    then show ?thesis using v4 [of "hi_byte g" "lo_byte g" "hi_byte h" "lo_byte h"] v6 [of "[a, b, c, d, e, f, g, h]"] by simp
  qed
  moreover have "ip_string ip \<noteq> []" using parse_ip_string [of ip] parse_ip_Nil by (metis option.distinct(1))
  ultimately show ?thesis by simp
qed

lemma canonical_host: "wire_target t \<Longrightarrow> target_from_socks (t_host (canonical t)) (t_port t) = Ok (canonical t)"
  using length_ip_string [of "the (parse_ip (t_host t))"]
  by (auto simp: canonical_def wire_target_def target_from_socks_def split: option.splits)

lemma destination_canonical [simp]: "destination (canonical t) = destination t"
  by (auto simp: destination_def canonical_def split: option.splits)

lemma address_target_destination: "wire_target t \<Longrightarrow> address_target (destination t) = Ok (canonical t)"
  by (auto simp: destination_def canonical_def wire_target_def target_from_socks_def split: option.splits)

text \<open>An address on the wire: its type, its host and its port.\<close>

lemma read_code_complete:
  "[] \<notin> set cs \<Longrightarrow> concat cs = bs @ r \<Longrightarrow> n = length bs \<Longrightarrow>
     \<exists>rest. read_code n cs = Ok (bs, rest) \<and> concat rest = r \<and> [] \<notin> set rest"
  using read_exact_complete [of cs bs r n] by (auto simp: read_code_def)

lemma destination_layout:
  assumes "socks_layout W" "wire_target t"
  obtains kind part where "W (destination t) = kind # part @ u16_be (t_port t)"
    "\<And>cs r. [] \<notin> set cs \<Longrightarrow> concat cs = part @ r \<Longrightarrow>
       \<exists>rest. read_host kind cs = Ok (t_host (canonical t), rest) \<and> concat rest = r \<and> [] \<notin> set rest"
    "\<And>pre r. length pre = 3 \<Longrightarrow> udp_host (pre @ kind # part @ r) = Ok (t_host (canonical t), 4 + length part)"
proof (cases "parse_ip (t_host t)")
  case (Some ip)
  let ?kind = "if is_ipv4 ip then 1 else 4 :: u8"
  have w: "W (destination t) = ?kind # ip_octets ip @ u16_be (t_port t)"
    using assms(1) Some by (simp add: socks_layout_def destination_def)
  have h: "t_host (canonical t) = ip_string ip" using Some by (simp add: canonical_def)
  show ?thesis
  proof (rule that [OF w])
    fix cs r
    assume "[] \<notin> set cs" "concat cs = ip_octets ip @ r"
    from read_code_complete [OF this refl] show "\<exists>rest. read_host ?kind cs = Ok (t_host (canonical t), rest) \<and> concat rest = r \<and> [] \<notin> set rest"
      by (auto simp: read_host_def h length_ip_octets)
  next
    fix pre r :: bytes
    assume "length pre = 3"
    then have n: "(pre @ ?kind # ip_octets ip @ r) ! 3 = ?kind" "drop 4 (pre @ ?kind # ip_octets ip @ r) = ip_octets ip @ r"
      by (simp_all add: nth_append)
    show "udp_host (pre @ ?kind # ip_octets ip @ r) = Ok (t_host (canonical t), 4 + length (ip_octets ip))"
      using \<open>length pre = 3\<close> n by (cases "is_ipv4 ip") (simp_all add: udp_host_def slice_def h length_ip_octets)
  qed
next
  case None
  let ?h = "t_host t"
  have l: "length ?h \<le> 255" "?h \<noteq> []" "is_str ?h" using assms(2) by (auto simp: wire_target_def)
  then have u: "unat (of_nat (length ?h) :: u8) = length ?h" by (simp add: unsigned_of_nat take_bit_eq_mod)
  have z: "(of_nat (length ?h) :: u8) \<noteq> 0" using u l(2) by (metis length_0_conv unat_0)
  have w: "W (destination t) = 3 # (of_nat (length ?h) # str_bytes ?h) @ u16_be (t_port t)"
    using assms(1) None l(1) by (simp add: socks_layout_def destination_def)
  have h: "t_host (canonical t) = ?h" using None by (simp add: canonical_def)
  show ?thesis
  proof (rule that [OF w])
    fix cs r
    assume c: "[] \<notin> set cs" "concat cs = (of_nat (length ?h) # str_bytes ?h) @ r"
    then obtain r1 where r1: "read_code 1 cs = Ok ([of_nat (length ?h)], r1)" "concat r1 = str_bytes ?h @ r" "[] \<notin> set r1"
      using read_code_complete [of cs "[of_nat (length ?h)]" "str_bytes ?h @ r" 1] by auto
    from read_code_complete [OF r1(3,2) refl]
    show "\<exists>rest. read_host 3 cs = Ok (t_host (canonical t), rest) \<and> concat rest = r \<and> [] \<notin> set rest"
      using r1(1) u z l(3) by (auto simp: read_host_def h)
  next
    fix pre r :: bytes
    assume p: "length pre = 3"
    let ?bs = "pre @ 3 # (of_nat (length ?h) # str_bytes ?h) @ r"
    have n: "?bs ! 3 = 3" "?bs ! 4 = of_nat (length ?h)" "drop 5 ?bs = str_bytes ?h @ r"
      using p by (simp_all add: nth_append)
    show "udp_host ?bs = Ok (t_host (canonical t), 4 + length (of_nat (length ?h) # str_bytes ?h))"
      using p n u l(3) by (simp add: udp_host_def slice_def h)
  qed
qed

section \<open>Requests and datagrams read back\<close>

lemma socks_connect_read:
  assumes "socks_layout W" "wire_target t" "[] \<notin> set cs" "concat cs = [5, 1, 0] @ W (destination t) @ r"
  shows "\<exists>rest. socks_request cs = Ok (Connect (canonical t), rest) \<and> concat rest = r"
proof (rule destination_layout [OF assms(1,2)])
  fix kind part
  assume w: "W (destination t) = kind # part @ u16_be (t_port t)"
    and host: "\<And>cs r. [] \<notin> set cs \<Longrightarrow> concat cs = part @ r \<Longrightarrow>
       \<exists>rest. read_host kind cs = Ok (t_host (canonical t), rest) \<and> concat rest = r \<and> [] \<notin> set rest"
  obtain r1 where r1: "read_code 4 cs = Ok ([5, 1, 0, kind], r1)" "concat r1 = part @ u16_be (t_port t) @ r" "[] \<notin> set r1"
    using read_code_complete [of cs "[5, 1, 0, kind]" "part @ u16_be (t_port t) @ r" 4] assms(3,4) w by auto
  obtain r2 where r2: "read_host kind r1 = Ok (t_host (canonical t), r2)" "concat r2 = u16_be (t_port t) @ r" "[] \<notin> set r2"
    using host [OF r1(3,2)] by auto
  obtain r3 where r3: "read_code 2 r2 = Ok (u16_be (t_port t), r3)" "concat r3 = r"
    using read_code_complete [OF r2(3,2), of 2] by auto
  then show ?thesis using r1(1) r2(1) canonical_host [OF assms(2)] by (simp add: socks_request_def)
qed

lemma socks_handshake_read:
  assumes "socks_layout W" "wire_target t" "[] \<notin> set cs" "concat cs = [5, 1, 0] @ [5, 1, 0] @ W (destination t) @ r"
  shows "\<exists>rest. socks_handshake cs = (Ok (Some (Connect (canonical t), rest)), [5, 0]) \<and> concat rest = r"
proof -
  obtain r1 where r1: "read_exact 2 cs = Some ([5, 1], r1)" "concat r1 = [0] @ [5, 1, 0] @ W (destination t) @ r" "[] \<notin> set r1"
    using read_exact_complete [of cs "[5, 1]" "[0] @ [5, 1, 0] @ W (destination t) @ r" 2] assms(3,4) by auto
  obtain r2 where r2: "read_exact 1 r1 = Some ([0], r2)" "concat r2 = [5, 1, 0] @ W (destination t) @ r" "[] \<notin> set r2"
    using read_exact_complete [OF r1(3,2), of 1] by auto
  then show ?thesis using socks_connect_read [OF assms(1,2) r2(3,2)] r1(1) by (auto simp: socks_handshake_def)
qed

lemma udp_response_read:
  assumes "socks_layout W" "wire_target t" "udp_response W t payload = Ok bs"
  shows "udp_request bs = Ok (canonical t, payload) \<and> length bs \<le> MAX_WIRE_BYTES"
proof (rule destination_layout [OF assms(1,2)])
  fix kind part
  assume w: "W (destination t) = kind # part @ u16_be (t_port t)"
    and host: "\<And>pre r. length pre = 3 \<Longrightarrow> udp_host (pre @ kind # part @ r) = Ok (t_host (canonical t), 4 + length part)"
  have bs: "bs = [0, 0, 0] @ kind # part @ u16_be (t_port t) @ payload" "length bs \<le> MAX_WIRE_BYTES"
    using assms(3) w by (auto simp: udp_response_def Let_def split: if_splits)
  have h: "udp_host bs = Ok (t_host (canonical t), 4 + length part)" unfolding bs(1) by (rule host) simp
  have d: "drop (4 + length part) bs = u16_be (t_port t) @ payload" by (simp add: bs(1) numeral_eq_Suc)
  then have "slice (4 + length part) (4 + length part + 2) bs = Ok (u16_be (t_port t))"
    using arg_cong [OF bs(1), of length] by (simp add: slice_def)
  moreover have "drop (4 + length part + 2) bs = payload"
    using arg_cong [OF d, of "drop 2"] by (simp add: add.commute)
  moreover have "starts_with [0, 0, 0] bs" unfolding bs(1) by (simp add: starts_with_iff)
  ultimately show ?thesis using h bs(2) canonical_host [OF assms(2)] by (simp add: udp_request_def)
qed

text \<open>The library's reader of an address.\<close>

definition reads_addresses :: "(address \<Rightarrow> bytes) \<Rightarrow> address_reader \<Rightarrow> bool" where
  "reads_addresses W R \<longleftrightarrow> (\<forall>t cs r. wire_target t \<longrightarrow> [] \<notin> set cs \<longrightarrow> concat cs = W (destination t) @ r \<longrightarrow>
     (\<exists>rest. R cs = Some (destination t, rest) \<and> concat rest = r \<and> [] \<notin> set rest))"

lemma trojan_packet_read:
  assumes "reads_addresses W R" "wire_target t" "length payload < 65536" "[] \<notin> set cs" "concat cs = trojan_frame W t payload @ r"
  shows "\<exists>rest. trojan_packet R cs = Some (\<lparr>dg_source = canonical t, dg_payload = payload\<rparr>, rest) \<and> concat rest = r \<and> [] \<notin> set rest"
proof -
  let ?n = "of_nat (length payload) :: u16"
  have u: "unat ?n = length payload" using assms(3) by (simp add: unsigned_of_nat take_bit_eq_mod)
  obtain r1 where r1: "R cs = Some (destination t, r1)" "concat r1 = u16_be ?n @ CRLF @ payload @ r" "[] \<notin> set r1"
    using assms unfolding reads_addresses_def trojan_frame_def by (metis append.assoc)
  obtain r2 where r2: "read_exact 2 r1 = Some (u16_be ?n, r2)" "concat r2 = CRLF @ payload @ r" "[] \<notin> set r2"
    using read_exact_complete [OF r1(3,2), of 2] by auto
  obtain r3 where r3: "read_exact 2 r2 = Some (CRLF, r3)" "concat r3 = payload @ r" "[] \<notin> set r3"
    using read_exact_complete [OF r2(3,2), of 2] by (auto simp: CRLF_def)
  obtain r4 where r4: "read_exact (length payload) r3 = Some (payload, r4)" "concat r4 = r" "[] \<notin> set r4"
    using read_exact_complete [OF r3(3,2), of "length payload"] by auto
  show ?thesis using r1(1) r2(1) r3(1) r4 u address_target_destination [OF assms(2)] by (simp add: trojan_packet_def)
qed

fun trojan_packets :: "address_reader \<Rightarrow> nat \<Rightarrow> bytes list \<Rightarrow> datagram list option" where
  "trojan_packets R 0 cs = Some []"
| "trojan_packets R (Suc n) cs =
     Option.bind (trojan_packet R cs) (\<lambda>(d, cs). map_option ((#) d) (trojan_packets R n cs))"

lemma trojan_packets_read:
  assumes "reads_addresses W R" "list_all (\<lambda>(t, p). wire_target t \<and> length p < 65536) ds" "[] \<notin> set cs"
    "concat cs = concat (map (\<lambda>(t, p). trojan_frame W t p) ds) @ r"
  shows "trojan_packets R (length ds) cs = Some (map (\<lambda>(t, p). \<lparr>dg_source = canonical t, dg_payload = p\<rparr>) ds)"
  using assms(2-)
proof (induction ds arbitrary: cs)
  case (Cons d ds)
  obtain t p where d: "d = (t, p)" by fastforce
  have "concat cs = trojan_frame W t p @ (concat (map (\<lambda>(t, p). trojan_frame W t p) ds) @ r)" using Cons.prems(3) d by simp
  then obtain rest where "trojan_packet R cs = Some (\<lparr>dg_source = canonical t, dg_payload = p\<rparr>, rest)"
    "concat rest = concat (map (\<lambda>(t, p). trojan_frame W t p) ds) @ r" "[] \<notin> set rest"
    using trojan_packet_read [OF assms(1), of t p cs] Cons.prems d by auto
  then show ?case using Cons d by simp
qed simp

section \<open>Properties\<close>

text \<open>
  C28 (socks_destination_round_trip).  A destination survives the wire: a client that requests it over SOCKS5 TCP, in however
  many buffers, gets exactly that destination and the bytes after the request stay unread; and the header of a relayed datagram
  reads back as its source and payload within the UDP limit.  Only the text of an address literal becomes the standard one, which
  leads to the same address.
\<close>

theorem socks_destination_round_trip:
  assumes "socks_layout W" "wire_target t"
  shows "([] \<notin> set cs \<longrightarrow> concat cs = [5, 1, 0] @ [5, 1, 0] @ W (destination t) @ r \<longrightarrow>
         (\<exists>rest. socks_handshake cs = (Ok (Some (Connect (canonical t), rest)), [5, 0]) \<and> concat rest = r))
     \<and> (udp_response W t payload = Ok bs \<longrightarrow> udp_request bs = Ok (canonical t, payload) \<and> length bs \<le> MAX_WIRE_BYTES)
     \<and> destination (canonical t) = destination t"
  using socks_handshake_read [OF assms] udp_response_read [OF assms] by auto

text \<open>
  C29 (trojan_frames_round_trip).  A sequence of Trojan UDP frames, in whatever buffers the stream delivers it, is read back as
  the datagrams in their order.
\<close>

theorem trojan_frames_round_trip:
  assumes "reads_addresses W R" "list_all (\<lambda>(t, p). wire_target t \<and> length p < 65536) ds" "[] \<notin> set cs"
    "concat cs = concat (map (\<lambda>(t, p). trojan_frame W t p) ds) @ r"
  shows "trojan_packets R (length ds) cs = Some (map (\<lambda>(t, p). \<lparr>dg_source = canonical t, dg_payload = p\<rparr>) ds)"
  by (rule trojan_packets_read [OF assms])

fun demo_write :: "address \<Rightarrow> bytes" where
  "demo_write (SocketAddress ip p) = (if is_ipv4 ip then 1 else 4) # ip_octets ip @ u16_be p"
| "demo_write (DomainNameAddress h p) = 3 # of_nat (length h) # str_bytes h @ u16_be p"

definition demo_read_address :: address_reader where
  "demo_read_address cs = (case read_code 1 cs of
       Err _ \<Rightarrow> None
     | Ok (kind, cs) \<Rightarrow> (case read_host (hd kind) cs of
           Err _ \<Rightarrow> None
         | Ok (h, cs) \<Rightarrow> (case read_code 2 cs of
               Err _ \<Rightarrow> None
             | Ok (pb, cs) \<Rightarrow> Some (destination \<lparr>t_host = h, t_port = be_port pb\<rparr>, cs))))"

lemma demo_layout: "socks_layout demo_write"
  by (simp add: socks_layout_def)

lemma demo_reads: "reads_addresses demo_write demo_read_address"
  unfolding reads_addresses_def
proof (intro allI impI)
  fix t :: target and cs r
  assume t: "wire_target t" and c: "[] \<notin> set cs" "concat cs = demo_write (destination t) @ r"
  show "\<exists>rest. demo_read_address cs = Some (destination t, rest) \<and> concat rest = r \<and> [] \<notin> set rest"
  proof (rule destination_layout [OF demo_layout t])
    fix kind part
    assume w: "demo_write (destination t) = kind # part @ u16_be (t_port t)"
      and host: "\<And>cs r. [] \<notin> set cs \<Longrightarrow> concat cs = part @ r \<Longrightarrow>
         \<exists>rest. read_host kind cs = Ok (t_host (canonical t), rest) \<and> concat rest = r \<and> [] \<notin> set rest"
    obtain r1 where r1: "read_code 1 cs = Ok ([kind], r1)" "concat r1 = part @ u16_be (t_port t) @ r" "[] \<notin> set r1"
      using read_code_complete [of cs "[kind]" "part @ u16_be (t_port t) @ r" 1] c w by auto
    obtain r2 where r2: "read_host kind r1 = Ok (t_host (canonical t), r2)" "concat r2 = u16_be (t_port t) @ r" "[] \<notin> set r2"
      using host [OF r1(3,2)] by auto
    obtain r3 where r3: "read_code 2 r2 = Ok (u16_be (t_port t), r3)" "concat r3 = r" "[] \<notin> set r3"
      using read_code_complete [OF r2(3,2), of 2] by auto
    have "\<lparr>t_host = t_host (canonical t), t_port = t_port t\<rparr> = canonical t"
      by (simp add: canonical_def split: option.splits)
    then have "destination \<lparr>t_host = t_host (canonical t), t_port = t_port t\<rparr> = destination t" by simp
    then show ?thesis using r1(1) r2(1) r3 by (simp add: demo_read_address_def)
  qed
qed

lemma demo_wire_target: "wire_target \<lparr>t_host = ''zc.io'', t_port = 53\<rparr>"
  by (simp add: wire_target_def is_str_def)

lemma demo_canonical: "canonical \<lparr>t_host = ''zc.io'', t_port = 53\<rparr> = \<lparr>t_host = ''zc.io'', t_port = 53\<rparr>"
  by (simp add: canonical_def parse_ip_other to_digit_def is_ascii_digit_def is_ascii_lower_def is_ascii_upper_def)

theorem socks_destination_round_trip_witness:
  "(\<exists>rest. socks_handshake [[5, 1, 0, 5, 1], [0, 3, 5], str_bytes ''zc.io'' @ [0, 53, 7]]
       = (Ok (Some (Connect \<lparr>t_host = ''zc.io'', t_port = 53\<rparr>, rest)), [5, 0]) \<and> concat rest = [7])
     \<and> udp_request ([0, 0, 0, 3, 5] @ str_bytes ''zc.io'' @ [0, 53, 1, 2]) = Ok (\<lparr>t_host = ''zc.io'', t_port = 53\<rparr>, [1, 2])"
proof -
  let ?t = "\<lparr>t_host = ''zc.io'', t_port = 53\<rparr>"
  have w: "demo_write (destination ?t) = [3, 5] @ str_bytes ''zc.io'' @ [0, 53]"
    by (simp add: destination_def parse_ip_other to_digit_def is_ascii_digit_def is_ascii_lower_def is_ascii_upper_def u16_be_def)
  have "udp_response demo_write ?t [1, 2] = Ok ([0, 0, 0, 3, 5] @ str_bytes ''zc.io'' @ [0, 53, 1, 2])"
    by (simp add: udp_response_def w MAX_WIRE_BYTES_def)
  then show ?thesis
    using socks_destination_round_trip [OF demo_layout demo_wire_target, of "[[5, 1, 0, 5, 1], [0, 3, 5], str_bytes ''zc.io'' @ [0, 53, 7]]" "[7]"
        "[1, 2]" "[0, 0, 0, 3, 5] @ str_bytes ''zc.io'' @ [0, 53, 1, 2]"]
    by (simp add: w demo_canonical)
qed

theorem trojan_frames_round_trip_witness:
  "trojan_packets demo_read_address 2 [[3, 5], str_bytes ''zc.io'' @ [0, 53, 0, 1, 13], [10, 9, 3, 5], str_bytes ''zc.io'' @ [0, 53, 0, 0, 13, 10]]
     = Some [\<lparr>dg_source = \<lparr>t_host = ''zc.io'', t_port = 53\<rparr>, dg_payload = [9]\<rparr>, \<lparr>dg_source = \<lparr>t_host = ''zc.io'', t_port = 53\<rparr>, dg_payload = []\<rparr>]"
proof -
  let ?t = "\<lparr>t_host = ''zc.io'', t_port = 53\<rparr>"
  have w: "demo_write (destination ?t) = [3, 5] @ str_bytes ''zc.io'' @ [0, 53]"
    by (simp add: destination_def parse_ip_other to_digit_def is_ascii_digit_def is_ascii_lower_def is_ascii_upper_def u16_be_def)
  show ?thesis
    using trojan_frames_round_trip [OF demo_reads, of "[(?t, [9]), (?t, [])]"
        "[[3, 5], str_bytes ''zc.io'' @ [0, 53, 0, 1, 13], [10, 9, 3, 5], str_bytes ''zc.io'' @ [0, 53, 0, 0, 13, 10]]" "[]"]
    by (simp add: demo_wire_target demo_canonical trojan_frame_def w u16_be_def CRLF_def numeral_2_eq_2)
qed

end
