(* ===== verification/Serve.thy ===== *)
theory Serve
  imports Listing Http_Stream Socks
begin

text \<open>
  One client connection of the runtime (\<open>serve\<close>, \<open>dial\<close>, \<open>associate\<close> and \<open>udp_relay\<close> in
  \<open>src/src/runtime.rs\<close>).  A connection is the trace of the operations it performs on its registry guard and on
  the probe tickets, and the bytes it sends to the client.  What it meets is the argument \<open>serve_env\<close>: the outcome
  of connecting, of TLS, of claims, of timeouts and races, and the result of binding a socket.

  The lemmas show that every trace is a path of the state machine of \<open>Connection\<close>, so that the registry invariants
  hold with the real runtime and not only with an abstract client, and that a connection becomes active only
  through the node that the rules give for the destination it asked for.
\<close>

section \<open>Operations and environment\<close>

datatype guard_op =
    OpTarget target "socket_addr option" inbound
  | OpInbound inbound
  | OpRouted route
  | OpPhase phase
  | OpIdle
  | OpClaim string target nat
  | OpProbeRouted string route

fun apply_op :: "u64 \<Rightarrow> guard_op \<Rightarrow> registry \<Rightarrow> registry" where
  "apply_op k (OpTarget t d i) r = update k (set_target t d i) r"
| "apply_op k (OpInbound i) r = update k (set_inbound i) r"
| "apply_op k (OpRouted rt) r = update k (set_routed rt) r"
| "apply_op k (OpPhase ph) r = update k (set_phase ph) r"
| "apply_op k OpIdle r = update k set_idle r"
| "apply_op k (OpClaim _ _ _) r = r"
| "apply_op k (OpProbeRouted _ _) r = r"

datatype connected = Upstream "bytes list" | ConnectFailed "io_kind option" | ConnectTimedOut

record ('net, 'w) serve_env =
  se_ipnet :: "'net ipnet"
  se_dns :: "'w dns"
  se_config :: "'net config"
  se_codec :: codec
  se_write_address :: "address \<Rightarrow> bytes"
  se_late_route :: "nat \<Rightarrow> bool"
  se_route_kind :: "route_error \<Rightarrow> io_kind option"
  se_connect :: "nat \<Rightarrow> proxy \<Rightarrow> target \<Rightarrow> connected"
  se_claim :: "nat \<Rightarrow> string \<Rightarrow> target \<Rightarrow> bool"
  se_tls :: "nat \<Rightarrow> string \<Rightarrow> bool"
  se_race :: "nat \<Rightarrow> race"
  se_udp_permit :: bool
  se_udp_bound :: "socket_addr option"
  se_udp_open :: "proxy \<Rightarrow> target \<Rightarrow> bool"

definition match_context :: "socket_addr \<Rightarrow> match_context" where
  "match_context source = \<lparr>source_ip = Some (sa_ip source), source_port = Some (sa_port source), process_name = None\<rparr>"

section \<open>Dialling\<close>

datatype dialled = Dialled "bytes list" | DialRejected | DialFailed "io_kind option" | DialTimedOut

definition probe_ops :: "string option \<Rightarrow> route \<Rightarrow> guard_op list" where
  "probe_ops probe rt = (case probe of None \<Rightarrow> [] | Some token \<Rightarrow> [OpProbeRouted token rt])"

text \<open>The deadline of the whole dial may expire before the route is known, or while connecting.\<close>

definition dial ::
  "('net, 'w) serve_env \<Rightarrow> nat \<Rightarrow> target \<Rightarrow> socket_addr \<Rightarrow> string option \<Rightarrow> 'w \<Rightarrow> guard_op list \<times> dialled \<times> 'w" where
  "dial E n t source probe w =
     (if se_late_route E n then ([], DialTimedOut, w)
      else case route_with_context (se_ipnet E) (se_dns E) (se_config E) t (match_context source) w of
          (Err e, w) \<Rightarrow> ([], DialFailed (se_route_kind E e), w)
        | (Ok rt, w) \<Rightarrow>
            let prx = c_proxies (se_config E) ! rt_leaf_index rt; ops = OpRouted rt # probe_ops probe rt
            in if p_kind prx = Reject then (ops @ [OpPhase Rejected], DialRejected, w)
               else (case se_connect E n prx (rt_target rt) of
                   Upstream u \<Rightarrow> (ops, Dialled u, w)
                 | ConnectFailed kind \<Rightarrow> (ops, DialFailed kind, w)
                 | ConnectTimedOut \<Rightarrow> (ops, DialTimedOut, w)))"

section \<open>UDP associations\<close>

definition udp_kind :: "proxy \<Rightarrow> bool" where
  "udp_kind prx \<longleftrightarrow> p_udp prx \<and> (case p_kind prx of Shadowsocks _ _ _ _ \<Rightarrow> True | Trojan _ _ _ _ _ \<Rightarrow> True | _ \<Rightarrow> False)"

datatype udp_event =
    FromClient socket_addr bytes
  | FromUpstream datagram
  | SessionEnded
  | DeadlinePassed

record relay =
  rl_pinned :: "socket_addr option"
  rl_session :: "proxy option"

record relay_out =
  ro_ops :: "guard_op list"
  ro_upstream :: "(proxy \<times> target \<times> bytes \<times> socket_addr) list"
  ro_client :: "(socket_addr \<times> bytes) list"

definition nothing_out :: relay_out where
  "nothing_out = \<lparr>ro_ops = [], ro_upstream = [], ro_client = []\<rparr>"

text \<open>Opening the session for the first datagram: the session and the routed target, or the end of the relay.\<close>

definition open_session ::
  "('net, 'w) serve_env \<Rightarrow> target \<Rightarrow> socket_addr \<Rightarrow> 'w \<Rightarrow> guard_op list \<times> (proxy \<times> target) option \<times> 'w" where
  "open_session E t sender w =
     (let first = OpTarget t (Some sender) Socks5Udp
      in if se_late_route E 0 then ([first], None, w)
         else case route_udp_with_context (se_ipnet E) (se_dns E) (se_config E) t (match_context sender) w of
           (Err _, w) \<Rightarrow> ([first], None, w)
         | (Ok rt, w) \<Rightarrow>
             let prx = c_proxies (se_config E) ! rt_leaf_index rt
             in if \<not> udp_kind prx then ([first, OpRouted rt, OpPhase Rejected], None, w)
                else if \<not> se_udp_open E prx (rt_target rt) then ([first, OpRouted rt], None, w)
                else ([first, OpRouted rt, OpPhase Active], Some (prx, rt_target rt), w))"

text \<open>
  One iteration of \<open>udp_relay\<close>: what it does, and the state it goes on with, if it does.  A datagram that the
  session fails to send is still one it was asked to send.
\<close>

definition relay_step ::
  "('net, 'w) serve_env \<Rightarrow> ip_addr \<Rightarrow> udp_event \<Rightarrow> relay \<Rightarrow> 'w \<Rightarrow> relay_out \<times> relay option \<times> 'w" where
  "relay_step E client_ip ev st w = (case ev of
       DeadlinePassed \<Rightarrow> (nothing_out, None, w)
     | SessionEnded \<Rightarrow> (nothing_out, if rl_session st = None then Some st else None, w)
     | FromUpstream d \<Rightarrow>
         (if rl_session st = None then (nothing_out, Some st, w)
          else case rl_pinned st of
              None \<Rightarrow> (nothing_out, Some st, w)
            | Some client \<Rightarrow> (case udp_response (se_write_address E) (dg_source d) (dg_payload d) of
                  Err _ \<Rightarrow> (nothing_out, Some st, w)
                | Ok bs \<Rightarrow> (nothing_out\<lparr>ro_client := [(client, bs)]\<rparr>, Some st, w)))
     | FromClient sender bs \<Rightarrow>
         (if sa_ip sender \<noteq> client_ip \<or> sa_port sender = 0
             \<or> (case rl_pinned st of None \<Rightarrow> False | Some client \<Rightarrow> client \<noteq> sender)
          then (nothing_out, Some st, w)
          else case udp_request bs of
              Err _ \<Rightarrow> (nothing_out, Some st, w)
            | Ok (t, payload) \<Rightarrow> (case rl_session st of
                  Some prx \<Rightarrow> (nothing_out\<lparr>ro_upstream := [(prx, t, payload, sender)]\<rparr>,
                              Some (st\<lparr>rl_pinned := Some sender\<rparr>), w)
                | None \<Rightarrow> (case open_session E t sender w of
                      (ops, None, w) \<Rightarrow> (nothing_out\<lparr>ro_ops := ops\<rparr>, None, w)
                    | (ops, Some (prx, rt), w) \<Rightarrow>
                        (nothing_out\<lparr>ro_ops := ops, ro_upstream := [(prx, rt, payload, sender)]\<rparr>,
                         Some \<lparr>rl_pinned = Some sender, rl_session = Some prx\<rparr>, w)))))"

fun udp_relay :: "('net, 'w) serve_env \<Rightarrow> ip_addr \<Rightarrow> udp_event list \<Rightarrow> relay \<Rightarrow> 'w \<Rightarrow> relay_out \<times> 'w" where
  "udp_relay E client_ip [] st w = (nothing_out, w)"
| "udp_relay E client_ip (ev # evs) st w = (case relay_step E client_ip ev st w of
       (out, None, w) \<Rightarrow> (out, w)
     | (out, Some st, w) \<Rightarrow> (case udp_relay E client_ip evs st w of
           (more_out, w) \<Rightarrow> (\<lparr>ro_ops = ro_ops out @ ro_ops more_out, ro_upstream = ro_upstream out @ ro_upstream more_out,
                              ro_client = ro_client out @ ro_client more_out\<rparr>, w)))"

definition relay_start :: "ip_addr \<Rightarrow> u16 \<Rightarrow> relay" where
  "relay_start client_ip requested_port =
     \<lparr>rl_pinned = (if requested_port \<noteq> 0 then Some \<lparr>sa_ip = client_ip, sa_port = requested_port\<rparr> else None),
      rl_session = None\<rparr>"

definition associate ::
  "('net, 'w) serve_env \<Rightarrow> socket_addr \<Rightarrow> socket_addr \<Rightarrow> udp_event list \<Rightarrow> 'w \<Rightarrow> relay_out \<times> bytes \<times> 'w" where
  "associate E requested source evs w =
     (let refused = (\<lambda>c. (nothing_out\<lparr>ro_ops := [OpInbound Socks5Udp]\<rparr>, socks_reply c, w))
      in if \<not> list_ex udp_kind (c_proxies (se_config E)) then refused 7
         else if \<not> is_unspecified (sa_ip requested) \<and> sa_ip requested \<noteq> sa_ip source then refused 2
         else if \<not> se_udp_permit E then refused 1
         else case se_udp_bound E of
             None \<Rightarrow> refused 1
           | Some bound \<Rightarrow> (case target_new (ip_string (sa_ip bound)) (sa_port bound) of
                 Err _ \<Rightarrow> (nothing_out\<lparr>ro_ops := [OpInbound Socks5Udp]\<rparr>, [], w)
               | Ok t \<Rightarrow> (case udp_relay E (sa_ip source) evs (relay_start (sa_ip source) (sa_port requested)) w of
                     (out, w) \<Rightarrow> (out\<lparr>ro_ops := OpInbound Socks5Udp # ro_ops out\<rparr>,
                                  [5, 0, 0] @ se_write_address E (destination t), w))))"

section \<open>TCP connections\<close>

definition http_reply :: "string \<Rightarrow> bytes" where
  "http_reply status = str_bytes (''HTTP/1.1 '' @ status @ CRLF_text @ ''Content-Length: 0'' @ CRLF_text
     @ ''Connection: close'' @ CRLF_text @ CRLF_text)"

definition dial_code :: "dialled \<Rightarrow> u8" where
  "dial_code d = (case d of Dialled _ \<Rightarrow> 0 | DialRejected \<Rightarrow> 2 | DialFailed kind \<Rightarrow> socks_connect_error kind | DialTimedOut \<Rightarrow> 6)"

definition serve_socks ::
  "('net, 'w) serve_env \<Rightarrow> socket_addr \<Rightarrow> udp_event list \<Rightarrow> bytes list \<Rightarrow> 'w \<Rightarrow> guard_op list \<times> bytes \<times> 'w" where
  "serve_socks E source evs cs w = (case socks_handshake cs of
       (Err _, out) \<Rightarrow> ([], out, w)
     | (Ok None, out) \<Rightarrow> ([], out, w)
     | (Ok (Some (Associate requested, _)), out) \<Rightarrow> (case associate E requested source evs w of
           (ro, reply, w) \<Rightarrow> (ro_ops ro, out @ reply, w))
     | (Ok (Some (Connect t, _)), out) \<Rightarrow> (case dial E 0 t source None w of
           (ops, d, w) \<Rightarrow> (OpTarget t None Socks5Connect # ops @ (case d of Dialled _ \<Rightarrow> [OpPhase Active] | _ \<Rightarrow> []),
                           out @ socks_reply (dial_code d), w)))"

text \<open>
  One HTTP request: what it does, what it sends to the client, and the stream of the next request if the connection is kept.
\<close>

definition serve_forward ::
  "('net, 'w) serve_env \<Rightarrow> nat \<Rightarrow> http_request \<Rightarrow> forward \<Rightarrow> bytes list \<Rightarrow> bytes list \<Rightarrow> guard_op list \<times> bytes \<times> bytes list option" where
  "serve_forward E n rq f client upstream =
     (if f_tls f \<and> \<not> se_tls E n (t_host (hr_target rq)) then ([], http_reply ''502 Bad Gateway'', None)
      else let g = f\<lparr>f_keep_alive := f_keep_alive f \<and> n < 1023\<rparr>; sent = snd (forward_response (se_codec E) g upstream)
        in case forward_http (se_codec E) g (se_race E n) client upstream of
             Ok (True, rest) \<Rightarrow> ([OpPhase Active, OpIdle], sent, Some rest)
           | _ \<Rightarrow> ([OpPhase Active], sent, None))"

definition serve_request ::
  "('net, 'w) serve_env \<Rightarrow> socket_addr \<Rightarrow> nat \<Rightarrow> http_request \<Rightarrow> bytes list \<Rightarrow> 'w \<Rightarrow> guard_op list \<times> bytes \<times> bytes list option \<times> 'w" where
  "serve_request E source n rq client w =
     (let t = hr_target rq; first = OpTarget t None (if hr_forward rq = None then HttpConnect else HttpForward);
          claim = (case hr_probe rq of None \<Rightarrow> [] | Some token \<Rightarrow> [OpClaim token t n])
      in if (case hr_probe rq of None \<Rightarrow> False | Some token \<Rightarrow> \<not> se_claim E n token t)
         then (first # claim, http_reply ''502 Bad Gateway'', None, w)
         else case dial E n t source (hr_probe rq) w of
           (ops, Dialled u, w) \<Rightarrow> (case hr_forward rq of
               None \<Rightarrow> (first # claim @ ops @ [OpPhase Active],
                        str_bytes (''HTTP/1.1 200 Connection Established'' @ CRLF_text @ CRLF_text), None, w)
             | Some f \<Rightarrow> (case serve_forward E n rq f client u of
                   (ops', out, rest) \<Rightarrow> (first # claim @ ops @ ops', out, rest, w)))
         | (ops, _, w) \<Rightarrow> (first # claim @ ops, http_reply ''502 Bad Gateway'', None, w))"

text \<open>A client that closes between two requests ends the connection quietly.\<close>

definition client_done :: "nat \<Rightarrow> bytes list \<Rightarrow> bool" where
  "client_done n cs \<longleftrightarrow> n \<noteq> 0 \<and> concat (take 1 cs) = []"

text \<open>The loop over the requests of a connection; \<open>left\<close> counts down from 1024.\<close>

fun serve_http :: "('net, 'w) serve_env \<Rightarrow> socket_addr \<Rightarrow> nat \<Rightarrow> bytes list \<Rightarrow> 'w \<Rightarrow> guard_op list \<times> bytes \<times> 'w" where
  "serve_http E source 0 cs w = ([], [], w)"
| "serve_http E source (Suc left) cs w =
     (let n = 1024 - Suc left
      in if client_done n cs then ([], [], w)
         else case http_handshake (se_codec E) cs of
           Err _ \<Rightarrow> ([], http_reply ''400 Bad Request'', w)
         | Ok (rq, client) \<Rightarrow> (case serve_request E source n rq client w of
             (ops, out, None, w) \<Rightarrow> (ops, out, w)
           | (ops, out, Some rest, w) \<Rightarrow> (case serve_http E source left rest w of
                 (more_ops, more_out, w) \<Rightarrow> (ops @ more_ops, out @ more_out, w))))"

definition serve ::
  "('net, 'w) serve_env \<Rightarrow> socket_addr \<Rightarrow> udp_event list \<Rightarrow> bytes list \<Rightarrow> 'w \<Rightarrow> guard_op list \<times> bytes \<times> 'w" where
  "serve E source evs cs w = (case concat (take 1 cs) of
       [] \<Rightarrow> ([], [], w)
     | b # _ \<Rightarrow> if b = 5 then serve_socks E source evs cs w else serve_http E source 1024 cs w)"

section \<open>Targets and routes are well formed\<close>

lemma target_new_ok: "target_new h p = Ok t \<Longrightarrow> target_ok t"
  using parse_ip_length [of h]
  by (auto simp: target_new_Ok_iff target_ok_def parse_ip_Nil dns_name_def strip_suffix_Some_iff Let_def split: option.splits)

lemma target_from_socks_ok: "target_from_socks h p = Ok t \<Longrightarrow> target_ok t"
  by (auto simp: target_from_socks_Ok_iff target_ok_def)

lemma finish_route_ok:
  assumes "finish_route c t index r allowed pinned resolved = Ok rt" "target_ok t"
  shows "rt_rule_index rt = index \<and> rt_leaf_index rt < length (c_proxies c) \<and> target_ok (rt_target rt)"
proof -
  obtain x where "pinned_target t x = Ok (rt_target rt)" using assms(1) by (auto simp: finish_route_Ok_iff)
  then have "target_ok (rt_target rt)"
    using assms(2) length_ip_string by (auto simp: pinned_target_Ok_iff at_address_def target_ok_def split: option.splits)
  then show ?thesis using assms(1) by (auto simp: finish_route_Ok_iff)
qed

lemma route_loop_ok:
  "route_loop N D c t ctx rs index allowed resolved w = (Ok rt, w') \<Longrightarrow> target_ok t \<Longrightarrow>
     rt_rule_index rt < index + length rs \<and> rt_leaf_index rt < length (c_proxies c) \<and> target_ok (rt_target rt)"
proof (induction N D c t ctx rs index allowed resolved w rule: route_loop.induct)
  case (2 N D c t ctx r rs index allowed resolved w)
  let ?allowed = "if resolves (r_matcher r) then allowed \<and> static_direct c r else allowed"
  obtain x w1 where x: "match_rule N D t ctx (r_matcher r) resolved w = (x, w1)" by fastforce
  then obtain m pn rs' where m: "x = Ok (m, pn, rs')" using 2(2) by (cases x) (auto simp: Let_def)
  show ?case
  proof (cases m)
    case True
    then have "finish_route c t index r ?allowed pn rs' = Ok rt" using 2(2) x m by (simp add: Let_def)
    from finish_route_ok [OF this 2(3)] show ?thesis by simp
  next
    case False
    then have "route_loop N D c t ctx rs (Suc index) ?allowed rs' w1 = (Ok rt, w')" using 2(2) x m by (simp add: Let_def)
    from 2(1) [OF refl x [symmetric] m refl refl False this 2(3)] show ?thesis by simp
  qed
qed simp

lemma route_inner_ok: "route_inner N D c t ctx tcp w = (Ok rt, w') \<Longrightarrow> target_ok t \<Longrightarrow> route_ok c rt"
  using route_loop_ok [of N D c t ctx "c_rules c" 0 tcp None w rt w'] by (simp add: route_inner_def route_ok_def)

section \<open>Traces\<close>

text \<open>
  The state of a trace: where the connection is, the request that is being served (its target, the context of the
  rules, and whether it is TCP), and its route.  \<open>op_step\<close> says which operation may come next.
\<close>

type_synonym request_context = "target \<times> match_context \<times> bool"
type_synonym trace_state = "point \<times> request_context option \<times> route option"

definition relayable :: "bool \<Rightarrow> proxy \<Rightarrow> bool" where
  "relayable tcp prx \<longleftrightarrow> (if tcp then p_kind prx \<noteq> Reject else udp_kind prx)"

inductive op_step :: "('net, 'w) serve_env \<Rightarrow> socket_addr \<Rightarrow> trace_state \<Rightarrow> guard_op \<Rightarrow> trace_state \<Rightarrow> bool" for E source where
  request_tcp: "i = Socks5Connect \<and> q = AtStart \<or> i \<in> {HttpForward, HttpConnect} \<and> q \<in> {AtStart, AtIdle} \<Longrightarrow> target_ok t \<Longrightarrow>
    op_step E source (q, req, rt) (OpTarget t None i) (AtTarget i, Some (t, match_context source, True), None)"
| request_udp: "target_ok t \<Longrightarrow>
    op_step E source (AtUdpWait, req, rt) (OpTarget t (Some sender) Socks5Udp) (AtTarget Socks5Udp, Some (t, match_context sender, False), None)"
| udp_wait: "op_step E source (AtStart, req, rt) (OpInbound Socks5Udp) (AtUdpWait, None, None)"
| route: "route_inner (se_ipnet E) (se_dns E) (se_config E) t ctx tcp w = (Ok rt, w') \<Longrightarrow> target_ok t \<Longrightarrow>
    op_step E source (AtTarget i, Some (t, ctx, tcp), None) (OpRouted rt) (AtRouted i, Some (t, ctx, tcp), Some rt)"
| reject: "op_step E source (AtRouted i, req, Some rt) (OpPhase Rejected) (AtRejected i, req, Some rt)"
| activate: "relayable tcp (c_proxies (se_config E) ! rt_leaf_index rt) \<Longrightarrow>
    op_step E source (AtRouted i, Some (t, ctx, tcp), Some rt) (OpPhase Active) (AtActive i, Some (t, ctx, tcp), Some rt)"
| finish: "op_step E source (AtActive HttpForward, req, rt) OpIdle (AtIdle, None, None)"
| claim_probe: "op_step E source (AtTarget i, Some (t, ctx, tcp), None) (OpClaim token t n) (AtTarget i, Some (t, ctx, tcp), None)"
| route_probe: "op_step E source (AtRouted i, req, Some rt) (OpProbeRouted token rt) (AtRouted i, req, Some rt)"

inductive trace :: "('net, 'w) serve_env \<Rightarrow> socket_addr \<Rightarrow> trace_state \<Rightarrow> guard_op list \<Rightarrow> trace_state \<Rightarrow> bool" for E source where
  trace_Nil: "trace E source st [] st"
| trace_Cons: "op_step E source st op st1 \<Longrightarrow> trace E source st1 ops st2 \<Longrightarrow> trace E source st (op # ops) st2"

lemma trace_append: "trace E source st ops st1 \<Longrightarrow> trace E source st1 ops' st2 \<Longrightarrow> trace E source st (ops @ ops') st2"
  by (induction rule: trace.induct) (auto intro: trace_Cons)

lemma trace_single: "op_step E source st op st' \<Longrightarrow> trace E source st [op] st'"
  by (auto intro: trace.intros)

text \<open>Every operation is a step of the registry, or leaves it alone.\<close>

lemma op_step_conn_step:
  assumes "op_step E source (q, req, rt) op (q', req', rt')" "p k = Some q"
  shows "conn_step target_ok (route_ok (se_config E)) (r, p) (apply_op k op r, p(k \<mapsto> q'))
     \<or> apply_op k op r = r \<and> q' = q"
  using assms(1)
proof cases
  case request_tcp
  then show ?thesis using assms(2) by (auto intro: conn_step.socks_connect conn_step.http_request)
next
  case (request_udp t sender)
  then show ?thesis using assms(2) by (auto intro: conn_step.first_datagram)
next
  case udp_wait
  then show ?thesis using assms(2) by (auto intro: conn_step.associate)
next
  case (route t ctx tcp w rt1 w1 i)
  have "route_ok (se_config E) rt1" by (rule route_inner_ok) fact+
  then show ?thesis using route assms(2) by (auto intro: conn_step.routed)
next
  case reject
  then show ?thesis using assms(2) by (auto intro: conn_step.rejected)
next
  case activate
  then show ?thesis using assms(2) by (auto intro: conn_step.active)
next
  case finish
  then show ?thesis using assms(2) by (auto intro: conn_step.idle)
qed auto

section \<open>Every connection is a trace\<close>

lemma dial_trace:
  assumes "target_ok t" "dial E n t source probe w = (ops, d, w')"
  shows "\<exists>q rt. trace E source (AtTarget i, Some (t, match_context source, True), None) ops (q, Some (t, match_context source, True), rt)
     \<and> (\<forall>u. d = Dialled u \<longrightarrow> q = AtRouted i \<and> (\<exists>r. rt = Some r \<and> relayable True (c_proxies (se_config E) ! rt_leaf_index r)))"
proof -
  let ?ctx = "match_context source"
  let ?req = "Some (t, ?ctx, True)"
  let ?route = "route_with_context (se_ipnet E) (se_dns E) (se_config E) t ?ctx w"
  show ?thesis
  proof (cases "se_late_route E n \<or> (\<exists>e. fst ?route = Err e)")
    case True
    then have "ops = [] \<and> (\<forall>u. d \<noteq> Dialled u)" using assms(2) by (cases ?route) (auto simp: dial_def split: if_splits result.splits)
    then show ?thesis using trace_Nil by blast
  next
    case False
    then obtain rt w1 where r: "?route = (Ok rt, w1)" "\<not> se_late_route E n" by (cases ?route; cases "fst ?route") auto
    let ?prx = "c_proxies (se_config E) ! rt_leaf_index rt"
    have "op_step E source (AtTarget i, ?req, None) (OpRouted rt) (AtRouted i, ?req, Some rt)"
      using r(1) assms(1) by (auto simp: route_with_context_def intro: op_step.route)
    moreover have "trace E source (AtRouted i, ?req, Some rt) (probe_ops probe rt) (AtRouted i, ?req, Some rt)"
      by (auto simp: probe_ops_def intro: trace_Nil trace_single op_step.route_probe split: option.splits)
    ultimately have t1: "trace E source (AtTarget i, ?req, None) (OpRouted rt # probe_ops probe rt) (AtRouted i, ?req, Some rt)"
      by (rule trace_Cons)
    show ?thesis
    proof (cases "p_kind ?prx = Reject")
      case True
      then have "ops = (OpRouted rt # probe_ops probe rt) @ [OpPhase Rejected]" "d = DialRejected"
        using assms(2) r by (auto simp: dial_def Let_def)
      then show ?thesis using trace_append [OF t1 trace_single [OF op_step.reject]] by blast
    next
      case False
      then have "ops = OpRouted rt # probe_ops probe rt" using assms(2) r by (auto simp: dial_def Let_def split: connected.splits)
      then show ?thesis using t1 False by (intro exI [of _ "AtRouted i"] exI [of _ "Some rt"]) (simp add: relayable_def)
    qed
  qed
qed

lemma serve_forward_trace:
  assumes "serve_forward E n rq f client u = (ops, out, rest)" "relayable True (c_proxies (se_config E) ! rt_leaf_index rt)"
  shows "\<exists>st. trace E source (AtRouted HttpForward, Some (t, ctx, True), Some rt) ops st \<and> (rest \<noteq> None \<longrightarrow> fst st = AtIdle)"
proof -
  have a: "op_step E source (AtRouted HttpForward, Some (t, ctx, True), Some rt) (OpPhase Active) (AtActive HttpForward, Some (t, ctx, True), Some rt)"
    using assms(2) by (rule op_step.activate)
  have "ops = [] \<and> rest = None \<or> ops = [OpPhase Active] \<and> rest = None \<or> ops = [OpPhase Active, OpIdle]"
    using assms(1) by (auto simp: serve_forward_def Let_def split: if_splits result.splits bool.splits prod.splits)
  then show ?thesis using trace_Nil trace_single [OF a] trace_Cons [OF a trace_single [OF op_step.finish]] by fastforce
qed

lemma http_handshake_target: "http_handshake P cs = Ok (rq, client) \<Longrightarrow> target_ok (hr_target rq)"
proof -
  assume "http_handshake P cs = Ok (rq, client)"
  then obtain p where "http_request_of p = Ok rq"
    by (auto simp: http_handshake_def result_simps split: option.splits if_splits)
  then obtain path connect origin where "request_target connect path (hp_headers p) = Ok (hr_target rq, origin)" "path_bytes_ok path"
    by (auto simp: http_request_of_def result_simps Let_def split: if_splits)
  then show ?thesis using request_target_Ok target_new_ok by blast
qed

lemma serve_request_trace:
  assumes "serve_request E source n rq client w = (ops, out, rest, w')" "target_ok (hr_target rq)" "q \<in> {AtStart, AtIdle}"
  shows "\<exists>st. trace E source (q, req, rt) ops st \<and> (rest \<noteq> None \<longrightarrow> fst st = AtIdle)"
proof -
  let ?t = "hr_target rq" and ?ctx = "match_context source"
  let ?i = "if hr_forward rq = None then HttpConnect else HttpForward"
  let ?claim = "case hr_probe rq of None \<Rightarrow> [] | Some token \<Rightarrow> [OpClaim token ?t n]"
  have "op_step E source (q, req, rt) (OpTarget ?t None ?i) (AtTarget ?i, Some (?t, ?ctx, True), None)"
    using assms(2,3) by (intro op_step.request_tcp) auto
  moreover have "trace E source (AtTarget ?i, Some (?t, ?ctx, True), None) ?claim (AtTarget ?i, Some (?t, ?ctx, True), None)"
    by (auto intro: trace_Nil trace_single op_step.claim_probe split: option.splits)
  ultimately have t1: "trace E source (q, req, rt) (OpTarget ?t None ?i # ?claim) (AtTarget ?i, Some (?t, ?ctx, True), None)"
    by (rule trace_Cons)
  show ?thesis
  proof (cases "case hr_probe rq of None \<Rightarrow> False | Some token \<Rightarrow> \<not> se_claim E n token ?t")
    case True
    then show ?thesis using assms(1) t1 by (auto simp: serve_request_def Let_def)
  next
    case False
    obtain dops d w1 where d: "dial E n ?t source (hr_probe rq) w = (dops, d, w1)" by (cases "dial E n ?t source (hr_probe rq) w") auto
    obtain q1 r1 where q1: "trace E source (AtTarget ?i, Some (?t, ?ctx, True), None) dops (q1, Some (?t, ?ctx, True), r1)"
      "\<forall>u. d = Dialled u \<longrightarrow> q1 = AtRouted ?i \<and> (\<exists>r. r1 = Some r \<and> relayable True (c_proxies (se_config E) ! rt_leaf_index r))"
      using dial_trace [OF assms(2) d, of ?i] by (elim exE conjE) (rule that)
    have t2: "trace E source (q, req, rt) (OpTarget ?t None ?i # ?claim @ dops) (q1, Some (?t, ?ctx, True), r1)"
      using trace_append [OF t1 q1(1)] by simp
    show ?thesis
    proof (cases d)
      case (Dialled u)
      then obtain r where r: "r1 = Some r" "relayable True (c_proxies (se_config E) ! rt_leaf_index r)" "q1 = AtRouted ?i" using q1(2) by blast
      show ?thesis
      proof (cases "hr_forward rq")
        case None
        then have "ops = (OpTarget ?t None ?i # ?claim @ dops) @ [OpPhase Active]" "rest = None"
          using assms(1) False d Dialled by (auto simp: serve_request_def Let_def)
        then show ?thesis using trace_append [OF t2 [unfolded r(1,3)] trace_single [OF op_step.activate [OF r(2)]]] by blast
      next
        case (Some f)
        obtain fops fout frest where f: "serve_forward E n rq f client u = (fops, fout, frest)"
          by (cases "serve_forward E n rq f client u") auto
        then have o: "ops = (OpTarget ?t None ?i # ?claim @ dops) @ fops" "rest = frest"
          using assms(1) False d Dialled Some by (auto simp: serve_request_def Let_def)
        have i: "?i = HttpForward" using Some by simp
        obtain st where "trace E source (AtRouted ?i, Some (?t, ?ctx, True), Some r) fops st" "frest \<noteq> None \<longrightarrow> fst st = AtIdle"
          using serve_forward_trace [OF f r(2), of source ?t ?ctx] unfolding i by blast
        then show ?thesis using trace_append [OF t2 [unfolded r(1,3)]] o by blast
      qed
    qed (use assms(1) False d t2 in \<open>auto simp: serve_request_def Let_def\<close>)
  qed
qed

lemma serve_http_trace:
  "q \<in> {AtStart, AtIdle} \<Longrightarrow> serve_http E source left cs w = (ops, out, w') \<Longrightarrow> \<exists>st. trace E source (q, req, rt) ops st"
proof (induction E source left cs w arbitrary: q req rt ops out w' rule: serve_http.induct)
  case (1 E source cs w)
  then have "ops = []" by simp
  then show ?case using trace_Nil by blast
next
  case (2 E source left cs w)
  let ?n = "1024 - Suc left"
  show ?case
  proof (cases "client_done ?n cs \<or> (\<exists>e. http_handshake (se_codec E) cs = Err e)")
    case True
    then have "ops = []" using 2(3) by (auto simp: Let_def split: if_splits result.splits)
    then show ?thesis using trace_Nil by blast
  next
    case False
    then obtain rq client where h: "http_handshake (se_codec E) cs = Ok (rq, client)" by (cases "http_handshake (se_codec E) cs") auto
    obtain rops rout rest w1 where r: "serve_request E source ?n rq client w = (rops, rout, rest, w1)"
      by (cases "serve_request E source ?n rq client w") auto
    obtain st where st: "trace E source (q, req, rt) rops st" "rest \<noteq> None \<longrightarrow> fst st = AtIdle"
      using serve_request_trace [OF r http_handshake_target [OF h] 2(2)] by blast
    show ?thesis
    proof (cases rest)
      case None
      then have "ops = rops" using 2(3) False h r by (auto simp: Let_def)
      then show ?thesis using st by blast
    next
      case (Some cs1)
      obtain mops mout w2 where m: "serve_http E source left cs1 w1 = (mops, mout, w2)" by (cases "serve_http E source left cs1 w1") auto
      have "ops = rops @ mops" using 2(3) False h r Some m by (auto simp: Let_def)
      moreover have nd: "\<not> client_done ?n cs" using False by blast
      obtain a b c where abc: "st = (a, b, c)" by (cases st)
      then have "a \<in> {AtStart, AtIdle}" using st(2) Some by simp
      from 2(1) [OF refl nd h refl r [symmetric] refl refl Some this m, of b c]
      obtain st1 where "trace E source st mops st1" unfolding abc by blast
      ultimately show ?thesis using trace_append [OF st(1)] by blast
    qed
  qed
qed

section \<open>UDP associations\<close>

lemma open_session_trace:
  assumes "open_session E t sender w = (ops, r, w')" "target_ok t"
  shows "\<exists>st. trace E source (AtUdpWait, req, rt) ops st"
proof -
  let ?r = "Some (t, match_context sender, False)"
  have a: "op_step E source (AtUdpWait, req, rt) (OpTarget t (Some sender) Socks5Udp) (AtTarget Socks5Udp, ?r, None)"
    using assms(2) by (rule op_step.request_udp)
  have b: "op_step E source (AtTarget Socks5Udp, ?r, None) (OpRouted x) (AtRouted Socks5Udp, ?r, Some x)"
    if "route_udp_with_context (se_ipnet E) (se_dns E) (se_config E) t (match_context sender) w = (Ok x, w1)" for x w1
    using that assms(2) by (auto simp: route_udp_with_context_def intro: op_step.route)
  have c: "op_step E source (AtRouted Socks5Udp, ?r, Some x) (OpPhase Active) (AtActive Socks5Udp, ?r, Some x)"
    if "udp_kind (c_proxies (se_config E) ! rt_leaf_index x)" for x
    using that by (intro op_step.activate) (simp add: relayable_def)
  have one: "\<exists>st. trace E source (AtUdpWait, req, rt) [OpTarget t (Some sender) Socks5Udp] st" using trace_single [OF a] by blast
  obtain res w1 where res: "route_udp_with_context (se_ipnet E) (se_dns E) (se_config E) t (match_context sender) w = (res, w1)" by fastforce
  show ?thesis
  proof (cases "se_late_route E 0 \<or> (\<exists>e. res = Err e)")
    case True
    then have "ops = [OpTarget t (Some sender) Socks5Udp]" using assms(1) res by (auto simp: open_session_def Let_def split: if_splits)
    then show ?thesis using one by simp
  next
    case False
    then obtain x where x: "res = Ok x" by (cases res) auto
    note b = b [OF res [unfolded x]]
    have two: "trace E source (AtUdpWait, req, rt) [OpTarget t (Some sender) Socks5Udp, OpRouted x] (AtRouted Socks5Udp, ?r, Some x)"
      using trace_Cons [OF a trace_single [OF b]] .
    have "ops = [OpTarget t (Some sender) Socks5Udp, OpRouted x, OpPhase Rejected] \<or> ops = [OpTarget t (Some sender) Socks5Udp, OpRouted x]
       \<or> ops = [OpTarget t (Some sender) Socks5Udp, OpRouted x, OpPhase Active] \<and> udp_kind (c_proxies (se_config E) ! rt_leaf_index x)"
      using assms(1) res x False by (auto simp: open_session_def Let_def split: if_splits)
    then show ?thesis
      using two trace_append [OF two trace_single [OF op_step.reject]] trace_append [OF two trace_single [OF c]] by auto
  qed
qed

lemma open_session_Some: "open_session E t sender w = (ops, Some (prx, rt), w') \<Longrightarrow> udp_kind prx"
  by (auto simp: open_session_def Let_def split: if_splits prod.splits result.splits)

lemma udp_request_target:
  assumes "udp_request bs = Ok (t, payload)"
  shows "target_ok t"
proof -
  obtain host e pb where "(case target_from_socks host (be_port pb) of Err f \<Rightarrow> Err (UdpTarget f) | Ok t \<Rightarrow> Ok (t, drop (e + 2) bs)) = Ok (t, payload)"
    using assms by (auto simp: udp_request_def simp del: result.case split: if_splits elim!: and_thenE)
  then show ?thesis using target_from_socks_ok by (cases "target_from_socks host (be_port pb)") auto
qed

lemma relay_step_cases:
  assumes "relay_step E ip ev st w = (out, next_st, w')"
  obtains (stop) "out = nothing_out" "next_st = None"
  | (idle) "out = nothing_out" "next_st = Some st"
  | (answer) client bs where "out = nothing_out\<lparr>ro_client := [(client, bs)]\<rparr>" "next_st = Some st" "rl_pinned st = Some client" "length bs \<le> MAX_WIRE_BYTES"
  | (send) prx t payload sender where "out = nothing_out\<lparr>ro_upstream := [(prx, t, payload, sender)]\<rparr>" "rl_session st = Some prx"
      "next_st = Some (st\<lparr>rl_pinned := Some sender\<rparr>)" "sa_ip sender = ip" "rl_pinned st = None \<or> rl_pinned st = Some sender"
  | (fail) t sender ops where "rl_session st = None" "open_session E t sender w = (ops, None, w')" "target_ok t"
      "out = nothing_out\<lparr>ro_ops := ops\<rparr>" "next_st = None"
  | (opened) t sender ops prx rt payload where "rl_session st = None" "open_session E t sender w = (ops, Some (prx, rt), w')" "target_ok t"
      "out = nothing_out\<lparr>ro_ops := ops, ro_upstream := [(prx, rt, payload, sender)]\<rparr>"
      "next_st = Some \<lparr>rl_pinned = Some sender, rl_session = Some prx\<rparr>" "sa_ip sender = ip" "rl_pinned st = None \<or> rl_pinned st = Some sender"
proof (cases ev)
  case (FromClient sender bs)
  let ?bad = "sa_ip sender \<noteq> ip \<or> sa_port sender = 0 \<or> (case rl_pinned st of None \<Rightarrow> False | Some client \<Rightarrow> client \<noteq> sender)"
  show ?thesis
  proof (cases "?bad \<or> (\<exists>e. udp_request bs = Err e)")
    case True
    then show ?thesis using assms FromClient idle by (auto simp: relay_step_def split: if_splits result.splits)
  next
    case False
    then obtain t payload where u: "udp_request bs = Ok (t, payload)" by (cases "udp_request bs") auto
    have p: "sa_ip sender = ip" "rl_pinned st = None \<or> rl_pinned st = Some sender" using False by (auto split: option.splits)
    have nb: "\<not> ?bad" using False by blast
    note step = assms [unfolded relay_step_def FromClient udp_event.case if_not_P [OF nb] u result.case prod.case]
    show ?thesis
    proof (cases "rl_session st")
      case (Some prx)
      then show ?thesis using step send [of prx t payload sender] p by simp
    next
      case None
      obtain ops r w1 where o: "open_session E t sender w = (ops, r, w1)" by (cases "open_session E t sender w") auto
      show ?thesis
      proof (cases r)
        case (Some x)
        then show ?thesis using step None o opened [of t sender ops "fst x" "snd x" payload] udp_request_target [OF u] p by (cases x) auto
      qed (use step None o fail [of t sender ops] udp_request_target [OF u] in auto)
    qed
  qed
next
  case (FromUpstream d)
  have "length bs \<le> MAX_WIRE_BYTES" if "udp_response W a b = Ok bs" for W a b bs
    using that by (auto simp: udp_response_def Let_def split: if_splits)
  then show ?thesis using assms FromUpstream idle answer
    by (auto simp: relay_step_def split: if_splits result.splits option.splits)
qed (use assms stop idle in \<open>auto simp: relay_step_def split: if_splits\<close>)

lemma udp_relay_trace:
  "udp_relay E ip evs st w = (out, w') \<Longrightarrow>
     (if rl_session st = None then \<exists>s. trace E source (AtUdpWait, req, rt) (ro_ops out) s else ro_ops out = [])"
proof (induction E ip evs st w arbitrary: out w' req rt rule: udp_relay.induct)
  case (1 E ip st w)
  then have "ro_ops out = []" by (auto simp: nothing_out_def)
  then show ?case using trace_Nil [of E source "(AtUdpWait, req, rt)"] by (metis (full_types))
next
  case (2 E ip ev evs st w)
  obtain o1 s1 w1 where s: "relay_step E ip ev st w = (o1, s1, w1)" by (cases "relay_step E ip ev st w") auto
  show ?case
  proof (cases s1)
    case None
    then have [simp]: "out = o1" using 2(2) s by simp
    show ?thesis using s
    proof (cases rule: relay_step_cases)
      case (fail t sender ops)
      then show ?thesis using open_session_trace [OF fail(2,3), of source req rt] by simp
    next
      case stop
      then show ?thesis using trace_Nil [of E source "(AtUdpWait, req, rt)"] by (simp add: nothing_out_def) blast
    qed (simp_all add: None)
  next
    case (Some st1)
    obtain o2 w2 where u: "udp_relay E ip evs st1 w1 = (o2, w2)" by fastforce
    have ops: "ro_ops out = ro_ops o1 @ ro_ops o2" using 2(2) s u Some by auto
    note IH = 2(1) [OF s [symmetric] refl Some u]
    show ?thesis using s
    proof (cases rule: relay_step_cases)
      case (opened t sender ops prx x payload)
      then have "ro_ops out = ops" using ops IH Some by (simp add: nothing_out_def)
      then show ?thesis using open_session_trace [OF opened(2,3), of source req rt] opened(1) by simp
    qed (use IH ops Some in \<open>auto simp: nothing_out_def\<close>)
  qed
qed

lemma associate_trace:
  assumes "associate E requested source evs w = (ro, reply, w')"
  shows "\<exists>st. trace E source (AtStart, req, rt) (ro_ops ro) st"
proof -
  note wait = op_step.udp_wait [of E source req rt]
  obtain out w1 where u: "udp_relay E (sa_ip source) evs (relay_start (sa_ip source) (sa_port requested)) w = (out, w1)" by fastforce
  have "ro_ops ro = [OpInbound Socks5Udp] \<or> ro_ops ro = OpInbound Socks5Udp # ro_ops out"
    using assms u by (auto simp: associate_def Let_def split: if_splits option.splits result.splits)
  moreover obtain st where "trace E source (AtUdpWait, None, None) (ro_ops out) st"
    using udp_relay_trace [OF u, where source = source and req = None and rt = None] by (auto simp: relay_start_def)
  ultimately show ?thesis using trace_single [OF wait] trace_Cons [OF wait] by metis
qed

lemma socks_request_target: "socks_request cs = Ok (Connect t, rest) \<Longrightarrow> target_ok t"
  by (auto simp: socks_request_def Let_def target_from_socks_ok split: if_splits result.splits option.splits elim!: and_thenE)

lemma socks_handshake_target: "socks_handshake cs = (Ok (Some (Connect t, rest)), out) \<Longrightarrow> target_ok t"
  by (auto simp: socks_handshake_def socks_request_target split: if_splits option.splits result.splits prod.splits)

lemma serve_socks_trace:
  assumes "serve_socks E source evs cs w = (ops, out, w')"
  shows "\<exists>st. trace E source (AtStart, req, rt) ops st"
proof (cases "socks_handshake cs")
  case (Pair h o1)
  consider "ops = []" | t rest where "h = Ok (Some (Connect t, rest))" | a rest where "h = Ok (Some (Associate a, rest))"
    using assms Pair by (auto simp: serve_socks_def split: result.splits option.splits SocksRequest.splits)
  then show ?thesis
  proof cases
    case 1
    then show ?thesis using trace_Nil by blast
  next
    case (2 t rest)
    obtain dops d w1 where d: "dial E 0 t source None w = (dops, d, w1)" by (cases "dial E 0 t source None w") auto
    have t: "target_ok t" using socks_handshake_target Pair 2 by blast
    have a: "op_step E source (AtStart, req, rt) (OpTarget t None Socks5Connect) (AtTarget Socks5Connect, Some (t, match_context source, True), None)"
      using t by (intro op_step.request_tcp) simp_all
    have ops: "ops = OpTarget t None Socks5Connect # dops @ (case d of Dialled _ \<Rightarrow> [OpPhase Active] | _ \<Rightarrow> [])"
      using assms Pair 2 d by (simp add: serve_socks_def)
    obtain q x where tr: "trace E source (AtTarget Socks5Connect, Some (t, match_context source, True), None) dops (q, Some (t, match_context source, True), x)"
      and q: "\<forall>u. d = Dialled u \<longrightarrow> q = AtRouted Socks5Connect \<and> (\<exists>r. x = Some r \<and> relayable True (c_proxies (se_config E) ! rt_leaf_index r))"
      using dial_trace [OF t d, of Socks5Connect] by (elim exE conjE) (rule that)
    show ?thesis
    proof (cases d)
      case (Dialled u)
      then obtain r where r: "q = AtRouted Socks5Connect" "x = Some r" "relayable True (c_proxies (se_config E) ! rt_leaf_index r)" using q by auto
      note b = op_step.activate [where E = E and source = source and i = Socks5Connect and t = t and ctx = "match_context source", OF r(3)]
      show ?thesis using trace_Cons [OF a trace_append [OF tr [unfolded r(1,2)] trace_single [OF b]]]
        unfolding ops Dialled dialled.case by blast
    qed (use ops trace_Cons [OF a tr] in \<open>simp_all, blast+\<close>)
  next
    case (3 a rest)
    obtain ro reply w1 where ro: "associate E a source evs w = (ro, reply, w1)" by (cases "associate E a source evs w") auto
    then have "ops = ro_ops ro" using assms Pair 3 by (simp add: serve_socks_def)
    then show ?thesis using associate_trace [OF ro] by simp
  qed
qed

lemma serve_trace:
  assumes "serve E source evs cs w = (ops, out, w')"
  shows "\<exists>st. trace E source (AtStart, req, rt) ops st"
proof (cases "concat (take 1 cs)")
  case Nil
  then have "ops = []" using assms unfolding serve_def by (simp only: list.case prod.inject)
  then show ?thesis using trace_Nil by blast
next
  case (Cons b bs)
  then have r: "(if b = 5 then serve_socks E source evs cs w else serve_http E source 1024 cs w) = (ops, out, w')"
    using assms unfolding serve_def by (simp only: list.case)
  show ?thesis
  proof (cases "b = 5")
    case True
    show ?thesis by (rule serve_socks_trace [OF r [unfolded if_P [OF True]]])
  next
    case False
    show ?thesis by (rule serve_http_trace [OF _ r [unfolded if_not_P [OF False]]]) simp
  qed
qed

section \<open>What a trace guarantees\<close>

text \<open>
  An operation that takes a connection from one point to another does so in every world: it is a step of the registry
  whatever the other connections have done in the meantime.
\<close>

definition simulated :: "('net, 'w) serve_env \<Rightarrow> guard_op \<Rightarrow> point \<Rightarrow> point \<Rightarrow> bool" where
  "simulated E op q q' \<longleftrightarrow> (\<forall>k r p. p k = Some q \<longrightarrow>
     conn_step target_ok (route_ok (se_config E)) (r, p) (apply_op k op r, p(k \<mapsto> q')) \<or> apply_op k op r = r \<and> q' = q)"

lemma op_step_simulated: "op_step E source (q, req, rt) op (q', req', rt') \<Longrightarrow> simulated E op q q'"
  using op_step_conn_step unfolding simulated_def by blast

lemma trace_points:
  "trace E source st ops st' \<Longrightarrow> \<exists>qs. length qs = length ops \<and> (\<forall>i<length ops. simulated E (ops ! i) ((fst st # qs) ! i) (qs ! i))"
proof (induction rule: trace.induct)
  case (trace_Cons st op st1 ops st2)
  then obtain qs where qs: "length qs = length ops" "\<forall>i<length ops. simulated E (ops ! i) ((fst st1 # qs) ! i) (qs ! i)" by blast
  have "simulated E op (fst st) (fst st1)" using trace_Cons.hyps(1) by (cases st; cases st1) (auto intro: op_step_simulated)
  then show ?case
    by (intro exI [of _ "fst st1 # qs"]) (use qs in \<open>auto simp: less_Suc_eq_0_disj\<close>)
qed simp

text \<open>The request that a connection is serving, and its route, read off the operations it has performed.\<close>

fun served_step :: "(target \<times> socket_addr option \<times> route option) option \<Rightarrow> guard_op \<Rightarrow> (target \<times> socket_addr option \<times> route option) option" where
  "served_step s (OpTarget t d i) = Some (t, d, None)"
| "served_step s (OpRouted rt) = map_option (\<lambda>(t, d, _). (t, d, Some rt)) s"
| "served_step s OpIdle = None"
| "served_step s op = s"

definition served :: "guard_op list \<Rightarrow> (target \<times> socket_addr option \<times> route option) option" where
  "served ops = foldl served_step None ops"

definition agrees :: "('net, 'w) serve_env \<Rightarrow> socket_addr \<Rightarrow> (target \<times> socket_addr option \<times> route option) option \<Rightarrow> trace_state \<Rightarrow> bool" where
  "agrees E source s st \<longleftrightarrow> (case st of (q, req, rt) \<Rightarrow> \<forall>t ctx tcp. req = Some (t, ctx, tcp) \<longrightarrow>
     (\<exists>d. s = Some (t, d, rt) \<and> ctx = match_context (case d of None \<Rightarrow> source | Some sender \<Rightarrow> sender) \<and> tcp = (d = None)
        \<and> target_ok t \<and> (\<forall>x. rt = Some x \<longrightarrow> (\<exists>w w'. route_inner (se_ipnet E) (se_dns E) (se_config E) t ctx tcp w = (Ok x, w')))))"

lemma agrees_step: "op_step E source st op st' \<Longrightarrow> agrees E source s st \<Longrightarrow> agrees E source (served_step s op) st'"
  by (induction rule: op_step.induct) (auto simp: agrees_def)

lemma agrees_trace: "trace E source st ops st' \<Longrightarrow> agrees E source s st \<Longrightarrow> agrees E source (foldl served_step s ops) st'"
  by (induction arbitrary: s rule: trace.induct) (auto intro: agrees_step)

lemma trace_appendD: "trace E source st (xs @ ys) st' \<Longrightarrow> \<exists>mid. trace E source st xs mid \<and> trace E source mid ys st'"
proof (induction xs arbitrary: st)
  case Nil
  then show ?case using trace_Nil by fastforce
next
  case (Cons x xs)
  from Cons.prems obtain st1 where "op_step E source st x st1" "trace E source st1 (xs @ ys) st'"
    by (auto elim: trace.cases)
  then show ?case using Cons.IH trace_Cons by metis
qed

inductive_cases trace_ConsE: "trace E source st (op # ops) st'"
inductive_cases op_step_activeE: "op_step E source st (OpPhase Active) st'"

text \<open>The client and the node that a relay is bound to, and what it has sent for them.\<close>

definition bound_to :: "ip_addr \<Rightarrow> relay \<Rightarrow> socket_addr \<Rightarrow> proxy \<Rightarrow> bool" where
  "bound_to ip st client prx \<longleftrightarrow> sa_ip client = ip \<and> (rl_pinned st = None \<or> rl_pinned st = Some client)
     \<and> (rl_session st = None \<or> rl_session st = Some prx \<and> udp_kind prx)"

definition only_for :: "socket_addr \<Rightarrow> proxy \<Rightarrow> relay_out \<Rightarrow> bool" where
  "only_for client prx out \<longleftrightarrow> list_all (\<lambda>(x, t, payload, sender). x = prx \<and> udp_kind x \<and> sender = client) (ro_upstream out)
     \<and> list_all (\<lambda>(receiver, bs). receiver = client \<and> length bs \<le> MAX_WIRE_BYTES) (ro_client out)"

definition relay_ok :: "ip_addr \<Rightarrow> relay \<Rightarrow> bool" where
  "relay_ok ip st \<longleftrightarrow> (\<exists>client prx. bound_to ip st client prx)"

lemma relay_step_pinned:
  assumes "relay_step E ip ev st w = (out, next_st, w')" "relay_ok ip st"
  shows "case next_st of None \<Rightarrow> \<forall>client prx. only_for client prx out
     | Some st' \<Rightarrow> relay_ok ip st' \<and> (\<forall>client prx. bound_to ip st' client prx \<longrightarrow> bound_to ip st client prx \<and> only_for client prx out)"
  using assms(1)
proof (cases rule: relay_step_cases)
  case (opened t sender ops prx x payload)
  then show ?thesis using open_session_Some [OF opened(2)] by (auto simp: only_for_def nothing_out_def relay_ok_def bound_to_def)
qed (use assms(2) in \<open>auto simp: only_for_def nothing_out_def relay_ok_def bound_to_def\<close>)

lemma udp_relay_pinned:
  "udp_relay E ip evs st w = (out, w') \<Longrightarrow> relay_ok ip st \<Longrightarrow> \<exists>client prx. bound_to ip st client prx \<and> only_for client prx out"
proof (induction E ip evs st w arbitrary: out w' rule: udp_relay.induct)
  case (1 E ip st w)
  then have "only_for client prx out" for client prx by (auto simp: only_for_def nothing_out_def)
  then show ?case using 1(2) by (auto simp: relay_ok_def)
next
  case (2 E ip ev evs st w)
  obtain o1 s1 w1 where s: "relay_step E ip ev st w = (o1, s1, w1)" by (cases "relay_step E ip ev st w") auto
  note step = relay_step_pinned [OF s 2(3)]
  show ?case
  proof (cases s1)
    case None
    then show ?thesis using 2(2,3) s step by (auto simp: relay_ok_def)
  next
    case (Some st1)
    obtain o2 w2 where u: "udp_relay E ip evs st1 w1 = (o2, w2)" by fastforce
    have ok: "relay_ok ip st1" using step Some by simp
    obtain client prx where c: "bound_to ip st1 client prx" "only_for client prx o2"
      using 2(1) [OF s [symmetric] refl Some u ok] by blast
    then have "bound_to ip st client prx" "only_for client prx o1" using step Some by auto
    moreover have "ro_upstream out = ro_upstream o1 @ ro_upstream o2" "ro_client out = ro_client o1 @ ro_client o2"
      using 2(2) s u Some by auto
    ultimately show ?thesis using c(2) by (auto simp: only_for_def)
  qed
qed

lemma relay_start_ok: "relay_ok ip (relay_start ip port)"
  by (cases "port = 0") (auto simp: relay_ok_def bound_to_def relay_start_def intro: exI [of _ "\<lparr>sa_ip = ip, sa_port = port\<rparr>"])

section \<open>Properties\<close>

text \<open>
  C30 (serve_follows_registry).  Whatever a client sends, in whatever pieces, and whatever happens on the way to the destination, the
  operations that the runtime performs on the connection's registry entry are, one by one, steps of the
  registry's state machine: there is a sequence of points through which the connection goes, and each operation is
  allowed at the point before it in every world, so also when other connections and the controller act in between.
\<close>

theorem serve_follows_registry:
  assumes "serve E source evs cs w = (ops, out, w')"
  shows "\<exists>qs. length qs = length ops \<and> (\<forall>i<length ops. simulated E (ops ! i) ((AtStart # qs) ! i) (qs ! i))"
proof -
  obtain st where "trace E source (AtStart, None, None) ops st" using serve_trace [OF assms] by blast
  from trace_points [OF this] show ?thesis by simp
qed

text \<open>
  C31 (active_only_by_rules).  A connection becomes active only for a well-formed destination that the client asked for, after a route that the
  rules give for exactly that destination and for the address of the client (for UDP, of the sender of the datagram),
  and only when the node of the route relays this kind of traffic: not \<open>REJECT\<close>, and for UDP a node with UDP.
\<close>

theorem active_only_by_rules:
  assumes "serve E source evs cs w = (pre @ OpPhase Active # post, out, w')"
  shows "\<exists>t d rt w1 w2. served pre = Some (t, d, Some rt) \<and> target_ok t
     \<and> route_inner (se_ipnet E) (se_dns E) (se_config E) t (match_context (case d of None \<Rightarrow> source | Some sender \<Rightarrow> sender)) (d = None) w1 = (Ok rt, w2)
     \<and> relayable (d = None) (c_proxies (se_config E) ! rt_leaf_index rt)"
proof -
  obtain st where "trace E source (AtStart, None, None) (pre @ OpPhase Active # post) st" using serve_trace [OF assms] by blast
  then obtain mid where pre: "trace E source (AtStart, None, None) pre mid" and post: "trace E source mid (OpPhase Active # post) st"
    using trace_appendD by blast
  have "agrees E source None (AtStart, None, None)" by (simp add: agrees_def)
  then have a: "agrees E source (served pre) mid" using agrees_trace [OF pre] by (simp add: served_def)
  obtain i t ctx tcp rt where m: "mid = (AtRouted i, Some (t, ctx, tcp), Some rt)" "relayable tcp (c_proxies (se_config E) ! rt_leaf_index rt)"
    using post by (elim trace_ConsE op_step_activeE) auto
  obtain d w1 w2 where "served pre = Some (t, d, Some rt)" "ctx = match_context (case d of None \<Rightarrow> source | Some sender \<Rightarrow> sender)"
      "tcp = (d = None)" "target_ok t" "route_inner (se_ipnet E) (se_dns E) (se_config E) t ctx tcp w1 = (Ok rt, w2)"
    using a unfolding m(1) agrees_def by auto
  then show ?thesis using m(2) by blast
qed

text \<open>
  C32 (udp_association_pinned).  A UDP association serves one client: all the datagrams it forwards come from one address, whose IP address is
  that of the TCP connection that asked for the association (and whose port is the one it announced, if it announced
  one); all go through one node, which relays UDP; and answers are sent to that one client only, and fit in a datagram.
\<close>

theorem udp_association_pinned:
  assumes "associate E requested source evs w = (ro, reply, w')"
  shows "\<exists>client prx. sa_ip client = sa_ip source \<and> (sa_port requested = 0 \<or> sa_port client = sa_port requested)
     \<and> list_all (\<lambda>(x, t, payload, sender). x = prx \<and> udp_kind x \<and> sender = client) (ro_upstream ro)
     \<and> list_all (\<lambda>(receiver, bs). receiver = client \<and> length bs \<le> MAX_WIRE_BYTES) (ro_client ro)"
proof -
  let ?st = "relay_start (sa_ip source) (sa_port requested)"
  obtain out w1 where u: "udp_relay E (sa_ip source) evs ?st w = (out, w1)" by fastforce
  obtain client prx where c: "bound_to (sa_ip source) ?st client prx" "only_for client prx out"
    using udp_relay_pinned [OF u relay_start_ok] by blast
  have ip: "sa_ip client = sa_ip source" and port: "sa_port requested = 0 \<or> sa_port client = sa_port requested"
    using c(1) by (auto simp: bound_to_def relay_start_def split: if_splits)
  have "ro_upstream ro = [] \<and> ro_client ro = [] \<or> ro_upstream ro = ro_upstream out \<and> ro_client ro = ro_client out"
    using assms u by (auto simp: associate_def Let_def nothing_out_def split: if_splits option.splits result.splits)
  then have "only_for client prx ro" using c(2) by (auto simp: only_for_def)
  then show ?thesis using ip port unfolding only_for_def by blast
qed


section \<open>Concrete connections\<close>

definition demo_proxy :: proxy where
  "demo_proxy = \<lparr>p_name = ''n'', p_kind = Trojan ''s'' 443 ''p'' None False, p_udp = True, p_obfs = None\<rparr>"

definition demo_env :: "(unit, nat) serve_env" where
  "demo_env = \<lparr>se_ipnet = demo_net, se_dns = demo_dns, se_config = demo_config\<lparr>c_proxies := [demo_proxy]\<rparr>,
     se_codec = demo_codec,
     se_write_address = demo_write, se_late_route = \<lambda>_. False, se_route_kind = \<lambda>_. None,
     se_connect = \<lambda>_ _ _. Upstream [], se_claim = \<lambda>_ _ _. False, se_tls = \<lambda>_ _. False,
     se_race = \<lambda>_. DownloadFirst, se_udp_permit = True, se_udp_bound = Some \<lparr>sa_ip = V4 127 0 0 1, sa_port = 9\<rparr>,
     se_udp_open = \<lambda>_ _. True\<rparr>"

definition demo_source :: socket_addr where
  "demo_source = \<lparr>sa_ip = V4 127 0 0 1, sa_port = 7\<rparr>"

definition demo_stream :: "bytes list" where
  "demo_stream = [[5, 1, 0], [5, 1, 0, 3, 9] @ str_bytes ''x.example'' @ [0, 80]]"

lemma demo_route_context:
  "route_inner demo_net demo_dns (demo_config\<lparr>c_proxies := [demo_proxy]\<rparr>) demo_target (match_context demo_source) tcp 0 = (Ok demo_route, 1)"
  using demo_literal target_new_ip [of 80 "V4 10 0 0 1"]
  by (simp add: route_inner_def demo_config_def match_rule_def demo_dns_def demo_net_def demo_route_def
      finish_route_def resolve_proxy_def demo_proxy_def pin_address_def pinned_target_def at_address_def
      demo_target_def)

lemma demo_target_wire: "wire_target demo_target" "canonical demo_target = demo_target"
    "demo_write (destination demo_target) = [3, 9] @ str_bytes ''x.example'' @ [0, 80]"
  by (simp_all add: demo_target_def wire_target_def is_str_def canonical_def destination_def parse_ip_other to_digit_def is_ascii_digit_def
      is_ascii_lower_def is_ascii_upper_def u16_be_def)

lemma demo_socks: "\<exists>rest. socks_handshake demo_stream = (Ok (Some (Connect demo_target, rest)), [5, 0])"
  using socks_handshake_read [OF demo_layout demo_target_wire(1), of demo_stream "[]"] demo_target_wire
  by (auto simp: demo_stream_def)

lemma demo_env_simps:
  "se_late_route demo_env n = False" "se_ipnet demo_env = demo_net" "se_dns demo_env = demo_dns"
  "se_config demo_env = demo_config\<lparr>c_proxies := [demo_proxy]\<rparr>" "se_connect demo_env n prx t = Upstream []"
  "se_udp_permit demo_env" "se_udp_bound demo_env = Some \<lparr>sa_ip = V4 127 0 0 1, sa_port = 9\<rparr>" "se_udp_open demo_env prx t"
  "se_write_address demo_env = demo_write"
  by (simp_all add: demo_env_def)

lemma demo_serve:
  "serve demo_env demo_source [] demo_stream 0
     = ([OpTarget demo_target None Socks5Connect, OpRouted demo_route, OpPhase Active], [5, 0] @ socks_reply 0, 1)"
proof -
  have "dial demo_env 0 demo_target demo_source None 0 = ([OpRouted demo_route], Dialled [], 1)"
    by (simp add: dial_def demo_env_simps route_with_context_def demo_route_context probe_ops_def Let_def)
       (simp add: demo_route_def demo_proxy_def)
  moreover have "concat (take 1 demo_stream) = [5, 1, 0]" by (simp add: demo_stream_def)
  ultimately show ?thesis using demo_socks unfolding serve_def by (auto simp: serve_socks_def dial_code_def)
qed

theorem serve_follows_registry_witness:
  "\<exists>qs. length qs = 3 \<and> simulated demo_env (OpTarget demo_target None Socks5Connect) AtStart (qs ! 0)
     \<and> simulated demo_env (OpRouted demo_route) (qs ! 0) (qs ! 1) \<and> simulated demo_env (OpPhase Active) (qs ! 1) (qs ! 2)"
proof -
  obtain qs where qs: "length qs = 3" and
    sim: "\<forall>i<3. simulated demo_env ([OpTarget demo_target None Socks5Connect, OpRouted demo_route, OpPhase Active] ! i) ((AtStart # qs) ! i) (qs ! i)"
    using serve_follows_registry [OF demo_serve] by (auto simp: numeral_3_eq_3)
  show ?thesis using qs sim [rule_format, of 0] sim [rule_format, of 1] sim [rule_format, of 2] by (intro exI [of _ qs]) simp
qed

theorem active_only_by_rules_witness:
  "\<exists>t d rt w1 w2. served [OpTarget demo_target None Socks5Connect, OpRouted demo_route] = Some (t, d, Some rt) \<and> target_ok t
     \<and> route_inner demo_net demo_dns (demo_config\<lparr>c_proxies := [demo_proxy]\<rparr>) t (match_context (case d of None \<Rightarrow> demo_source | Some sender \<Rightarrow> sender)) (d = None) w1 = (Ok rt, w2)
     \<and> relayable (d = None) ([demo_proxy] ! rt_leaf_index rt)"
  using active_only_by_rules [of demo_env demo_source "[]" demo_stream 0 "[OpTarget demo_target None Socks5Connect, OpRouted demo_route]" "[]"] demo_serve
  unfolding demo_env_simps by simp

definition demo_datagram :: bytes where
  "demo_datagram = [0, 0, 0, 3, 9] @ str_bytes ''x.example'' @ [0, 80, 1, 2]"

definition demo_events :: "udp_event list" where
  "demo_events = [FromClient demo_source demo_datagram, FromClient \<lparr>sa_ip = V4 127 0 0 2, sa_port = 7\<rparr> demo_datagram,
     FromUpstream \<lparr>dg_source = demo_target, dg_payload = [1, 2]\<rparr>]"

lemma demo_udp: "udp_request demo_datagram = Ok (demo_target, [1, 2])" "udp_response demo_write demo_target [1, 2] = Ok demo_datagram"
proof -
  show r: "udp_response demo_write demo_target [1, 2] = Ok demo_datagram"
    by (simp add: udp_response_def demo_target_wire MAX_WIRE_BYTES_def demo_datagram_def)
  show "udp_request demo_datagram = Ok (demo_target, [1, 2])"
    using udp_response_read [OF demo_layout demo_target_wire(1) r] demo_target_wire by simp
qed

lemma demo_associate:
  "associate demo_env \<lparr>sa_ip = V4 0 0 0 0, sa_port = 0\<rparr> demo_source demo_events 0
    = (\<lparr>ro_ops = [OpInbound Socks5Udp, OpTarget demo_target (Some demo_source) Socks5Udp, OpRouted demo_route, OpPhase Active],
       ro_upstream = [(demo_proxy, rt_target demo_route, [1, 2], demo_source)], ro_client = [(demo_source, demo_datagram)]\<rparr>,
       [5, 0, 0, 1, 127, 0, 0, 1, 0, 9], 1)"
proof -
  have k: "udp_kind demo_proxy" by (simp add: udp_kind_def demo_proxy_def)
  have "open_session demo_env demo_target demo_source 0
      = ([OpTarget demo_target (Some demo_source) Socks5Udp, OpRouted demo_route, OpPhase Active], Some (demo_proxy, rt_target demo_route), 1)"
    by (simp add: open_session_def demo_env_simps route_udp_with_context_def demo_route_context Let_def)
       (simp add: demo_route_def k)
  then have "udp_relay demo_env (V4 127 0 0 1) demo_events (relay_start (V4 127 0 0 1) 0) 0
      = (\<lparr>ro_ops = [OpTarget demo_target (Some demo_source) Socks5Udp, OpRouted demo_route, OpPhase Active],
          ro_upstream = [(demo_proxy, rt_target demo_route, [1, 2], demo_source)], ro_client = [(demo_source, demo_datagram)]\<rparr>, 1)"
    by (simp add: demo_events_def relay_step_def relay_start_def demo_udp demo_env_simps nothing_out_def)
       (simp add: demo_source_def)
  moreover have "target_new (ip_string (V4 127 0 0 1)) 9 = Ok \<lparr>t_host = ip_string (V4 127 0 0 1), t_port = 9\<rparr>"
    using target_new_ip [of 9 "V4 127 0 0 1"] by simp
  moreover have "destination \<lparr>t_host = ip_string (V4 127 0 0 1), t_port = 9\<rparr> = SocketAddress (V4 127 0 0 1) 9"
    using parse_ip_string [of "V4 127 0 0 1"] by (simp add: destination_def)
  ultimately show ?thesis
    by (simp add: associate_def demo_env_simps k u16_be_def) (simp add: demo_source_def)
qed

theorem udp_association_pinned_witness:
  "\<exists>client prx. sa_ip client = V4 127 0 0 1 \<and> demo_proxy = prx \<and> udp_kind demo_proxy \<and> demo_source = client \<and> length demo_datagram \<le> MAX_WIRE_BYTES"
  using udp_association_pinned [OF demo_associate] by (auto simp: demo_source_def)

end
