(* ===== verification/Anytls_Padding.thy ===== *)
theory Anytls_Padding
  imports Socks
begin

text \<open>
  Padding of AnyTLS sessions (\<open>src/src/anytls.rs\<close>): the text of a padding scheme, the random sizes, and the cutting of
  one write into packets.  The digest of the text and the operating system's random source are arguments; the
  random source is the list of words it delivers, and it fails when the list is used up.

  The lemmas show that an accepted scheme is bounded whatever the server sends, that sizes are drawn uniformly from the
  range of the scheme, and that the packets of a write are its bytes followed by whole padding frames, within the
  overhead that the scheme declares.
\<close>

section \<open>Schemes\<close>

definition MAX_TEXT :: nat where "MAX_TEXT = 4096"
definition MAX_FRAME :: nat where "MAX_FRAME = 65535"
definition MAX_STOP :: nat where "MAX_STOP = 32"
definition MAX_PADDING :: nat where "MAX_PADDING = 65536"

datatype padding_step = PadSize u16 u16 | PadCheck

record padding =
  pd_md5 :: string
  pd_stop :: nat
  pd_groups :: "(nat \<times> padding_step list) list"

text \<open>A hash map is the list of its pairs, newest last; what is done with its elements does not depend on their order.\<close>

fun padding_lines :: "string list \<Rightarrow> (string \<times> string) list \<Rightarrow> ((string \<times> string) list, io_kind) result" where
  "padding_lines [] m = Ok m"
| "padding_lines (line # ls) m = (case split_once (CHR ''='') line of
       None \<Rightarrow> Err InvalidData
     | Some (key, val) \<Rightarrow>
         if key = [] \<or> val = [] \<or> has_control line \<or> length m = 33 \<or> map_of m key \<noteq> None then Err InvalidData
         else padding_lines ls (m @ [(key, val)]))"

definition padding_fields :: "bytes \<Rightarrow> ((string \<times> string) list, io_kind) result" where
  "padding_fields raw =
     (if raw = [] \<or> MAX_TEXT < length raw then Err InvalidData
      else case from_utf8 raw of
          None \<Rightarrow> Err InvalidData
        | Some s \<Rightarrow> padding_lines (split_terminator LF s) [])"

definition number :: "string \<Rightarrow> (nat, io_kind) result" where
  "number s = (if s = [] \<or> \<not> list_all is_ascii_digit s then Err InvalidData
     else ok_or InvalidData (parse_uint (2 ^ 64 - 1) s))"

text \<open>One group of the scheme; the overhead counts over all groups.\<close>

fun group_steps :: "nat \<Rightarrow> string list \<Rightarrow> padding_step list \<Rightarrow> nat \<Rightarrow> (padding_step list \<times> nat, io_kind) result" where
  "group_steps grp [] steps overhead = Ok (steps, overhead)"
| "group_steps grp (s # ss) steps overhead =
     (if length steps = 16 then Err InvalidData
      else if s = ''c'' \<and> grp \<noteq> 0 then group_steps grp ss (steps @ [PadCheck]) overhead
      else case split_once (CHR ''-'') s of
          None \<Rightarrow> Err InvalidData
        | Some (a, b) \<Rightarrow> and_then (number a) (\<lambda>lo. and_then (number b) (\<lambda>hi.
            if lo = 0 \<or> hi < lo \<or> (if grp = 0 then 4096 - 34 else 16384) < hi then Err InvalidData
            else if MAX_PADDING < overhead + (hi + 7) then Err InvalidData
            else group_steps grp ss (steps @ [PadSize (of_nat lo) (of_nat hi)]) (overhead + (hi + 7)))))"

fun scheme_groups ::
  "nat \<Rightarrow> (string \<times> string) list \<Rightarrow> (nat \<times> padding_step list) list \<Rightarrow> nat \<Rightarrow> ((nat \<times> padding_step list) list, io_kind) result" where
  "scheme_groups stop [] groups overhead = Ok groups"
| "scheme_groups stop ((key, val) # kvs) groups overhead = and_then (number key) (\<lambda>grp.
     if stop \<le> grp \<or> key \<noteq> dec grp then Err InvalidData
     else and_then (group_steps grp (split_char (CHR '','') val) [] overhead) (\<lambda>(steps, overhead).
       if grp = 0 \<and> length steps \<noteq> 1 then Err InvalidData
       else scheme_groups stop kvs (groups @ [(grp, steps)]) overhead))"

definition padding_parse :: "(bytes \<Rightarrow> bytes) \<Rightarrow> bytes \<Rightarrow> (padding, io_kind) result" where
  "padding_parse md5 raw = and_then (padding_fields raw) (\<lambda>kvs.
     and_then (ok_or InvalidData (map_of kvs ''stop'')) (\<lambda>st. and_then (number st) (\<lambda>stop.
     if stop < 1 \<or> MAX_STOP < stop then Err InvalidData
     else and_then (scheme_groups stop (filter (\<lambda>(k, v). k \<noteq> ''stop'') kvs) [] 0) (\<lambda>groups.
       Ok \<lparr>pd_md5 = concat (map (\<lambda>b. hex_pad 2 (unat b)) (md5 raw)), pd_stop = stop, pd_groups = groups\<rparr>))))"

section \<open>Sizes\<close>

fun draw_size :: "u16 \<Rightarrow> u32 \<Rightarrow> u32 \<Rightarrow> u32 list \<Rightarrow> (nat, io_kind) result \<times> u32 list" where
  "draw_size lo span bound [] = (Err OtherKind, [])"
| "draw_size lo span bound (n # ns) =
     (if n < bound then (Ok (unat lo + unat (n mod span)), ns) else draw_size lo span bound ns)"

definition random_size :: "u16 \<Rightarrow> u16 \<Rightarrow> u32 list \<Rightarrow> (nat, io_kind) result \<times> u32 list" where
  "random_size lo hi rnd =
     (if lo = hi then (Ok (unat lo), rnd)
      else let span = ucast (hi - lo); bound = - 1 - (- 1) mod span in draw_size lo span bound rnd)"

definition auth_size :: "padding \<Rightarrow> u32 list \<Rightarrow> (nat, io_kind) result \<times> u32 list" where
  "auth_size p rnd = (case map_of (pd_groups p) 0 of
       Some (PadSize lo hi # _) \<Rightarrow> random_size lo hi rnd
     | _ \<Rightarrow> (Ok 0, rnd))"

section \<open>Packets\<close>

definition frame :: "u8 \<Rightarrow> u32 \<Rightarrow> bytes \<Rightarrow> bytes" where
  "frame cmd ident body = cmd # u32_be ident @ u16_be (of_nat (length body)) @ body"

definition append_frame :: "bytes \<Rightarrow> u8 \<Rightarrow> u32 \<Rightarrow> bytes \<Rightarrow> bytes" where
  "append_frame out cmd ident body = out @ frame cmd ident body"

fun packet_steps :: "padding_step list \<Rightarrow> bytes \<Rightarrow> u32 list \<Rightarrow> (bytes list \<times> bytes, io_kind) result \<times> u32 list" where
  "packet_steps [] rest rnd = (Ok ([], rest), rnd)"
| "packet_steps (PadCheck # ss) rest rnd = (if rest = [] then (Ok ([], rest), rnd) else packet_steps ss rest rnd)"
| "packet_steps (PadSize lo hi # ss) rest rnd = (case random_size lo hi rnd of
       (Err e, rnd) \<Rightarrow> (Err e, rnd)
     | (Ok sz, rnd) \<Rightarrow>
         let (packet, more_rest) =
           (if sz < length rest then (take sz rest, drop sz rest)
            else if rest \<noteq> [] then
              (if length rest + 7 < sz then append_frame rest 0 0 (replicate (sz - length rest - 7) 0) else rest, [])
            else (append_frame [] 0 0 (replicate sz 0), []))
         in case packet_steps ss more_rest rnd of
              (Err e, rnd) \<Rightarrow> (Err e, rnd)
            | (Ok (ps, rest), rnd) \<Rightarrow> (Ok (packet # ps, rest), rnd))"

definition packets :: "padding \<Rightarrow> nat \<Rightarrow> bytes \<Rightarrow> u32 list \<Rightarrow> (bytes list, io_kind) result \<times> u32 list" where
  "packets p grp data rnd =
     (let steps = (if grp < pd_stop p then (case map_of (pd_groups p) grp of None \<Rightarrow> [] | Some ss \<Rightarrow> ss) else [])
      in case packet_steps steps data rnd of
           (Err e, rnd) \<Rightarrow> (Err e, rnd)
         | (Ok (ps, rest), rnd) \<Rightarrow> (Ok (ps @ (if rest = [] then [] else [rest])), rnd))"

section \<open>Accepted schemes are bounded\<close>

fun step_cost :: "padding_step \<Rightarrow> nat" where
  "step_cost (PadSize lo hi) = unat hi + 7"
| "step_cost PadCheck = 0"

fun step_ok :: "padding_step \<Rightarrow> bool" where
  "step_ok (PadSize lo hi) \<longleftrightarrow> 0 < unat lo \<and> lo \<le> hi \<and> unat hi \<le> 16384"
| "step_ok PadCheck \<longleftrightarrow> True"

definition group_cost :: "padding_step list \<Rightarrow> nat" where
  "group_cost ss = sum_list (map step_cost ss)"

definition steps_ok :: "nat \<Rightarrow> padding_step list \<Rightarrow> bool" where
  "steps_ok grp ss \<longleftrightarrow> length ss \<le> 16 \<and> list_all step_ok ss
     \<and> (grp = 0 \<longrightarrow> list_all (\<lambda>s. \<exists>lo hi. s = PadSize lo hi \<and> unat hi \<le> 4062) ss)"

definition padding_ok :: "padding \<Rightarrow> bool" where
  "padding_ok p \<longleftrightarrow> 1 \<le> pd_stop p \<and> pd_stop p \<le> MAX_STOP \<and> distinct (map fst (pd_groups p))
     \<and> list_all (\<lambda>(g, ss). g < pd_stop p \<and> steps_ok g ss \<and> (g = 0 \<longrightarrow> length ss = 1)) (pd_groups p)
     \<and> sum_list (map (group_cost \<circ> snd) (pd_groups p)) \<le> MAX_PADDING"

lemma padding_lines_distinct:
  "padding_lines ls m = Ok kvs \<Longrightarrow> distinct (map fst m) \<Longrightarrow> distinct (map fst kvs)"
proof (induction ls m rule: padding_lines.induct)
  case (2 line ls m)
  then show ?case by (auto split: option.splits if_splits simp: map_of_eq_None_iff)
qed simp

lemma group_cost_snoc [simp]: "group_cost (ss @ [s]) = group_cost ss + step_cost s"
  by (simp add: group_cost_def)

lemma group_steps_ok:
  "group_steps grp ss steps overhead = Ok (steps', overhead') \<Longrightarrow> steps_ok grp steps \<Longrightarrow> overhead \<le> MAX_PADDING \<Longrightarrow>
     steps_ok grp steps' \<and> overhead' \<le> MAX_PADDING \<and> overhead' + group_cost steps = overhead + group_cost steps'"
proof (induction grp ss steps overhead rule: group_steps.induct)
  case (2 grp s ss steps overhead)
  show ?case
  proof (cases "s = ''c'' \<and> grp \<noteq> 0")
    case True
    then show ?thesis using 2(1,3-5) by (auto simp: steps_ok_def split: if_splits)
  next
    case False
    then have n16: "length steps \<noteq> 16" using 2(3) by auto
    then obtain a b lo hi where ab: "split_once (CHR ''-'') s = Some (a, b)"
      and lim: "\<not> (lo = 0 \<or> hi < lo \<or> (if grp = 0 then 4096 - 34 else 16384) < hi)" and over: "\<not> MAX_PADDING < overhead + (hi + 7)"
      and r: "group_steps grp ss (steps @ [PadSize (of_nat lo) (of_nat hi)]) (overhead + (hi + 7)) = Ok (steps', overhead')"
      using 2(3) False by (auto split: option.splits if_splits elim!: and_thenE)
    have hi: "hi \<le> 16384" using lim by (auto split: if_splits)
    then have u: "unat (of_nat hi :: u16) = hi" "unat (of_nat lo :: u16) = lo" using lim by (simp_all add: unsigned_of_nat take_bit_eq_mod)
    have "steps_ok grp (steps @ [PadSize (of_nat lo) (of_nat hi)])"
      using 2(4) n16 u hi lim by (auto simp: steps_ok_def word_le_nat_alt)
    then show ?thesis using 2(2) [OF n16 False ab refl lim over r] over u by simp
  qed
qed auto

lemma scheme_groups_ok:
  "scheme_groups stop kvs groups overhead = Ok groups' \<Longrightarrow> distinct (map (dec \<circ> fst) groups @ map fst kvs) \<Longrightarrow>
   overhead = sum_list (map (group_cost \<circ> snd) groups) \<Longrightarrow> overhead \<le> MAX_PADDING \<Longrightarrow>
   list_all (\<lambda>(g, ss). g < stop \<and> steps_ok g ss \<and> (g = 0 \<longrightarrow> length ss = 1)) groups \<Longrightarrow>
     distinct (map fst groups') \<and> sum_list (map (group_cost \<circ> snd) groups') \<le> MAX_PADDING
     \<and> list_all (\<lambda>(g, ss). g < stop \<and> steps_ok g ss \<and> (g = 0 \<longrightarrow> length ss = 1)) groups'"
proof (induction stop kvs groups overhead rule: scheme_groups.induct)
  case (2 stop key val kvs groups overhead)
  then obtain g steps over where g: "number key = Ok g" "\<not> (stop \<le> g \<or> key \<noteq> dec g)"
      "group_steps g (split_char (CHR '','') val) [] overhead = Ok (steps, over)" "\<not> (g = 0 \<and> length steps \<noteq> 1)"
    and r: "scheme_groups stop kvs (groups @ [(g, steps)]) over = Ok groups'"
    by (auto split: if_splits elim!: and_thenE)
  have s: "steps_ok g steps" "over \<le> MAX_PADDING" "over = overhead + group_cost steps"
    using group_steps_ok [OF g(3)] 2(5) by (auto simp: steps_ok_def group_cost_def)
  show ?case by (rule 2(1) [OF g(2,4) r]) (use s g 2(3-6) in auto)
qed (auto simp: distinct_map intro: inj_on_imageI2)

lemma padding_parse_ok:
  assumes "padding_parse md5 raw = Ok p"
  shows "padding_ok p"
proof -
  obtain kvs st stop groups where k: "padding_fields raw = Ok kvs" "\<not> (stop < 1 \<or> MAX_STOP < stop)"
      "scheme_groups stop (filter (\<lambda>(k, v). k \<noteq> ''stop'') kvs) [] 0 = Ok groups" and p: "pd_stop p = stop" "pd_groups p = groups"
    using assms unfolding padding_parse_def by (auto split: if_splits elim!: and_thenE)
  have "distinct (map fst kvs)"
    using k(1) padding_lines_distinct by (force simp: padding_fields_def split: if_splits option.splits)
  then have "distinct (map fst (filter (\<lambda>(k, v). k \<noteq> ''stop'') kvs))" by (rule distinct_map_filter)
  then show ?thesis using scheme_groups_ok [OF k(3)] k(2) p by (simp add: padding_ok_def)
qed

section \<open>Sizes are uniform\<close>

lemma draw_size_bounds:
  assumes "draw_size lo span bound rnd = (Ok sz, rnd')" "0 < span"
  shows "unat lo \<le> sz \<and> sz < unat lo + unat span"
  using assms
proof (induction lo span bound rnd rule: draw_size.induct)
  case (2 lo span bound n ns)
  have "unat (n mod span) < unat span" using 2(3) by (simp add: unat_mod unat_gt_0)
  then show ?case using 2 by (auto split: if_splits)
qed simp

lemma unat_span: "lo \<le> hi \<Longrightarrow> unat (ucast (hi - lo) :: u32) = unat hi - unat (lo :: u16)"
proof -
  assume le: "lo \<le> hi"
  have "unat hi < 2 ^ 32" by (rule less_le_trans [OF unsigned_less]) simp
  then show ?thesis using le by (simp add: unat_sub unsigned_ucast_eq take_bit_nat_eq_self_iff)
qed

lemma random_size_bounds:
  assumes "random_size lo hi rnd = (Ok sz, rnd')" "lo \<le> hi"
  shows "unat lo \<le> sz \<and> sz \<le> unat hi"
proof (cases "lo = hi")
  case False
  let ?span = "ucast (hi - lo) :: u32"
  have lt: "unat lo < unat hi" using False assms(2) by (simp add: word_less_nat_alt [symmetric])
  then have "0 < ?span" using unat_span [OF assms(2)] by (simp add: word_less_nat_alt)
  moreover obtain bound where "draw_size lo ?span bound rnd = (Ok sz, rnd')"
    using assms(1) False by (auto simp: random_size_def Let_def)
  ultimately show ?thesis using draw_size_bounds unat_span [OF assms(2)] lt by fastforce
qed (use assms in \<open>simp add: random_size_def\<close>)

lemma card_residues:
  assumes "0 < (s :: nat)" "r < s"
  shows "card {m. m < s * q \<and> m mod s = r} = q"
proof -
  have "{m. m < s * q \<and> m mod s = r} = (\<lambda>k. k * s + r) ` {..<q}"
  proof (rule set_eqI, rule iffI)
    fix m assume m: "m \<in> {m. m < s * q \<and> m mod s = r}"
    then have "m div s < q" using assms(1) by (simp add: div_less_iff_less_mult mult.commute)
    moreover have "m = m div s * s + r" using m by (metis (mono_tags, lifting) div_mult_mod_eq mem_Collect_eq)
    ultimately show "m \<in> (\<lambda>k. k * s + r) ` {..<q}" by blast
  next
    fix m assume "m \<in> (\<lambda>k. k * s + r) ` {..<q}"
    then obtain k where k: "k < q" "m = k * s + r" by blast
    then have "m < s * Suc k" using assms(2) by (simp add: mult.commute)
    also have "\<dots> \<le> s * q" using k(1) by (intro mult_le_mono2) simp
    finally show "m \<in> {m. m < s * q \<and> m mod s = r}" using k(2) assms(2) by simp
  qed
  moreover have "inj_on (\<lambda>k. k * s + r) {..<q}" using assms(1) by (auto intro: inj_onI)
  ultimately show ?thesis by (simp add: card_image)
qed

lemma draws_card:
  assumes "0 < span" "r < unat (span :: u32)"
  shows "card {n. n < - 1 - (- 1) mod span \<and> unat (n mod span) = r} = (2 ^ 32 - 1) div unat span"
proof -
  let ?q = "(2 ^ 32 - 1) div unat span"
  have one: "unat (- 1 :: u32) = 2 ^ 32 - 1" by (simp add: unsigned_minus_1_eq_mask mask_eq_exp_minus_1)
  have "(- 1 :: u32) mod span \<le> - 1" by simp
  then have "unat (- 1 - (- 1) mod span) = (2 ^ 32 - 1) - (2 ^ 32 - 1) mod unat span"
    by (simp only: unat_sub unat_mod one)
  also have "\<dots> = unat span * ?q" by (simp add: minus_mod_eq_mult_div)
  finally have b: "unat (- 1 - (- 1) mod span) = unat span * ?q" .
  have lt: "m < 2 ^ 32" if "m < unat span * ?q" for m
    using that unsigned_less [of "- 1 - (- 1) mod span", where 'a = nat] unfolding b by simp
  have "{n :: u32. n < - 1 - (- 1) mod span \<and> unat (n mod span) = r} = of_nat ` {m. m < unat span * ?q \<and> m mod unat span = r}"
  proof (rule set_eqI, rule iffI)
    fix n :: u32 assume n: "n \<in> {n. n < - 1 - (- 1) mod span \<and> unat (n mod span) = r}"
    then have "unat n \<in> {m. m < unat span * ?q \<and> m mod unat span = r}"
      unfolding mem_Collect_eq word_less_nat_alt [of n] b unat_mod .
    then show "n \<in> of_nat ` {m. m < unat span * ?q \<and> m mod unat span = r}" by (rule rev_image_eqI) simp
  next
    fix n :: u32 assume "n \<in> of_nat ` {m. m < unat span * ?q \<and> m mod unat span = r}"
    then obtain m where m: "m < unat span * ?q" "m mod unat span = r" "n = of_nat m" by blast
    have "unat n = m" using lt [OF m(1)] by (simp add: m(3) unsigned_of_nat take_bit_nat_eq_self_iff)
    then show "n \<in> {n. n < - 1 - (- 1) mod span \<and> unat (n mod span) = r}"
      unfolding mem_Collect_eq word_less_nat_alt [of n] b unat_mod using m(1,2) by simp
  qed
  moreover have "inj_on (of_nat :: nat \<Rightarrow> u32) {m. m < unat span * ?q \<and> m mod unat span = r}"
  proof (rule inj_onI)
    fix x y assume "x \<in> {m. m < unat span * ?q \<and> m mod unat span = r}" "y \<in> {m. m < unat span * ?q \<and> m mod unat span = r}"
      and e: "(of_nat x :: u32) = of_nat y"
    then have "x < 2 ^ 32" "y < 2 ^ 32" using lt by blast+
    then show "x = y" using arg_cong [OF e, of unat] by (simp add: unsigned_of_nat take_bit_eq_mod)
  qed
  moreover have "0 < unat span" using assms(1) by (simp add: unat_gt_0)
  ultimately show ?thesis using card_residues [OF _ assms(2)] by (simp add: card_image)
qed

text \<open>
  A random size is uniform: over one word of the random source, every size from the lower to below the upper end of the
  range is drawn by the same number of words, and no other size is drawn at all.
\<close>

theorem padding_sizes_uniform:
  assumes "lo < hi"
  shows "card {n. random_size lo hi [n] = (Ok sz, [])}
    = (if unat lo \<le> sz \<and> sz < unat hi then (2 ^ 32 - 1) div (unat hi - unat lo) else 0)"
proof -
  let ?span = "ucast (hi - lo) :: u32"
  have s: "unat ?span = unat hi - unat lo" using unat_span assms by simp
  then have p: "0 < ?span" using assms by (simp add: word_less_nat_alt)
  have e: "random_size lo hi [n] = (Ok sz, []) \<longleftrightarrow> n < - 1 - (- 1) mod ?span \<and> unat lo + unat (n mod ?span) = sz" for n
    using assms by (simp add: random_size_def Let_def less_imp_neq)
  show ?thesis
  proof (cases "unat lo \<le> sz \<and> sz < unat hi")
    case True
    then have "{n. random_size lo hi [n] = (Ok sz, [])} = {n. n < - 1 - (- 1) mod ?span \<and> unat (n mod ?span) = sz - unat lo}"
      unfolding e by auto
    moreover have "sz - unat lo < unat ?span" using True s by linarith
    ultimately show ?thesis using draws_card [OF p, of "sz - unat lo"] by (simp only: if_P [OF True] s)
  next
    case False
    have "unat (n mod ?span) < unat ?span" for n using p by (simp add: unat_mod unat_gt_0)
    then have "unat lo + unat (n mod ?span) \<noteq> sz" for n using False s by (metis add_less_cancel_left assms le_add1 le_add_diff_inverse less_imp_le word_less_nat_alt)
    then have "{n. random_size lo hi [n] = (Ok sz, [])} = {}" unfolding e by simp
    then show ?thesis using False by auto
  qed
qed


theorem padding_sizes_uniform_witness:
  "card {n. random_size 100 400 [n] = (Ok 399, [])} = (2 ^ 32 - 1) div 300"
  using padding_sizes_uniform [of 100 400 399] by simp

section \<open>Packets are the bytes and padding frames\<close>

definition pad_bytes :: "nat list \<Rightarrow> bytes" where
  "pad_bytes ns = concat (map (\<lambda>n. frame 0 0 (replicate n 0)) ns)"

lemma length_frame [simp]: "length (frame cmd ident body) = 7 + length body"
  by (simp add: frame_def)

lemma packet_steps_spec:
  "packet_steps ss rest rnd = (Ok (ps, rest'), rnd') \<Longrightarrow> list_all step_ok ss \<Longrightarrow>
     \<exists>ns. concat ps @ rest' = rest @ pad_bytes ns \<and> list_all (\<lambda>n. n \<le> 16384) ns \<and> [] \<notin> set ps
       \<and> (ns \<noteq> [] \<longrightarrow> rest' = []) \<and> length (pad_bytes ns) \<le> group_cost ss \<and> length ps \<le> length ss"
proof (induction ss rest rnd arbitrary: ps rest' rnd' rule: packet_steps.induct)
  case (1 rest rnd)
  then show ?case by (intro exI [of _ "[]"]) (simp add: pad_bytes_def)
next
  case (2 ss rest rnd)
  show ?case
  proof (cases "rest = []")
    case True
    then show ?thesis using 2(2) by (intro exI [of _ "[]"]) (simp add: pad_bytes_def)
  next
    case False
    then show ?thesis using 2 by (auto simp: group_cost_def)
  qed
next
  case (3 lo hi ss rest rnd)
  obtain sz r1 where sz: "random_size lo hi rnd = (Ok sz, r1)" using 3(2) by (auto split: prod.splits result.splits)
  have b: "0 < sz" "sz \<le> unat hi" "unat hi \<le> 16384" using random_size_bounds [OF sz] 3(3) by auto
  obtain packet mid where pm: "(packet, mid) = (if sz < length rest then (take sz rest, drop sz rest)
            else if rest \<noteq> [] then
              (if length rest + 7 < sz then append_frame rest 0 0 (replicate (sz - length rest - 7) 0) else rest, [])
            else (append_frame [] 0 0 (replicate sz 0), []))" by (metis surj_pair)
  obtain qs where q: "packet_steps ss mid r1 = (Ok (qs, rest'), rnd')" "ps = packet # qs"
    using 3(2) unfolding packet_steps.simps(3) sz prod.case result.case Let_def pm [symmetric] by (auto split: prod.splits result.splits)
  obtain ns where ns: "concat qs @ rest' = mid @ pad_bytes ns" "list_all (\<lambda>n. n \<le> 16384) ns" "[] \<notin> set qs"
      "ns \<noteq> [] \<longrightarrow> rest' = []" "length (pad_bytes ns) \<le> group_cost ss" "length qs \<le> length ss"
    using 3(1) [OF sz [symmetric] refl pm refl q(1)] 3(3) by auto
  have cost: "group_cost (PadSize lo hi # ss) = unat hi + 7 + group_cost ss" by (simp add: group_cost_def)
  have fin: "rest' = []" if "mid = []" using ns(1,4) that by (cases ns) (auto simp: pad_bytes_def)
  consider (cut) "sz < length rest" "packet = take sz rest" "mid = drop sz rest"
    | (pad) "rest \<noteq> []" "length rest + 7 < sz" "packet = rest @ frame 0 0 (replicate (sz - length rest - 7) 0)" "mid = []"
    | (exact) "rest \<noteq> []" "packet = rest" "mid = []"
    | (waste) "rest = []" "packet = frame 0 0 (replicate sz 0)" "mid = []"
    using pm by (auto simp: append_frame_def split: if_splits)
  then show ?case
  proof cases
    case cut
    then have "concat ps @ rest' = rest @ pad_bytes ns" using ns(1) q(2) by simp
    then show ?thesis using ns(2-6) b cut q(2) cost by (intro exI [of _ ns]) auto
  next
    case pad
    then show ?thesis using ns b q(2) cost fin by (intro exI [of _ "(sz - length rest - 7) # ns"]) (auto simp: pad_bytes_def)
  next
    case exact
    then show ?thesis using ns b q(2) cost fin by (intro exI [of _ ns]) auto
  next
    case waste
    then show ?thesis using ns b q(2) cost fin by (intro exI [of _ "sz # ns"]) (auto simp: pad_bytes_def frame_def)
  qed
qed

lemma packets_spec:
  assumes "packets p grp data rnd = (Ok ps, rnd')" "padding_ok p"
  shows "\<exists>ns. concat ps = data @ pad_bytes ns \<and> list_all (\<lambda>n. n \<le> 16384) ns \<and> [] \<notin> set ps
       \<and> length (pad_bytes ns) \<le> MAX_PADDING \<and> length ps \<le> 17"
proof -
  define ss where "ss = (if grp < pd_stop p then (case map_of (pd_groups p) grp of None \<Rightarrow> [] | Some ss \<Rightarrow> ss) else [])"
  have ss: "list_all step_ok ss \<and> length ss \<le> 16 \<and> group_cost ss \<le> MAX_PADDING"
  proof (cases "grp < pd_stop p \<and> map_of (pd_groups p) grp \<noteq> None")
    case True
    then have "(grp, ss) \<in> set (pd_groups p)" using map_of_SomeD by (force simp: ss_def)
    moreover from this have "group_cost ss \<le> sum_list (map (group_cost \<circ> snd) (pd_groups p))"
      by (intro member_le_sum_list) force+
    ultimately show ?thesis using assms(2) by (auto simp: padding_ok_def steps_ok_def list_all_iff)
  next
    case False
    then have "ss = []" by (auto simp: ss_def split: option.splits)
    then show ?thesis by (simp add: group_cost_def)
  qed
  obtain qs rest where q: "packet_steps ss data rnd = (Ok (qs, rest), rnd')" "ps = qs @ (if rest = [] then [] else [rest])"
    using assms(1) by (auto simp: packets_def ss_def [symmetric] split: prod.splits result.splits)
  obtain ns where ns: "concat qs @ rest = data @ pad_bytes ns" "list_all (\<lambda>n. n \<le> 16384) ns" "[] \<notin> set qs"
      "length (pad_bytes ns) \<le> group_cost ss" "length qs \<le> length ss"
    using packet_steps_spec [OF q(1)] ss by auto
  show ?thesis by (rule exI [of _ ns]) (use ns ss q(2) in auto)
qed

section \<open>The default scheme\<close>

definition DEFAULT :: string where
  "DEFAULT = ''stop=8'' @ [LF] @ ''0=30-30'' @ [LF] @ ''1=100-400'' @ [LF]
     @ ''2=400-500,c,500-1000,c,500-1000,c,500-1000,c,500-1000'' @ [LF] @ ''3=9-9,500-1000'' @ [LF]
     @ ''4=500-1000'' @ [LF] @ ''5=500-1000'' @ [LF] @ ''6=500-1000'' @ [LF] @ ''7=500-1000''"

definition default_groups :: "(nat \<times> padding_step list) list" where
  "default_groups = [(0, [PadSize 30 30]), (1, [PadSize 100 400]),
     (2, [PadSize 400 500, PadCheck, PadSize 500 1000, PadCheck, PadSize 500 1000, PadCheck, PadSize 500 1000, PadCheck, PadSize 500 1000]),
     (3, [PadSize 9 9, PadSize 500 1000]), (4, [PadSize 500 1000]), (5, [PadSize 500 1000]), (6, [PadSize 500 1000]), (7, [PadSize 500 1000])]"

lemma number_short:
  assumes "s \<noteq> []" "list_all is_ascii_digit s" "length s \<le> 9"
  shows "number s = Ok (dec_val s)"
proof -
  have "dec_val s < 10 ^ length s" by (rule dec_val_less [OF assms(2)])
  also have "\<dots> \<le> 10 ^ 9" using assms(3) by (intro power_increasing) auto
  finally have "dec_val s \<le> 2 ^ 64 - 1" by simp
  then show ?thesis using assms(1,2) by (simp add: number_def parse_uint_digits ok_or_def)
qed

lemma default_numbers:
  "number ''8'' = Ok 8" "number ''30'' = Ok 30" "number ''100'' = Ok 100" "number ''400'' = Ok 400" "number ''500'' = Ok 500" "number ''1000'' = Ok 1000"
  "number ''9'' = Ok 9" "number ''0'' = Ok 0" "number ''1'' = Ok 1" "number ''2'' = Ok 2" "number ''3'' = Ok 3" "number ''4'' = Ok 4"
  "number ''5'' = Ok 5" "number ''6'' = Ok 6" "number ''7'' = Ok 7"
  by (simp_all add: number_short is_ascii_digit_def dec_val_def)

lemma default_lines: "split_terminator LF DEFAULT = [''stop=8'', ''0=30-30'', ''1=100-400'', ''2=400-500,c,500-1000,c,500-1000,c,500-1000,c,500-1000'',
     ''3=9-9,500-1000'', ''4=500-1000'', ''5=500-1000'', ''6=500-1000'', ''7=500-1000'']"
  by code_simp

lemma default_fields: "padding_lines [''stop=8'', ''0=30-30'', ''1=100-400'', ''2=400-500,c,500-1000,c,500-1000,c,500-1000,c,500-1000'',
     ''3=9-9,500-1000'', ''4=500-1000'', ''5=500-1000'', ''6=500-1000'', ''7=500-1000''] [] = Ok [(''stop'', ''8''), (''0'', ''30-30''), (''1'', ''100-400''),
     (''2'', ''400-500,c,500-1000,c,500-1000,c,500-1000,c,500-1000''), (''3'', ''9-9,500-1000''), (''4'', ''500-1000''),
     (''5'', ''500-1000''), (''6'', ''500-1000''), (''7'', ''500-1000'')]"
  by code_simp

lemma default_splits:
  "split_char (CHR '','') ''400-500,c,500-1000,c,500-1000,c,500-1000,c,500-1000'' = [''400-500'', ''c'', ''500-1000'', ''c'', ''500-1000'', ''c'', ''500-1000'', ''c'', ''500-1000'']"
  "split_char (CHR '','') ''30-30'' = [''30-30'']" "split_char (CHR '','') ''100-400'' = [''100-400'']"
  "split_char (CHR '','') ''9-9,500-1000'' = [''9-9'', ''500-1000'']" "split_char (CHR '','') ''500-1000'' = [''500-1000'']"
  "split_once (CHR ''-'') ''400-500'' = Some (''400'', ''500'')" "split_once (CHR ''-'') ''500-1000'' = Some (''500'', ''1000'')"
  "split_once (CHR ''-'') ''30-30'' = Some (''30'', ''30'')" "split_once (CHR ''-'') ''100-400'' = Some (''100'', ''400'')"
  "split_once (CHR ''-'') ''9-9'' = Some (''9'', ''9'')"
  by simp_all

lemma default_group_2:
  "group_steps 2 [''400-500'', ''c'', ''500-1000'', ''c'', ''500-1000'', ''c'', ''500-1000'', ''c'', ''500-1000''] [] 444
    = Ok ([PadSize 400 500, PadCheck, PadSize 500 1000, PadCheck, PadSize 500 1000, PadCheck, PadSize 500 1000, PadCheck, PadSize 500 1000], 4979)"
  by (simp add: default_splits default_numbers MAX_PADDING_def del: split_once.simps)

lemma default_scheme:
  "scheme_groups 8 [(''0'', ''30-30''), (''1'', ''100-400''),
     (''2'', ''400-500,c,500-1000,c,500-1000,c,500-1000,c,500-1000''), (''3'', ''9-9,500-1000''), (''4'', ''500-1000''),
     (''5'', ''500-1000''), (''6'', ''500-1000''), (''7'', ''500-1000'')] [] 0 = Ok default_groups"
  by (simp add: default_splits default_numbers default_group_2 MAX_PADDING_def default_groups_def dec.simps del: split_once.simps split_char.simps)

text \<open>\<open>default_padding\<close> parses, so its \<open>expect\<close> never fails.\<close>

lemma default_parses:
  "padding_parse md5 (str_bytes DEFAULT)
     = Ok \<lparr>pd_md5 = concat (map (\<lambda>b. hex_pad 2 (unat b)) (md5 (str_bytes DEFAULT))), pd_stop = 8, pd_groups = default_groups\<rparr>"
proof -
  have "is_str DEFAULT" by (rule is_str_ascii) code_simp
  moreover have "length DEFAULT < 200" "DEFAULT \<noteq> []" by (simp_all add: DEFAULT_def)
  ultimately have "padding_fields (str_bytes DEFAULT) = padding_lines (split_terminator LF DEFAULT) []"
    by (simp add: padding_fields_def MAX_TEXT_def) (simp add: str_bytes_def)
  then show ?thesis
    unfolding padding_parse_def default_lines default_fields by (simp add: default_numbers default_scheme MAX_STOP_def ok_or_def del: scheme_groups.simps)
qed

section \<open>Properties of padding\<close>

text \<open>
  Whatever scheme the server sends, if it is accepted then the packets of a write are its bytes in order followed by whole
  padding frames of zeros that the peer skips: at most 17 packets, none empty, and at most 65536 bytes of padding.  The
  built-in scheme is accepted.
\<close>

theorem padding_bounded:
  assumes "padding_parse md5 raw = Ok p" "packets p grp data rnd = (Ok ps, rnd')"
  shows "\<exists>ns. concat ps = data @ pad_bytes ns \<and> list_all (\<lambda>n. n \<le> 16384) ns \<and> [] \<notin> set ps
       \<and> length (pad_bytes ns) \<le> MAX_PADDING \<and> length ps \<le> 17"
  by (rule packets_spec [OF assms(2) padding_parse_ok [OF assms(1)]])

theorem padding_bounded_witness:
  "\<exists>p ns. padding_parse id (str_bytes DEFAULT) = Ok p
     \<and> packets p 2 [1, 2, 3] [5] = (Ok [[1, 2, 3] @ frame 0 0 (replicate 395 0)], [])
     \<and> [1, 2, 3] @ frame 0 0 (replicate 395 0) = [1, 2, 3] @ pad_bytes ns \<and> length (pad_bytes ns) \<le> MAX_PADDING"
proof -
  obtain p where p: "padding_parse id (str_bytes DEFAULT) = Ok p" "pd_stop p = 8" "pd_groups p = default_groups"
    using default_parses [of id] by simp
  have "random_size 400 500 [5] = (Ok 405, [])" by (simp add: random_size_def)
  then have q: "packets p 2 [1, 2, 3] [5] = (Ok [[1, 2, 3] @ frame 0 0 (replicate 395 0)], [])"
    by (simp add: packets_def p default_groups_def append_frame_def)
  show ?thesis using padding_bounded [OF p(1) q] p(1) q by auto
qed

end
