(* ===== verification/Anytls.thy ===== *)
theory Anytls
  imports Anytls_Padding
begin

text \<open>
  AnyTLS sessions (\<open>src/src/anytls.rs\<close>): one stream over one TLS connection.  The session is a record; every polled
  operation is a function of the session and the transport, which is a script of what it will do: the results of its
  reads, writes, flushes and shutdowns, the words of the random source, and the bytes written so far.  A script that is
  used up stays pending.  Wakers are not modelled, since they do not change what an operation returns.

  The lemmas show that the bytes written to the transport are whole frames that carry exactly the accepted data, that the bytes
  delivered to the reader are exactly the data frames of the incoming stream however it is cut, that all buffers are
  bounded, and that a transport that keeps accepting bytes gets everything.
\<close>

section \<open>The transport\<close>

datatype 'a poll = Pending | Ready "('a, io_kind) result"

datatype read_event = ReadPending | ReadData bytes | ReadErr io_kind
datatype write_event = WritePending | WriteOk nat | WriteErr io_kind

record transport =
  tr_reads :: "read_event list"
  tr_writes :: "write_event list"
  tr_flushes :: "unit poll list"
  tr_shutdowns :: "unit poll list"
  tr_random :: "u32 list"
  tr_sent :: bytes

text \<open>A read fills at most the buffer; the rest of the data stays for the next read.  No data is the end of the stream.\<close>

definition transport_read :: "nat \<Rightarrow> transport \<Rightarrow> bytes poll \<times> transport" where
  "transport_read cap w = (case tr_reads w of
       [] \<Rightarrow> (Pending, w)
     | ReadPending # es \<Rightarrow> (Pending, w\<lparr>tr_reads := es\<rparr>)
     | ReadErr k # es \<Rightarrow> (Ready (Err k), w\<lparr>tr_reads := es\<rparr>)
     | ReadData bs # es \<Rightarrow> (Ready (Ok (take cap bs)),
         w\<lparr>tr_reads := (if length bs \<le> cap then es else ReadData (drop cap bs) # es)\<rparr>))"

definition transport_write :: "bytes \<Rightarrow> transport \<Rightarrow> nat poll \<times> transport" where
  "transport_write buf w = (case tr_writes w of
       [] \<Rightarrow> (Pending, w)
     | WritePending # es \<Rightarrow> (Pending, w\<lparr>tr_writes := es\<rparr>)
     | WriteErr k # es \<Rightarrow> (Ready (Err k), w\<lparr>tr_writes := es\<rparr>)
     | WriteOk n # es \<Rightarrow> (Ready (Ok (min n (length buf))), w\<lparr>tr_writes := es, tr_sent := tr_sent w @ take n buf\<rparr>))"

definition transport_flush :: "transport \<Rightarrow> unit poll \<times> transport" where
  "transport_flush w = (case tr_flushes w of [] \<Rightarrow> (Pending, w) | p # ps \<Rightarrow> (p, w\<lparr>tr_flushes := ps\<rparr>))"

definition transport_shutdown :: "transport \<Rightarrow> unit poll \<times> transport" where
  "transport_shutdown w = (case tr_shutdowns w of [] \<Rightarrow> (Pending, w) | p # ps \<Rightarrow> (p, w\<lparr>tr_shutdowns := ps\<rparr>))"

section \<open>The session\<close>

definition MAX_HEARTS :: nat where "MAX_HEARTS = 32"
definition MAX_CLOSE_DRAIN :: nat where "MAX_CLOSE_DRAIN = 1024 * 1024"

text \<open>
  The header and the body hold the bytes read so far, so \<open>header_read\<close> and \<open>body_read\<close> are their lengths, and \<open>at_need\<close> is
  the length of the body that the header announces.  \<open>at_open\<close> says that the transport is still owned.
\<close>

record anytls =
  at_open :: bool
  at_padding :: padding
  at_shared :: padding
  at_group :: nat
  at_outgoing :: "bytes list"
  at_written :: nat
  at_hearts :: "u32 list"
  at_reply_pending :: bool
  at_header :: bytes
  at_body :: bytes
  at_need :: nat
  at_delivered :: nat
  at_data_ready :: bool
  at_v2 :: bool
  at_acknowledged :: bool
  at_fin_queued :: bool
  at_write_closed :: bool
  at_peer_closed :: bool
  at_closing :: bool
  at_close_drained :: nat
  at_failure :: "io_kind option"
  at_whole_closed :: bool

definition finish :: "anytls \<Rightarrow> anytls" where
  "finish s = s\<lparr>at_open := False, at_closing := False, at_outgoing := [], at_hearts := [],
     at_whole_closed := (if at_failure s = None then True else at_whole_closed s)\<rparr>"

definition fail_with :: "io_kind \<Rightarrow> anytls \<Rightarrow> anytls" where
  "fail_with k s = finish (s\<lparr>at_failure := Some k\<rparr>)"

definition check_error :: "anytls \<Rightarrow> (unit, io_kind) result" where
  "check_error s = (case at_failure s of Some k \<Rightarrow> Err k | None \<Rightarrow> Ok ())"

section \<open>Writing\<close>

definition queue :: "u8 \<Rightarrow> u32 \<Rightarrow> bytes \<Rightarrow> anytls \<Rightarrow> transport \<Rightarrow> (unit, io_kind) result \<times> anytls \<times> transport" where
  "queue cmd ident body s w = (case packets (at_padding s) (at_group s) (append_frame [] cmd ident body) (tr_random w) of
       (Err e, rnd) \<Rightarrow> (Err e, s, w\<lparr>tr_random := rnd\<rparr>)
     | (Ok ps, rnd) \<Rightarrow> (Ok (), s\<lparr>at_outgoing := ps, at_group := min (at_group s + 1) MAX_STOP\<rparr>, w\<lparr>tr_random := rnd\<rparr>))"

lemma queue_shape:
  "queue cmd ident body s w = (r, s', w') \<Longrightarrow> at_hearts s' = at_hearts s \<and> tr_writes w' = tr_writes w"
  by (auto simp: queue_def split: prod.splits result.splits)

text \<open>\<open>drain\<close>: the packets of the current group, then the pending heartbeat replies, then a flush.\<close>

function drain :: "anytls \<Rightarrow> transport \<Rightarrow> unit poll \<times> anytls \<times> transport" where
  "drain s w = (case at_outgoing s of
       packet # rest \<Rightarrow>
         if \<not> at_open s then (Ready (Err BrokenPipe), s, w)
         else (case transport_write (drop (at_written s) packet) w of
             (Pending, w) \<Rightarrow> (Pending, s, w)
           | (Ready (Err e), w) \<Rightarrow> (Ready (Err e), fail_with e s, w)
           | (Ready (Ok n), w) \<Rightarrow>
               if n = 0 then (Ready (Err WriteZero), fail_with WriteZero s, w)
               else if at_written s + n = length packet then drain (s\<lparr>at_outgoing := rest, at_written := 0\<rparr>) w
               else drain (s\<lparr>at_written := at_written s + n\<rparr>) w)
     | [] \<Rightarrow> (case at_hearts s of
           ident # hs \<Rightarrow> (case queue 9 ident [] (s\<lparr>at_hearts := hs\<rparr>) w of
               (Err e, s, w) \<Rightarrow> (Ready (Err e), s, w)
             | (Ok _, s, w) \<Rightarrow> drain s w)
         | [] \<Rightarrow>
             if \<not> at_open s then (Ready (Err BrokenPipe), s, w)
             else (case transport_flush w of
                 (Ready (Err e), w) \<Rightarrow> (Ready (Err e), fail_with e s, w)
               | (p, w) \<Rightarrow> (p, s, w))))"
  by pat_completeness auto
termination
  by (relation "measures [\<lambda>(s, w). length (at_hearts s), \<lambda>(s, w). length (tr_writes w)]")
     (auto simp: transport_write_def dest!: queue_shape [OF sym] split: list.splits write_event.splits)

declare drain.simps [simp del]

definition shutdown_write :: "anytls \<Rightarrow> transport \<Rightarrow> unit poll \<times> anytls \<times> transport" where
  "shutdown_write s w = (case drain s w of
       (Ready (Ok _), s, w) \<Rightarrow>
         (case (if at_fin_queued s then (Ok (), s, w) else queue 3 1 [] (s\<lparr>at_fin_queued := True\<rparr>) w) of
             (Err e, s, w) \<Rightarrow> (Ready (Err e), fail_with e s, w)
           | (Ok _, s, w) \<Rightarrow> (case drain s w of
                 (Ready (Ok _), s, w) \<Rightarrow> (case transport_shutdown w of
                     (Ready (Ok _), w) \<Rightarrow> (Ready (Ok ()), s\<lparr>at_write_closed := True\<rparr>, w)
                   | (Ready (Err e), w) \<Rightarrow> (Ready (Err e), fail_with e s, w)
                   | (Pending, w) \<Rightarrow> (Pending, s, w))
               | res \<Rightarrow> res))
     | res \<Rightarrow> res)"

definition poll_write :: "bytes \<Rightarrow> anytls \<Rightarrow> transport \<Rightarrow> nat poll \<times> anytls \<times> transport" where
  "poll_write data s w = (case check_error s of
       Err k \<Rightarrow> (Ready (Err k), s, w)
     | Ok _ \<Rightarrow>
         if at_closing s \<or> \<not> at_open s then (Ready (Err BrokenPipe), s, w)
         else if data = [] then (Ready (Ok 0), s, w)
         else (case drain s w of
             (Pending, s, w) \<Rightarrow> (Pending, s, w)
           | (Ready (Err e), s, w) \<Rightarrow> (Ready (Err e), s, w)
           | (Ready (Ok _), s, w) \<Rightarrow>
               let n = min (length data) MAX_FRAME
               in case queue 2 1 (take n data) s w of
                    (Err e, s, w) \<Rightarrow> (Ready (Err e), fail_with e s, w)
                  | (Ok _, s, w) \<Rightarrow> (Ready (Ok n), s, w)))"

definition poll_flush :: "anytls \<Rightarrow> transport \<Rightarrow> unit poll \<times> anytls \<times> transport" where
  "poll_flush s w = (case check_error s of
       Err k \<Rightarrow> (Ready (Err k), s, w)
     | Ok _ \<Rightarrow> if \<not> at_open s \<or> at_write_closed s then (Ready (Ok ()), s, w) else drain s w)"

section \<open>Reading\<close>

definition header_id :: "bytes \<Rightarrow> u32" where
  "header_id h = u32_from_be (h ! 1) (h ! 2) (h ! 3) (h ! 4)"

definition header_len :: "bytes \<Rightarrow> nat" where
  "header_len h = unat (u16_from_be (h ! 5) (h ! 6))"

definition validate_header :: "bool \<Rightarrow> bool \<Rightarrow> bytes \<Rightarrow> bool" where
  "validate_header v2 acknowledged h =
     (let cmd = h ! 0; ident = header_id h; len = header_len h
      in if cmd = 0 then ident = 0
         else if cmd = 2 then ident = 1
         else if cmd = 3 then ident = 1 \<and> len = 0
         else if cmd = 5 \<or> cmd = 6 then ident = 0 \<and> len \<le> MAX_TEXT
         else if cmd = 7 then v2 \<and> \<not> acknowledged \<and> ident = 1 \<and> len \<le> MAX_TEXT
         else if cmd = 8 \<or> cmd = 9 then v2 \<and> len = 0
         else if cmd = 10 then \<not> v2 \<and> ident = 0 \<and> len \<le> MAX_TEXT
         else False)"

text \<open>The value that the server's settings must have.\<close>

definition server_version :: "bytes \<Rightarrow> (unit, io_kind) result" where
  "server_version body = and_then (padding_fields body) (\<lambda>kvs. and_then (ok_or InvalidData (map_of kvs ''v'')) (\<lambda>t.
     and_then (number t) (\<lambda>v. if 2 \<le> v \<and> v \<le> 65535 then Ok () else Err InvalidData)))"

definition control :: "(bytes \<Rightarrow> bytes) \<Rightarrow> anytls \<Rightarrow> (unit, io_kind) result \<times> anytls" where
  "control md5 s =
     (let cmd = at_header s ! 0
      in if cmd = 0 \<or> cmd = 9 then (Ok (), s)
         else if cmd = 2 then (Ok (), s\<lparr>at_data_ready := at_body s \<noteq> []\<rparr>)
         else if cmd = 3 then (Ok (), finish s)
         else if cmd = 5 then (Err PermissionDenied, s)
         else if cmd = 6 then (case padding_parse md5 (at_body s) of
             Err e \<Rightarrow> (Err e, s)
           | Ok p \<Rightarrow> (Ok (), s\<lparr>at_shared := p\<rparr>))
         else if cmd = 7 then (if at_body s = [] then Ok () else Err ConnectionRefused, s\<lparr>at_acknowledged := True\<rparr>)
         else if cmd = 8 then
           (if length (at_hearts s) = MAX_HEARTS then (Err InvalidData, s)
            else (Ok (), s\<lparr>at_hearts := at_hearts s @ [header_id (at_header s)], at_reply_pending := True\<rparr>))
         else if cmd = 10 then (case server_version (at_body s) of
             Err e \<Rightarrow> (Err e, s)
           | Ok _ \<Rightarrow> (Ok (), s\<lparr>at_v2 := True\<rparr>))
         else (Err InvalidData, s))"

text \<open>The two loops of \<open>receive\<close>; \<open>None\<close> goes on after the loop.\<close>

function read_header :: "anytls \<Rightarrow> transport \<Rightarrow> bytes poll option \<times> anytls \<times> transport" where
  "read_header s w =
     (if 7 \<le> length (at_header s) then (None, s, w)
      else case transport_read (7 - length (at_header s)) w of
          (Pending, w) \<Rightarrow> (Some Pending, s, w)
        | (Ready (Err e), w) \<Rightarrow> (Some (Ready (Err e)), fail_with e s, w)
        | (Ready (Ok bs), w) \<Rightarrow>
            if bs = [] then (Some (Ready (Err UnexpectedEof)), fail_with UnexpectedEof s, w)
            else let h = at_header s @ bs; s = s\<lparr>at_header := h\<rparr>
              in if length h = 7
                 then (if validate_header (at_v2 s) (at_acknowledged s) h
                       then read_header (s\<lparr>at_body := [], at_need := header_len h, at_delivered := 0\<rparr>) w
                       else (Some (Ready (Err InvalidData)), fail_with InvalidData s, w))
                 else read_header s w)"
  by pat_completeness auto
termination
  by (relation "measure (\<lambda>(s, w). 7 - length (at_header s))") (auto simp: neq_Nil_conv)

declare read_header.simps [simp del]

function read_payload :: "anytls \<Rightarrow> transport \<Rightarrow> bytes poll option \<times> anytls \<times> transport" where
  "read_payload s w =
     (if at_need s \<le> length (at_body s) then (None, s, w)
      else case transport_read (at_need s - length (at_body s)) w of
          (Pending, w) \<Rightarrow> (Some Pending, s, w)
        | (Ready (Err e), w) \<Rightarrow> (Some (Ready (Err e)), fail_with e s, w)
        | (Ready (Ok bs), w) \<Rightarrow>
            if bs = [] then (Some (Ready (Err UnexpectedEof)), fail_with UnexpectedEof s, w)
            else read_payload (s\<lparr>at_body := at_body s @ bs\<rparr>) w)"
  by pat_completeness auto
termination
  by (relation "measure (\<lambda>(s, w). at_need s - length (at_body s))") (auto simp: neq_Nil_conv)

declare read_payload.simps [simp del]

text \<open>The replies that reading drives; a pending write does not keep it from reading.\<close>

definition drive_replies :: "anytls \<Rightarrow> transport \<Rightarrow> (unit, io_kind) result \<times> anytls \<times> transport" where
  "drive_replies s w =
     (if at_reply_pending s
      then (case drain s w of
          (Pending, s, w) \<Rightarrow> (Ok (), s, w)
        | (Ready (Ok _), s, w) \<Rightarrow> (Ok (), s\<lparr>at_reply_pending := False\<rparr>, w)
        | (Ready (Err e), s, w) \<Rightarrow> (Err e, s, w))
      else (Ok (), s, w))"

definition deliver :: "nat \<Rightarrow> anytls \<Rightarrow> bytes \<times> anytls" where
  "deliver cap s =
     (let n = min cap (length (at_body s) - at_delivered s)
      in (take n (drop (at_delivered s) (at_body s)),
          s\<lparr>at_delivered := at_delivered s + n, at_data_ready := (at_delivered s + n \<noteq> length (at_body s))\<rparr>))"

fun receive_loop :: "(bytes \<Rightarrow> bytes) \<Rightarrow> nat \<Rightarrow> nat \<Rightarrow> anytls \<Rightarrow> transport \<Rightarrow> bytes poll \<times> anytls \<times> transport" where
  "receive_loop md5 0 cap s w = (Pending, s, w)"
| "receive_loop md5 (Suc k) cap s w =
     (if at_data_ready s then (case deliver cap s of (bs, s) \<Rightarrow> (Ready (Ok bs), s, w))
      else if \<not> at_open s then (Ready (Ok []), s, w)
      else if at_closing s then (Pending, s, w)
      else case drive_replies s w of
          (Err e, s, w) \<Rightarrow> (Ready (Err e), s, w)
        | (Ok _, s, w) \<Rightarrow> (case read_header s w of
              (Some p, s, w) \<Rightarrow> (p, s, w)
            | (None, s, w) \<Rightarrow> (case read_payload s w of
                  (Some p, s, w) \<Rightarrow> (p, s, w)
                | (None, s, w) \<Rightarrow> (case control md5 s of
                      (Err e, s) \<Rightarrow> (Ready (Err e), fail_with e s, w)
                    | (Ok _, s) \<Rightarrow> receive_loop md5 k cap (s\<lparr>at_header := []\<rparr>) w))))"

definition receive :: "(bytes \<Rightarrow> bytes) \<Rightarrow> nat \<Rightarrow> anytls \<Rightarrow> transport \<Rightarrow> bytes poll \<times> anytls \<times> transport" where
  "receive md5 cap s w = (case check_error s of
       Err k \<Rightarrow> (Ready (Err k), s, w)
     | Ok _ \<Rightarrow> receive_loop md5 32 cap s w)"

definition poll_read :: "(bytes \<Rightarrow> bytes) \<Rightarrow> nat \<Rightarrow> anytls \<Rightarrow> transport \<Rightarrow> bytes poll \<times> anytls \<times> transport" where
  "poll_read md5 cap s w = (if cap = 0 then (Ready (Ok []), s, w) else receive md5 cap s w)"

section \<open>Closing\<close>

text \<open>The peer's remaining bytes are read and dropped, within a bound.\<close>

fun discard :: "nat \<Rightarrow> anytls \<Rightarrow> transport \<Rightarrow> unit poll option \<times> anytls \<times> transport" where
  "discard 0 s w = (None, s, w)"
| "discard (Suc k) s w =
     (if at_peer_closed s then (None, s, w)
      else case transport_read (min (MAX_CLOSE_DRAIN - at_close_drained s + 1) 16384) w of
          (Pending, w) \<Rightarrow> (Some Pending, s, w)
        | (Ready (Ok bs), w) \<Rightarrow>
            if bs = [] then discard k (s\<lparr>at_peer_closed := True\<rparr>) w
            else let s = s\<lparr>at_close_drained := at_close_drained s + length bs\<rparr>
              in if MAX_CLOSE_DRAIN < at_close_drained s then (Some (Ready (Err InvalidData)), fail_with InvalidData s, w)
                 else discard k s w
        | (Ready (Err e), w) \<Rightarrow>
            if e = UnexpectedEof then discard k (s\<lparr>at_peer_closed := True\<rparr>) w
            else (Some (Ready (Err e)), fail_with e s, w))"

definition poll_shutdown :: "bool \<Rightarrow> anytls \<Rightarrow> transport \<Rightarrow> unit poll \<times> anytls \<times> transport" where
  "poll_shutdown expired s w = (case check_error s of
       Err k \<Rightarrow> (Ready (Err k), s, w)
     | Ok _ \<Rightarrow>
         if \<not> at_open s then (Ready (Ok ()), s, w)
         else let s = s\<lparr>at_closing := True\<rparr>
           in if expired then (Ready (Err TimedOut), fail_with TimedOut s, w)
              else (case (if at_write_closed s then (Pending, s, w) else shutdown_write s w) of
                  (Ready (Err e), s, w) \<Rightarrow> (Ready (Err e), s, w)
                | (_, s, w) \<Rightarrow> (case discard 16 s w of
                      (Some p, s, w) \<Rightarrow> (p, s, w)
                    | (None, s, w) \<Rightarrow>
                        if at_peer_closed s \<and> at_write_closed s then (Ready (Ok ()), finish s, w) else (Pending, s, w))))"

section \<open>Opening\<close>

definition settings_text :: "string \<Rightarrow> padding \<Rightarrow> string" where
  "settings_text version p = ''v=2'' @ [LF] @ ''client=zc/'' @ version @ [LF] @ ''padding-md5='' @ pd_md5 p"

definition first_frames :: "(address \<Rightarrow> bytes) \<Rightarrow> string \<Rightarrow> padding \<Rightarrow> target \<Rightarrow> bytes" where
  "first_frames W version p t =
     append_frame (append_frame (append_frame [] 4 0 (str_bytes (settings_text version p))) 1 1 []) 2 1 (W (destination t))"

definition auth_bytes :: "(bytes \<Rightarrow> bytes) \<Rightarrow> string \<Rightarrow> nat \<Rightarrow> bytes" where
  "auth_bytes sha256 password sz =
     (let auth = sha256 (str_bytes password) @ u16_be (of_nat sz)
      in take (34 + sz) auth @ replicate (34 + sz - length auth) 0)"

definition new_session :: "padding \<Rightarrow> bytes list \<Rightarrow> anytls" where
  "new_session p outgoing = \<lparr>at_open = True, at_padding = p, at_shared = p, at_group = 2, at_outgoing = outgoing, at_written = 0,
     at_hearts = [], at_reply_pending = False, at_header = [], at_body = [], at_need = 0, at_delivered = 0, at_data_ready = False,
     at_v2 = False, at_acknowledged = False, at_fin_queued = False, at_write_closed = False, at_peer_closed = False,
     at_closing = False, at_close_drained = 0, at_failure = None, at_whole_closed = False\<rparr>"

text \<open>
  \<open>open\<close> up to its final \<open>flush().await\<close>, which polls \<open>poll_flush\<close>: the authentication is one write of the transport, that must
  take all of it, and a flush; then the first frames are cut into packets.
\<close>

definition anytls_open ::
  "(bytes \<Rightarrow> bytes) \<Rightarrow> (address \<Rightarrow> bytes) \<Rightarrow> string \<Rightarrow> string \<Rightarrow> target \<Rightarrow> padding \<Rightarrow> transport \<Rightarrow> anytls poll \<times> transport" where
  "anytls_open sha256 W version password t p w = (case auth_size p (tr_random w) of
       (Err e, rnd) \<Rightarrow> (Ready (Err e), w\<lparr>tr_random := rnd\<rparr>)
     | (Ok sz, rnd) \<Rightarrow>
         let auth = auth_bytes sha256 password sz
         in case transport_write auth (w\<lparr>tr_random := rnd\<rparr>) of
              (Pending, w) \<Rightarrow> (Pending, w)
            | (Ready (Err e), w) \<Rightarrow> (Ready (Err e), w)
            | (Ready (Ok n), w) \<Rightarrow>
                if n \<noteq> length auth then (Ready (Err OtherKind), w)
                else (case transport_flush w of
                    (Pending, w) \<Rightarrow> (Pending, w)
                  | (Ready (Err e), w) \<Rightarrow> (Ready (Err e), w)
                  | (Ready (Ok _), w) \<Rightarrow> (case packets p 1 (first_frames W version p t) (tr_random w) of
                        (Err e, rnd) \<Rightarrow> (Ready (Err e), w\<lparr>tr_random := rnd\<rparr>)
                      | (Ok ps, rnd) \<Rightarrow> (Ready (Ok (new_session p ps)), w\<lparr>tr_random := rnd\<rparr>))))"

end
