(* ===== verification/Anytls_Facts.thy ===== *)
theory Anytls_Facts
  imports Anytls
begin

text \<open>
  What an AnyTLS session guarantees, for every sequence of operations on it and everything the transport may do: the
  invariant of the session, the bytes written, the bytes read, and progress.
\<close>

section \<open>Frames on the wire\<close>

type_synonym any_frame = "u8 \<times> u32 \<times> bytes"

fun frame_bytes :: "any_frame \<Rightarrow> bytes" where
  "frame_bytes (cmd, ident, body) = frame cmd ident body"

fun frame_small :: "any_frame \<Rightarrow> bool" where
  "frame_small (cmd, ident, body) \<longleftrightarrow> length body \<le> MAX_FRAME"

definition is_data :: "any_frame \<Rightarrow> bool" where
  "is_data f \<longleftrightarrow> fst f = 2 \<and> fst (snd f) = 1"

definition is_fin :: "any_frame \<Rightarrow> bool" where
  "is_fin f \<longleftrightarrow> fst f = 3"

definition payload :: "any_frame list \<Rightarrow> bytes" where
  "payload fs = concat (map (snd \<circ> snd) (filter is_data fs))"

definition stream :: "any_frame list \<Rightarrow> bytes" where
  "stream fs = concat (map frame_bytes fs)"

lemma stream_simps [simp]: "stream [] = []" "stream (f # fs) = frame_bytes f @ stream fs" "stream (fs @ gs) = stream fs @ stream gs"
  by (simp_all add: stream_def)

lemma payload_simps [simp]: "payload [] = []" "payload (fs @ gs) = payload fs @ payload gs"
    "payload (f # fs) = (if is_data f then snd (snd f) else []) @ payload fs"
  by (simp_all add: payload_def)

definition pad_frames :: "nat list \<Rightarrow> any_frame list" where
  "pad_frames ns = map (\<lambda>n. (0, 0, replicate n 0)) ns"

lemma pad_frames_simps [simp]:
  "stream (pad_frames ns) = pad_bytes ns" "payload (pad_frames ns) = []" "filter is_fin (pad_frames ns) = []" "filter is_data (pad_frames ns) = []"
  "list_all frame_small (pad_frames ns) \<longleftrightarrow> list_all (\<lambda>n. n \<le> MAX_FRAME) ns"
  by (simp_all add: pad_frames_def pad_bytes_def stream_def payload_def comp_def is_data_def is_fin_def filter_empty_conv list_all_iff)

section \<open>The invariant of a session\<close>

definition pending :: "anytls \<Rightarrow> bytes" where
  "pending s = drop (at_written s) (concat (at_outgoing s))"

definition session_ok :: "anytls \<Rightarrow> bool" where
  "session_ok s \<longleftrightarrow> padding_ok (at_padding s) \<and> padding_ok (at_shared s) \<and> at_group s \<le> MAX_STOP
     \<and> length (at_outgoing s) \<le> 17 \<and> [] \<notin> set (at_outgoing s) \<and> length (at_hearts s) \<le> MAX_HEARTS
     \<and> length (at_header s) \<le> 7 \<and> at_need s \<le> MAX_FRAME \<and> length (at_body s) \<le> at_need s
     \<and> (at_data_ready s \<longrightarrow> at_delivered s < length (at_body s)) \<and> at_close_drained s \<le> MAX_CLOSE_DRAIN + 1
     \<and> (at_open s \<longrightarrow> at_close_drained s \<le> MAX_CLOSE_DRAIN)
     \<and> (at_failure s \<noteq> None \<longrightarrow> \<not> at_open s)
     \<and> (if at_open s then (case at_outgoing s of [] \<Rightarrow> at_written s = 0 | packet # _ \<Rightarrow> at_written s < length packet)
        else at_outgoing s = [] \<and> at_hearts s = [])"

text \<open>
  What has been sent and what is still pending is the prologue followed by whole frames that carry the data; \<open>fin\<close> says whether the
  end of the stream is among them, then as the last of the data and end frames.
\<close>

definition fin_ok :: "bool \<Rightarrow> any_frame list \<Rightarrow> bool" where
  "fin_ok fin fs \<longleftrightarrow> (\<exists>gs. filter (\<lambda>f. is_data f \<or> is_fin f) fs = gs @ (if fin then [(3, 1, [])] else []) \<and> filter is_fin gs = [])"

definition wire_ok :: "bytes \<Rightarrow> bytes \<Rightarrow> bool \<Rightarrow> anytls \<Rightarrow> transport \<Rightarrow> bool" where
  "wire_ok pre data fin s w \<longleftrightarrow> (\<exists>fs rest. tr_sent w @ rest = pre @ stream fs \<and> list_all frame_small fs \<and> payload fs = data
     \<and> fin_ok fin fs \<and> (at_open s \<longrightarrow> rest = pending s) \<and> (at_write_closed s \<longrightarrow> rest = []))"

definition untouched :: "anytls \<Rightarrow> anytls \<Rightarrow> bool" where
  "untouched s s' \<longleftrightarrow> at_header s' = at_header s \<and> at_body s' = at_body s \<and> at_need s' = at_need s \<and> at_delivered s' = at_delivered s
     \<and> at_data_ready s' = at_data_ready s \<and> at_v2 s' = at_v2 s \<and> at_acknowledged s' = at_acknowledged s
     \<and> at_fin_queued s' = at_fin_queued s \<and> at_write_closed s' = at_write_closed s \<and> at_peer_closed s' = at_peer_closed s
     \<and> at_close_drained s' = at_close_drained s \<and> at_shared s' = at_shared s \<and> at_padding s' = at_padding s
     \<and> (if at_open s' then at_open s \<and> at_closing s' = at_closing s \<and> at_failure s' = at_failure s
        else if at_open s then at_failure s' \<noteq> None else at_failure s' = at_failure s)"

lemma untouched_refl: "untouched s s"
  by (simp add: untouched_def)

lemma untouched_trans: "untouched s s' \<Longrightarrow> untouched s' s'' \<Longrightarrow> untouched s s''"
  by (cases "at_open s'"; cases "at_open s''") (simp_all add: untouched_def)

lemma finish_simps [simp]:
  "at_open (finish s) = False" "at_outgoing (finish s) = []" "at_hearts (finish s) = []" "at_failure (finish s) = at_failure s"
  "at_write_closed (finish s) = at_write_closed s" "at_fin_queued (finish s) = at_fin_queued s" "at_data_ready (finish s) = at_data_ready s"
  "at_body (finish s) = at_body s" "at_delivered (finish s) = at_delivered s" "at_header (finish s) = at_header s" "at_need (finish s) = at_need s"
  "at_padding (finish s) = at_padding s" "at_shared (finish s) = at_shared s" "at_group (finish s) = at_group s"
  "at_v2 (finish s) = at_v2 s" "at_acknowledged (finish s) = at_acknowledged s" "at_peer_closed (finish s) = at_peer_closed s"
  "at_close_drained (finish s) = at_close_drained s" "at_closing (finish s) = False"
  "at_reply_pending (finish s) = at_reply_pending s"
  by (simp_all add: finish_def)

lemma fail_with_simps [simp]:
  "at_open (fail_with k s) = False" "at_outgoing (fail_with k s) = []" "at_hearts (fail_with k s) = []" "at_failure (fail_with k s) = Some k"
  "at_write_closed (fail_with k s) = at_write_closed s" "at_fin_queued (fail_with k s) = at_fin_queued s" "at_data_ready (fail_with k s) = at_data_ready s"
  "at_body (fail_with k s) = at_body s" "at_delivered (fail_with k s) = at_delivered s" "at_header (fail_with k s) = at_header s" "at_need (fail_with k s) = at_need s"
  "at_padding (fail_with k s) = at_padding s" "at_shared (fail_with k s) = at_shared s" "at_group (fail_with k s) = at_group s"
  "at_v2 (fail_with k s) = at_v2 s" "at_acknowledged (fail_with k s) = at_acknowledged s" "at_peer_closed (fail_with k s) = at_peer_closed s"
  "at_close_drained (fail_with k s) = at_close_drained s" "at_closing (fail_with k s) = False"
  "at_reply_pending (fail_with k s) = at_reply_pending s"
  by (simp_all add: fail_with_def)

lemma finish_ok: "session_ok s \<Longrightarrow> session_ok (finish s)" "wire_ok pre data fin s w \<Longrightarrow> wire_ok pre data fin (finish s) w"
  by (auto simp: session_ok_def wire_ok_def)

lemma fail_with_ok: "session_ok s \<Longrightarrow> session_ok (fail_with k s)" "wire_ok pre data fin s w \<Longrightarrow> wire_ok pre data fin (fail_with k s) w"
    "at_open s \<Longrightarrow> untouched s (fail_with k s)"
  by (auto simp: session_ok_def wire_ok_def untouched_def)


section \<open>Writing keeps the invariant\<close>

lemma queue_ok:
  assumes q: "queue cmd ident body s w = (r, s', w')" and ok: "session_ok s" "at_open s" "at_outgoing s = []"
  shows "session_ok s' \<and> untouched s s' \<and> at_open s' \<and> at_hearts s' = at_hearts s \<and> at_reply_pending s' = at_reply_pending s
     \<and> tr_reads w' = tr_reads w \<and> tr_sent w' = tr_sent w
     \<and> (case r of Err _ \<Rightarrow> s' = s
        | Ok _ \<Rightarrow> \<exists>ns. pending s' = frame cmd ident body @ pad_bytes ns \<and> list_all (\<lambda>n. n \<le> 16384) ns)"
proof (cases "packets (at_padding s) (at_group s) (append_frame [] cmd ident body) (tr_random w)")
  case (Pair res rnd)
  show ?thesis
  proof (cases res)
    case (Err e)
    then show ?thesis using q Pair ok by (auto simp: queue_def untouched_def)
  next
    case (Ok ps)
    have s': "s' = s\<lparr>at_outgoing := ps, at_group := min (at_group s + 1) MAX_STOP\<rparr>" and w': "w' = w\<lparr>tr_random := rnd\<rparr>" and r: "r = Ok ()"
      using q Pair Ok by (auto simp: queue_def)
    obtain ns where ns: "concat ps = frame cmd ident body @ pad_bytes ns" "list_all (\<lambda>n. n \<le> 16384) ns" "[] \<notin> set ps" "length ps \<le> 17"
      using packets_spec [OF Pair [unfolded Ok]] ok(1) by (auto simp: session_ok_def append_frame_def)
    have z: "at_written s = 0" using ok by (simp add: session_ok_def)
    have "ps \<noteq> []" using ns(1) by (auto simp: frame_def)
    then have "session_ok s'" using ok ns(3,4) z by (cases ps) (auto simp: session_ok_def s')
    then show ?thesis using ns ok z by (auto simp: s' w' r untouched_def pending_def)
  qed
qed

lemma queue_wire:
  assumes q: "queue cmd ident body s w = (r, s', w')" and ok: "session_ok s" "at_open s" "at_outgoing s = []" "\<not> at_write_closed s"
    and wire: "wire_ok pre data fin s w" and body: "length body \<le> MAX_FRAME"
    and kind: "cmd = 9 \<and> fin' = fin \<or> cmd = 2 \<and> ident = 1 \<and> \<not> fin \<and> \<not> fin' \<or> cmd = 3 \<and> ident = 1 \<and> body = [] \<and> \<not> fin \<and> fin'"
  shows "case r of Err _ \<Rightarrow> wire_ok pre data fin s' w' | Ok _ \<Rightarrow> wire_ok pre (data @ (if cmd = 2 then body else [])) fin' s' w'"
proof -
  note qo = queue_ok [OF q ok(1-3)]
  obtain fs where fs: "tr_sent w = pre @ stream fs" "list_all frame_small fs" "payload fs = data" "fin_ok fin fs"
    using wire ok(2,3) by (auto simp: wire_ok_def pending_def)
  show ?thesis
  proof (cases r)
    case (Err e)
    then have "s' = s" "tr_sent w' = tr_sent w" using qo by auto
    then show ?thesis using Err wire by (simp add: wire_ok_def)
  next
    case (Ok u)
    then obtain ns where ns: "pending s' = frame cmd ident body @ pad_bytes ns" "list_all (\<lambda>n. n \<le> 16384) ns" using qo by auto
    let ?fs = "fs @ (cmd, ident, body) # pad_frames ns"
    have "tr_sent w' @ pending s' = pre @ stream ?fs" using fs(1) ns(1) qo by simp
    moreover have "list_all (\<lambda>n. n \<le> MAX_FRAME) ns" using ns(2) by (auto simp: MAX_FRAME_def list_all_iff)
    then have "list_all frame_small ?fs" using fs(2) body by simp
    moreover have "payload ?fs = data @ (if cmd = 2 then body else [])" using fs(3) kind by (auto simp: is_data_def)
    moreover have "fin_ok fin' ?fs"
    proof -
      have "filter (\<lambda>f. is_data f \<or> is_fin f) (pad_frames ns) = []" by (auto simp: pad_frames_def filter_empty_conv is_data_def is_fin_def)
      then show ?thesis using fs(4) kind by (auto simp: fin_ok_def is_data_def is_fin_def)
    qed
    moreover have "\<not> at_write_closed s'" using qo ok(4) by (simp add: untouched_def)
    ultimately show ?thesis unfolding Ok result.case wire_ok_def by blast
  qed
qed


lemma transport_write_Ok:
  assumes "transport_write buf w = (Ready (Ok n), w')"
  shows "n \<le> length buf \<and> tr_sent w' = tr_sent w @ take n buf \<and> tr_reads w' = tr_reads w \<and> tr_random w' = tr_random w"
  using assms by (auto simp: transport_write_def min_def split: list.splits write_event.splits)

lemma transport_write_other:
  "transport_write buf w = (Pending, w') \<or> transport_write buf w = (Ready (Err e), w') \<Longrightarrow> tr_sent w' = tr_sent w \<and> tr_reads w' = tr_reads w"
  by (auto simp: transport_write_def split: list.splits write_event.splits)

lemma transport_flush_same: "transport_flush w = (p, w') \<Longrightarrow> tr_sent w' = tr_sent w \<and> tr_reads w' = tr_reads w"
  by (auto simp: transport_flush_def split: list.splits)

lemma wire_ok_sent: "wire_ok pre data fin s w \<Longrightarrow> tr_sent w' = tr_sent w \<Longrightarrow> wire_ok pre data fin s w'"
  by (simp add: wire_ok_def)

text \<open>What \<open>drain\<close> guarantees.\<close>

definition drained :: "bytes \<Rightarrow> bytes \<Rightarrow> bool \<Rightarrow> anytls \<Rightarrow> transport \<Rightarrow> unit poll \<Rightarrow> anytls \<Rightarrow> transport \<Rightarrow> bool" where
  "drained pre data fin s w p s' w' \<longleftrightarrow> session_ok s' \<and> wire_ok pre data fin s' w' \<and> untouched s s' \<and> tr_reads w' = tr_reads w
     \<and> at_reply_pending s' = at_reply_pending s \<and> length (at_hearts s') \<le> length (at_hearts s)
     \<and> (p = Ready (Ok ()) \<longrightarrow> at_open s' \<and> at_outgoing s' = [] \<and> at_hearts s' = []) \<and> (p = Pending \<longrightarrow> at_open s')"

lemma drained_failI:
  assumes "session_ok s" "wire_ok pre data fin s w" "at_open s" "tr_sent w1 = tr_sent w" "tr_reads w1 = tr_reads w"
  shows "drained pre data fin s w (Ready (Err e)) (fail_with k s) w1"
  using fail_with_ok(1) [OF assms(1), of k] wire_ok_sent [OF fail_with_ok(2) [OF assms(2), of k] assms(4)] fail_with_ok(3) [OF assms(3), of k] assms(5)
  by (simp add: drained_def)

lemma drained_trans:
  assumes "untouched s s1" "tr_reads w1 = tr_reads w" "at_reply_pending s1 = at_reply_pending s" "length (at_hearts s1) \<le> length (at_hearts s)"
    "drained pre data fin s1 w1 p s' w'"
  shows "drained pre data fin s w p s' w'"
  using assms untouched_trans unfolding drained_def by force

lemma write_step_pending:
  assumes "session_ok s" "at_open s" "at_outgoing s = packet # rest" "n \<le> length (drop (at_written s) packet)" "n \<noteq> 0"
    "s' = (if at_written s + n = length packet then s\<lparr>at_outgoing := rest, at_written := 0\<rparr> else s\<lparr>at_written := at_written s + n\<rparr>)"
  shows "session_ok s' \<and> at_open s' \<and> pending s = take n (drop (at_written s) packet) @ pending s'"
proof -
  have lt: "at_written s < length packet" using assms(1-3) by (simp add: session_ok_def)
  have n: "at_written s + n \<le> length packet" using assms(4) lt by auto
  have "session_ok s'" using assms(1-3,6) n lt by (cases rest) (auto simp: session_ok_def)
  moreover have "at_open s'" using assms(2,6) by simp
  moreover have "pending s = take n (drop (at_written s) packet) @ pending s'"
  proof (cases "at_written s + n = length packet")
    case True
    then show ?thesis using assms(3,6) lt by (simp add: pending_def)
  next
    case False
    then have "drop (at_written s) (packet @ concat rest) = take n (drop (at_written s) packet) @ drop (at_written s + n) packet @ concat rest"
      using n by (metis append.assoc append_take_drop_id drop_append drop_drop diff_is_0_eq' drop_0 less_imp_le lt add.commute)
    then show ?thesis using False assms(3,6) n by (simp add: pending_def)
  qed
  ultimately show ?thesis by blast
qed

lemma drain_write_step:
  assumes "session_ok s" "wire_ok pre data fin s w" "at_open s" "at_outgoing s = packet # rest"
    "transport_write (drop (at_written s) packet) w = (Ready (Ok n), w')" "n \<noteq> 0"
    "s' = (if at_written s + n = length packet then s\<lparr>at_outgoing := rest, at_written := 0\<rparr> else s\<lparr>at_written := at_written s + n\<rparr>)"
    "\<not> at_write_closed s"
  shows "session_ok s' \<and> wire_ok pre data fin s' w' \<and> untouched s s' \<and> at_open s'"
proof -
  note tw = transport_write_Ok [OF assms(5)]
  have step: "session_ok s' \<and> at_open s' \<and> pending s = take n (drop (at_written s) packet) @ pending s'"
    by (rule write_step_pending [OF assms(1,3,4) _ assms(6,7)]) (use tw in simp)
  have "untouched s s'" using assms(3,7) by (auto simp: untouched_def)
  moreover obtain fs where fs: "tr_sent w @ pending s = pre @ stream fs" "list_all frame_small fs" "payload fs = data" "fin_ok fin fs"
    using assms(2,3) by (auto simp: wire_ok_def)
  have "tr_sent w' @ pending s' = pre @ stream fs" using fs(1) step tw by simp
  moreover have "\<not> at_write_closed s'" using assms(7,8) by simp
  ultimately show ?thesis using step fs(2-4) unfolding wire_ok_def by metis
qed

lemma drain_ok:
  "drain s w = (p, s', w') \<Longrightarrow> session_ok s \<Longrightarrow> \<not> at_write_closed s \<Longrightarrow> wire_ok pre data fin s w \<Longrightarrow> drained pre data fin s w p s' w'"
proof (induction s w arbitrary: p s' w' rule: drain.induct)
  case (1 s w)
  note dr = 1(4) [unfolded drain.simps [of s w]] and ok = 1(5) and wc = 1(6) and wire = 1(7)
  show ?case
  proof (cases "at_outgoing s")
    case (Cons packet rest)
    then have op: "at_open s" using ok by (auto simp: session_ok_def split: if_splits)
    obtain x w1 where tw: "transport_write (drop (at_written s) packet) w = (x, w1)" by fastforce
    note dr = dr [unfolded Cons list.case tw prod.case]
    consider (pending) "x = Pending" | (failed) e where "x = Ready (Err e)" | (some) n where "x = Ready (Ok n)" "n \<noteq> 0" | (zero) "x = Ready (Ok 0)"
      by (metis poll.exhaust result.exhaust)
    then show ?thesis
    proof cases
      case pending
      then have "p = Pending" "s' = s" "w' = w1" "tr_sent w1 = tr_sent w" "tr_reads w1 = tr_reads w"
        using dr op tw transport_write_other [of "drop (at_written s) packet" w w1] by auto
      then show ?thesis using ok wire_ok_sent [OF wire] op by (simp add: drained_def untouched_refl)
    next
      case (failed e)
      then have r: "p = Ready (Err e)" "s' = fail_with e s" "w' = w1" and "tr_sent w1 = tr_sent w" "tr_reads w1 = tr_reads w"
        using dr op tw transport_write_other [of "drop (at_written s) packet" w w1 e] by auto
      then show ?thesis using drained_failI [OF ok wire op] by simp
    next
      case (some n)
      define s1 where "s1 = (if at_written s + n = length packet then s\<lparr>at_outgoing := rest, at_written := 0\<rparr> else s\<lparr>at_written := at_written s + n\<rparr>)"
      have st: "session_ok s1 \<and> wire_ok pre data fin s1 w1 \<and> untouched s s1 \<and> at_open s1"
        by (rule drain_write_step [OF ok wire op Cons tw [unfolded some(1)] some(2) s1_def wc])
      have d1: "drain s1 w1 = (p, s', w')" using dr op some by (simp add: s1_def split: if_splits)
      have wc1: "\<not> at_write_closed s1" using st wc by (simp add: untouched_def)
      have "drained pre data fin s1 w1 p s' w'"
      proof (cases "at_written s + n = length packet")
        case True
        then have e: "s1 = s\<lparr>at_outgoing := rest, at_written := 0\<rparr>" by (simp add: s1_def)
        show ?thesis using 1(2) [OF Cons _ tw [symmetric] some(1) refl some(2) True d1 [unfolded e]] op st wc1 unfolding e by blast
      next
        case False
        then have e: "s1 = s\<lparr>at_written := at_written s + n\<rparr>" by (simp add: s1_def)
        show ?thesis using 1(3) [OF Cons _ tw [symmetric] some(1) refl some(2) False d1 [unfolded e]] op st wc1 unfolding e by blast
      qed
      then show ?thesis
        by (rule drained_trans [rotated 4]) (use st transport_write_Ok [OF tw [unfolded some(1)]] in \<open>auto simp: s1_def\<close>)
    next
      case zero
      then have r: "p = Ready (Err WriteZero)" "s' = fail_with WriteZero s" "w' = w1" using dr op by auto
      have "tr_sent w1 = tr_sent w" "tr_reads w1 = tr_reads w" using transport_write_Ok [OF tw [unfolded zero]] by auto
      then show ?thesis using r drained_failI [OF ok wire op] by simp
    qed
  next
    case Nil
    note dr = dr [unfolded Nil list.case]
    show ?thesis
    proof (cases "at_hearts s")
      case (Cons ident hs)
      let ?s = "s\<lparr>at_hearts := hs\<rparr>"
      have op: "at_open s" using ok Cons by (auto simp: session_ok_def split: if_splits)
      then have ok1: "session_ok ?s" "at_open ?s" "at_outgoing ?s = []" "\<not> at_write_closed ?s" "wire_ok pre data fin ?s w"
        using ok Cons Nil wc wire by (auto simp: session_ok_def wire_ok_def pending_def)
      obtain r s1 w1 where q: "queue 9 ident [] ?s w = (r, s1, w1)" by (cases "queue 9 ident [] ?s w") auto
      note qo = queue_ok [OF q ok1(1-3)] and qw = queue_wire [OF q ok1(1-5), of fin]
      have u: "untouched s s1" using qo by (auto simp: untouched_def)
      note dr = dr [unfolded Cons list.case q prod.case]
      show ?thesis
      proof (cases r)
        case (Err e)
        then show ?thesis using dr qo qw u op by (auto simp: drained_def Cons)
      next
        case (Ok un)
        have "drained pre data fin s1 w1 p s' w'"
          using 1(1) [OF Nil Cons q [symmetric] Ok refl] dr Ok qo qw u wc by (auto simp: untouched_def)
        then show ?thesis by (rule drained_trans [rotated 4]) (use u qo Cons in auto)
      qed
    next
      case hs: Nil
      note dr = dr [unfolded hs list.case]
      show ?thesis
      proof (cases "at_open s")
        case False
        then show ?thesis using dr ok wire by (auto simp: drained_def untouched_refl)
      next
        case True
        obtain x w1 where fl: "transport_flush w = (x, w1)" by fastforce
        note same = transport_flush_same [OF fl]
        consider "x = Pending" | "x = Ready (Ok ())" | e where "x = Ready (Err e)" by (metis (full_types) poll.exhaust result.exhaust unit.exhaust)
        then show ?thesis
        proof cases
          case (3 e)
          then show ?thesis using dr fl True same drained_failI [OF ok wire True] by auto
        qed (use dr fl True same ok wire_ok_sent [OF wire] Nil hs in \<open>auto simp: drained_def untouched_refl\<close>)
      qed
    qed
  qed
qed

section \<open>Reading frames\<close>

fun event_bytes :: "read_event \<Rightarrow> bytes" where
  "event_bytes (ReadData bs) = bs"
| "event_bytes _ = []"

definition incoming :: "transport \<Rightarrow> bytes" where
  "incoming w = concat (map event_bytes (tr_reads w))"

lemma transport_read_Ok:
  assumes "transport_read cap w = (Ready (Ok bs), w')"
  shows "incoming w = bs @ incoming w' \<and> length bs \<le> cap \<and> tr_sent w' = tr_sent w"
  using assms by (auto simp: transport_read_def incoming_def split: list.splits read_event.splits if_splits)

lemma transport_read_other:
  assumes "transport_read cap w = (Pending, w') \<or> transport_read cap w = (Ready (Err e), w')"
  shows "incoming w = incoming w' \<and> tr_sent w' = tr_sent w"
  using assms by (auto simp: transport_read_def incoming_def split: list.splits read_event.splits if_splits)

lemma frame_of_header:
  assumes "length h = 7" "length body = header_len h"
  shows "frame (h ! 0) (header_id h) body = h @ body"
proof -
  obtain a b c d e f g where h: "h = [a, b, c, d, e, f, g]" using assms(1) by (auto simp: length_Suc_conv numeral_eq_Suc)
  have "u16_be (of_nat (length body)) = [f, g]" unfolding assms(2) by (simp add: h header_len_def u16_be_from_be)
  then show ?thesis by (simp add: h frame_def header_id_def u32_be_from_be)
qed

definition head_outcome :: "anytls \<Rightarrow> bytes poll option \<Rightarrow> bytes \<Rightarrow> anytls \<Rightarrow> bool" where
  "head_outcome s r h s' \<longleftrightarrow> length h \<le> 7 \<and>
     (r = None \<and> length h = 7 \<and> (if length (at_header s) = 7 then s' = s
        else validate_header (at_v2 s) (at_acknowledged s) h \<and> s' = s\<lparr>at_header := h, at_body := [], at_need := header_len h, at_delivered := 0\<rparr>)
      \<or> r = Some Pending \<and> length h < 7 \<and> s' = s\<lparr>at_header := h\<rparr>
      \<or> (\<exists>e. r = Some (Ready (Err e)) \<and> s' = fail_with e (s\<lparr>at_header := h\<rparr>)))"

lemma read_head_spec:
  "read_header s w = (r, s', w') \<Longrightarrow> length (at_header s) \<le> 7 \<Longrightarrow>
     \<exists>h. at_header s @ incoming w = h @ incoming w' \<and> tr_sent w' = tr_sent w \<and> head_outcome s r h s'"
proof (induction s w rule: read_header.induct)
  case (1 s w)
  show ?case
  proof (cases "7 \<le> length (at_header s)")
    case True
    then have "r = None" "s' = s" "w' = w" using 1(3) by (simp_all add: read_header.simps [of s w])
    then show ?thesis using True 1(4) by (auto simp: head_outcome_def)
  next
    case False
    obtain x w1 where tr: "transport_read (7 - length (at_header s)) w = (x, w1)" by fastforce
    note rh = 1(3) [unfolded read_header.simps [of s w] if_not_P [OF False] tr prod.case]
    consider (pending) "x = Pending" | (failed) e where "x = Ready (Err e)" | (eof) "x = Ready (Ok [])" | (some) bs where "x = Ready (Ok bs)" "bs \<noteq> []"
      by (metis poll.exhaust result.exhaust)
    then show ?thesis
    proof cases
      case pending
      then show ?thesis using rh False transport_read_other [of _ w w1] tr
        by (intro exI [of _ "at_header s"]) (auto simp: head_outcome_def)
    next
      case (failed e)
      then show ?thesis using rh False transport_read_other [of _ w w1 e] tr
        by (intro exI [of _ "at_header s"]) (auto simp: head_outcome_def)
    next
      case eof
      then show ?thesis using rh False transport_read_Ok [of _ w "[]" w1] tr
        by (intro exI [of _ "at_header s"]) (auto simp: head_outcome_def)
    next
      case (some bs)
      let ?h = "at_header s @ bs"
      note t = transport_read_Ok [OF tr [unfolded some(1)]]
      have len: "length ?h \<le> 7" using t False by (simp only: length_append) linarith
      show ?thesis
      proof (cases "length ?h = 7")
        case True
        show ?thesis
        proof (cases "validate_header (at_v2 s) (at_acknowledged s) ?h")
          case valid: True
          have "read_header (s\<lparr>at_header := ?h, at_body := [], at_need := header_len ?h, at_delivered := 0\<rparr>) w1 = (r, s', w')"
            using rh some True valid by (simp add: Let_def)
          then have "r = None" "s' = s\<lparr>at_header := ?h, at_body := [], at_need := header_len ?h, at_delivered := 0\<rparr>" "w' = w1"
            using True by (simp_all add: read_header.simps)
          then show ?thesis using t True valid False by (intro exI [of _ ?h]) (auto simp: head_outcome_def)
        next
          case invalid: False
          then have "r = Some (Ready (Err InvalidData))" "s' = fail_with InvalidData (s\<lparr>at_header := ?h\<rparr>)" "w' = w1"
            using rh some True by (simp_all add: Let_def)
          then show ?thesis using t True by (intro exI [of _ ?h]) (auto simp: head_outcome_def)
        qed
      next
        case short: False
        have "read_header (s\<lparr>at_header := ?h\<rparr>) w1 = (r, s', w')" using rh some short by (simp add: Let_def)
        then obtain h where h: "?h @ incoming w1 = h @ incoming w'" "tr_sent w' = tr_sent w1" "head_outcome (s\<lparr>at_header := ?h\<rparr>) r h s'"
          using 1(2) [OF False tr [symmetric] some(1) refl some(2) refl refl] short len by auto
        then show ?thesis using t short False by (intro exI [of _ h]) (auto simp: head_outcome_def)
      qed
    qed
  qed
qed

lemma read_payload_spec:
  "read_payload s w = (r, s', w') \<Longrightarrow> length (at_body s) \<le> at_need s \<Longrightarrow>
     \<exists>b. at_body s @ incoming w = b @ incoming w' \<and> tr_sent w' = tr_sent w \<and> length b \<le> at_need s
       \<and> (r = None \<and> length b = at_need s \<and> s' = s\<lparr>at_body := b\<rparr> \<or> r = Some Pending \<and> s' = s\<lparr>at_body := b\<rparr>
          \<or> (\<exists>e. r = Some (Ready (Err e)) \<and> s' = fail_with e (s\<lparr>at_body := b\<rparr>)))"
proof (induction s w rule: read_payload.induct)
  case (1 s w)
  show ?case
  proof (cases "at_need s \<le> length (at_body s)")
    case True
    then have "r = None" "s' = s" "w' = w" using 1(2) by (simp_all add: read_payload.simps [of s w])
    then show ?thesis using True 1(3) by auto
  next
    case False
    obtain x w1 where tr: "transport_read (at_need s - length (at_body s)) w = (x, w1)" by fastforce
    note rh = 1(2) [unfolded read_payload.simps [of s w] if_not_P [OF False] tr prod.case]
    consider (pending) "x = Pending" | (failed) e where "x = Ready (Err e)" | (eof) "x = Ready (Ok [])" | (some) bs where "x = Ready (Ok bs)" "bs \<noteq> []"
      by (metis poll.exhaust result.exhaust)
    then show ?thesis
    proof cases
      case pending
      then show ?thesis using rh 1(3) transport_read_other [of _ w w1] tr by (intro exI [of _ "at_body s"]) auto
    next
      case (failed e)
      then show ?thesis using rh 1(3) transport_read_other [of _ w w1 e] tr by (intro exI [of _ "at_body s"]) auto
    next
      case eof
      then show ?thesis using rh 1(3) transport_read_Ok [of _ w "[]" w1] tr by (intro exI [of _ "at_body s"]) auto
    next
      case (some bs)
      note t = transport_read_Ok [OF tr [unfolded some(1)]]
      have "read_payload (s\<lparr>at_body := at_body s @ bs\<rparr>) w1 = (r, s', w')" using rh some by simp
      moreover have "length (at_body s @ bs) \<le> at_need s" using t False by (simp only: length_append) linarith
      ultimately show ?thesis using 1(1) [OF False tr [symmetric] some(1) refl some(2)] t by auto
    qed
  qed
qed

section \<open>All operations keep the invariant\<close>

definition partial :: "anytls \<Rightarrow> bytes" where
  "partial s = at_header s @ (if length (at_header s) = 7 then at_body s else [])"

definition undelivered :: "anytls \<Rightarrow> bytes" where
  "undelivered s = (if at_data_ready s then drop (at_delivered s) (at_body s) else [])"

text \<open>
  What has been read: the incoming bytes start with whole frames whose data is what the reader got and what is ready for it; while
  the session reads on, the rest is the frame in progress and what the transport still holds; and a session that ended without an error
  and without a local shutdown has seen the end of the stream.
\<close>

definition frames_read :: "bytes \<Rightarrow> bytes \<Rightarrow> anytls \<Rightarrow> transport \<Rightarrow> any_frame list \<Rightarrow> bytes \<Rightarrow> bool" where
  "frames_read input got s w fs r \<longleftrightarrow> input = stream fs @ r \<and> list_all frame_small fs \<and> filter is_fin fs = []
     \<and> payload fs = got @ undelivered s
     \<and> (at_open s \<and> \<not> at_closing s \<longrightarrow> r = partial s @ incoming w)
     \<and> (\<not> at_open s \<and> at_failure s = None \<and> \<not> at_write_closed s \<longrightarrow> (\<exists>r'. r = frame 3 1 [] @ r'))"

definition head_ok :: "anytls \<Rightarrow> bool" where
  "head_ok s \<longleftrightarrow> (at_data_ready s \<longrightarrow> at_header s = [])
     \<and> (length (at_header s) = 7 \<and> at_open s \<longrightarrow> at_need s = header_len (at_header s) \<and> validate_header (at_v2 s) (at_acknowledged s) (at_header s)
        \<and> at_delivered s = 0)"

definition read_ok :: "bytes \<Rightarrow> bytes \<Rightarrow> anytls \<Rightarrow> transport \<Rightarrow> bool" where
  "read_ok input got s w \<longleftrightarrow> (\<exists>fs r. frames_read input got s w fs r) \<and> head_ok s"

definition close_ok :: "anytls \<Rightarrow> bool" where
  "close_ok s \<longleftrightarrow> (at_fin_queued s \<longrightarrow> at_closing s \<or> \<not> at_open s) \<and> (at_write_closed s \<longrightarrow> at_fin_queued s)"

text \<open>Once the session has failed, the end of the stream may have been announced without being queued.\<close>

definition sent_ok :: "bytes \<Rightarrow> bytes \<Rightarrow> anytls \<Rightarrow> transport \<Rightarrow> bool" where
  "sent_ok pre data s w \<longleftrightarrow> (\<exists>fin. wire_ok pre data fin s w \<and> (at_failure s = None \<or> at_write_closed s \<longrightarrow> fin = at_fin_queued s))"

definition session_inv :: "bytes \<Rightarrow> bytes \<Rightarrow> bytes \<Rightarrow> bytes \<Rightarrow> anytls \<Rightarrow> transport \<Rightarrow> bool" where
  "session_inv pre data input got s w \<longleftrightarrow>
     session_ok s \<and> sent_ok pre data s w \<and> close_ok s \<and> read_ok input got s w"

lemma open_no_failure: "session_ok s \<Longrightarrow> at_open s \<Longrightarrow> at_failure s = None"
  unfolding session_ok_def by (cases "at_failure s") simp_all

lemma sent_ok_open: "sent_ok pre data s w \<Longrightarrow> session_ok s \<Longrightarrow> at_open s \<Longrightarrow> wire_ok pre data (at_fin_queued s) s w"
  by (auto simp: sent_ok_def session_ok_def)

lemma sent_okI: "wire_ok pre data (at_fin_queued s) s w \<Longrightarrow> sent_ok pre data s w"
  by (auto simp: sent_ok_def)

lemma sent_ok_dead:
  assumes "sent_ok pre data s w" "\<not> at_open s1" "at_fin_queued s1 = at_fin_queued s" "at_write_closed s1 = at_write_closed s" "tr_sent w1 = tr_sent w"
    "at_failure s = None \<or> at_failure s1 \<noteq> None"
  shows "sent_ok pre data s1 w1"
proof -
  obtain fin where f: "wire_ok pre data fin s w" "at_failure s = None \<or> at_write_closed s \<longrightarrow> fin = at_fin_queued s"
    using assms(1) unfolding sent_ok_def by blast
  have "wire_ok pre data fin s1 w1" using f(1) assms(2,4,5) unfolding wire_ok_def by auto
  moreover have "at_failure s1 = None \<or> at_write_closed s1 \<longrightarrow> fin = at_fin_queued s1" using f(2) assms(3,4,6) by auto
  ultimately show ?thesis unfolding sent_ok_def by blast
qed

lemma session_inv_open: "session_inv pre data input got s w \<Longrightarrow> at_open s \<Longrightarrow> \<not> at_closing s \<Longrightarrow> \<not> at_fin_queued s \<and> \<not> at_write_closed s"
  by (auto simp: session_inv_def close_ok_def)

lemma head_ok_untouched: "head_ok s \<Longrightarrow> untouched s s' \<Longrightarrow> at_open s \<Longrightarrow> head_ok s'"
  unfolding head_ok_def untouched_def by simp

lemma frames_read_untouched:
  assumes "frames_read input got s w fs r" "untouched s s'" "incoming w' = incoming w" "at_open s"
  shows "frames_read input got s' w' fs r"
proof -
  have e: "undelivered s' = undelivered s" "partial s' = partial s"
    using assms(2) unfolding untouched_def undelivered_def partial_def by simp_all
  have "at_open s' \<Longrightarrow> at_closing s' = at_closing s" "\<not> at_open s' \<Longrightarrow> at_failure s' \<noteq> None"
    using assms(2,4) unfolding untouched_def by simp_all
  then show ?thesis using assms(1,3,4) unfolding frames_read_def e by auto
qed

lemma read_ok_untouched:
  assumes "read_ok input got s w" "untouched s s'" "incoming w' = incoming w" "at_open s"
  shows "read_ok input got s' w'"
  using assms frames_read_untouched [OF _ assms(2-4)] head_ok_untouched [OF _ assms(2,4)] unfolding read_ok_def by blast

lemma close_ok_untouched: "close_ok s \<Longrightarrow> untouched s s' \<Longrightarrow> close_ok s'"
  unfolding close_ok_def untouched_def by (cases "at_open s'") simp_all

lemma incoming_reads: "tr_reads w' = tr_reads w \<Longrightarrow> incoming w' = incoming w"
  by (simp add: incoming_def)

lemma session_inv_untouched:
  assumes "session_inv pre data input got s w" "session_ok s'" "wire_ok pre data (at_fin_queued s) s' w'" "untouched s s'" "at_open s"
    "incoming w' = incoming w"
  shows "session_inv pre data input got s' w'"
proof -
  have "at_fin_queued s' = at_fin_queued s" using assms(4) by (simp add: untouched_def)
  then have "sent_ok pre data s' w'" using assms(3) by (intro sent_okI) simp
  then show ?thesis using assms(1,2) read_ok_untouched [OF _ assms(4,6,5)] close_ok_untouched [OF _ assms(4)]
    unfolding session_inv_def by simp
qed

lemma session_inv_drain:
  assumes "drain s w = (p, s', w')" "session_inv pre data input got s w" "at_open s" "\<not> at_write_closed s"
  shows "session_inv pre data input got s' w' \<and> drained pre data (at_fin_queued s) s w p s' w'"
proof -
  have d: "drained pre data (at_fin_queued s) s w p s' w'"
    using drain_ok [OF assms(1) _ assms(4)] assms(2,3) sent_ok_open by (simp add: session_inv_def)
  then show ?thesis using session_inv_untouched [OF assms(2), of s' w'] incoming_reads [of w' w] assms(3) by (simp add: drained_def)
qed

lemma session_inv_fail:
  assumes "session_inv pre data input got s w"
  shows "session_inv pre data input got (fail_with k s) w"
proof -
  have "read_ok input got (fail_with k s) w"
    using assms by (auto simp: session_inv_def read_ok_def frames_read_def head_ok_def undelivered_def)
  moreover have "sent_ok pre data (fail_with k s) w" by (rule sent_ok_dead [of pre data s w]) (use assms in \<open>simp_all add: session_inv_def\<close>)
  moreover have "close_ok (fail_with k s)" using assms by (simp add: session_inv_def close_ok_def)
  ultimately show ?thesis using assms fail_with_ok(1) [of s k] unfolding session_inv_def by blast
qed

lemma session_inv_replied: "session_inv pre data input got (s\<lparr>at_reply_pending := b\<rparr>) w = session_inv pre data input got s w"
  unfolding session_inv_def session_ok_def sent_ok_def wire_ok_def close_ok_def read_ok_def frames_read_def head_ok_def undelivered_def partial_def pending_def
  by (cases s) (simp only: anytls.update_convs anytls.select_convs)

lemma session_inv_replies:
  assumes "drive_replies s w = (r, s', w')" "session_inv pre data input got s w" "at_open s" "\<not> at_closing s"
  shows "session_inv pre data input got s' w' \<and> untouched s s' \<and> (\<forall>u. r = Ok u \<longrightarrow> at_open s')"
proof (cases "at_reply_pending s")
  case True
  obtain p s1 w1 where d: "drain s w = (p, s1, w1)" by (cases "drain s w") auto
  have i: "session_inv pre data input got s1 w1" "drained pre data (at_fin_queued s) s w p s1 w1"
    using session_inv_drain [OF d assms(2,3)] session_inv_open [OF assms(2-4)] by auto
  have u: "untouched s s1" "untouched s (s1\<lparr>at_reply_pending := False\<rparr>)" using i(2) by (simp_all add: drained_def untouched_def)
  consider "p = Pending" | "p = Ready (Ok ())" | e where "p = Ready (Err e)" by (metis (full_types) poll.exhaust result.exhaust unit.exhaust)
  then show ?thesis
  proof cases
    case 1
    then have "s' = s1" "w' = w1" "at_open s1" using assms(1) True d i(2) by (auto simp: drive_replies_def drained_def)
    then show ?thesis using i(1) u by simp
  next
    case 2
    then have "s' = s1\<lparr>at_reply_pending := False\<rparr>" "w' = w1" "at_open s1" using assms(1) True d i(2) by (auto simp: drive_replies_def drained_def)
    then show ?thesis using i(1) u by (simp add: session_inv_replied)
  next
    case (3 e)
    then have "s' = s1" "w' = w1" "r = Err e" using assms(1) True d by (auto simp: drive_replies_def)
    then show ?thesis using i(1) u by simp
  qed
qed (use assms in \<open>auto simp: drive_replies_def untouched_refl\<close>)

lemma session_inv_dead:
  assumes "session_inv pre data input got s w" "session_ok s1" "\<not> at_open s1" "at_failure s1 \<noteq> None" "undelivered s1 = undelivered s"
    "at_data_ready s1 \<longrightarrow> at_header s1 = []" "at_fin_queued s1 = at_fin_queued s" "at_write_closed s1 = at_write_closed s" "tr_sent w1 = tr_sent w"
  shows "session_inv pre data input got s1 w1"
proof -
  obtain fs r where f: "frames_read input got s w fs r" using assms(1) by (auto simp: session_inv_def read_ok_def)
  then have "frames_read input got s1 w1 fs r" using assms(3-5) by (auto simp: frames_read_def)
  moreover have "head_ok s1" using assms(3,6) by (simp add: head_ok_def)
  ultimately have "read_ok input got s1 w1" by (auto simp: read_ok_def)
  moreover have "sent_ok pre data s1 w1"
    by (rule sent_ok_dead [of pre data s w, OF _ assms(3,7-9)]) (use assms(1,4) in \<open>simp_all add: session_inv_def\<close>)
  moreover have "close_ok s1" using assms(1,3,7,8) by (simp add: session_inv_def close_ok_def)
  ultimately show ?thesis using assms(2) by (simp add: session_inv_def)
qed

lemma session_inv_reading:
  assumes "session_inv pre data input got s w" "at_open s" "\<not> at_closing s"
    "session_ok s1" "at_open s1" "\<not> at_closing s1" "pending s1 = pending s" "at_fin_queued s1 = at_fin_queued s" "at_write_closed s1 = at_write_closed s"
    "undelivered s1 = undelivered s" "partial s1 @ incoming w1 = partial s @ incoming w" "head_ok s1" "tr_sent w1 = tr_sent w"
  shows "session_inv pre data input got s1 w1"
proof -
  obtain fs r where f: "frames_read input got s w fs r" using assms(1) by (auto simp: session_inv_def read_ok_def)
  then have "frames_read input got s1 w1 fs r" using assms(2,3,5,6,10,11) by (simp add: frames_read_def)
  then have "read_ok input got s1 w1" using assms(12) by (auto simp: read_ok_def)
  moreover have "wire_ok pre data (at_fin_queued s) s w" using assms(1,2) by (intro sent_ok_open) (simp_all add: session_inv_def)
  then have "sent_ok pre data s1 w1" using assms(2,5,7-9,13) by (intro sent_okI) (simp add: wire_ok_def)
  moreover have "close_ok s1" using assms(1-3,5,6,8,9) by (auto simp: session_inv_def close_ok_def)
  ultimately show ?thesis using assms(4) by (simp add: session_inv_def)
qed

lemma header_len_small: "header_len h \<le> MAX_FRAME"
  using unat_u8_less [of "h ! 5"] unat_u8_less [of "h ! 6"] unfolding header_len_def MAX_FRAME_def unat_u16_from_be by linarith

lemma read_head_inv:
  assumes "read_header s w = (r, s', w')" "session_inv pre data input got s w" "at_open s" "\<not> at_closing s" "\<not> at_data_ready s"
  shows "session_inv pre data input got s' w' \<and> (case r of
       None \<Rightarrow> at_open s' \<and> \<not> at_closing s' \<and> \<not> at_data_ready s' \<and> length (at_header s') = 7
     | Some p \<Rightarrow> p = Pending \<or> (\<exists>e. p = Ready (Err e)))"
proof -
  have ok: "session_ok s" "head_ok s" using assms(2) by (simp_all add: session_inv_def read_ok_def)
  then have l: "length (at_header s) \<le> 7" by (simp add: session_ok_def)
  obtain h where h: "at_header s @ incoming w = h @ incoming w'" "tr_sent w' = tr_sent w" "head_outcome s r h s'"
    using read_head_spec [OF assms(1) l] by blast
  consider (again) "r = None" "length (at_header s) = 7" "s' = s" "length h = 7"
    | (complete) "r = None" "length (at_header s) < 7" "length h = 7" "validate_header (at_v2 s) (at_acknowledged s) h"
        "s' = s\<lparr>at_header := h, at_body := [], at_need := header_len h, at_delivered := 0\<rparr>"
    | (pending) "r = Some Pending" "length h < 7" "s' = s\<lparr>at_header := h\<rparr>" "length (at_header s) < 7"
    | (failed) e where "r = Some (Ready (Err e))" "s' = fail_with e (s\<lparr>at_header := h\<rparr>)" "length h \<le> 7"
  proof -
    have "length (at_header s) < 7" if "r = Some Pending"
      using assms(1) that l by (cases "length (at_header s) = 7") (auto simp: read_header.simps)
    then show ?thesis using h(3) l again complete pending failed unfolding head_outcome_def by (auto split: if_splits)
  qed
  then show ?thesis
  proof cases
    case again
    then have "h = at_header s" "incoming w' = incoming w" using h(1) by simp_all
    then have "session_inv pre data input got s w'"
      by (intro session_inv_reading [OF assms(2-4) ok(1) assms(3,4)]) (simp_all add: ok h(2))
    then show ?thesis using again assms(3-5) by simp
  next
    case complete
    have "header_len h \<le> MAX_FRAME" by (rule header_len_small)
    then have "session_ok s'" using ok(1) complete assms(5) by (simp add: session_ok_def cong: if_cong list.case_cong)
    moreover have "head_ok s'" using complete assms(5) by (simp add: head_ok_def)
    ultimately have "session_inv pre data input got s' w'"
      using h complete assms(3-5) by (intro session_inv_reading [OF assms(2-4)]) (simp_all add: pending_def undelivered_def partial_def)
    then show ?thesis using complete assms(3-5) by simp
  next
    case pending
    have "session_ok s'" using ok(1) pending by (simp add: session_ok_def cong: if_cong list.case_cong)
    moreover have "head_ok s'" using pending assms(5) by (simp add: head_ok_def)
    ultimately have "session_inv pre data input got s' w'"
      using h pending assms(3-5) by (intro session_inv_reading [OF assms(2-4)]) (simp_all add: pending_def undelivered_def partial_def)
    then show ?thesis using pending by simp
  next
    case (failed e)
    have "session_ok (s\<lparr>at_header := h\<rparr>)" using ok(1) failed(3) by (simp add: session_ok_def cong: if_cong list.case_cong)
    then have "session_inv pre data input got s' w'" using failed(2) h(2) assms(5) fail_with_ok(1)
      by (intro session_inv_dead [OF assms(2)]) (simp_all add: undelivered_def)
    then show ?thesis using failed by simp
  qed
qed

lemma read_payload_inv:
  assumes "read_payload s w = (r, s', w')" "session_inv pre data input got s w" "at_open s" "\<not> at_closing s" "\<not> at_data_ready s"
    "length (at_header s) = 7"
  shows "session_inv pre data input got s' w' \<and> (case r of
       None \<Rightarrow> at_open s' \<and> \<not> at_closing s' \<and> \<not> at_data_ready s' \<and> length (at_header s') = 7 \<and> length (at_body s') = at_need s'
     | Some p \<Rightarrow> p = Pending \<or> (\<exists>e. p = Ready (Err e)))"
proof -
  have ok: "session_ok s" "head_ok s" using assms(2) by (simp_all add: session_inv_def read_ok_def)
  then have l: "length (at_body s) \<le> at_need s" by (simp add: session_ok_def)
  obtain b where b: "at_body s @ incoming w = b @ incoming w'" "tr_sent w' = tr_sent w" "length b \<le> at_need s"
    and cases: "r = None \<and> length b = at_need s \<and> s' = s\<lparr>at_body := b\<rparr> \<or> r = Some Pending \<and> s' = s\<lparr>at_body := b\<rparr>
          \<or> (\<exists>e. r = Some (Ready (Err e)) \<and> s' = fail_with e (s\<lparr>at_body := b\<rparr>))"
    using read_payload_spec [OF assms(1) l] by blast
  have s1: "session_ok (s\<lparr>at_body := b\<rparr>)" using ok(1) b(3) assms(5) by (simp add: session_ok_def cong: if_cong list.case_cong)
  have "head_ok (s\<lparr>at_body := b\<rparr>)" using ok(2) by (simp add: head_ok_def)
  then have "session_inv pre data input got (s\<lparr>at_body := b\<rparr>) w'"
    using s1 b assms(3-6) by (intro session_inv_reading [OF assms(2-4)]) (simp_all add: pending_def undelivered_def partial_def)
  moreover have "session_inv pre data input got (fail_with e (s\<lparr>at_body := b\<rparr>)) w'" for e
    using s1 b(2) assms(5) fail_with_ok(1) by (intro session_inv_dead [OF assms(2)]) (simp_all add: undelivered_def)
  ultimately show ?thesis using cases assms(3-6) by (elim disjE) auto
qed

text \<open>A complete frame moves to the frames that have been read.\<close>

lemma frame_read_inv:
  assumes "session_inv pre data input got s w" "at_open s" "\<not> at_closing s" "\<not> at_data_ready s"
    "length (at_header s) = 7" "length (at_body s) = at_need s" "at_header s ! 0 \<noteq> 3"
    "session_ok s1" "at_open s1" "\<not> at_closing s1" "pending s1 = pending s" "at_fin_queued s1 = at_fin_queued s" "at_write_closed s1 = at_write_closed s"
    "undelivered s1 = (if at_header s ! 0 = 2 then at_body s else [])" "at_header s1 = []"
  shows "session_inv pre data input got s1 w"
proof -
  let ?f = "(at_header s ! 0, header_id (at_header s), at_body s)"
  obtain fs r where f: "frames_read input got s w fs r" and head: "head_ok s" using assms(1) by (auto simp: session_inv_def read_ok_def)
  then have v: "at_need s = header_len (at_header s)" "validate_header (at_v2 s) (at_acknowledged s) (at_header s)"
    using assms(2,5) by (simp_all add: head_ok_def)
  have data: "is_data ?f \<longleftrightarrow> at_header s ! 0 = 2" using v(2) by (auto simp: is_data_def validate_header_def Let_def split: if_splits)
  have small: "frame_small ?f" using assms(6) v(1) header_len_small by simp
  have "partial s = frame_bytes ?f" using frame_of_header [OF assms(5), of "at_body s"] assms(5,6) v(1) by (simp add: partial_def)
  then have "frames_read input got s1 w (fs @ [?f]) (incoming w)"
    using f assms(2-4,7,9,10,14,15) data small unfolding frames_read_def
    by (simp add: undelivered_def [of s] partial_def [of s1] is_fin_def)
  moreover have "head_ok s1" using assms(15) by (simp add: head_ok_def)
  ultimately have "read_ok input got s1 w" by (auto simp: read_ok_def)
  moreover have "wire_ok pre data (at_fin_queued s) s w" using assms(1,2) by (intro sent_ok_open) (simp_all add: session_inv_def)
  then have "sent_ok pre data s1 w" using assms(2,9,11-13) by (intro sent_okI) (simp add: wire_ok_def)
  moreover have "close_ok s1" using assms(1-3,9,10,12,13) by (auto simp: session_inv_def close_ok_def)
  ultimately show ?thesis using assms(8) by (simp add: session_inv_def)
qed

lemma fin_read_inv:
  assumes "session_inv pre data input got s w" "at_open s" "\<not> at_closing s" "\<not> at_data_ready s"
    "length (at_header s) = 7" "length (at_body s) = at_need s" "at_header s ! 0 = 3"
  shows "session_inv pre data input got ((finish s)\<lparr>at_header := []\<rparr>) w"
proof -
  obtain fs r where f: "frames_read input got s w fs r" and head: "head_ok s" using assms(1) by (auto simp: session_inv_def read_ok_def)
  then have v: "at_need s = header_len (at_header s)" "validate_header (at_v2 s) (at_acknowledged s) (at_header s)"
    using assms(2,5) by (simp_all add: head_ok_def)
  then have i: "header_id (at_header s) = 1" "at_body s = []" using assms(6,7) by (auto simp: validate_header_def Let_def)
  have "partial s = frame 3 1 []" using frame_of_header [OF assms(5), of "at_body s"] assms(5-7) v(1) i by (simp add: partial_def)
  then have "frames_read input got ((finish s)\<lparr>at_header := []\<rparr>) w fs r"
    using f assms(2-4) unfolding frames_read_def by (auto simp: undelivered_def)
  then have "read_ok input got ((finish s)\<lparr>at_header := []\<rparr>) w" using assms(4) by (auto simp: read_ok_def head_ok_def)
  moreover have "session_ok ((finish s)\<lparr>at_header := []\<rparr>)" using assms(1) finish_ok(1) by (auto simp: session_inv_def session_ok_def)
  moreover have "sent_ok pre data ((finish s)\<lparr>at_header := []\<rparr>) w"
    by (rule sent_ok_dead [of pre data s w]) (use assms(1) open_no_failure [OF _ assms(2)] in \<open>simp_all add: session_inv_def\<close>)
  moreover have "close_ok ((finish s)\<lparr>at_header := []\<rparr>)" using assms(1) by (simp add: session_inv_def close_ok_def)
  ultimately show ?thesis by (simp add: session_inv_def)
qed

lemma control_inv:
  assumes "control md5 s = (res, s1)" "session_inv pre data input got s w" "at_open s" "\<not> at_closing s" "\<not> at_data_ready s"
    "length (at_header s) = 7" "length (at_body s) = at_need s"
  shows "case res of Ok _ \<Rightarrow> session_inv pre data input got (s1\<lparr>at_header := []\<rparr>) w | Err e \<Rightarrow> session_inv pre data input got (fail_with e s1) w"
proof -
  have ok: "session_ok s" using assms(2) by (simp add: session_inv_def)
  note frame = frame_read_inv [OF assms(2-7)]
  have dead: "session_inv pre data input got (fail_with e x) w" if "x = s \<or> x = s\<lparr>at_acknowledged := True\<rparr>" for e x
  proof -
    have "session_ok x" using that ok by (auto simp: session_ok_def cong: if_cong list.case_cong)
    then show ?thesis using that assms(5) fail_with_ok(1) by (intro session_inv_dead [OF assms(2)]) (auto simp: undelivered_def)
  qed
  let ?c = "at_header s ! 0"
  consider (skip) "?c = 0 \<or> ?c = 9" | (psh) "?c = 2" | (fin) "?c = 3" | (alert) "?c = 5" | (pad) "?c = 6" | (ack) "?c = 7" | (heart) "?c = 8" | (set) "?c = 10"
    | (other) "res = Err InvalidData" "s1 = s"
    using assms(1) by (auto simp: control_def Let_def split: if_splits)
  then show ?thesis
  proof cases
    case skip
    have "session_ok (s\<lparr>at_header := []\<rparr>)" using ok by (simp add: session_ok_def cong: if_cong list.case_cong)
    then show ?thesis using skip assms(1,3-5) frame [of "s\<lparr>at_header := []\<rparr>"]
      by (auto simp: control_def undelivered_def pending_def)
  next
    case psh
    let ?s = "s\<lparr>at_data_ready := at_body s \<noteq> [], at_header := []\<rparr>"
    have z: "at_delivered s = 0" using assms(2,3,6) by (simp add: session_inv_def read_ok_def head_ok_def)
    then have "session_ok ?s" using ok by (simp add: session_ok_def cong: if_cong list.case_cong)
    moreover have "undelivered ?s = at_body s" using z by (simp add: undelivered_def)
    ultimately have "session_inv pre data input got ?s w" using psh assms(3,4) by (intro frame) (simp_all add: pending_def)
    moreover have "res = Ok ()" "s1 = s\<lparr>at_data_ready := at_body s \<noteq> []\<rparr>" using assms(1) psh by (simp_all add: control_def)
    ultimately show ?thesis by simp
  next
    case fin
    then show ?thesis using fin_read_inv [OF assms(2-7)] assms(1) by (auto simp: control_def)
  next
    case alert
    then show ?thesis using dead assms(1) by (auto simp: control_def)
  next
    case pad
    show ?thesis
    proof (cases "padding_parse md5 (at_body s)")
      case (Ok p)
      let ?s = "s\<lparr>at_shared := p, at_header := []\<rparr>"
      have "session_ok ?s" using ok padding_parse_ok [OF Ok] by (simp add: session_ok_def cong: if_cong list.case_cong)
      then have "session_inv pre data input got ?s w" using pad assms(3-5) by (intro frame) (simp_all add: pending_def undelivered_def)
      then show ?thesis using assms(1) pad Ok by (auto simp: control_def)
    next
      case (Err e)
      then show ?thesis using assms(1) pad dead by (auto simp: control_def)
    qed
  next
    case ack
    have "session_ok (s\<lparr>at_acknowledged := True, at_header := []\<rparr>)" using ok by (simp add: session_ok_def cong: if_cong list.case_cong)
    then show ?thesis using ack assms(1,3-5) dead frame [of "s\<lparr>at_acknowledged := True, at_header := []\<rparr>"]
      by (auto simp: control_def undelivered_def pending_def split: if_splits)
  next
    case heart
    let ?s = "s\<lparr>at_hearts := at_hearts s @ [header_id (at_header s)], at_reply_pending := True, at_header := []\<rparr>"
    have "session_ok ?s" if "length (at_hearts s) \<noteq> MAX_HEARTS"
      using ok that assms(3) by (simp add: session_ok_def cong: list.case_cong)
    then show ?thesis using heart assms(1,3-5) dead frame [of ?s]
      by (auto simp: control_def undelivered_def pending_def split: if_splits)
  next
    case set
    have "session_ok (s\<lparr>at_v2 := True, at_header := []\<rparr>)" using ok by (simp add: session_ok_def cong: if_cong list.case_cong)
    then show ?thesis using set assms(1,3-5) dead frame [of "s\<lparr>at_v2 := True, at_header := []\<rparr>"]
      by (auto simp: control_def undelivered_def pending_def split: result.splits)
  next
    case other
    then show ?thesis using dead by simp
  qed
qed

lemma deliver_inv:
  assumes "deliver cap s = (bs, s')" "session_inv pre data input got s w" "at_data_ready s" "0 < cap"
  shows "session_inv pre data input (got @ bs) s' w \<and> bs \<noteq> []"
proof -
  let ?n = "min cap (length (at_body s) - at_delivered s)"
  have e: "bs = take ?n (drop (at_delivered s) (at_body s))"
    "s' = s\<lparr>at_delivered := at_delivered s + ?n, at_data_ready := (at_delivered s + ?n \<noteq> length (at_body s))\<rparr>"
    using assms(1) by (simp_all add: deliver_def Let_def)
  have lt: "at_delivered s < length (at_body s)" using assms(2,3) by (simp add: session_inv_def session_ok_def)
  have u: "undelivered s = bs @ undelivered s'"
  proof (cases "at_delivered s + ?n = length (at_body s)")
    case True
    then have "at_data_ready s' = False" by (simp add: e(2))
    then show ?thesis using assms(3) True by (simp add: undelivered_def e(1))
  next
    case False
    then have "undelivered s' = drop ?n (drop (at_delivered s) (at_body s))" by (simp add: undelivered_def e(2) add.commute)
    then show ?thesis using assms(3) by (simp only: e(1) undelivered_def [of s] if_True append_take_drop_id)
  qed
  have ok: "session_ok s'"
    using assms(2) lt unfolding e(2) by (auto simp: session_inv_def session_ok_def cong: if_cong list.case_cong)
  have hd: "head_ok s'" using assms(2,3) by (auto simp: session_inv_def read_ok_def head_ok_def e(2))
  have pt: "partial s' = partial s" "pending s' = pending s" by (simp_all add: partial_def pending_def e(2) session_inv_def)
  have same: "at_open s' = at_open s" "at_closing s' = at_closing s" "at_failure s' = at_failure s" "at_write_closed s' = at_write_closed s"
    "at_fin_queued s' = at_fin_queued s" by (simp_all add: e(2))
  obtain fs r where "frames_read input got s w fs r" using assms(2) by (auto simp: session_inv_def read_ok_def)
  then have "frames_read input (got @ bs) s' w fs r" unfolding frames_read_def pt same u by simp
  then have "session_inv pre data input (got @ bs) s' w"
    using assms(2) ok hd unfolding session_inv_def read_ok_def sent_ok_def wire_ok_def close_ok_def pt same by blast
  then show ?thesis using lt assms(4) by (auto simp: e(1))
qed

definition delivered_bytes :: "bytes poll \<Rightarrow> bytes" where
  "delivered_bytes p = (case p of Ready (Ok bs) \<Rightarrow> bs | _ \<Rightarrow> [])"

lemma control_failure: "control md5 s = (res, s1) \<Longrightarrow> at_failure s1 = at_failure s"
  by (auto simp: control_def Let_def split: if_splits result.splits)

lemma receive_loop_inv:
  "receive_loop md5 k cap s w = (p, s', w') \<Longrightarrow> 0 < cap \<Longrightarrow> session_inv pre data input got s w \<Longrightarrow> at_failure s = None \<Longrightarrow>
     session_inv pre data input (got @ delivered_bytes p) s' w'
     \<and> (p = Ready (Ok []) \<longrightarrow> \<not> at_open s' \<and> \<not> at_data_ready s' \<and> at_failure s' = None)"
proof (induction md5 k cap s w arbitrary: p s' w' rule: receive_loop.induct)
  case (1 md5 cap s w)
  then show ?case by (auto simp: delivered_bytes_def)
next
  case (2 md5 k cap s w)
  consider (ready) "at_data_ready s" | (ended) "\<not> at_data_ready s" "\<not> at_open s" | (closing) "\<not> at_data_ready s" "at_open s" "at_closing s"
    | (go) "\<not> at_data_ready s" "at_open s" "\<not> at_closing s" by blast
  then show ?case
  proof cases
    case ready
    obtain bs s1 where d: "deliver cap s = (bs, s1)" by fastforce
    then show ?thesis using ready 2(2) deliver_inv [OF d 2(4) ready 2(3)] by (auto simp: delivered_bytes_def)
  next
    case ended
    then show ?thesis using 2(2,4,5) by (auto simp: delivered_bytes_def)
  next
    case closing
    then show ?thesis using 2(2,4,5) by (auto simp: delivered_bytes_def)
  next
    case go
    obtain r1 s1 w1 where r1: "drive_replies s w = (r1, s1, w1)" by (cases "drive_replies s w") auto
    have i1: "session_inv pre data input got s1 w1" "untouched s s1" "\<And>u. r1 = Ok u \<Longrightarrow> at_open s1"
      using session_inv_replies [OF r1 2(4) go(2,3)] by blast+
    show ?thesis
    proof (cases r1)
      case (Err e)
      then show ?thesis using go 2(2) r1 i1 by (auto simp: delivered_bytes_def)
    next
      case (Ok u)
      have g1: "at_open s1" "\<not> at_closing s1" "\<not> at_data_ready s1" using i1(2) i1(3) [OF Ok] go by (simp_all add: untouched_def)
      obtain r2 s2 w2 where r2: "read_header s1 w1 = (r2, s2, w2)" by (cases "read_header s1 w1") auto
      note i2 = read_head_inv [OF r2 i1(1) g1]
      show ?thesis
      proof (cases r2)
        case (Some q)
        then show ?thesis using go 2(2) r1 Ok r2 i2 by (auto simp: delivered_bytes_def)
      next
        case None
        obtain r3 s3 w3 where r3: "read_payload s2 w2 = (r3, s3, w3)" by (cases "read_payload s2 w2") auto
        have i3: "session_inv pre data input got s3 w3 \<and> (case r3 of
             None \<Rightarrow> at_open s3 \<and> \<not> at_closing s3 \<and> \<not> at_data_ready s3 \<and> length (at_header s3) = 7 \<and> length (at_body s3) = at_need s3
           | Some p \<Rightarrow> p = Pending \<or> (\<exists>e. p = Ready (Err e)))"
          by (rule read_payload_inv [OF r3]) (use i2 None in simp_all)
        show ?thesis
        proof (cases r3)
          case (Some q)
          then show ?thesis using go 2(2) r1 Ok r2 None r3 i3 by (auto simp: delivered_bytes_def)
        next
          case none3: None
          obtain r4 s4 where r4: "control md5 s3 = (r4, s4)" by fastforce
          have i4: "case r4 of Ok _ \<Rightarrow> session_inv pre data input got (s4\<lparr>at_header := []\<rparr>) w3 | Err e \<Rightarrow> session_inv pre data input got (fail_with e s4) w3"
            by (rule control_inv [OF r4]) (use i3 none3 in simp_all)
          show ?thesis
          proof (cases r4)
            case (Err e)
            then show ?thesis using go 2(2) r1 Ok r2 None r3 none3 r4 i4 by (auto simp: delivered_bytes_def)
          next
            case ok4: (Ok u4)
            have rec: "receive_loop md5 k cap (s4\<lparr>at_header := []\<rparr>) w3 = (p, s', w')"
              using go 2(2) r1 Ok r2 None r3 none3 r4 ok4 by simp
            have f4: "at_failure (s4\<lparr>at_header := []\<rparr>) = None"
              using control_failure [OF r4] i3 none3 open_no_failure [of s3] by (simp add: session_inv_def)
            have i5: "session_inv pre data input got (s4\<lparr>at_header := []\<rparr>) w3" using i4 ok4 by simp
            show ?thesis
              by (rule 2(1) [OF go(1) _ go(3) r1 [symmetric] Ok refl r2 [symmetric] None refl r3 [symmetric] none3 refl r4 [symmetric] ok4 rec 2(3) i5 f4])
                 (use go(2) in simp)
          qed
        qed
      qed
    qed
  qed
qed

lemma session_inv_queue:
  assumes q: "queue cmd ident body s w = (r, s', w')" and inv: "session_inv pre data input got s w" "at_open s" "at_outgoing s = []" "\<not> at_write_closed s"
    and body: "length body \<le> MAX_FRAME" and kind: "cmd = 2 \<and> ident = 1 \<and> \<not> at_fin_queued s"
  shows "case r of Ok _ \<Rightarrow> session_inv pre (data @ body) input got s' w' | Err e \<Rightarrow> session_inv pre data input got s' w'"
proof -
  have ok: "session_ok s" "wire_ok pre data (at_fin_queued s) s w" using inv sent_ok_open by (simp_all add: session_inv_def)
  note qo = queue_ok [OF q ok(1) inv(2,3)]
  have u: "untouched s s'" using qo by simp
  have "read_ok input got s' w'"
    by (rule read_ok_untouched [OF _ u incoming_reads inv(2)]) (use inv(1) qo in \<open>simp_all add: session_inv_def\<close>)
  moreover have "close_ok s'" using inv(1) close_ok_untouched [OF _ u] by (simp add: session_inv_def)
  moreover have "at_fin_queued s' = at_fin_queued s" using u by (simp add: untouched_def)
  moreover have "case r of Err _ \<Rightarrow> wire_ok pre data (at_fin_queued s) s' w' | Ok _ \<Rightarrow> wire_ok pre (data @ body) False s' w'"
    using queue_wire [OF q ok(1) inv(2-4) ok(2) body, of False] kind by (cases r) auto
  ultimately show ?thesis using qo kind by (cases r) (auto simp: session_inv_def intro: sent_okI)
qed

definition accepted_bytes :: "bytes \<Rightarrow> nat poll \<Rightarrow> bytes" where
  "accepted_bytes data p = (case p of Ready (Ok n) \<Rightarrow> take n data | _ \<Rightarrow> [])"

lemma poll_write_inv:
  assumes "poll_write d s w = (p, s', w')" "session_inv pre data input got s w"
  shows "session_inv pre (data @ accepted_bytes d p) input got s' w'"
proof (cases "check_error s = Ok () \<and> \<not> at_closing s \<and> at_open s \<and> d \<noteq> []")
  case False
  then have "s' = s \<and> w' = w \<and> accepted_bytes d p = []"
    using assms(1) by (auto simp: poll_write_def accepted_bytes_def split: result.splits if_splits)
  then show ?thesis using assms(2) by simp
next
  case True
  obtain p1 s1 w1 where d: "drain s w = (p1, s1, w1)" by (cases "drain s w") auto
  have fin: "\<not> at_fin_queued s" "\<not> at_write_closed s" using session_inv_open [OF assms(2)] True by auto
  have i1: "session_inv pre data input got s1 w1" "drained pre data (at_fin_queued s) s w p1 s1 w1"
    using session_inv_drain [OF d assms(2)] True fin by auto
  have r: "poll_write d s w = (case p1 of Pending \<Rightarrow> (Pending, s1, w1) | Ready (Err e) \<Rightarrow> (Ready (Err e), s1, w1)
      | Ready (Ok _) \<Rightarrow> (case queue 2 1 (take (min (length d) MAX_FRAME) d) s1 w1 of
            (Err e, s, w) \<Rightarrow> (Ready (Err e), fail_with e s, w)
          | (Ok _, s, w) \<Rightarrow> (Ready (Ok (min (length d) MAX_FRAME)), s, w)))"
    using True d by (simp add: poll_write_def Let_def split: poll.splits result.splits)
  show ?thesis
  proof (cases "p1 = Ready (Ok ())")
    case False
    then have "s' = s1 \<and> w' = w1 \<and> accepted_bytes d p = []"
      using assms(1) r by (auto simp: accepted_bytes_def split: poll.splits result.splits)
    then show ?thesis using i1 by simp
  next
    case ok: True
    let ?b = "take (min (length d) MAX_FRAME) d"
    obtain rq s2 w2 where q: "queue 2 1 ?b s1 w1 = (rq, s2, w2)" by (cases "queue 2 1 ?b s1 w1") auto
    have e: "at_open s1" "at_outgoing s1 = []" "\<not> at_write_closed s1" "\<not> at_fin_queued s1"
      using i1(2) ok fin by (simp_all add: drained_def untouched_def)
    note iq = session_inv_queue [OF q i1(1) e(1-3)]
    show ?thesis
    proof (cases rq)
      case (Ok u)
      then have "s' = s2" "w' = w2" "accepted_bytes d p = ?b" using assms(1) r ok q by (auto simp: accepted_bytes_def)
      then show ?thesis using iq e(4) Ok by simp
    next
      case (Err e')
      then have "s' = fail_with e' s2" "w' = w2" "accepted_bytes d p = []" using assms(1) r ok q by (auto simp: accepted_bytes_def)
      then show ?thesis using iq e(4) Err session_inv_fail by simp
    qed
  qed
qed

lemma poll_flush_inv:
  assumes "poll_flush s w = (p, s', w')" "session_inv pre data input got s w"
  shows "session_inv pre data input got s' w'"
proof (cases "check_error s = Ok () \<and> at_open s \<and> \<not> at_write_closed s")
  case True
  then have "drain s w = (p, s', w')" using assms(1) by (simp add: poll_flush_def)
  then show ?thesis using session_inv_drain [OF _ assms(2)] True by blast
next
  case False
  then have "s' = s" "w' = w" using assms(1) by (auto simp: poll_flush_def split: result.splits if_splits)
  then show ?thesis using assms(2) by simp
qed

lemma session_inv_closing:
  assumes "session_inv pre data input got s w" "at_open s"
    "s1 = s\<lparr>at_closing := True, at_peer_closed := pc, at_close_drained := n\<rparr>" "n \<le> MAX_CLOSE_DRAIN" "tr_sent w1 = tr_sent w"
  shows "session_inv pre data input got s1 w1"
proof -
  have ok: "session_ok s" "wire_ok pre data (at_fin_queued s) s w" using assms(1,2) sent_ok_open by (simp_all add: session_inv_def)
  obtain fs r where "frames_read input got s w fs r" "head_ok s" using assms(1) by (auto simp: session_inv_def read_ok_def)
  then have "frames_read input got s1 w1 fs r" "head_ok s1"
    using assms(2) by (simp_all add: frames_read_def head_ok_def undelivered_def assms(3))
  moreover have "session_ok s1" using ok(1) assms(4) unfolding assms(3) by (simp add: session_ok_def cong: if_cong list.case_cong)
  moreover have "sent_ok pre data s1 w1" using ok(2) assms(5) by (intro sent_okI) (simp add: wire_ok_def pending_def assms(3))
  moreover have "close_ok s1" using assms(1) by (simp add: session_inv_def close_ok_def assms(3))
  ultimately show ?thesis unfolding session_inv_def read_ok_def by blast
qed

lemma discard_inv:
  "discard k s w = (r, s', w') \<Longrightarrow> session_inv pre data input got s w \<Longrightarrow> at_open s \<Longrightarrow> at_closing s \<Longrightarrow>
     session_inv pre data input got s' w' \<and> (r = None \<longrightarrow> at_open s' \<and> at_closing s')"
proof (induction k arbitrary: s w)
  case 0
  then show ?case by simp
next
  case (Suc k)
  let ?n = "min (MAX_CLOSE_DRAIN - at_close_drained s + 1) 16384"
  show ?case
  proof (cases "at_peer_closed s")
    case True
    then show ?thesis using Suc.prems by simp
  next
    case False
    obtain x w1 where tr: "transport_read ?n w = (x, w1)" by fastforce
    have cd: "at_close_drained s \<le> MAX_CLOSE_DRAIN" using Suc.prems(2,3) by (simp add: session_inv_def session_ok_def)
    note closing = session_inv_closing [OF Suc.prems(2,3) refl]
    have self: "s\<lparr>at_closing := True, at_peer_closed := at_peer_closed s, at_close_drained := at_close_drained s\<rparr> = s"
      using Suc.prems(4) by simp
    have kept: "session_inv pre data input got s w1" if "tr_sent w1 = tr_sent w" for w1
      using closing [OF cd that, of "at_peer_closed s"] by (simp only: self)
    consider (pending) "x = Pending" | (failed) e where "x = Ready (Err e)" "e \<noteq> UnexpectedEof" | (ended) "x = Ready (Err UnexpectedEof) \<or> x = Ready (Ok [])"
      | (some) bs where "x = Ready (Ok bs)" "bs \<noteq> []"
      by (metis poll.exhaust result.exhaust)
    then show ?thesis
    proof cases
      case pending
      then have "tr_sent w1 = tr_sent w" using tr transport_read_other by blast
      then show ?thesis using kept [of w1] pending Suc.prems False tr by auto
    next
      case (failed e)
      then have "tr_sent w1 = tr_sent w" using tr transport_read_other by blast
      then show ?thesis using session_inv_fail [OF kept [of w1]] failed Suc.prems False tr by auto
    next
      case ended
      let ?s = "s\<lparr>at_peer_closed := True\<rparr>"
      have "tr_sent w1 = tr_sent w" using ended tr transport_read_other transport_read_Ok by metis
      moreover have "?s = s\<lparr>at_closing := True, at_peer_closed := True, at_close_drained := at_close_drained s\<rparr>" using Suc.prems(4) by simp
      ultimately have "session_inv pre data input got ?s w1" using closing [OF cd, of w1 True] by simp
      moreover have "discard k ?s w1 = (r, s', w')" using ended Suc.prems(1) False tr by auto
      ultimately show ?thesis using Suc.IH [of ?s w1] Suc.prems(3,4) by simp
    next
      case (some bs)
      let ?s = "s\<lparr>at_close_drained := at_close_drained s + length bs\<rparr>"
      have t: "tr_sent w1 = tr_sent w" using some tr transport_read_Ok by metis
      show ?thesis
      proof (cases "MAX_CLOSE_DRAIN < at_close_drained s + length bs")
        case True
        have e: "s' = fail_with InvalidData ?s" "w' = w1" "r = Some (Ready (Err InvalidData))"
          using Suc.prems(1) False tr some True by (simp_all add: Let_def)
        have "length bs \<le> ?n" using some tr transport_read_Ok by metis
        then have "at_close_drained s + length bs \<le> MAX_CLOSE_DRAIN + 1" using cd by linarith
        then have "session_ok s'" using Suc.prems(2) e(1) by (auto simp: session_inv_def session_ok_def)
        then have "session_inv pre data input got s' w'"
          using e t Suc.prems by (intro session_inv_dead [OF Suc.prems(2)]) (auto simp: undelivered_def session_inv_def read_ok_def head_ok_def)
        then show ?thesis using e by simp
      next
        case False2: False
        have "?s = s\<lparr>at_closing := True, at_peer_closed := at_peer_closed s, at_close_drained := at_close_drained s + length bs\<rparr>" using Suc.prems(4) by simp
        then have "session_inv pre data input got ?s w1" using closing [of "at_close_drained s + length bs" w1 "at_peer_closed s"] t False2 by simp
        moreover have "discard k ?s w1 = (r, s', w')" using some Suc.prems(1) False tr False2 by (simp add: Let_def)
        ultimately show ?thesis using Suc.IH [of ?s w1] Suc.prems(3,4) by simp
      qed
    qed
  qed
qed

lemma fin_queue_inv:
  assumes q: "queue 3 1 [] (s\<lparr>at_fin_queued := True\<rparr>) w = (r, s', w')"
    and inv: "session_inv pre data input got s w" "at_open s" "at_closing s" "at_outgoing s = []" "\<not> at_write_closed s" "\<not> at_fin_queued s"
  shows "case r of Ok _ \<Rightarrow> session_inv pre data input got s' w' \<and> at_open s' \<and> at_closing s' \<and> at_fin_queued s' \<and> \<not> at_write_closed s'
     | Err e \<Rightarrow> session_inv pre data input got (fail_with e s') w'"
proof -
  let ?s = "s\<lparr>at_fin_queued := True\<rparr>"
  have ok: "session_ok s" "wire_ok pre data False s w" using inv sent_ok_open [of pre data s w] by (simp_all add: session_inv_def)
  then have ok1: "session_ok ?s" "wire_ok pre data False ?s w" "at_open ?s" "at_outgoing ?s = []" "\<not> at_write_closed ?s"
    using inv by (simp_all add: session_ok_def wire_ok_def pending_def cong: if_cong list.case_cong)
  note qo = queue_ok [OF q ok1(1,3,4)]
  have u: "untouched ?s s'" using qo by simp
  have s': "at_closing s'" "at_fin_queued s'" "\<not> at_write_closed s'" "at_open s'" using u qo inv(3,5) by (auto simp: untouched_def)
  have "undelivered ?s = undelivered s" "partial ?s = partial s" by (simp_all add: undelivered_def partial_def)
  then have rd: "read_ok input got ?s w" using inv(1) by (simp add: session_inv_def read_ok_def frames_read_def head_ok_def)
  then have "read_ok input got s' w'" by (rule read_ok_untouched [OF _ u incoming_reads ok1(3)]) (use qo in simp)
  moreover have "close_ok s'" using s' by (simp add: close_ok_def)
  moreover have wire: "case r of Err _ \<Rightarrow> wire_ok pre data False s' w' | Ok _ \<Rightarrow> wire_ok pre data True s' w'"
    using queue_wire [OF q ok1(1,3,4,5,2), of True] by (cases r) auto
  ultimately show ?thesis
  proof (cases r)
    case (Ok a)
    have "sent_ok pre data s' w'" using wire Ok s' by (intro sent_okI) simp
    then show ?thesis using Ok qo s' \<open>read_ok input got s' w'\<close> \<open>close_ok s'\<close> by (simp add: session_inv_def)
  next
    case (Err e)
    have "wire_ok pre data False (fail_with e s') w'" using wire Err fail_with_ok(2) by simp
    then have "sent_ok pre data (fail_with e s') w'" using s'(3) by (auto simp: sent_ok_def)
    moreover have "read_ok input got (fail_with e s') w'"
      using \<open>read_ok input got s' w'\<close> by (auto simp: read_ok_def frames_read_def head_ok_def undelivered_def)
    moreover have "session_ok (fail_with e s')" using fail_with_ok(1) qo by blast
    moreover have "close_ok (fail_with e s')" using \<open>close_ok s'\<close> by (simp add: close_ok_def)
    ultimately show ?thesis unfolding Err session_inv_def by simp
  qed
qed

lemma drain_closing:
  assumes "drain s w = (p, s', w')" "session_inv pre data input got s w" "at_open s" "at_closing s" "\<not> at_write_closed s"
  shows "session_inv pre data input got s' w' \<and> (p = Pending \<or> p = Ready (Ok ()) \<longrightarrow> at_open s' \<and> at_closing s')
     \<and> (p = Ready (Ok ()) \<longrightarrow> at_outgoing s' = []) \<and> at_fin_queued s' = at_fin_queued s \<and> \<not> at_write_closed s'"
proof -
  note i = session_inv_drain [OF assms(1-3,5)]
  then have "untouched s s'" by (simp add: drained_def)
  then show ?thesis using i assms(4,5) by (auto simp: drained_def untouched_def)
qed

lemma write_closed_inv:
  assumes "session_inv pre data input got s w" "at_open s" "at_closing s" "at_outgoing s = []" "at_fin_queued s" "tr_sent w' = tr_sent w"
  shows "session_inv pre data input got (s\<lparr>at_write_closed := True\<rparr>) w'"
proof -
  let ?s = "s\<lparr>at_write_closed := True\<rparr>"
  have ok: "session_ok s" "wire_ok pre data (at_fin_queued s) s w" using assms(1,2) sent_ok_open by (simp_all add: session_inv_def)
  have "session_ok ?s" using ok(1) by (simp add: session_ok_def cong: if_cong list.case_cong)
  moreover have "sent_ok pre data ?s w'" using ok(2) assms(2,4,6) by (intro sent_okI) (simp add: wire_ok_def pending_def)
  moreover have "undelivered ?s = undelivered s" by (simp add: undelivered_def)
  then have "read_ok input got ?s w'" using assms(1-3) by (simp add: session_inv_def read_ok_def frames_read_def head_ok_def)
  moreover have "close_ok ?s" using assms(2,3,5) by (simp add: close_ok_def)
  ultimately show ?thesis by (simp add: session_inv_def)
qed

lemma poll_unit_cases:
  obtains "p = Pending" | "p = Ready (Ok ())" | e where "p = Ready (Err e)"
  by (metis (full_types) poll.exhaust result.exhaust unit.exhaust)

lemma shutdown_write_inv:
  assumes "shutdown_write s w = (p, s', w')" "session_inv pre data input got s w" "at_open s" "at_closing s" "\<not> at_write_closed s"
  shows "session_inv pre data input got s' w' \<and> (p = Pending \<or> p = Ready (Ok ()) \<longrightarrow> at_open s' \<and> at_closing s')"
proof -
  obtain p1 s1 w1 where d1: "drain s w = (p1, s1, w1)" by (cases "drain s w") auto
  note i1 = drain_closing [OF d1 assms(2-5)]
  show ?thesis
  proof (cases p1 rule: poll_unit_cases)
    case 1
    then show ?thesis using assms(1) d1 i1 by (auto simp: shutdown_write_def)
  next
    case (3 e)
    then show ?thesis using assms(1) d1 i1 by (auto simp: shutdown_write_def)
  next
    case 2
    obtain r2 s2 w2 where q: "(if at_fin_queued s1 then (Ok (), s1, w1) else queue 3 1 [] (s1\<lparr>at_fin_queued := True\<rparr>) w1) = (r2, s2, w2)"
      by (metis prod_cases3)
    have i2: "case r2 of Ok _ \<Rightarrow> session_inv pre data input got s2 w2 \<and> at_open s2 \<and> at_closing s2 \<and> at_fin_queued s2 \<and> \<not> at_write_closed s2
     | Err e \<Rightarrow> session_inv pre data input got (fail_with e s2) w2"
    proof (cases "at_fin_queued s1")
      case True
      then show ?thesis using q i1 2 by auto
    next
      case False
      show ?thesis by (rule fin_queue_inv [of s1 w1]) (use q False i1 2 in auto)
    qed
    show ?thesis
    proof (cases r2)
      case (Err e)
      then show ?thesis using assms(1) d1 2 q i2 by (auto simp: shutdown_write_def)
    next
      case (Ok u)
      obtain p3 s3 w3 where d3: "drain s2 w2 = (p3, s3, w3)" by (cases "drain s2 w2") auto
      have i2': "session_inv pre data input got s2 w2" "at_open s2" "at_closing s2" "\<not> at_write_closed s2" "at_fin_queued s2" using i2 Ok by auto
      note i3 = drain_closing [OF d3 i2'(1-4)]
      show ?thesis
      proof (cases p3 rule: poll_unit_cases)
        case 1
        then show ?thesis using assms(1) d1 2 q Ok d3 i3 by (auto simp: shutdown_write_def)
      next
        case (3 e)
        then show ?thesis using assms(1) d1 2 q Ok d3 i3 by (auto simp: shutdown_write_def)
      next
        case p3: 2
        obtain p4 w4 where t4: "transport_shutdown w3 = (p4, w4)" by fastforce
        then have same: "tr_sent w4 = tr_sent w3" "tr_reads w4 = tr_reads w3" by (auto simp: transport_shutdown_def split: list.splits)
        have self: "s3\<lparr>at_closing := True, at_peer_closed := at_peer_closed s3, at_close_drained := at_close_drained s3\<rparr> = s3" using i3 p3 by simp
        have "at_close_drained s3 \<le> MAX_CLOSE_DRAIN" using i3 p3 by (auto simp: session_inv_def session_ok_def)
        then have w4: "session_inv pre data input got s3 w4"
          using session_inv_closing [of pre data input got s3 w3 s3 "at_close_drained s3" "at_peer_closed s3" w4] i3 p3 same self by simp
        have wc: "session_inv pre data input got (s3\<lparr>at_write_closed := True\<rparr>) w4"
          by (rule write_closed_inv [OF w4]) (use i3 p3 i2'(5) in auto)
        show ?thesis
          by (cases p4 rule: poll_unit_cases)
             (use assms(1) d1 2 q Ok d3 p3 t4 i3 w4 wc session_inv_fail [OF w4] in \<open>auto simp: shutdown_write_def\<close>)
      qed
    qed
  qed
qed

lemma poll_read_inv:
  assumes "poll_read md5 cap s w = (p, s', w')" "session_inv pre data input got s w"
  shows "session_inv pre data input (got @ delivered_bytes p) s' w' \<and> (0 < cap \<and> p = Ready (Ok []) \<longrightarrow> \<not> at_open s' \<and> \<not> at_data_ready s' \<and> at_failure s' = None)"
proof (cases "0 < cap \<and> at_failure s = None")
  case True
  then have r: "receive_loop md5 32 cap s w = (p, s', w')" using assms(1) by (simp add: poll_read_def receive_def check_error_def)
  show ?thesis using receive_loop_inv [OF r _ assms(2)] True by simp
next
  case False
  then have "s' = s" "w' = w" "delivered_bytes p = []" "\<not> 0 < cap \<or> p \<noteq> Ready (Ok [])"
    using assms(1) by (auto simp: poll_read_def receive_def check_error_def delivered_bytes_def split: if_splits option.splits)
  then show ?thesis using assms(2) by auto
qed

lemma poll_shutdown_inv:
  assumes "poll_shutdown expired s w = (p, s', w')" "session_inv pre data input got s w"
  shows "session_inv pre data input got s' w'"
proof (cases "at_failure s = None \<and> at_open s")
  case False
  then have "s' = s" "w' = w" using assms(1) by (auto simp: poll_shutdown_def check_error_def split: option.splits)
  then show ?thesis using assms(2) by simp
next
  case True
  let ?s = "s\<lparr>at_closing := True\<rparr>"
  have e: "?s = s\<lparr>at_closing := True, at_peer_closed := at_peer_closed s, at_close_drained := at_close_drained s\<rparr>" by simp
  have i0: "session_inv pre data input got ?s w"
    by (rule session_inv_closing [OF assms(2) _ e]) (use True assms(2) in \<open>simp_all add: session_inv_def session_ok_def\<close>)
  show ?thesis
  proof (cases expired)
    case exp: True
    then show ?thesis using assms(1) True session_inv_fail [OF i0] by (auto simp: poll_shutdown_def check_error_def)
  next
    case False
    obtain p1 s1 w1 where q: "(if at_write_closed s then (Pending, ?s, w) else shutdown_write ?s w) = (p1, s1, w1)" by (metis prod_cases3)
    have i1: "session_inv pre data input got s1 w1 \<and> (p1 = Pending \<or> p1 = Ready (Ok ()) \<longrightarrow> at_open s1 \<and> at_closing s1)"
    proof (cases "at_write_closed s")
      case wc: True
      then show ?thesis using q i0 True by auto
    next
      case wc: False
      show ?thesis by (rule shutdown_write_inv [of ?s w]) (use q wc i0 True in auto)
    qed
    show ?thesis
    proof (cases "\<exists>e. p1 = Ready (Err e)")
      case err: True
      then show ?thesis using assms(1) True False q i1 by (auto simp: poll_shutdown_def check_error_def)
    next
      case err: False
      then have pe: "p1 = Pending \<or> p1 = Ready (Ok ())" by (cases p1 rule: poll_unit_cases) auto
      obtain r2 s2 w2 where d: "discard 16 s1 w1 = (r2, s2, w2)" by (metis prod_cases3)
      have i2: "session_inv pre data input got s2 w2 \<and> (r2 = None \<longrightarrow> at_open s2 \<and> at_closing s2)"
        by (rule discard_inv [OF d]) (use i1 pe in auto)
      have fin: "session_inv pre data input got (finish s2) w2" if "r2 = None" "at_write_closed s2"
      proof -
        have "sent_ok pre data (finish s2) w2"
          by (rule sent_ok_dead [of pre data s2 w2]) (use i2 that open_no_failure in \<open>simp_all add: session_inv_def\<close>)
        moreover have "undelivered (finish s2) = undelivered s2" by (simp add: undelivered_def)
        then have "read_ok input got (finish s2) w2"
          using i2 that unfolding session_inv_def read_ok_def frames_read_def head_ok_def finish_simps by auto
        moreover have "close_ok (finish s2)" using i2 by (simp add: session_inv_def close_ok_def)
        ultimately show ?thesis using i2 finish_ok(1) by (simp add: session_inv_def)
      qed
      show ?thesis
      proof (cases r2)
        case (Some p2)
        then have "s' = s2" "w' = w2" using pe assms(1) True False q d by (auto simp: poll_shutdown_def check_error_def Let_def)
        then show ?thesis using i2 by simp
      next
        case None
        then have "w' = w2 \<and> (s' = s2 \<or> s' = finish s2 \<and> at_write_closed s2)"
          using pe assms(1) True False q d by (auto simp: poll_shutdown_def check_error_def Let_def split: if_splits)
        then show ?thesis using i2 fin None by auto
      qed
    qed
  qed
qed

section \<open>Runs\<close>

datatype session_op = DoRead nat | DoWrite bytes | DoFlush | DoShutdown bool

text \<open>A session, its transport, the bytes it has accepted for writing, and the bytes it has delivered.\<close>

type_synonym session_run = "anytls \<times> transport \<times> bytes \<times> bytes"

fun session_step :: "(bytes \<Rightarrow> bytes) \<Rightarrow> session_op \<Rightarrow> session_run \<Rightarrow> session_run" where
  "session_step md5 (DoRead cap) (s, w, acc, got) = (case poll_read md5 cap s w of (p, s', w') \<Rightarrow> (s', w', acc, got @ delivered_bytes p))"
| "session_step md5 (DoWrite d) (s, w, acc, got) = (case poll_write d s w of (p, s', w') \<Rightarrow> (s', w', acc @ accepted_bytes d p, got))"
| "session_step md5 DoFlush (s, w, acc, got) = (case poll_flush s w of (p, s', w') \<Rightarrow> (s', w', acc, got))"
| "session_step md5 (DoShutdown expired) (s, w, acc, got) = (case poll_shutdown expired s w of (p, s', w') \<Rightarrow> (s', w', acc, got))"

lemma session_step_inv:
  assumes "session_step md5 op (s, w, acc, got) = (s', w', acc', got')" "session_inv pre (addr @ acc) input got s w"
  shows "session_inv pre (addr @ acc') input got' s' w'"
  using assms poll_read_inv poll_write_inv poll_flush_inv poll_shutdown_inv
  by (cases op) (fastforce split: prod.splits)+

lemma session_run_inv:
  "fold (session_step md5) ops (s, w, acc, got) = (s', w', acc', got') \<Longrightarrow> session_inv pre (addr @ acc) input got s w \<Longrightarrow>
     session_inv pre (addr @ acc') input got' s' w'"
proof (induction ops arbitrary: s w acc got)
  case (Cons op ops)
  obtain s1 w1 acc1 got1 where st: "session_step md5 op (s, w, acc, got) = (s1, w1, acc1, got1)" by (metis prod_cases4)
  show ?case by (rule Cons.IH [of s1 w1 acc1 got1]) (use Cons.prems st session_step_inv [OF st] in auto)
qed simp

lemma open_inv:
  assumes "anytls_open sha256 W version password t p w = (Ready (Ok s), w')" "padding_ok p"
    "length (settings_text version p) \<le> MAX_FRAME" "length (W (destination t)) \<le> MAX_FRAME"
  shows "\<exists>sz. session_inv (tr_sent w @ auth_bytes sha256 password sz) (W (destination t) @ []) (incoming w) [] s w' \<and> at_open s"
proof -
  obtain sz r1 where a: "auth_size p (tr_random w) = (Ok sz, r1)" using assms(1) by (auto simp: anytls_open_def split: prod.splits result.splits)
  let ?auth = "auth_bytes sha256 password sz"
  obtain w1 where w1: "transport_write ?auth (w\<lparr>tr_random := r1\<rparr>) = (Ready (Ok (length ?auth)), w1)"
    using assms(1) a by (auto simp: anytls_open_def Let_def split: prod.splits result.splits poll.splits if_splits)
  obtain u w2 where w2: "transport_flush w1 = (Ready (Ok u), w2)"
    using assms(1) a w1 by (auto simp: anytls_open_def Let_def split: prod.splits result.splits poll.splits if_splits)
  obtain ps r3 where ps: "packets p 1 (first_frames W version p t) (tr_random w2) = (Ok ps, r3)" "s = new_session p ps" "w' = w2\<lparr>tr_random := r3\<rparr>"
    using assms(1) a w1 w2 by (auto simp: anytls_open_def Let_def split: prod.splits result.splits)
  let ?fs = "[(4, 0, str_bytes (settings_text version p)), (1, 1, []), (2, 1, W (destination t))]"
  have sent: "tr_sent w' = tr_sent w @ ?auth" "incoming w' = incoming w"
    using transport_write_Ok [OF w1] transport_flush_same [OF w2] ps(3) by (simp_all add: incoming_def)
  obtain ns where ns: "concat ps = first_frames W version p t @ pad_bytes ns" "list_all (\<lambda>n. n \<le> 16384) ns" "[] \<notin> set ps" "length ps \<le> 17"
    using packets_spec [OF ps(1) assms(2)] by blast
  have st: "stream ?fs = first_frames W version p t" by (simp add: first_frames_def append_frame_def stream_def)
  have "list_all (\<lambda>n. n \<le> MAX_FRAME) ns" using ns(2) by (auto simp: MAX_FRAME_def list_all_iff)
  then have "list_all frame_small (?fs @ pad_frames ns)" using assms(3,4) by simp
  moreover have "payload (?fs @ pad_frames ns) = W (destination t)" by (simp add: is_data_def)
  moreover have "fin_ok False (?fs @ pad_frames ns)"
  proof -
    have "filter (\<lambda>f. is_data f \<or> is_fin f) (pad_frames ns) = []" by (auto simp: pad_frames_def filter_empty_conv is_data_def is_fin_def)
    then show ?thesis by (simp add: fin_ok_def is_data_def is_fin_def)
  qed
  moreover have "tr_sent w' @ pending s = (tr_sent w @ ?auth) @ stream (?fs @ pad_frames ns)"
    using sent(1) ns(1) st by (simp add: pending_def ps(2) new_session_def)
  ultimately have "sent_ok (tr_sent w @ ?auth) (W (destination t)) s w'"
    unfolding sent_ok_def wire_ok_def by (intro exI [of _ False] conjI exI [of _ "?fs @ pad_frames ns"] exI [of _ "pending s"]) (simp_all add: ps(2) new_session_def)
  moreover have "ps \<noteq> []" using ns(1) by (auto simp: first_frames_def append_frame_def frame_def)
  then have "session_ok s" using assms(2) ns(3,4) by (cases ps) (auto simp: ps(2) new_session_def session_ok_def MAX_STOP_def MAX_HEARTS_def)
  moreover have "read_ok (incoming w) [] s w'"
    using sent(2) by (auto simp: read_ok_def frames_read_def head_ok_def undelivered_def partial_def ps(2) new_session_def intro: exI [of _ "[]"])
  moreover have "close_ok s" by (simp add: close_ok_def ps(2) new_session_def)
  ultimately show ?thesis by (auto simp: session_inv_def ps(2) new_session_def)
qed

section \<open>Properties\<close>

text \<open>The peer's view of a byte stream: its complete frames, and what is left.\<close>

function split_frames :: "bytes \<Rightarrow> any_frame list \<times> bytes" where
  "split_frames bs =
     (if length bs < 7 \<or> length bs < 7 + header_len bs then ([], bs)
      else let (fs, r) = split_frames (drop (7 + header_len bs) bs)
        in ((bs ! 0, header_id bs, take (header_len bs) (drop 7 bs)) # fs, r))"
  by pat_completeness auto
termination by (relation "measure length") auto

declare split_frames.simps [simp del]

lemma u32_from_be_be:
  assumes "u32_be w = [a, b, c, d]"
  shows "u32_from_be a b c d = w"
proof -
  let ?n = "unat w"
  have ab: "a = ucast (drop_bit 24 w)" "b = ucast (drop_bit 16 w)" "c = ucast (drop_bit 8 w)" "d = ucast (drop_bit 0 w)"
    using assms by (simp_all add: u32_be_def)
  have d: "?n div 2 ^ 16 = ?n div 256 div 256" "?n div 2 ^ 24 = ?n div 256 div 256 div 256" by (simp_all add: div_mult2_eq [symmetric])
  have "?n < 4294967296" using unsigned_less [of w, where 'a = nat] by simp
  then have le: "?n div 256 div 256 div 256 < 256" by (simp add: div_mult2_eq [symmetric] div_less_iff_less_mult)
  have "?n = 256 * (?n div 256) + ?n mod 256" "?n div 256 = 256 * (?n div 256 div 256) + ?n div 256 mod 256"
      "?n div 256 div 256 = 256 * (?n div 256 div 256 div 256) + ?n div 256 div 256 mod 256" by simp_all
  then have "16777216 * (?n div 256 div 256 div 256) + 65536 * (?n div 256 div 256 mod 256) + 256 * (?n div 256 mod 256) + ?n mod 256 = ?n"
    by linarith
  moreover have "?n div 256 div 256 div 256 mod 256 = ?n div 256 div 256 div 256" using le by simp
  ultimately have "unat (u32_from_be a b c d) = ?n"
    unfolding unat_u32_from_be ab unat_u8_of_drop d by simp
  then show ?thesis by (simp add: word_unat_eq_iff)
qed

lemma split_frames_stream: "list_all frame_small fs \<Longrightarrow> split_frames (stream fs) = (fs, [])"
proof (induction fs)
  case Nil
  then show ?case by (simp add: split_frames.simps)
next
  case (Cons f fs)
  obtain c i b where f: "f = (c, i, b)" by (cases f) auto
  obtain a1 a2 a3 a4 where i: "u32_be i = [a1, a2, a3, a4]" by (simp add: u32_be_def)
  obtain l1 l2 where l: "u16_be (of_nat (length b)) = [l1, l2]" by (simp add: u16_be_def)
  have "u16_from_be l1 l2 = of_nat (length b)" using l by (rule u16_from_be_be)
  then have len: "unat (u16_from_be l1 l2) = length b" using Cons.prems f by (simp add: MAX_FRAME_def unsigned_of_nat take_bit_eq_mod)
  let ?bs = "c # a1 # a2 # a3 # a4 # l1 # l2 # b @ stream fs"
  have bs: "stream (f # fs) = ?bs" by (simp add: f frame_def i l)
  have h: "header_len ?bs = length b" "header_id ?bs = i" using len u32_from_be_be [OF i] by (simp_all add: header_len_def header_id_def)
  have dr: "drop (7 + length b) ?bs = stream fs" by (simp add: eval_nat_numeral)
  show ?case unfolding bs split_frames.simps [of ?bs] h dr using Cons by (simp add: f)
qed

text \<open>
  C33 (anytls_writes_exactly).  Whatever is written, read, flushed and shut down, in whatever order, and however the transport takes the
  bytes: what has been sent, together with what is still queued, is the authentication followed by whole frames whose data is the address of
  the target and then exactly the accepted bytes, in order.  When the write side is closed everything has been sent, and the end of the
  stream is announced once, after all data.
\<close>

theorem anytls_writes_exactly:
  assumes "anytls_open sha256 W version password t p w = (Ready (Ok s0), w0)" "padding_ok p"
    "length (settings_text version p) \<le> MAX_FRAME" "length (W (destination t)) \<le> MAX_FRAME"
    "fold (session_step md5) ops (s0, w0, [], []) = (s, w1, acc, got)"
  shows "\<exists>sz fs rest. tr_sent w1 @ rest = tr_sent w @ auth_bytes sha256 password sz @ stream fs \<and> split_frames (stream fs) = (fs, [])
     \<and> payload fs = W (destination t) @ acc \<and> (at_open s \<longrightarrow> rest = pending s)
     \<and> (at_write_closed s \<longrightarrow> rest = [] \<and> (\<exists>gs. filter (\<lambda>f. is_data f \<or> is_fin f) fs = gs @ [(3, 1, [])] \<and> filter is_fin gs = []))"
proof -
  obtain sz where "session_inv (tr_sent w @ auth_bytes sha256 password sz) (W (destination t) @ []) (incoming w) [] s0 w0"
    using open_inv [OF assms(1-4)] by blast
  from session_run_inv [OF assms(5) this]
  have "session_inv (tr_sent w @ auth_bytes sha256 password sz) (W (destination t) @ acc) (incoming w) got s w1" .
  then obtain fs fin rest where fs: "tr_sent w1 @ rest = (tr_sent w @ auth_bytes sha256 password sz) @ stream fs" "list_all frame_small fs"
      "payload fs = W (destination t) @ acc" "fin_ok fin fs" "at_open s \<longrightarrow> rest = pending s" "at_write_closed s \<longrightarrow> rest = []"
      "at_write_closed s \<longrightarrow> fin"
    by (auto simp: session_inv_def sent_ok_def wire_ok_def close_ok_def)
  then show ?thesis using split_frames_stream [OF fs(2)]
    by (intro exI [of _ sz] exI [of _ fs] exI [of _ rest]) (auto simp: fin_ok_def)
qed

text \<open>
  C34 (anytls_reads_exactly).  However the incoming bytes are cut, and whatever padding, heartbeats and settings lie between, the reader
  gets the data of the whole frames in order: what it got and what is ready for it is the data of frames that the stream starts with, none of
  which ends it.  A read reports the end only after the data of all frames before the end frame has been delivered, unless the local side has
  closed the session.
\<close>

theorem anytls_reads_exactly:
  assumes "anytls_open sha256 W version password t p w = (Ready (Ok s0), w0)" "padding_ok p"
    "length (settings_text version p) \<le> MAX_FRAME" "length (W (destination t)) \<le> MAX_FRAME"
    "fold (session_step md5) ops (s0, w0, [], []) = (s, w1, acc, got)"
  shows "(\<exists>fs r. incoming w = stream fs @ r \<and> split_frames (stream fs) = (fs, []) \<and> filter is_fin fs = [] \<and> payload fs = got @ undelivered s)
     \<and> (0 < cap \<longrightarrow> poll_read md5 cap s w1 = (Ready (Ok []), s2, w2) \<longrightarrow> \<not> at_write_closed s2 \<longrightarrow>
          (\<exists>fs r. incoming w = stream fs @ frame 3 1 [] @ r \<and> split_frames (stream fs) = (fs, []) \<and> filter is_fin fs = [] \<and> payload fs = got))"
proof -
  obtain sz where "session_inv (tr_sent w @ auth_bytes sha256 password sz) (W (destination t) @ []) (incoming w) [] s0 w0"
    using open_inv [OF assms(1-4)] by blast
  from session_run_inv [OF assms(5) this]
  have inv: "session_inv (tr_sent w @ auth_bytes sha256 password sz) (W (destination t) @ acc) (incoming w) got s w1" .
  have "\<exists>fs r. incoming w = stream fs @ frame 3 1 [] @ r \<and> split_frames (stream fs) = (fs, []) \<and> filter is_fin fs = [] \<and> payload fs = got"
    if r: "0 < cap" "poll_read md5 cap s w1 = (Ready (Ok []), s2, w2)" "\<not> at_write_closed s2"
  proof -
    have i2: "session_inv (tr_sent w @ auth_bytes sha256 password sz) (W (destination t) @ acc) (incoming w) got s2 w2"
        "\<not> at_open s2" "\<not> at_data_ready s2" "at_failure s2 = None"
      using poll_read_inv [OF r(2) inv] r(1) by (simp_all add: delivered_bytes_def)
    then obtain fs r' where "frames_read (incoming w) got s2 w2 fs r'" by (auto simp: session_inv_def read_ok_def)
    then show ?thesis using i2(2-4) r(3) split_frames_stream by (auto simp: frames_read_def undelivered_def)
  qed
  moreover obtain fs r where "frames_read (incoming w) got s w1 fs r" using inv by (auto simp: session_inv_def read_ok_def)
  then have "\<exists>fs r. incoming w = stream fs @ r \<and> split_frames (stream fs) = (fs, []) \<and> filter is_fin fs = [] \<and> payload fs = got @ undelivered s"
    using split_frames_stream by (auto simp: frames_read_def)
  ultimately show ?thesis by blast
qed

text \<open>
  C35 (anytls_bounded).  Whatever the peer sends, a session holds at most 17 packets and 32 heartbeat replies, a frame body of at most
  65535 bytes, and drops at most one mebibyte (and one byte) after a local close; the padding scheme in use, and the one it passes on to later sessions,
  are bounded schemes.
\<close>

theorem anytls_bounded:
  assumes "anytls_open sha256 W version password t p w = (Ready (Ok s0), w0)" "padding_ok p"
    "length (settings_text version p) \<le> MAX_FRAME" "length (W (destination t)) \<le> MAX_FRAME"
    "fold (session_step md5) ops (s0, w0, [], []) = (s, w1, acc, got)"
  shows "length (at_outgoing s) \<le> 17 \<and> length (at_hearts s) \<le> MAX_HEARTS \<and> length (at_header s) \<le> 7 \<and> length (at_body s) \<le> at_need s
     \<and> at_need s \<le> MAX_FRAME \<and> at_group s \<le> MAX_STOP \<and> at_close_drained s \<le> MAX_CLOSE_DRAIN + 1
     \<and> padding_ok (at_padding s) \<and> padding_ok (at_shared s)"
proof -
  obtain sz where "session_inv (tr_sent w @ auth_bytes sha256 password sz) (W (destination t) @ []) (incoming w) [] s0 w0"
    using open_inv [OF assms(1-4)] by blast
  from session_run_inv [OF assms(5) this] show ?thesis by (simp add: session_inv_def session_ok_def)
qed


section \<open>A session, run\<close>

definition demo_padding :: padding where
  "demo_padding = \<lparr>pd_md5 = ''0a'', pd_stop = 3, pd_groups = [(0, [PadSize 2 2]), (2, [PadSize 4 4, PadCheck, PadSize 3 3])]\<rparr>"

definition demo_transport :: transport where
  "demo_transport = \<lparr>tr_reads = [ReadData [0, 0, 0, 0, 0, 0, 1, 5, 2, 0], ReadPending, ReadData [0, 0, 1, 0, 2, 7], ReadData [8], ReadData (frame 3 1 [])],
     tr_writes = [WriteOk 100, WriteOk 5, WriteOk 100, WritePending, WriteOk 100, WriteOk 100, WriteOk 100, WriteOk 100],
     tr_flushes = [Ready (Ok ()), Ready (Ok ()), Ready (Ok ()), Ready (Ok ()), Ready (Ok ())], tr_shutdowns = [Ready (Ok ())], tr_random = [], tr_sent = []\<rparr>"

definition demo_opened :: "anytls poll \<times> transport" where
  "demo_opened = anytls_open (\<lambda>_. [1, 2]) (\<lambda>_. [9]) ''1'' ''secret'' \<lparr>t_host = ''h'', t_port = 80\<rparr> demo_padding demo_transport"

lemma replicate_numeral: "replicate (numeral v) x = x # replicate (pred_numeral v) x"
  by (simp add: numeral_eq_Suc)

lemmas session_eval = demo_padding_def demo_transport_def transport_read_def transport_write_def transport_flush_def transport_shutdown_def
  finish_def fail_with_def check_error_def queue_def drain.simps poll_write_def poll_flush_def header_id_def header_len_def validate_header_def
  control_def read_header.simps read_payload.simps drive_replies_def deliver_def receive_def poll_read_def packets_def append_frame_def frame_def
  random_size_def auth_size_def MAX_FRAME_def MAX_STOP_def u32_be_def u16_be_def u32_from_be_def u16_from_be_def delivered_bytes_def accepted_bytes_def
  new_session_def Let_def replicate_numeral receive_loop.simps(2) [of _ "pred_numeral v" for v, folded numeral_eq_Suc]

definition demo_session :: anytls where
  "demo_session = new_session demo_padding
     [[4, 0, 0, 0, 0, 0, 30, 118, 61, 50, 10, 99, 108, 105, 101, 110, 116, 61, 122, 99, 47, 49, 10, 112, 97, 100, 100, 105, 110, 103, 45, 109, 100, 53, 61, 48, 97,
       1, 0, 0, 0, 1, 0, 0, 2, 0, 0, 0, 1, 0, 1, 9]]"

definition demo_wire :: transport where
  "demo_wire = demo_transport\<lparr>tr_writes := tl (tr_writes demo_transport), tr_flushes := tl (tr_flushes demo_transport),
     tr_sent := 1 # 2 # 0 # 2 # replicate 32 0\<rparr>"

lemma demo_opened: "demo_opened = (Ready (Ok demo_session), demo_wire)"
  by (simp add: demo_opened_def anytls_open_def session_eval auth_bytes_def first_frames_def settings_text_def str_bytes_def demo_session_def demo_wire_def)

definition demo_ops :: "session_op list" where
  "demo_ops = [DoFlush, DoRead 10, DoWrite [1, 2], DoFlush, DoRead 10]"

definition demo_last :: anytls where
  "demo_last = demo_session\<lparr>at_group := 3, at_outgoing := [[2, 0, 0, 0], [1, 0, 2], [1, 2]], at_body := [7, 8], at_need := 2, at_delivered := Suc (Suc 0)\<rparr>"

definition demo_rest :: transport where
  "demo_rest = demo_wire\<lparr>tr_reads := [ReadData (frame 3 1 [])], tr_writes := [WriteOk 100, WriteOk 100, WriteOk 100, WriteOk 100],
     tr_flushes := [Ready (Ok ()), Ready (Ok ())], tr_sent := tr_sent demo_wire @ hd (at_outgoing demo_session)\<rparr>"

lemma demo_run: "fold (session_step (\<lambda>_. [])) demo_ops (demo_session, demo_wire, [], []) = (demo_last, demo_rest, [1, 2], [7, 8])"
  by (simp add: session_eval demo_ops_def demo_last_def demo_rest_def demo_session_def demo_wire_def)

lemma demo_shutdown: "\<exists>s w. session_step (\<lambda>_. []) (DoShutdown False) (demo_last, demo_rest, [1, 2], [7, 8]) = (s, w, [1, 2], [7, 8]) \<and> at_write_closed s"
  by (simp add: session_eval shutdown_write_def poll_shutdown_def
      discard.simps(2) [of "pred_numeral v" for v, folded numeral_eq_Suc] MAX_CLOSE_DRAIN_def demo_last_def demo_rest_def demo_session_def demo_wire_def)

lemma demo_end: "\<exists>s w. poll_read (\<lambda>_. []) 10 demo_last demo_rest = (Ready (Ok []), s, w) \<and> \<not> at_write_closed s"
  by (simp add: session_eval demo_last_def demo_rest_def demo_session_def demo_wire_def)

lemma demo_padding_ok: "padding_ok demo_padding"
  by (simp add: padding_ok_def demo_padding_def steps_ok_def group_cost_def MAX_STOP_def MAX_PADDING_def)

theorem anytls_writes_exactly_witness:
  "\<exists>s w sz fs. fold (session_step (\<lambda>_. [])) (demo_ops @ [DoShutdown False]) (demo_session, demo_wire, [], []) = (s, w, [1, 2], [7, 8])
     \<and> tr_sent w = auth_bytes (\<lambda>_. [1, 2]) ''secret'' sz @ stream fs \<and> split_frames (stream fs) = (fs, []) \<and> payload fs = [9, 1, 2]
     \<and> (\<exists>gs. filter (\<lambda>f. is_data f \<or> is_fin f) fs = gs @ [(3, 1, [])] \<and> filter is_fin gs = [])"
proof -
  obtain s w where s: "fold (session_step (\<lambda>_. [])) (demo_ops @ [DoShutdown False]) (demo_session, demo_wire, [], []) = (s, w, [1, 2], [7, 8])"
      "at_write_closed s"
    using demo_shutdown demo_run by auto
  show ?thesis
    using anytls_writes_exactly [OF demo_opened [unfolded demo_opened_def] demo_padding_ok _ _ s(1)] s
    by (auto simp: demo_transport_def settings_text_def demo_padding_def MAX_FRAME_def)
qed

theorem anytls_reads_exactly_witness:
  "(\<exists>fs r. incoming demo_transport = stream fs @ r \<and> split_frames (stream fs) = (fs, []) \<and> filter is_fin fs = [] \<and> payload fs = [7, 8] @ undelivered demo_last)
     \<and> (\<exists>fs r. incoming demo_transport = stream fs @ frame 3 1 [] @ r \<and> split_frames (stream fs) = (fs, []) \<and> filter is_fin fs = [] \<and> payload fs = [7, 8])"
proof -
  obtain s w where s: "poll_read (\<lambda>_. []) 10 demo_last demo_rest = (Ready (Ok []), s, w)" "\<not> at_write_closed s" using demo_end by blast
  show ?thesis
    using anytls_reads_exactly [OF demo_opened [unfolded demo_opened_def] demo_padding_ok _ _ demo_run, of 10 s w] s
    by (simp add: settings_text_def demo_padding_def MAX_FRAME_def)
qed

theorem anytls_bounded_witness:
  "length (at_outgoing demo_last) \<le> 17 \<and> length (at_hearts demo_last) \<le> MAX_HEARTS \<and> padding_ok (at_shared demo_last)"
  using anytls_bounded [OF demo_opened [unfolded demo_opened_def] demo_padding_ok _ _ demo_run]
  by (simp add: settings_text_def demo_padding_def MAX_FRAME_def)


end
