(* ===== verification/Override_Order.thy ===== *)
theory Override_Order
  imports Rust_Text "HOL-Library.Multiset"
begin

text \<open>
  The order of rule providers in canonical configuration text (\<open>src/src/override_script.rs\<close>): the hash of a name and the
  open-addressing table whose slot order is the order of the output.

  The lemmas show that the table always finds a free slot, and that its order is a permutation of the names.
\<close>

unbundle bit_operations_syntax

section \<open>The hash\<close>

definition SECRET :: "u64 list" where
  "SECRET = [0xa0761d6478bd642f, 0xe7037ed1a0b428db, 0x8ebc6af09c88c6e3, 0x589965cc75374cc3]"

definition mix :: "u64 \<Rightarrow> u64 \<Rightarrow> u64" where
  "mix a b = (let p = ucast a * ucast b :: 128 word in ucast p XOR ucast (drop_bit 64 p))"

definition hash_read :: "bytes \<Rightarrow> nat \<Rightarrow> u64" where
  "hash_read b n = fold (\<lambda>(i, x) v. v OR push_bit (i * 8) (ucast x)) (enumerate 0 (take n b)) 0"

text \<open>The two loops over long input; both leave the bytes from index \<open>i\<close> on.\<close>

function hash_lanes :: "bytes \<Rightarrow> u64 \<times> u64 \<times> u64 \<Rightarrow> bytes \<times> u64 \<times> u64 \<times> u64" where
  "hash_lanes b (s0, s1, s2) =
     (if 48 < length b
      then hash_lanes (drop 48 b)
        (mix (hash_read b 8 XOR SECRET ! 1) (hash_read (drop 8 b) 8 XOR s0),
         mix (hash_read (drop 16 b) 8 XOR SECRET ! 2) (hash_read (drop 24 b) 8 XOR s1),
         mix (hash_read (drop 32 b) 8 XOR SECRET ! 3) (hash_read (drop 40 b) 8 XOR s2))
      else (b, s0, s1, s2))"
  by pat_completeness auto
termination by (relation "measure (\<lambda>(b, _). length b)") auto

declare hash_lanes.simps [simp del]

function hash_rest :: "bytes \<Rightarrow> u64 \<Rightarrow> u64" where
  "hash_rest b s =
     (if 16 < length b then hash_rest (drop 16 b) (mix (hash_read b 8 XOR SECRET ! 1) (hash_read (drop 8 b) 8 XOR s)) else s)"
  by pat_completeness auto
termination by (relation "measure (\<lambda>(b, _). length b)") auto

declare hash_rest.simps [simp del]

definition zig_string_hash :: "bytes \<Rightarrow> u64" where
  "zig_string_hash bs =
     (let len = length bs;
          start = mix (SECRET ! 0) (SECRET ! 1);
          (a, b, s) =
            (if len \<le> 16
             then (if 4 \<le> len
                   then (let end' = len - 4; quarter = (len div 8) * 4
                         in (push_bit 32 (hash_read bs 4) OR hash_read (drop quarter bs) 4,
                             push_bit 32 (hash_read (drop end' bs) 4) OR hash_read (drop (end' - quarter) bs) 4, start))
                   else if 0 < len
                   then (push_bit 16 (ucast (bs ! 0)) OR push_bit 8 (ucast (bs ! (len div 2))) OR ucast (bs ! (len - 1)), 0, start)
                   else (0, 0, start))
             else (let (rest, s) =
                     (if 48 \<le> len
                      then (case hash_lanes bs (start, start, start) of (r, s0, s1, s2) \<Rightarrow> (r, s0 XOR s1 XOR s2))
                      else (bs, start))
                   in (hash_read (drop (len - 16) bs) 8, hash_read (drop (len - 8) bs) 8, hash_rest rest s)));
          product = ucast (a XOR SECRET ! 1) * ucast (b XOR s) :: 128 word
      in mix (ucast product XOR SECRET ! 0 XOR of_nat len) (ucast (drop_bit 64 product) XOR SECRET ! 1))"

section \<open>The table\<close>

type_synonym slots = "string option list"

text \<open>\<open>insert\<close>; \<open>None\<close> is its \<open>unreachable!\<close>.\<close>

fun probe_slots :: "nat \<Rightarrow> nat \<Rightarrow> string \<Rightarrow> slots \<Rightarrow> slots option" where
  "probe_slots 0 index name slots = None"
| "probe_slots (Suc k) index name slots =
     (if slots ! index = None then Some (slots[index := Some name])
      else probe_slots k ((index + 1) AND (length slots - 1)) name slots)"

definition insert_slot :: "string \<Rightarrow> slots \<Rightarrow> slots option" where
  "insert_slot name slots =
     probe_slots (length slots) (unat (zig_string_hash (str_bytes name)) AND (length slots - 1)) name slots"

function next_power_of_two :: "nat \<Rightarrow> nat" where
  "next_power_of_two n = (if n \<le> 1 then 1 else 2 * next_power_of_two ((n + 1) div 2))"
  by pat_completeness auto
termination by (relation "measure id") auto

declare next_power_of_two.simps [simp del]

fun insert_all :: "string list \<Rightarrow> slots \<Rightarrow> slots option" where
  "insert_all [] slots = Some slots"
| "insert_all (name # ns) slots = Option.bind (insert_slot name slots) (insert_all ns)"

definition occupied :: "slots \<Rightarrow> string list" where
  "occupied slots = List.map_filter id slots"

definition grow :: "nat \<Rightarrow> slots \<Rightarrow> slots option" where
  "grow held slots =
     (if length slots * 80 div 100 < held + 1
      then insert_all (occupied slots) (replicate (max (next_power_of_two ((held + 1) * 100 div 80 + 1)) 8) None)
      else Some slots)"

fun fill_slots :: "nat \<Rightarrow> string list \<Rightarrow> slots \<Rightarrow> slots option" where
  "fill_slots held [] slots = Some slots"
| "fill_slots held (name # ns) slots =
     Option.bind (grow held slots) (\<lambda>slots. Option.bind (insert_slot name slots) (fill_slots (held + 1) ns))"

definition zig_map_order :: "string list \<Rightarrow> string list option" where
  "zig_map_order names = map_option occupied (fill_slots 0 names [])"

section \<open>The order is a permutation\<close>

definition table_ok :: "slots \<Rightarrow> bool" where
  "table_ok slots \<longleftrightarrow> (\<exists>k. length slots = 2 ^ k)"

lemma and_mask: "table_ok slots \<Longrightarrow> n AND (length slots - 1) = n mod length slots" for n :: nat
  using take_bit_eq_mask [of _ n] take_bit_eq_mod [of _ n] by (auto simp: table_ok_def mask_eq_exp_minus_1)

lemma next_power_of_two: "n \<le> next_power_of_two n \<and> (\<exists>k. next_power_of_two n = 2 ^ k)"
proof (induction n rule: next_power_of_two.induct)
  case (1 n)
  show ?case
  proof (cases "n \<le> 1")
    case True
    then have "next_power_of_two n = 2 ^ 0" using next_power_of_two.simps [of n] by simp
    then show ?thesis using True by (metis power_0)
  next
    case False
    then obtain k where k: "next_power_of_two ((n + 1) div 2) = 2 ^ k" "(n + 1) div 2 \<le> 2 ^ k" using 1 by auto
    then have "next_power_of_two n = 2 ^ Suc k" using False next_power_of_two.simps [of n] by simp
    moreover have "n \<le> 2 * ((n + 1) div 2)" by linarith
    ultimately show ?thesis using k(2) by (metis le_trans mult_le_mono2 power_Suc)
  qed
qed

lemma occupied_update:
  "i < length slots \<Longrightarrow> slots ! i = None \<Longrightarrow> mset (occupied (slots[i := Some x])) = add_mset x (mset (occupied slots))"
proof (induction slots arbitrary: i)
  case (Cons s ss)
  then show ?case by (cases i) (auto simp: occupied_def map_filter_simps split: option.splits)
qed simp

lemma probe_free:
  assumes "table_ok slots" "index < length slots" "d < k" "slots ! ((index + d) mod length slots) = None"
  shows "\<exists>i. i < length slots \<and> slots ! i = None \<and> probe_slots k index name slots = Some (slots[i := Some name])"
  using assms
proof (induction k arbitrary: index d)
  case (Suc k)
  have L: "0 < length slots" using Suc.prems(1) by (auto simp: table_ok_def)
  show ?case
  proof (cases "slots ! index = None")
    case False
    then obtain d' where d: "d = Suc d'" using Suc.prems by (cases d) auto
    let ?j = "(index + 1) mod length slots"
    have "(?j + d') mod length slots = (index + d) mod length slots" by (simp add: d mod_simps)
    moreover have "probe_slots (Suc k) index name slots = probe_slots k ?j name slots"
      using False and_mask [OF Suc.prems(1), of "index + 1"] by (auto simp: not_None_eq)
    ultimately show ?thesis using Suc.IH [of ?j d'] Suc.prems d L by simp
  qed (use Suc.prems in auto)
qed simp

lemma insert_slot:
  assumes "table_ok slots" "length (occupied slots) < length slots"
  obtains slots' where "insert_slot name slots = Some slots'" "table_ok slots'" "length slots' = length slots"
    "mset (occupied slots') = add_mset name (mset (occupied slots))"
proof -
  let ?L = "length slots" and ?h = "unat (zig_string_hash (str_bytes name)) mod length slots"
  have L: "0 < ?L" using assms(2) by (cases slots) (auto simp: occupied_def map_filter_simps)
  have "None \<in> set slots"
  proof (rule ccontr)
    assume "None \<notin> set slots"
    then have "length (occupied slots) = length slots"
      by (induction slots) (auto simp: occupied_def map_filter_simps split: option.splits, metis option.exhaust)
    then show False using assms(2) by simp
  qed
  then obtain j where j: "j < ?L" "slots ! j = None" by (auto simp: in_set_conv_nth)
  have h: "?h < ?L" using L by simp
  have "(?h + (j + ?L - ?h) mod ?L) mod ?L = j" using j(1) h by (simp add: mod_simps)
  then obtain i where "i < ?L" "slots ! i = None" "insert_slot name slots = Some (slots[i := Some name])"
    using probe_free [OF assms(1) h, of "(j + ?L - ?h) mod ?L" ?L name] j(2) L and_mask [OF assms(1)]
    by (auto simp: insert_slot_def)
  then show ?thesis using that occupied_update [of i slots name] assms(1) by (simp add: table_ok_def)
qed

lemma insert_all:
  "table_ok slots \<Longrightarrow> length (occupied slots) + length ns \<le> length slots \<Longrightarrow>
     \<exists>slots'. insert_all ns slots = Some slots' \<and> table_ok slots' \<and> length slots' = length slots
       \<and> mset (occupied slots') = mset ns + mset (occupied slots)"
proof (induction ns arbitrary: slots)
  case (Cons n ns)
  obtain s1 where s1: "insert_slot n slots = Some s1" "table_ok s1" "length s1 = length slots"
      "mset (occupied s1) = add_mset n (mset (occupied slots))"
    using insert_slot [of slots n] Cons.prems by auto
  then have "length (occupied s1) = Suc (length (occupied slots))" by (metis size_add_mset size_mset)
  then show ?case using Cons.IH [of s1] Cons.prems s1 by auto
qed simp

lemma occupied_replicate [simp]: "occupied (replicate n None) = []"
  by (induction n) (auto simp: occupied_def map_filter_simps)

lemma grow:
  assumes "table_ok slots \<or> slots = []" "length (occupied slots) = held" "held \<le> length slots"
  obtains slots' where "grow held slots = Some slots'" "table_ok slots'" "held < length slots'"
    "mset (occupied slots') = mset (occupied slots)"
proof (cases "length slots * 80 div 100 < held + 1")
  case True
  let ?c = "max (next_power_of_two ((held + 1) * 100 div 80 + 1)) 8"
  obtain k where k: "next_power_of_two ((held + 1) * 100 div 80 + 1) = 2 ^ k" "(held + 1) * 100 div 80 + 1 \<le> 2 ^ k"
    using next_power_of_two by metis
  have c: "held < ?c" using k by simp
  have "\<exists>m. ?c = 2 ^ m"
  proof (cases "2 ^ k \<le> (8::nat)")
    case True
    then have "?c = 2 ^ 3" using k(1) by simp
    then show ?thesis by blast
  qed (use k(1) in \<open>auto simp: max_def\<close>)
  then have "table_ok (replicate ?c None)" by (simp add: table_ok_def)
  then obtain s where "insert_all (occupied slots) (replicate ?c None) = Some s" "table_ok s" "length s = ?c"
      "mset (occupied s) = mset (occupied slots)"
    using insert_all [of "replicate ?c None" "occupied slots"] assms(2) c by auto
  then show ?thesis using that c True by (simp add: grow_def)
next
  case False
  then have "held < length slots" by linarith
  then show ?thesis using that [of slots] assms False by (auto simp: grow_def)
qed

lemma fill_slots:
  "table_ok slots \<or> slots = [] \<Longrightarrow> length (occupied slots) = held \<Longrightarrow> held \<le> length slots \<Longrightarrow>
     \<exists>slots'. fill_slots held ns slots = Some slots' \<and> mset (occupied slots') = mset ns + mset (occupied slots)"
proof (induction ns arbitrary: held slots)
  case (Cons n ns)
  obtain s1 where s1: "grow held slots = Some s1" "table_ok s1" "held < length s1" "mset (occupied s1) = mset (occupied slots)"
    using grow [OF Cons.prems] by blast
  have l1: "length (occupied s1) = held" using s1(4) Cons.prems(2) by (metis size_mset)
  obtain s2 where s2: "insert_slot n s1 = Some s2" "table_ok s2" "length s2 = length s1"
      "mset (occupied s2) = add_mset n (mset (occupied s1))"
    using insert_slot [of s1 n] s1 l1 by auto
  have "length (occupied s2) = held + 1" using s2(4) l1 by (metis Suc_eq_plus1 size_add_mset size_mset)
  then show ?case using Cons.IH [of s2 "held + 1"] s1 s2 by auto
qed simp

text \<open>
  The provider order of canonical configuration text is total: the table never runs out of free slots, and its
  order lists every name exactly as often as it is given.
\<close>

theorem provider_order_permutes: "\<exists>ys. zig_map_order names = Some ys \<and> mset ys = mset names"
  using fill_slots [of "[]" 0 names] by (auto simp: zig_map_order_def occupied_def map_filter_simps)

end
