(* ===== verification/Override.thy ===== *)
theory Override
  imports Config Store_Keys Override_Order
begin

text \<open>
  Configuration overrides (\<open>src/src/override_script.rs\<close>): the bounded document, the collection checks, the normal form of a
  configuration document, the replacement of fields by a patch, and the projection that the runtime parses.

  The YAML and JSON parsers, the URL parser and the JSON printer are not part of the repository; they are the fields of
  \<open>override_env\<close>.  A document that the code changes in place is passed on.  Where the code unwraps an option, the error is
  \<open>Panicked\<close>.
\<close>

section \<open>Documents\<close>

record override_env =
  oe_parsers :: parsers
  oe_url_parse :: "string \<Rightarrow> (string \<times> bool) option"
  oe_json_text :: "json \<Rightarrow> string"
  oe_json_names :: "string \<Rightarrow> string list option"
  oe_yaml_names :: "string \<Rightarrow> string list option"

datatype override_error =
    DocumentTooLong | DocumentNotUtf8 | DocumentRejected | MappingExpected | EntriesExceeded
  | PatchTooLong | PatchField
  | NotAList string | ListTooLong string | RuleNotString | ItemShape | MembersNotList | MembersTooLong | MemberNotString
  | CountsExceeded | ProvidersNotMap | ProvidersTooMany | ProviderNotMap
  | ProxyNotMap | OptionsTwice | OptionsNotMap | OptionsUnsupported
  | FieldType string | FieldRange string | AnyTlsRejected config_error | ProxyTypeUnknown | ServerPortMissing
  | TransportNotMap | WsHeadersNotMap | GroupTypeUnknown | ProviderFieldsMissing | ProviderRejected | ProviderUrlRejected
  | MatchNotLast | RuleTypeUnknown | RuleIncomplete
  | UnsupportedCapability string | HostRejected | OutputExceeded | UnexpandedRuleSet | NamesRejected
  | ArgumentSyntax | ArgumentKeyEmpty | TimeoutInvalid | OptionDeprecated | OptionValueMissing string | ScriptPathMissing
  | InvocationTooLong | EnvironmentNul | Panicked

definition MAX_OUTPUT_BYTES :: nat where "MAX_OUTPUT_BYTES = 1024 * 1024"

fun json_children :: "json \<Rightarrow> json list" where
  "json_children (JArr vs) = vs"
| "json_children (JObj kvs) = map snd kvs"
| "json_children _ = []"

lemma size_json_children: "v \<in> set (json_children j) \<Longrightarrow> size v < size j"
proof (cases j)
  case (JArr vs)
  then show "v \<in> set (json_children j) \<Longrightarrow> size v < size j" by (auto dest: size_list_estimation' [where f = size, OF _ order_refl])
next
  case (JObj kvs)
  then show "v \<in> set (json_children j) \<Longrightarrow> size v < size j"
    by (auto dest: size_list_estimation' [where f = "size_prod (\<lambda>_. 0) size" and y = "size v"])
qed auto

function count_entries :: "json \<Rightarrow> nat \<Rightarrow> (nat, override_error) result" where
  "count_entries v remaining =
     (if remaining < length (json_children v) then Err EntriesExceeded
      else try_fold count_entries (json_children v) (remaining - length (json_children v)))"
  by pat_completeness auto
termination by (relation "measure (\<lambda>(v, _). size v)") (auto simp: size_json_children)

declare count_entries.simps [simp del]

definition override_document :: "override_env \<Rightarrow> bytes \<Rightarrow> nat \<Rightarrow> (json, override_error) result" where
  "override_document E bs limit =
     (if limit < length bs then Err DocumentTooLong
      else and_then (ok_or DocumentNotUtf8 (from_utf8 bs)) (\<lambda>txt.
           and_then (lift_err (\<lambda>_. DocumentRejected) (parse_document (oe_parsers E) txt)) (\<lambda>v.
           if \<not> is_object v then Err MappingExpected
           else and_then (count_entries v MAX_COLLECTION_ENTRIES) (\<lambda>_. Ok v))))"

definition empty_patch :: "bytes \<Rightarrow> bool" where
  "empty_patch patch \<longleftrightarrow> list_all (\<lambda>b. b \<in> {0x20, 0x09, 0x0D, 0x0A}) patch"

section \<open>Collections\<close>

definition is_group :: "json \<Rightarrow> bool" where
  "is_group v \<longleftrightarrow> (case Option.bind (json_get ''type'' v) as_str of
       Some t \<Rightarrow> t \<in> {''select'', ''url-test'', ''fallback'', ''load-balance'', ''relay''}
     | None \<Rightarrow> False)"

definition check_members :: "json \<Rightarrow> (unit, override_error) result" where
  "check_members item = (case json_get ''proxies'' item of
       None \<Rightarrow> Ok ()
     | Some v \<Rightarrow> and_then (ok_or MembersNotList (as_array v)) (\<lambda>members.
         if 5122 < length members then Err MembersTooLong
         else if list_all is_string members then Ok () else Err MemberNotString))"

definition check_item :: "string \<Rightarrow> json \<Rightarrow> (unit, override_error) result" where
  "check_item field item =
     (if field = ''rules'' then (if is_string item then Ok () else Err RuleNotString)
      else if \<not> is_object item
         \<or> \<not> (case json_get ''name'' item of Some v \<Rightarrow> is_string v | None \<Rightarrow> False)
         \<or> \<not> (case json_get ''type'' item of Some v \<Rightarrow> is_string v | None \<Rightarrow> False) then Err ItemShape
      else check_members item)"

definition check_field :: "json \<Rightarrow> string \<times> nat \<Rightarrow> (unit, override_error) result" where
  "check_field v = (\<lambda>(field, limit). case json_get field v of
       None \<Rightarrow> Ok ()
     | Some x \<Rightarrow> and_then (ok_or (NotAList field) (as_array x)) (\<lambda>items.
         if limit < length items then Err (ListTooLong field)
         else and_then (result_map (check_item field) items) (\<lambda>_. Ok ())))"

definition array_field :: "string \<Rightarrow> json \<Rightarrow> json list" where
  "array_field k v = (case Option.bind (json_get k v) as_array of Some vs \<Rightarrow> vs | None \<Rightarrow> [])"

definition check_providers :: "json \<Rightarrow> (unit, override_error) result" where
  "check_providers v = (case json_get ''rule-providers'' v of
       None \<Rightarrow> Ok ()
     | Some x \<Rightarrow> and_then (ok_or ProvidersNotMap (as_object x)) (\<lambda>providers.
         if 4096 < length providers then Err ProvidersTooMany
         else if list_all (\<lambda>(_, p). is_object p) providers then Ok () else Err ProviderNotMap))"

definition validate_collections :: "json \<Rightarrow> (unit, override_error) result" where
  "validate_collections v =
     and_then (result_map (check_field v) [(''proxies'', 5120), (''proxy-groups'', 1024), (''rules'', 262144)]) (\<lambda>_.
     let mixed = array_field ''proxies'' v; groups = length (filter is_group mixed)
     in if 4096 < length mixed - groups \<or> 1024 < groups + length (array_field ''proxy-groups'' v) then Err CountsExceeded
        else check_providers v)"

section \<open>Normal form\<close>

type_synonym jmap = "(string \<times> json) list"

text \<open>\<open>as_object().unwrap()\<close> and \<open>as_array().unwrap()\<close>.\<close>

definition unwrap_object :: "json \<Rightarrow> (jmap, override_error) result" where
  "unwrap_object v = ok_or Panicked (as_object v)"

definition unwrap_array :: "json \<Rightarrow> (json list, override_error) result" where
  "unwrap_array v = ok_or Panicked (as_array v)"

definition unwrap_str :: "json \<Rightarrow> (string, override_error) result" where
  "unwrap_str v = ok_or Panicked (as_str v)"

definition split_source_groups :: "jmap \<Rightarrow> jmap" where
  "split_source_groups m = (case Option.bind (map_of m ''proxies'') as_array of
       None \<Rightarrow> m
     | Some items \<Rightarrow>
         let groups = filter is_group items;
             m = btree_insert ''proxies'' (JArr (filter (\<lambda>v. \<not> is_group v) items)) m
         in if groups = [] then m
            else let existing = (case Option.bind (map_of m ''proxy-groups'') as_array of Some vs \<Rightarrow> vs | None \<Rightarrow> [])
                 in btree_insert ''proxy-groups'' (JArr (groups @ existing)) (btree_remove ''proxy-groups'' m))"

definition plugin_option_ok :: "string \<times> json \<Rightarrow> bool" where
  "plugin_option_ok = (\<lambda>(k, v). k \<in> {''mode'', ''host''} \<and> is_string v)"

definition canonical_options :: "json \<Rightarrow> (json, override_error) result" where
  "canonical_options proxy =
     and_then (ok_or ProxyNotMap (as_object proxy)) (\<lambda>m.
     and_then (case map_of m ''plugin_opts'' of
         None \<Rightarrow> Ok m
       | Some alias \<Rightarrow>
           let m = btree_remove ''plugin_opts'' m
           in if map_of m ''plugin-opts'' \<noteq> None then Err OptionsTwice else Ok (btree_insert ''plugin-opts'' alias m)) (\<lambda>m.
     case map_of m ''plugin-opts'' of
         None \<Rightarrow> Ok (JObj m)
       | Some options \<Rightarrow> and_then (ok_or OptionsNotMap (as_object options)) (\<lambda>os.
           if list_all plugin_option_ok os then Ok (JObj m) else Err OptionsUnsupported)))"

definition canonical_plugin_options :: "jmap \<Rightarrow> (jmap, override_error) result" where
  "canonical_plugin_options m = (case Option.bind (map_of m ''proxies'') as_array of
       None \<Rightarrow> Ok m
     | Some items \<Rightarrow> and_then (result_map canonical_options items) (\<lambda>items. Ok (btree_insert ''proxies'' (JArr items) m)))"

fun same_type :: "json \<Rightarrow> json \<Rightarrow> bool" where
  "same_type (JBool _) v = is_boolean v"
| "same_type (JInt _) v = (as_i64 v \<noteq> None)"
| "same_type (JStr _) v = is_string v"
| "same_type (JArr _) v = is_array v"
| "same_type (JObj _) v = is_object v"
| "same_type _ v = False"

definition typed_default :: "string \<times> json \<Rightarrow> jmap \<Rightarrow> (jmap, override_error) result" where
  "typed_default = (\<lambda>(key, default) m. case map_of m key of
       None \<Rightarrow> if same_type default default then Ok (btree_insert key default m) else Err (FieldType key)
     | Some v \<Rightarrow> if same_type default v then Ok m else Err (FieldType key))"

definition optional_string :: "bool \<Rightarrow> string \<Rightarrow> jmap \<Rightarrow> (jmap, override_error) result" where
  "optional_string nullable key m = (case map_of m key of
       None \<Rightarrow> Ok m
     | Some v \<Rightarrow>
         if v = JNull \<and> nullable then Ok (btree_remove key m)
         else if is_string v then Ok m else Err (FieldType key))"

definition integer_range :: "json \<Rightarrow> string \<Rightarrow> nat \<Rightarrow> (unit, override_error) result" where
  "integer_range v key limit =
     (if (case Option.bind (json_get key v) as_u64 of Some n \<Rightarrow> n \<le> limit | None \<Rightarrow> False) then Ok ()
      else Err (FieldRange key))"

definition validate_host :: "string \<Rightarrow> bool" where
  "validate_host host \<longleftrightarrow> host \<noteq> [] \<and> length host \<le> 255 \<and> list_all (\<lambda>c. c \<notin> {CHR 0x00, CR, LF}) host"

definition validate_plugin_metadata :: "json \<Rightarrow> (unit, override_error) result" where
  "validate_plugin_metadata proxy =
     and_then (unwrap_str (json_index proxy ''type'')) (\<lambda>kind.
     case (json_get ''plugin'' proxy, json_get ''plugin-opts'' proxy) of
         (None, None) \<Rightarrow> Ok ()
       | (Some plugin, Some options) \<Rightarrow>
           if kind = ''ss'' \<and> (as_str plugin = Some ''obfs'' \<or> as_str plugin = Some ''obfs-local'')
              \<and> Option.bind (json_get ''mode'' options) as_str = Some ''http''
           then and_then (ok_or (UnsupportedCapability ''missing obfs host'') (Option.bind (json_get ''host'' options) as_str)) (\<lambda>host.
                if validate_host host then Ok () else Err HostRejected)
           else Err (UnsupportedCapability ''plugin metadata'')
       | _ \<Rightarrow> Err (UnsupportedCapability ''plugin metadata''))"

definition proxy_types :: "string list" where
  "proxy_types = [''direct'', ''reject'', ''http'', ''socks5'', ''ss'', ''vmess'', ''trojan'', ''vless'', ''anytls'']"

definition proxy_server :: "string \<Rightarrow> jmap \<Rightarrow> (jmap, override_error) result" where
  "proxy_server kind m =
     (if kind \<in> {''direct'', ''reject''} then Ok (btree_insert ''port'' (JInt 0) (btree_insert ''server'' (JStr []) m))
      else if \<not> (case map_of m ''server'' of Some v \<Rightarrow> is_string v | None \<Rightarrow> False)
         \<or> \<not> (case Option.bind (map_of m ''port'') as_u64 of Some p \<Rightarrow> 0 < p \<and> p \<le> 65535 | None \<Rightarrow> False)
      then Err ServerPortMissing
      else Ok m)"

text \<open>\<open>optional_string\<close> that is not nullable leaves the map as it is, so only its checks remain here.\<close>

definition check_transport :: "jmap \<Rightarrow> (unit, override_error) result" where
  "check_transport m =
     and_then (result_map (\<lambda>key. case map_of m key of
         Some v \<Rightarrow> if is_object v then Ok () else Err TransportNotMap
       | None \<Rightarrow> Ok ()) [''grpc-opts'', ''ws-opts'']) (\<lambda>_.
     case Option.bind (map_of m ''ws-opts'') as_object of
         None \<Rightarrow> Ok ()
       | Some ws \<Rightarrow> and_then (optional_string False ''path'' ws) (\<lambda>_.
           case map_of ws ''headers'' of
               None \<Rightarrow> Ok ()
             | Some headers \<Rightarrow> and_then (ok_or WsHeadersNotMap (as_object headers)) (\<lambda>hs.
                 and_then (optional_string False ''Host'' hs) (\<lambda>_. Ok ()))))"

definition normalize_proxy :: "json \<Rightarrow> (json, override_error) result" where
  "normalize_proxy proxy =
     and_then (unwrap_object proxy) (\<lambda>m.
     and_then (ok_or Panicked (Option.bind (map_of m ''type'') as_str)) (\<lambda>kind.
     if kind \<notin> set proxy_types then Err ProxyTypeUnknown
     else and_then (proxy_server kind m) (\<lambda>m.
          and_then (try_fold (optional_string False) [''password'', ''cipher'', ''uuid'', ''sni'', ''network'', ''plugin''] m) (\<lambda>m.
          and_then (try_fold typed_default [(''tls'', JBool False), (''skip-cert-verify'', JBool False), (''udp'', JBool False)] m) (\<lambda>m.
          and_then (typed_default (''alterId'', JInt 0) m) (\<lambda>m.
          and_then (check_transport m) (\<lambda>_.
          and_then (integer_range (JObj m) ''alterId'' 65535) (\<lambda>_.
          and_then (validate_plugin_metadata (JObj m)) (\<lambda>_. Ok (JObj m))))))))))"

definition normalize_group :: "json \<Rightarrow> (json, override_error) result" where
  "normalize_group item =
     (if \<not> is_group item then Err GroupTypeUnknown
      else and_then (unwrap_object item) (\<lambda>m.
           and_then (optional_string False ''url'' m) (\<lambda>m.
           and_then (try_fold typed_default
             [(''proxies'', JArr []), (''interval'', JInt 300), (''tolerance'', JInt 100), (''lazy'', JBool True)] m) (\<lambda>m.
           and_then (integer_range (JObj m) ''interval'' 4294967295) (\<lambda>_.
           and_then (integer_range (JObj m) ''tolerance'' 65535) (\<lambda>_. Ok (JObj m)))))))"

definition check_provider :: "override_env \<Rightarrow> json \<Rightarrow> (json, override_error) result" where
  "check_provider E p =
     and_then (integer_range p ''interval'' 4294967295) (\<lambda>_.
     if json_index p ''interval'' = JInt 0
        \<or> as_str (json_index p ''type'') \<notin> {Some ''file'', Some ''http''}
        \<or> as_str (json_index p ''behavior'') \<notin> {Some ''domain'', Some ''ipcidr'', Some ''classical''}
        \<or> as_str (json_index p ''path'') = Some []
     then Err ProviderRejected
     else case Option.bind (json_get ''url'' p) as_str of
         None \<Rightarrow> Ok p
       | Some url \<Rightarrow> (case oe_url_parse E url of
             None \<Rightarrow> Err ProviderUrlRejected
           | Some (scheme, has_host) \<Rightarrow>
               if scheme \<notin> {''http'', ''https''} \<or> \<not> has_host then Err ProviderUrlRejected else Ok p))"

definition normalize_provider :: "override_env \<Rightarrow> json \<Rightarrow> (json, override_error) result" where
  "normalize_provider E item =
     and_then (unwrap_object item) (\<lambda>m.
     if list_ex (\<lambda>key. \<not> (case map_of m key of Some v \<Rightarrow> is_string v | None \<Rightarrow> False)) [''type'', ''behavior'', ''path'']
     then Err ProviderFieldsMissing
     else and_then (optional_string True ''url'' m) (\<lambda>m.
          and_then (typed_default (''interval'', JInt 86400) m) (\<lambda>m. check_provider E (JObj m))))"

definition rule_types :: "string list" where
  "rule_types = [''DOMAIN'', ''DOMAIN-SUFFIX'', ''DOMAIN-KEYWORD'', ''IP-CIDR'', ''IP-CIDR6'', ''GEOIP'', ''RULE-SET'',
     ''SRC-IP-CIDR'', ''DST-PORT'', ''SRC-PORT'', ''PROCESS-NAME'', ''MATCH'']"

definition trim_blank :: "string \<Rightarrow> string" where
  "trim_blank = trim_matches (\<lambda>c. c = CHR '' '' \<or> c = TAB)"

definition normalize_rule :: "string \<Rightarrow> (string, override_error) result" where
  "normalize_rule source =
     (let parts = split_char (CHR '','') (trim_matches (\<lambda>c. c \<in> {CHR '' '', TAB, CR, LF}) source);
          kind = hd parts
      in if kind \<notin> set rule_types then Err RuleTypeUnknown
         else let n = (if kind = ''MATCH'' then 2 else 3)
              in if length parts < n then Err RuleIncomplete
                 else Ok (join_char (CHR '','') (map trim_blank (take n parts))
                        @ (if list_ex (\<lambda>f. trim_blank f = ''no-resolve'') (drop n parts) then '',no-resolve'' else [])))"

definition is_match_rule :: "string \<Rightarrow> bool" where
  "is_match_rule source \<longleftrightarrow> hd (split_char (CHR '','') (trim_matches (\<lambda>c. c \<in> {CHR '' '', TAB, CR, LF}) source)) = ''MATCH''"

fun normalize_rules :: "json list \<Rightarrow> bool \<Rightarrow> (json list, override_error) result" where
  "normalize_rules [] final_seen = Ok (if final_seen then [] else [JStr ''MATCH,REJECT''])"
| "normalize_rules (r # rs) final_seen =
     (if final_seen then Err MatchNotLast
      else and_then (unwrap_str r) (\<lambda>source.
           and_then (normalize_rule source) (\<lambda>t.
           and_then (normalize_rules rs (is_match_rule source)) (\<lambda>ts. Ok (JStr t # ts)))))"

definition top_defaults :: "(string \<times> json) list" where
  "top_defaults = [(''port'', JInt 0), (''socks-port'', JInt 0), (''mixed-port'', JInt 0), (''redir-port'', JInt 0),
     (''tproxy-port'', JInt 0), (''allow-lan'', JBool False), (''bind-address'', JStr ''*''), (''mode'', JStr ''rule''),
     (''log-level'', JStr ''info''), (''ipv6'', JBool True), (''idle-session-check-interval'', JInt 30),
     (''idle-session-timeout'', JInt 30), (''min-idle-session'', JInt 0), (''proxies'', JArr []), (''proxy-groups'', JArr []),
     (''rule-providers'', JObj []), (''rules'', JArr [])]"

definition normalize_tables :: "override_env \<Rightarrow> jmap \<Rightarrow> (json, override_error) result" where
  "normalize_tables E m =
     and_then (unwrap_array (json_index (JObj m) ''proxies'')) (\<lambda>ps.
     and_then (result_map normalize_proxy ps) (\<lambda>ps.
     let m = btree_insert ''proxies'' (JArr ps) m
     in and_then (unwrap_array (json_index (JObj m) ''proxy-groups'')) (\<lambda>gs.
        and_then (result_map normalize_group gs) (\<lambda>gs.
        let m = btree_insert ''proxy-groups'' (JArr gs) m
        in and_then (unwrap_object (json_index (JObj m) ''rule-providers'')) (\<lambda>pm.
           and_then (result_map (\<lambda>(k, p). and_then (normalize_provider E p) (\<lambda>p. Ok (k, p))) pm) (\<lambda>pm.
           let m = btree_insert ''rule-providers'' (JObj pm) m
           in and_then (unwrap_array (json_index (JObj m) ''rules'')) (\<lambda>rs.
              and_then (normalize_rules rs False) (\<lambda>rs.
              Ok (JObj (btree_insert ''rules'' (JArr rs) m))))))))))"

definition normalize_config :: "override_env \<Rightarrow> json \<Rightarrow> (json, override_error) result" where
  "normalize_config E v =
     and_then (lift_err AnyTlsRejected (validate_anytls_fields v)) (\<lambda>_.
     and_then (unwrap_object v) (\<lambda>m.
     and_then (try_fold typed_default top_defaults m) (\<lambda>m.
     and_then (try_fold (optional_string True) [''external-controller'', ''external-ui'', ''secret''] m) (\<lambda>m.
     and_then (result_map (\<lambda>key. integer_range (JObj m) key 65535)
       [''port'', ''socks-port'', ''mixed-port'', ''redir-port'', ''tproxy-port'']) (\<lambda>_.
     and_then (integer_range (JObj m) ''min-idle-session'' 4294967295) (\<lambda>_.
     normalize_tables E m))))))"

definition config_document :: "override_env \<Rightarrow> bytes \<Rightarrow> (json, override_error) result" where
  "config_document E source =
     and_then (override_document E source MAX_SOURCE_BYTES) (\<lambda>v.
     and_then (validate_collections v) (\<lambda>_.
     and_then (unwrap_object v) (\<lambda>m.
     and_then (canonical_plugin_options (split_source_groups m)) (\<lambda>m.
     normalize_config E (JObj m)))))"

section \<open>Capabilities\<close>

definition materializable_group :: "json \<Rightarrow> bool" where
  "materializable_group g \<longleftrightarrow> json_index g ''type'' = JStr ''select''
     \<and> as_str (json_index g ''name'') \<notin> {Some ''DIRECT'', Some ''REJECT''}"

definition ss_ciphers :: "string list" where
  "ss_ciphers = [''aes-128-gcm'', ''aes-256-gcm'', ''chacha20-ietf-poly1305'', ''chacha20-poly1305'']"

definition materializable_proxy :: "json \<Rightarrow> (unit, override_error) result" where
  "materializable_proxy p =
     and_then (unwrap_str (json_index p ''type'')) (\<lambda>kind.
     if kind \<notin> {''direct'', ''reject'', ''ss'', ''trojan'', ''anytls''}
        \<or> as_str (json_index p ''name'') \<in> {Some ''DIRECT'', Some ''REJECT''}
        \<or> json_get ''ws-opts'' p \<noteq> None \<or> json_get ''grpc-opts'' p \<noteq> None
        \<or> (case json_get ''network'' p of Some v \<Rightarrow> v \<noteq> JStr ''tcp'' | None \<Rightarrow> False)
     then Err (UnsupportedCapability ''proxy transport'')
     else if kind = ''ss'' \<and> (json_index p ''tls'' = JBool True
        \<or> (case json_get ''cipher'' p of
              Some v \<Rightarrow> (case as_str v of Some c \<Rightarrow> c \<notin> set ss_ciphers | None \<Rightarrow> True)
            | None \<Rightarrow> False))
     then Err (UnsupportedCapability ''Shadowsocks cipher/TLS'')
     else validate_plugin_metadata p)"

definition materializable :: "json \<Rightarrow> (unit, override_error) result" where
  "materializable v =
     (if json_index v ''mixed-port'' = JInt 0 \<and> (json_index v ''port'' \<noteq> JInt 0 \<or> json_index v ''socks-port'' \<noteq> JInt 0)
      then Err (UnsupportedCapability ''standalone listeners'')
      else and_then (unwrap_array (json_index v ''proxy-groups'')) (\<lambda>gs.
           if \<not> list_all materializable_group gs then Err (UnsupportedCapability ''proxy group'')
           else and_then (unwrap_array (json_index v ''proxies'')) (\<lambda>ps.
                and_then (result_map materializable_proxy ps) (\<lambda>_. Ok ()))))"

section \<open>Bounded text\<close>

text \<open>The characters of a text, each as its bytes.\<close>

fun utf8_chars :: "string \<Rightarrow> string list" where
  "utf8_chars [] = []"
| "utf8_chars (c # s) = (c # take (utf8_tail (code c)) s) # utf8_chars (drop (utf8_tail (code c)) s)"

definition scalar_value :: "string \<Rightarrow> nat" where
  "scalar_value ch = hd (chars ch)"

definition unsafe_unicode :: "nat \<Rightarrow> bool" where
  "unsafe_unicode c \<longleftrightarrow> c = 0x61c \<or> c = 0x200e \<or> c = 0x200f \<or> (0x2028 \<le> c \<and> c \<le> 0x202e)
     \<or> (0x2066 \<le> c \<and> c \<le> 0x2069) \<or> c = 0xfeff \<or> (0x80 \<le> c \<and> c \<le> 0x9f)"

definition write_char :: "nat \<Rightarrow> string \<Rightarrow> string \<Rightarrow> (string, override_error) result" where
  "write_char limit ch out =
     (if unsafe_unicode (scalar_value ch)
      then (if limit - length out < 6 then Err OutputExceeded else Ok (out @ [CHR 0x5C, CHR ''u''] @ hex_pad 4 (scalar_value ch)))
      else if limit - length out < length ch then Err OutputExceeded
      else Ok (out @ ch))"

definition write_str :: "nat \<Rightarrow> string \<Rightarrow> string \<Rightarrow> (string, override_error) result" where
  "write_str limit txt out = try_fold (write_char limit) (utf8_chars txt) out"

definition yaml_char :: "string \<Rightarrow> string" where
  "yaml_char ch =
     (let c = scalar_value ch
      in if c = 0x5C then [CHR 0x5C, CHR 0x5C]
         else if c = 0x22 then [CHR 0x5C, CHR 0x22]
         else if c = 0x0A then [CHR 0x5C, CHR ''n'']
         else if c = 0x0D then [CHR 0x5C, CHR ''r'']
         else if c = 0x09 then [CHR 0x5C, CHR ''t'']
         else if c \<le> 0x1F \<or> c = 0x7F then [CHR 0x5C, CHR ''x''] @ hex_pad 2 c
         else if unsafe_unicode c then [CHR 0x5C, CHR ''u''] @ hex_pad 4 c
         else ch)"

definition yaml_quote :: "string \<Rightarrow> string" where
  "yaml_quote txt = [CHR 0x22] @ concat (map yaml_char (utf8_chars txt)) @ [CHR 0x22]"

section \<open>Canonical text\<close>

datatype ConfigYamlKind = Effective | Public | Runtime

abbreviation emit :: "string \<Rightarrow> string \<Rightarrow> (string, override_error) result" where
  "emit txt \<equiv> write_str MAX_SOURCE_BYTES txt"

definition yaml_field :: "override_env \<Rightarrow> string \<Rightarrow> string \<Rightarrow> json \<Rightarrow> string \<Rightarrow> (string, override_error) result" where
  "yaml_field E prefix key v out =
     (let scalar = (case as_str v of Some s \<Rightarrow> yaml_quote s | None \<Rightarrow> oe_json_text E v)
      in emit (prefix @ key @ '': '' @ scalar @ [LF]) out)"

definition emit_keys :: "override_env \<Rightarrow> string \<Rightarrow> json \<Rightarrow> string list \<Rightarrow> string \<Rightarrow> (string, override_error) result" where
  "emit_keys E prefix v keys out = try_fold (\<lambda>key. yaml_field E prefix key (json_index v key)) keys out"

definition emit_present :: "override_env \<Rightarrow> string \<Rightarrow> json \<Rightarrow> string list \<Rightarrow> string \<Rightarrow> (string, override_error) result" where
  "emit_present E prefix v keys out =
     try_fold (\<lambda>key out. case json_get key v of Some x \<Rightarrow> yaml_field E prefix key x out | None \<Rightarrow> Ok out) keys out"

definition emit_provider :: "override_env \<Rightarrow> json \<Rightarrow> string \<Rightarrow> string \<Rightarrow> (string, override_error) result" where
  "emit_provider E v name out =
     and_then (emit (''  '' @ yaml_quote name @ '':'' @ [LF]) out)
       (emit_present E ''    '' (json_index (json_index v ''rule-providers'') name) [''type'', ''behavior'', ''url'', ''path'', ''interval''])"

definition emit_true :: "override_env \<Rightarrow> json \<Rightarrow> string list \<Rightarrow> string \<Rightarrow> (string, override_error) result" where
  "emit_true E p keys out =
     try_fold (\<lambda>key out. if json_index p key = JBool True then yaml_field E ''    '' key (json_index p key) out else Ok out) keys out"

definition emit_ws :: "override_env \<Rightarrow> json \<Rightarrow> string \<Rightarrow> (string, override_error) result" where
  "emit_ws E p out = (case json_get ''ws-opts'' p of
       None \<Rightarrow> Ok out
     | Some ws \<Rightarrow>
         let path = json_get ''path'' ws; host = Option.bind (json_get ''headers'' ws) (json_get ''Host'')
         in and_then (emit (if path = None \<and> host = None then ''    ws-opts: {}'' @ [LF] else ''    ws-opts:'' @ [LF]) out) (\<lambda>out.
            and_then (case path of Some x \<Rightarrow> yaml_field E ''      '' ''path'' x out | None \<Rightarrow> Ok out) (\<lambda>out.
            case host of
                None \<Rightarrow> Ok out
              | Some x \<Rightarrow> and_then (emit (''      headers:'' @ [LF]) out) (yaml_field E ''        '' ''Host'' x))))"

definition emit_plugin :: "override_env \<Rightarrow> json \<Rightarrow> string \<Rightarrow> (string, override_error) result" where
  "emit_plugin E p out =
     and_then (emit_present E ''    '' p [''plugin''] out) (\<lambda>out.
     case json_get ''plugin-opts'' p of
         None \<Rightarrow> Ok out
       | Some options \<Rightarrow> and_then (unwrap_object options) (\<lambda>os.
           and_then (emit (if os = [] then ''    plugin-opts: {}'' @ [LF] else ''    plugin-opts:'' @ [LF]) out)
             (emit_present E ''      '' options [''mode'', ''host''])))"

definition emit_proxy :: "override_env \<Rightarrow> ConfigYamlKind \<Rightarrow> json \<Rightarrow> string \<Rightarrow> (string, override_error) result" where
  "emit_proxy E kind p out =
     and_then (yaml_field E ''  - '' ''name'' (json_index p ''name'') out) (\<lambda>out.
     and_then (yaml_field E ''    '' ''type'' (json_index p ''type'') out) (\<lambda>out.
     and_then (if kind \<noteq> Effective \<or> as_str (json_index p ''type'') \<notin> {Some ''direct'', Some ''reject''}
               then emit_keys E ''    '' p [''server'', ''port''] out else Ok out) (\<lambda>out.
     and_then (emit_present E ''    '' p [''password'', ''cipher'', ''uuid''] out) (\<lambda>out.
     and_then (if json_index p ''alterId'' \<noteq> JInt 0 then yaml_field E ''    '' ''alterId'' (json_index p ''alterId'') out else Ok out) (\<lambda>out.
     and_then (emit_true E p [''tls'', ''skip-cert-verify''] out) (\<lambda>out.
     and_then (if kind = Effective then emit_true E p [''udp''] out else Ok out) (\<lambda>out.
     and_then (emit_present E ''    '' p [''sni'', ''network''] out) (\<lambda>out.
     and_then (if json_index p ''type'' = JStr ''anytls'' then emit_present E ''    '' p [''disable-reuse''] out else Ok out) (\<lambda>out.
     and_then (if json_get ''grpc-opts'' p \<noteq> None then emit (''    grpc-opts: {}'' @ [LF]) out else Ok out) (\<lambda>out.
     and_then (if kind \<noteq> Effective then emit_true E p [''udp''] out else Ok out) (\<lambda>out.
     and_then (emit_ws E p out) (emit_plugin E p))))))))))))"

definition emit_member :: "json \<Rightarrow> string \<Rightarrow> (string, override_error) result" where
  "emit_member mem out = and_then (unwrap_str mem) (\<lambda>s. emit (''      - '' @ yaml_quote s @ [LF]) out)"

definition emit_group :: "override_env \<Rightarrow> ConfigYamlKind \<Rightarrow> json \<Rightarrow> string \<Rightarrow> (string, override_error) result" where
  "emit_group E kind g out =
     and_then (yaml_field E ''  - '' ''name'' (json_index g ''name'') out) (\<lambda>out.
     and_then (yaml_field E ''    '' ''type'' (json_index g ''type'') out) (\<lambda>out.
     and_then (unwrap_array (json_index g ''proxies'')) (\<lambda>members.
     and_then (emit (if members = [] \<and> kind = Effective then ''    proxies: []'' @ [LF] else ''    proxies:'' @ [LF]) out) (\<lambda>out.
     and_then (try_fold emit_member members out)
       (emit_present E ''    '' g [''url'', ''interval'', ''tolerance'', ''lazy''])))))"

definition emit_rule :: "json \<Rightarrow> string \<Rightarrow> (string, override_error) result" where
  "emit_rule r out = and_then (unwrap_str r) (\<lambda>s. emit (''  - '' @ yaml_quote s @ [LF]) out)"

definition emit_providers ::
  "override_env \<Rightarrow> ConfigYamlKind \<Rightarrow> json \<Rightarrow> string list \<Rightarrow> string \<Rightarrow> (string, override_error) result" where
  "emit_providers E kind v providers out =
     (if kind = Runtime then Ok out
      else if providers = [] then (if kind = Effective then emit (''rule-providers: {}'' @ [LF]) out else Ok out)
      else and_then (emit (''rule-providers:'' @ [LF]) out) (try_fold (emit_provider E v) providers))"

definition canonical_config_yaml ::
  "override_env \<Rightarrow> json \<Rightarrow> string list \<Rightarrow> ConfigYamlKind \<Rightarrow> (string, override_error) result" where
  "canonical_config_yaml E v providers kind =
     and_then (emit_keys E [] v [''port'', ''socks-port'', ''mixed-port'', ''redir-port'', ''tproxy-port'', ''allow-lan''] []) (\<lambda>out.
     and_then (if kind \<noteq> Effective then emit_keys E [] v [''ipv6''] out else Ok out) (\<lambda>out.
     and_then (emit_keys E [] v [''bind-address'', ''mode'', ''log-level''] out) (\<lambda>out.
     and_then (if kind = Effective then emit_keys E [] v [''ipv6''] out else Ok out) (\<lambda>out.
     and_then (emit_present E [] v [''external-controller'', ''external-ui'', ''secret'', ''idle-session-check-interval'',
       ''idle-session-timeout'', ''min-idle-session''] out) (\<lambda>out.
     and_then (emit_providers E kind v providers out) (\<lambda>out.
     and_then (unwrap_array (json_index v ''proxies'')) (\<lambda>ps.
     and_then (emit (if ps = [] then ''proxies: []'' @ [LF] else ''proxies:'' @ [LF]) out) (\<lambda>out.
     and_then (try_fold (emit_proxy E kind) ps out) (\<lambda>out.
     and_then (unwrap_array (json_index v ''proxy-groups'')) (\<lambda>gs.
     and_then (emit (if gs = [] then ''proxy-groups: []'' @ [LF] else ''proxy-groups:'' @ [LF]) out) (\<lambda>out.
     and_then (try_fold (emit_group E kind) gs out) (\<lambda>out.
     and_then (emit (''rules:'' @ [LF]) out) (\<lambda>out.
     and_then (unwrap_array (json_index v ''rules'')) (\<lambda>rs. try_fold emit_rule rs out))))))))))))))"

definition provider_order :: "override_env \<Rightarrow> bytes \<Rightarrow> (string list, override_error) result" where
  "provider_order E source =
     and_then (ok_or DocumentNotUtf8 (from_utf8 source)) (\<lambda>txt.
     and_then (case (if is_ascii txt \<and> CHR 0x7F \<notin> set txt then oe_json_names E txt else None) of
         Some names \<Rightarrow> Ok names
       | None \<Rightarrow> ok_or NamesRejected (oe_yaml_names E txt)) (\<lambda>names.
     ok_or Panicked (zig_map_order names)))"

section \<open>Merging\<close>

definition patch_field_ok :: "string \<Rightarrow> json \<Rightarrow> bool" where
  "patch_field_ok key v =
     (if key \<in> {''port'', ''socks-port'', ''mixed-port''} then (case as_u64 v of Some p \<Rightarrow> p \<le> 65535 | None \<Rightarrow> False)
      else if key = ''allow-lan'' then is_boolean v
      else if key \<in> {''bind-address'', ''mode'', ''log-level''} then is_string v
      else if key = ''external-controller'' then v = JNull \<or> is_string v
      else if key \<in> {''proxies'', ''proxy-groups'', ''rules''} then is_array v
      else if key = ''rule-providers'' then is_object v
      else False)"

definition apply_field :: "string \<times> json \<Rightarrow> jmap \<Rightarrow> (jmap, override_error) result" where
  "apply_field = (\<lambda>(key, v) m.
     if \<not> patch_field_ok key v then Err PatchField
     else if key = ''external-controller'' \<and> v = JNull then Ok (btree_remove key m)
     else if key = ''proxies''
     then and_then (unwrap_array v) (\<lambda>items. Ok (btree_insert key (JArr (filter (\<lambda>item. \<not> is_group item) items)) m))
     else Ok (btree_insert key v m))"

text \<open>The document that a patch that is not empty gives, before it is written.\<close>

definition merged_document :: "override_env \<Rightarrow> bytes \<Rightarrow> json \<Rightarrow> bytes \<Rightarrow> (json \<times> json, override_error) result" where
  "merged_document E source base patch =
     and_then (unwrap_object base) (\<lambda>m.
     and_then (override_document E patch MAX_OUTPUT_BYTES) (\<lambda>p.
     and_then (validate_collections p) (\<lambda>_.
     and_then (unwrap_object p) (\<lambda>pm.
     and_then (try_fold apply_field pm (split_source_groups m)) (\<lambda>m.
     and_then (count_entries (JObj m) MAX_COLLECTION_ENTRIES) (\<lambda>_.
     and_then (validate_collections (JObj m)) (\<lambda>_.
     and_then (canonical_plugin_options m) (\<lambda>m.
     and_then (config_document E source) (\<lambda>_.
     and_then (normalize_config E (JObj m)) (\<lambda>v.
     and_then (materializable v) (\<lambda>_. Ok (v, p))))))))))))"

definition merge :: "override_env \<Rightarrow> bytes \<Rightarrow> bytes \<Rightarrow> (string, override_error) result" where
  "merge E source patch =
     and_then (override_document E source MAX_SOURCE_BYTES) (\<lambda>base.
     and_then (validate_collections base) (\<lambda>_.
     if MAX_OUTPUT_BYTES < length patch then Err PatchTooLong
     else if empty_patch patch then ok_or DocumentNotUtf8 (from_utf8 source)
     else and_then (merged_document E source base patch) (\<lambda>(v, p).
          and_then (provider_order E (if json_get ''rule-providers'' p \<noteq> None then patch else source)) (\<lambda>names.
          and_then (ok_or Panicked (zig_map_order names)) (\<lambda>providers.
          canonical_config_yaml E v providers Effective)))))"

definition materialize_source :: "override_env \<Rightarrow> bytes \<Rightarrow> bytes \<Rightarrow> (bytes, override_error) result" where
  "materialize_source E source patch =
     and_then (if empty_patch patch then and_then (config_document E source) materializable else Ok ()) (\<lambda>_.
     and_then (merge E source patch) (\<lambda>txt. Ok (str_bytes txt)))"

definition validate_patch :: "override_env \<Rightarrow> bytes \<Rightarrow> (unit, override_error) result" where
  "validate_patch E patch =
     (if MAX_OUTPUT_BYTES < length patch then Err PatchTooLong
      else if \<not> empty_patch patch then and_then (override_document E patch MAX_OUTPUT_BYTES) (\<lambda>_. Ok ())
      else Ok ())"

section \<open>Dumps\<close>

definition json_set :: "string \<Rightarrow> json \<Rightarrow> json \<Rightarrow> json" where
  "json_set key x v = (case v of
       JObj m \<Rightarrow> if map_of m key \<noteq> None then JObj (btree_insert key x m) else v
     | _ \<Rightarrow> v)"

definition redact_proxy :: "json \<Rightarrow> json" where
  "redact_proxy p = fold (\<lambda>key. json_set key (JStr ''******'')) [''password'', ''uuid'', ''sni''] p"

definition redact :: "json \<Rightarrow> json" where
  "redact v =
     (let v = json_set ''secret'' (JStr ''******'') v
      in case Option.bind (json_get ''proxies'' v) as_array of
             None \<Rightarrow> v
           | Some ps \<Rightarrow> json_set ''proxies'' (JArr (map redact_proxy ps)) v)"

definition dump_config_yaml :: "override_env \<Rightarrow> bytes \<Rightarrow> (string, override_error) result" where
  "dump_config_yaml E source =
     and_then (config_document E source) (\<lambda>v.
     and_then (provider_order E source) (\<lambda>providers.
     canonical_config_yaml E (redact v) providers Public))"

definition retain :: "(string \<Rightarrow> json \<Rightarrow> bool) \<Rightarrow> jmap \<Rightarrow> jmap" where
  "retain P m = filter (\<lambda>(k, v). P k v) m"

definition dump_keys :: "string list" where
  "dump_keys = [''port'', ''socks-port'', ''mixed-port'', ''allow-lan'', ''bind-address'', ''mode'', ''log-level'',
     ''external-controller'', ''rule-providers'', ''proxies'', ''proxy-groups'', ''rules'']"

definition dump_proxy_keys :: "string list" where
  "dump_proxy_keys = [''name'', ''type'', ''server'', ''port'', ''password'', ''cipher'', ''plugin'', ''plugin-opts'', ''uuid'',
     ''sni'', ''network'', ''grpc-opts'', ''ws-opts'']"

definition dump_group :: "json \<Rightarrow> (json, override_error) result" where
  "dump_group g = and_then (unwrap_object g) (\<lambda>m. Ok (JObj (retain (\<lambda>k _. k \<in> {''name'', ''type'', ''proxies''}) m)))"

definition dump_ws :: "json \<Rightarrow> json" where
  "dump_ws ws = (case ws of
       JObj m \<Rightarrow>
         let m = retain (\<lambda>k _. k \<in> {''path'', ''headers''}) m
         in (case Option.bind (map_of m ''headers'') as_object of
               None \<Rightarrow> JObj m
             | Some hs \<Rightarrow> JObj (btree_insert ''headers'' (JObj (retain (\<lambda>k _. k = ''Host'') hs)) m))
     | _ \<Rightarrow> ws)"

definition dump_proxy :: "json \<Rightarrow> (json, override_error) result" where
  "dump_proxy p = and_then (unwrap_object p) (\<lambda>m.
     let m = retain (\<lambda>k v. if k \<in> {''tls'', ''skip-cert-verify'', ''udp''} then v = JBool True else k \<in> set dump_proxy_keys) m;
         p = json_set ''grpc-opts'' (JObj []) (JObj m)
     in Ok (case json_get ''ws-opts'' p of None \<Rightarrow> p | Some ws \<Rightarrow> json_set ''ws-opts'' (dump_ws ws) p))"

definition dump_config_json :: "override_env \<Rightarrow> bytes \<Rightarrow> (string, override_error) result" where
  "dump_config_json E source =
     and_then (config_document E source) (\<lambda>v.
     and_then (unwrap_object (redact v)) (\<lambda>m.
     let m = retain (\<lambda>k _. k \<in> set dump_keys) m
     in and_then (unwrap_array (json_index (JObj m) ''proxy-groups'')) (\<lambda>gs.
        and_then (result_map dump_group gs) (\<lambda>gs.
        let m = btree_insert ''proxy-groups'' (JArr gs) m
        in and_then (unwrap_array (json_index (JObj m) ''proxies'')) (\<lambda>ps.
           and_then (result_map dump_proxy ps) (\<lambda>ps.
           write_str MAX_SOURCE_BYTES (oe_json_text E (JObj (btree_insert ''proxies'' (JArr ps) m))) []))))))"

definition is_rule_set :: "json \<Rightarrow> bool" where
  "is_rule_set r = (case as_str r of Some s \<Rightarrow> trim (hd (split_char (CHR '','') s)) = ''RULE-SET'' | None \<Rightarrow> False)"

definition dump_runtime_config_yaml :: "override_env \<Rightarrow> bytes \<Rightarrow> (string, override_error) result" where
  "dump_runtime_config_yaml E source =
     and_then (config_document E source) (\<lambda>v.
     if list_ex is_rule_set (array_field ''rules'' v) then Err UnexpandedRuleSet
     else and_then (unwrap_object v) (\<lambda>m. canonical_config_yaml E (JObj (btree_remove ''rule-providers'' m)) [] Runtime))"

section \<open>The projection for the runtime\<close>

definition dropped_keys :: "string list" where
  "dropped_keys = [''dns'', ''hosts'', ''sniffer'', ''profile'', ''experimental'', ''unified-delay'', ''clash-for-android'',
     ''redir-port'', ''tproxy-port'', ''ipv6'', ''external-ui'', ''idle-session-check-interval'', ''idle-session-timeout'',
     ''min-idle-session'']"

definition runtime_group :: "json \<Rightarrow> (json, override_error) result" where
  "runtime_group g = and_then (unwrap_object g) (\<lambda>m.
     Ok (JObj (fold btree_remove [''url'', ''interval'', ''tolerance'', ''lazy''] m)))"

definition unused_keys :: "string option \<Rightarrow> string list" where
  "unused_keys kind =
     (if kind \<in> {Some ''direct'', Some ''reject''}
      then [''password'', ''cipher'', ''uuid'', ''alterId'', ''tls'', ''sni'', ''skip-cert-verify'']
      else if kind = Some ''ss'' then [''uuid'', ''alterId'', ''sni'', ''skip-cert-verify'']
      else if kind = Some ''trojan'' then [''uuid'', ''alterId'', ''cipher'', ''tls'']
      else [])"

definition runtime_proxy :: "json \<Rightarrow> (json, override_error) result" where
  "runtime_proxy p = and_then (unwrap_object p) (\<lambda>m.
     let m = fold (\<lambda>key m. if map_of m key = Some (JBool False) then btree_remove key m else m) [''tls'', ''skip-cert-verify''] m;
         m = fold btree_remove (unused_keys (Option.bind (map_of m ''type'') as_str)) m
     in Ok (JObj (if map_of m ''alterId'' = Some (JInt 0) then btree_remove ''alterId'' m else m)))"

definition runtime_document :: "override_env \<Rightarrow> bytes \<Rightarrow> (json, override_error) result" where
  "runtime_document E source =
     and_then (config_document E source) (\<lambda>v.
     and_then (unwrap_object v) (\<lambda>m.
     let m = fold btree_remove dropped_keys m
     in and_then (ok_or Panicked (map_of m ''allow-lan'')) (\<lambda>lan.
        let m = (if lan = JBool False then btree_insert ''bind-address'' (JStr ''127.0.0.1'') m else m)
        in and_then (ok_or Panicked (Option.bind (map_of m ''proxy-groups'') as_array)) (\<lambda>gs.
           and_then (result_map runtime_group gs) (\<lambda>gs.
           let m = btree_insert ''proxy-groups'' (JArr gs) m
           in and_then (ok_or Panicked (Option.bind (map_of m ''proxies'') as_array)) (\<lambda>ps.
              and_then (result_map runtime_proxy ps) (\<lambda>ps.
              Ok (JObj (btree_insert ''proxies'' (JArr ps) m)))))))))"

definition runtime_source :: "override_env \<Rightarrow> bytes \<Rightarrow> (string, override_error) result" where
  "runtime_source E source = and_then (runtime_document E source) (\<lambda>v. Ok (oe_json_text E v))"

end
