(* ===== verification/Override_Facts.thy ===== *)
theory Override_Facts
  imports Override
begin

text \<open>
  Facts about configuration overrides: no unwrap of \<open>src/src/override_script.rs\<close> fails, a merge replaces exactly the fields of the
  patch, and the public dumps hide credentials.
\<close>

section \<open>No unwrap fails\<close>

text \<open>A result that is not a panic.\<close>

definition sane :: "('a, override_error) result \<Rightarrow> bool" where
  "sane r \<longleftrightarrow> r \<noteq> Err Panicked"

named_theorems sane_intros \<open>results that are not panics\<close>

lemma sane_simps [simp]: "sane (Ok x)" "sane (Err e) \<longleftrightarrow> e \<noteq> Panicked" "sane (ok_or e o') \<longleftrightarrow> e \<noteq> Panicked \<or> o' \<noteq> None"
  by (auto simp: sane_def ok_or_def split: option.splits)

lemma sane_and_then [sane_intros]: "sane r \<Longrightarrow> (\<And>x. r = Ok x \<Longrightarrow> sane (f x)) \<Longrightarrow> sane (and_then r f)"
  by (cases r) (auto simp: sane_def)

lemma sane_try_fold:
  assumes "P s" "\<And>x s. x \<in> set xs \<Longrightarrow> P s \<Longrightarrow> sane (f x s)" "\<And>x s s'. x \<in> set xs \<Longrightarrow> P s \<Longrightarrow> f x s = Ok s' \<Longrightarrow> P s'"
  shows "sane (try_fold f xs s)"
  using assms
proof (induction xs arbitrary: s)
  case (Cons x xs)
  have "sane (try_fold f xs s')" if "f x s = Ok s'" for s'
    by (rule Cons.IH) (use Cons.prems that in \<open>auto intro: Cons.prems(3)\<close>)
  then show ?case using Cons.prems by (auto intro!: sane_and_then)
qed simp

lemma sane_try_fold' [sane_intros]: "(\<And>x s. x \<in> set xs \<Longrightarrow> sane (f x s)) \<Longrightarrow> sane (try_fold f xs s)"
  by (rule sane_try_fold [where P = "\<lambda>_. True"]) auto

lemma sane_result_map [sane_intros]: "(\<And>x. x \<in> set xs \<Longrightarrow> sane (f x)) \<Longrightarrow> sane (result_map f xs)"
  by (induction xs) (auto intro!: sane_and_then)

lemma sane_lift_err [sane_intros]: "(\<And>e. g e \<noteq> Panicked) \<Longrightarrow> sane (lift_err g r)"
  by (cases r) auto

lemma sane_count_entries [sane_intros]: "sane (count_entries v r)"
proof (induction v r rule: count_entries.induct)
  case (1 v r)
  then show ?case by (subst count_entries.simps) (auto intro!: sane_intros)
qed

lemma sane_document [sane_intros]: "sane (override_document E bs n)"
  by (auto simp: override_document_def intro!: sane_intros)

lemma sane_validate_collections [sane_intros]: "sane (validate_collections v)"
proof -
  have "sane (check_item f x)" for f x
    by (auto simp: check_item_def check_members_def intro!: sane_intros split: option.splits)
  then have "sane (check_field v fl)" for fl
    by (cases fl) (auto simp: check_field_def intro!: sane_intros split: option.splits)
  moreover have "sane (check_providers v)" by (auto simp: check_providers_def intro!: sane_intros split: option.splits)
  ultimately show ?thesis by (auto simp: validate_collections_def Let_def intro!: sane_intros)
qed

lemma sane_optional_string [sane_intros]: "sane (optional_string b k m)"
  by (auto simp: optional_string_def split: option.splits)

lemma sane_typed_default [sane_intros]: "sane (typed_default kd m)"
  by (cases kd) (auto simp: typed_default_def split: option.splits)

lemma sane_integer_range [sane_intros]: "sane (integer_range v k n)"
  by (auto simp: integer_range_def)

lemma sane_canonical_plugin_options [sane_intros]: "sane (canonical_plugin_options m)"
proof -
  have "sane (canonical_options p)" for p
    by (auto simp: canonical_options_def Let_def intro!: sane_intros split: option.splits)
  then show ?thesis by (auto simp: canonical_plugin_options_def intro!: sane_intros split: option.splits)
qed

lemma sane_write_str [sane_intros]: "sane (write_str n t out)"
  by (auto simp: write_str_def write_char_def intro!: sane_intros)

lemma sane_emit [sane_intros]:
  "sane (yaml_field E p k v out)" "sane (emit_keys E p v ks out)" "sane (emit_present E p v ks out)"
  "sane (emit_true E v ks out)" "sane (emit_ws E v out)" "sane (emit_provider E v n out)" "sane (emit_providers E kd v ns out)"
proof -
  show y: "sane (yaml_field E p k v out)" for p k v out by (auto simp: yaml_field_def Let_def intro!: sane_intros)
  show "sane (emit_keys E p v ks out)" by (auto simp: emit_keys_def intro!: sane_intros y)
  show e: "sane (emit_present E p v ks out)" for p v ks out by (auto simp: emit_present_def intro!: sane_intros y split: option.splits)
  show "sane (emit_true E v ks out)" by (auto simp: emit_true_def intro!: sane_intros y)
  show "sane (emit_ws E v out)" by (auto simp: emit_ws_def Let_def intro!: sane_intros y split: option.splits)
  show n: "sane (emit_provider E v n out)" for n out by (auto simp: emit_provider_def intro!: sane_intros e)
  show "sane (emit_providers E kd v ns out)" by (auto simp: emit_providers_def intro!: sane_intros n)
qed

section \<open>Documents stay ordered\<close>

lemma json_ok_JObj: "json_ok (JObj m) \<longleftrightarrow> btree_ok m \<and> ''<<'' \<notin> fst ` set m \<and> (\<forall>kv\<in>set m. json_ok (snd kv))"
  by (auto simp: btree_ok_def list_all_iff)

lemma json_ok_JArr: "json_ok (JArr vs) \<longleftrightarrow> (\<forall>v\<in>set vs. json_ok v)"
  by (auto simp: list_all_iff)

lemma json_ok_insert: "json_ok (JObj m) \<Longrightarrow> json_ok x \<Longrightarrow> k \<noteq> ''<<'' \<Longrightarrow> json_ok (JObj (btree_insert k x m))"
  using set_btree_insert [of k x m] by (auto simp: json_ok_JObj btree_ok_insert simp del: json_ok.simps)

lemma json_ok_remove: "json_ok (JObj m) \<Longrightarrow> json_ok (JObj (btree_remove k m))"
  using set_btree_remove [of k m] by (auto simp: json_ok_JObj btree_ok_remove simp del: json_ok.simps)

lemma json_ok_lookup: "json_ok (JObj m) \<Longrightarrow> map_of m k = Some x \<Longrightarrow> json_ok x"
  by (auto simp: json_ok_JObj dest!: map_of_SomeD simp del: json_ok.simps)

lemma json_get_JObj [simp]: "json_get k (JObj m) = map_of m k"
  by (simp add: json_get_def)

lemma json_index_JObj [simp]: "json_index (JObj m) k = (case map_of m k of Some x \<Rightarrow> x | None \<Rightarrow> JNull)"
  by (simp add: json_index_def)

lemma as_object_Some_iff: "as_object v = Some m \<longleftrightarrow> v = JObj m" by (cases v) auto
lemma as_array_Some_iff: "as_array v = Some vs \<longleftrightarrow> v = JArr vs" by (cases v) auto
lemma as_str_Some_iff: "as_str v = Some s \<longleftrightarrow> v = JStr s" by (cases v) auto

lemma unwrap_Ok [result_simps]:
  "unwrap_object v = Ok m \<longleftrightarrow> v = JObj m" "unwrap_array v = Ok vs \<longleftrightarrow> v = JArr vs" "unwrap_str v = Ok s \<longleftrightarrow> v = JStr s"
  by (simp_all add: unwrap_object_def unwrap_array_def unwrap_str_def ok_or_Ok_iff as_object_Some_iff as_array_Some_iff as_str_Some_iff)

lemma unwrap_simps [simp]: "unwrap_object (JObj m) = Ok m" "unwrap_array (JArr vs) = Ok vs" "unwrap_str (JStr s) = Ok s"
  by (simp_all add: unwrap_object_def unwrap_array_def unwrap_str_def)

lemma map_of_remove_ok: "json_ok (JObj m) \<Longrightarrow> map_of (btree_remove k m) = (map_of m)(k := None)"
  by (simp add: json_ok_JObj map_of_btree_remove del: json_ok.simps)

declare json_ok.simps(6,7) [simp del]
declare map_of_btree_insert [simp]

text \<open>What a step of the normal form does to one key.\<close>

lemma typed_default_lookup:
  "typed_default (k, d) m = Ok m' \<Longrightarrow>
     map_of m' = (map_of m)(k := Some (case map_of m k of Some x \<Rightarrow> x | None \<Rightarrow> d)) \<and> same_type d (the (map_of m' k))"
  by (auto simp: typed_default_def fun_eq_iff split: option.splits if_splits)

lemma typed_default_ok: "typed_default (k, d) m = Ok m' \<Longrightarrow> json_ok (JObj m) \<Longrightarrow> json_ok d \<Longrightarrow> k \<noteq> ''<<'' \<Longrightarrow> json_ok (JObj m')"
  by (auto simp: typed_default_def json_ok_insert split: option.splits if_splits)

lemma optional_string_lookup:
  "optional_string b k m = Ok m' \<Longrightarrow> json_ok (JObj m) \<Longrightarrow>
     map_of m' = (map_of m)(k := (if b \<and> map_of m k = Some JNull then None else map_of m k))"
  by (auto simp: optional_string_def map_of_remove_ok fun_eq_iff split: option.splits if_splits)

lemma optional_string_ok: "optional_string b k m = Ok m' \<Longrightarrow> json_ok (JObj m) \<Longrightarrow> json_ok (JObj m')"
  by (auto simp: optional_string_def json_ok_remove split: option.splits if_splits)

lemma optional_string_False: "optional_string False k m = Ok m' \<Longrightarrow> m' = m"
  by (auto simp: optional_string_def split: option.splits if_splits)

lemma typed_defaults_lookup:
  assumes "try_fold typed_default ds m = Ok m'" "distinct (map fst ds)" "json_ok (JObj m)" "\<forall>kd\<in>set ds. json_ok (snd kd) \<and> fst kd \<noteq> ''<<''"
  shows "json_ok (JObj m') \<and> (\<forall>k. map_of m' k = (case map_of ds k of None \<Rightarrow> map_of m k
            | Some d \<Rightarrow> Some (case map_of m k of Some x \<Rightarrow> x | None \<Rightarrow> d)))
       \<and> (\<forall>kd\<in>set ds. same_type (snd kd) (the (map_of m' (fst kd))))"
  using assms
proof (induction ds arbitrary: m)
  case (Cons kd ds)
  obtain k d where kd: "kd = (k, d)" by (cases kd)
  obtain m1 where m1: "typed_default (k, d) m = Ok m1" "try_fold typed_default ds m1 = Ok m'" using Cons.prems(1) kd by (auto elim: and_thenE)
  note l = typed_default_lookup [OF m1(1)]
  have ok: "json_ok (JObj m1)" using typed_default_ok [OF m1(1)] Cons.prems kd by auto
  have k: "map_of ds k = None" using Cons.prems(2) kd by (auto simp: map_of_eq_None_iff)
  have IH: "json_ok (JObj m')"
      "\<forall>j. map_of m' j = (case map_of ds j of None \<Rightarrow> map_of m1 j | Some d \<Rightarrow> Some (case map_of m1 j of Some x \<Rightarrow> x | None \<Rightarrow> d))"
      "\<forall>kd\<in>set ds. same_type (snd kd) (the (map_of m' (fst kd)))"
    using Cons.IH [OF m1(2) _ ok] Cons.prems(2,4) by auto
  have e: "map_of m' k = map_of m1 k" using IH(2) k by simp
  have "same_type d (the (map_of m' k))" unfolding e using l by blast
  moreover have "map_of m' j = (case map_of ((k, d) # ds) j of None \<Rightarrow> map_of m j
      | Some d \<Rightarrow> Some (case map_of m j of Some x \<Rightarrow> x | None \<Rightarrow> d))" for j
    using IH(2) l k by (auto split: option.splits)
  ultimately show ?case using IH kd by auto
qed simp

lemma optional_strings_lookup:
  assumes "try_fold (optional_string True) ks m = Ok m'" "json_ok (JObj m)"
  shows "json_ok (JObj m') \<and> (\<forall>k. map_of m' k = (if k \<in> set ks \<and> map_of m k = Some JNull then None else map_of m k))"
  using assms
proof (induction ks arbitrary: m)
  case (Cons k ks)
  obtain m1 where m1: "optional_string True k m = Ok m1" "try_fold (optional_string True) ks m1 = Ok m'" using Cons.prems(1) by (auto elim: and_thenE)
  show ?case
    using Cons.IH [OF m1(2) optional_string_ok [OF m1(1) Cons.prems(2)]] optional_string_lookup [OF m1(1) Cons.prems(2)] by auto
qed simp

lemma optional_strings_False: "try_fold (optional_string False) ks m = Ok m' \<Longrightarrow> m' = m"
  by (induction ks) (auto elim!: and_thenE dest!: optional_string_False)

section \<open>Collections\<close>

definition item_ok :: "json \<Rightarrow> bool" where
  "item_ok item \<longleftrightarrow> (\<exists>m n t. item = JObj m \<and> map_of m ''name'' = Some (JStr n) \<and> map_of m ''type'' = Some (JStr t)
     \<and> (\<forall>x. map_of m ''proxies'' = Some x \<longrightarrow> (\<exists>ms. x = JArr ms \<and> list_all is_string ms)))"

definition collections_ok :: "jmap \<Rightarrow> bool" where
  "collections_ok m \<longleftrightarrow>
     (\<forall>x. map_of m ''proxies'' = Some x \<longrightarrow> (\<exists>vs. x = JArr vs \<and> (\<forall>v\<in>set vs. item_ok v)))
     \<and> (\<forall>x. map_of m ''proxy-groups'' = Some x \<longrightarrow> (\<exists>vs. x = JArr vs \<and> (\<forall>v\<in>set vs. item_ok v)))
     \<and> (\<forall>x. map_of m ''rules'' = Some x \<longrightarrow> (\<exists>vs. x = JArr vs \<and> list_all is_string vs))
     \<and> (\<forall>x. map_of m ''rule-providers'' = Some x \<longrightarrow> (\<exists>pm. x = JObj pm \<and> (\<forall>kv\<in>set pm. is_object (snd kv))))"

lemma check_item_ok: "check_item f v = Ok u \<Longrightarrow> f \<noteq> ''rules'' \<Longrightarrow> item_ok v"
  by (cases v)
     (auto simp: check_item_def check_members_def item_ok_def result_simps as_str_Some_iff as_array_Some_iff split: if_splits option.splits)

lemma check_field_ok:
  assumes "check_field (JObj m) (f, n) = Ok u" "map_of m f = Some x"
  shows "\<exists>vs. x = JArr vs \<and> (\<forall>v\<in>set vs. check_item f v = Ok ())"
  using assms by (auto simp: check_field_def result_simps as_array_Some_iff list_all2_conv_all_nth in_set_conv_nth split: if_splits)

lemma validate_collections_ok:
  assumes "validate_collections (JObj m) = Ok u"
  shows "collections_ok m"
proof -
  from assms have c: "\<exists>u. check_field (JObj m) (f, n) = Ok u" if "(f, n) \<in> {(''proxies'', 5120), (''proxy-groups'', 1024), (''rules'', 262144)}" for f n
    using that by (auto simp: validate_collections_def result_simps list_all2_Cons1)
  have i: "\<exists>vs. x = JArr vs \<and> (\<forall>v\<in>set vs. item_ok v)" if "f \<in> {''proxies'', ''proxy-groups''}" "map_of m f = Some x" for f x
    using c [of f] check_field_ok [OF _ that(2)] check_item_ok that(1) by fastforce
  have "\<exists>vs. x = JArr vs \<and> list_all is_string vs" if "map_of m ''rules'' = Some x" for x
    using c [of "''rules''" 262144] check_field_ok [OF _ that] by (fastforce simp: list_all_iff check_item_def split: if_splits)
  moreover have "\<exists>pm. x = JObj pm \<and> (\<forall>kv\<in>set pm. is_object (snd kv))" if "map_of m ''rule-providers'' = Some x" for x
    using assms that
    by (auto simp: validate_collections_def Let_def check_providers_def result_simps as_object_Some_iff list_all_iff split: if_splits elim!: and_thenE) fastforce
  ultimately show ?thesis using i [of "''proxies''"] i [of "''proxy-groups''"] by (simp add: collections_ok_def)
qed

lemma item_ok_remove: "json_ok (JObj m) \<Longrightarrow> item_ok (JObj m) \<Longrightarrow> k \<notin> {''name'', ''type''} \<Longrightarrow> item_ok (JObj (btree_remove k m))"
  by (auto simp: item_ok_def map_of_remove_ok)

lemma item_ok_insert: "item_ok (JObj m) \<Longrightarrow> k \<notin> {''name'', ''type'', ''proxies''} \<Longrightarrow> item_ok (JObj (btree_insert k x m))"
  by (auto simp: item_ok_def)

lemma canonical_options_ok:
  assumes "canonical_options p = Ok p'" "json_ok p" "item_ok p"
  shows "json_ok p' \<and> item_ok p'"
proof -
  obtain m where m: "p = JObj m" using assms(1) by (auto simp: canonical_options_def result_simps as_object_Some_iff)
  then show ?thesis
    using assms json_ok_lookup [of m "''plugin_opts''"]
    by (auto simp: canonical_options_def Let_def result_simps as_object_Some_iff json_ok_insert json_ok_remove item_ok_insert item_ok_remove
        split: option.splits if_splits)
qed

definition canon_entry :: "string \<Rightarrow> json option \<Rightarrow> json option \<Rightarrow> bool" where
  "canon_entry k old new \<longleftrightarrow> (if k = ''proxies''
     then (case old of Some (JArr vs) \<Rightarrow> (\<exists>ws. result_map canonical_options vs = Ok ws \<and> new = Some (JArr ws)) | _ \<Rightarrow> new = old)
     else new = old)"

lemma canonical_plugin_options_lookup:
  "canonical_plugin_options m = Ok m' \<Longrightarrow> canon_entry k (map_of m k) (map_of m' k)"
  by (auto simp: canonical_plugin_options_def canon_entry_def result_simps as_array_Some_iff split: option.splits json.splits)

lemma canonical_plugin_options_ok:
  assumes "canonical_plugin_options m = Ok m'" "json_ok (JObj m)" "collections_ok m"
  shows "json_ok (JObj m') \<and> collections_ok m'"
proof (cases "Option.bind (map_of m ''proxies'') as_array")
  case None
  then show ?thesis using assms by (simp add: canonical_plugin_options_def)
next
  case (Some vs)
  then obtain ws where ws: "list_all2 (\<lambda>v w. canonical_options v = Ok w) vs ws" "m' = btree_insert ''proxies'' (JArr ws) m"
    using assms(1) by (auto simp: canonical_plugin_options_def result_simps)
  have p: "map_of m ''proxies'' = Some (JArr vs)" using Some by (auto simp: as_array_Some_iff bind_eq_Some_conv)
  then have "\<forall>v\<in>set vs. json_ok v \<and> item_ok v"
    using assms(2,3) json_ok_lookup [OF assms(2) p] by (auto simp: collections_ok_def json_ok_JArr)
  then have "\<forall>w\<in>set ws. json_ok w \<and> item_ok w"
    using ws(1) canonical_options_ok by (auto simp: list_all2_conv_all_nth in_set_conv_nth) (metis nth_mem)+
  then show ?thesis using assms(2,3) ws(2) by (auto simp: collections_ok_def json_ok_insert json_ok_JArr)
qed

lemma split_source_groups_ok:
  assumes "json_ok (JObj m)" "collections_ok m"
  shows "json_ok (JObj (split_source_groups m)) \<and> collections_ok (split_source_groups m)"
proof (cases "Option.bind (map_of m ''proxies'') as_array")
  case None
  then show ?thesis using assms by (simp add: split_source_groups_def)
next
  case (Some vs)
  have p: "map_of m ''proxies'' = Some (JArr vs)" using Some by (auto simp: as_array_Some_iff bind_eq_Some_conv)
  then have vs: "\<forall>v\<in>set vs. json_ok v \<and> item_ok v"
    using assms json_ok_lookup [OF assms(1) p] by (auto simp: collections_ok_def json_ok_JArr)
  let ?m = "btree_insert ''proxies'' (JArr (filter (\<lambda>v. \<not> is_group v) vs)) m"
  have m: "json_ok (JObj ?m)" using assms(1) vs by (auto simp: json_ok_insert json_ok_JArr)
  define es where "es = (case Option.bind (map_of ?m ''proxy-groups'') as_array of Some vs \<Rightarrow> vs | None \<Rightarrow> [])"
  have es: "\<forall>v\<in>set es. json_ok v \<and> item_ok v"
    using assms json_ok_lookup [OF assms(1), of "''proxy-groups''"]
    by (cases "map_of m ''proxy-groups''") (auto simp: es_def collections_ok_def json_ok_JArr)
  have sg: "split_source_groups m = (if filter is_group vs = [] then ?m
      else btree_insert ''proxy-groups'' (JArr (filter is_group vs @ es)) (btree_remove ''proxy-groups'' ?m))"
    using Some by (simp add: split_source_groups_def Let_def es_def)
  have "json_ok (JObj (split_source_groups m))"
    using m vs es unfolding sg by (auto intro!: json_ok_insert json_ok_remove) (auto simp: json_ok_JArr)
  moreover have "collections_ok (split_source_groups m)"
    using vs es assms(2) map_of_remove_ok [OF m] unfolding sg by (auto simp: collections_ok_def)
  ultimately show ?thesis by blast
qed

section \<open>The normal form\<close>

definition normal_proxy :: "json \<Rightarrow> bool" where
  "normal_proxy p \<longleftrightarrow> (\<exists>m t. p = JObj m \<and> map_of m ''type'' = Some (JStr t) \<and> (\<forall>x. map_of m ''plugin-opts'' = Some x \<longrightarrow> is_object x))"

definition normal_group :: "json \<Rightarrow> bool" where
  "normal_group g \<longleftrightarrow> (\<exists>m ms. g = JObj m \<and> map_of m ''proxies'' = Some (JArr ms) \<and> list_all is_string ms)"

definition normal_doc :: "jmap \<Rightarrow> bool" where
  "normal_doc m \<longleftrightarrow> json_ok (JObj m)
     \<and> (\<exists>ps. map_of m ''proxies'' = Some (JArr ps) \<and> (\<forall>p\<in>set ps. normal_proxy p))
     \<and> (\<exists>gs. map_of m ''proxy-groups'' = Some (JArr gs) \<and> (\<forall>g\<in>set gs. normal_group g))
     \<and> (\<exists>rs. map_of m ''rules'' = Some (JArr rs) \<and> list_all is_string rs)
     \<and> (\<exists>b. map_of m ''allow-lan'' = Some (JBool b))"

lemma json_get_mode_object: "Option.bind (json_get k v) f = Some x \<Longrightarrow> is_object v"
  by (cases v) (auto simp: json_get_def)

lemma validate_plugin_metadata_ok:
  "validate_plugin_metadata (JObj m) = Ok u \<Longrightarrow> map_of m ''plugin-opts'' = Some x \<Longrightarrow> is_object x"
  by (auto simp: validate_plugin_metadata_def result_simps split: option.splits if_splits dest!: json_get_mode_object)

lemma sane_validate_plugin_metadata: "map_of m ''type'' = Some (JStr t) \<Longrightarrow> sane (validate_plugin_metadata (JObj m))"
  by (auto simp: validate_plugin_metadata_def intro!: sane_intros split: option.splits)

lemma proxy_server_ok:
  "proxy_server kind m = Ok m' \<Longrightarrow> json_ok (JObj m) \<Longrightarrow> json_ok (JObj m') \<and> (\<forall>k. k \<notin> {''server'', ''port''} \<longrightarrow> map_of m' k = map_of m k)"
  by (auto simp: proxy_server_def json_ok_insert split: if_splits)

lemma sane_proxy_server [sane_intros]: "sane (proxy_server kind m)"
  by (auto simp: proxy_server_def)

lemma sane_check_transport [sane_intros]: "sane (check_transport m)"
  by (auto simp: check_transport_def intro!: sane_intros split: option.splits)

lemma proxy_defaults:
  assumes "try_fold typed_default [(''tls'', JBool False), (''skip-cert-verify'', JBool False), (''udp'', JBool False)] m = Ok m1"
    "typed_default (''alterId'', JInt 0) m1 = Ok m2" "json_ok (JObj m)"
  shows "json_ok (JObj m2) \<and> (\<forall>k. k \<notin> {''tls'', ''skip-cert-verify'', ''udp'', ''alterId''} \<longrightarrow> map_of m2 k = map_of m k)"
  using typed_defaults_lookup [OF assms(1)] typed_default_lookup [OF assms(2)] typed_default_ok [OF assms(2)] assms(3)
  by auto

lemma normalize_proxy_ok:
  assumes "normalize_proxy p = Ok p'" "json_ok p"
  shows "json_ok p' \<and> normal_proxy p'"
proof -
  from assms(1) obtain m kind m1 m2 m3 where p: "p = JObj m" "map_of m ''type'' = Some (JStr kind)" "proxy_server kind m = Ok m1"
      "try_fold typed_default [(''tls'', JBool False), (''skip-cert-verify'', JBool False), (''udp'', JBool False)] m1 = Ok m2"
      "typed_default (''alterId'', JInt 0) m2 = Ok m3" "validate_plugin_metadata (JObj m3) = Ok ()" "p' = JObj m3"
    by (auto simp: normalize_proxy_def result_simps as_str_Some_iff bind_eq_Some_conv split: if_splits elim!: and_thenE dest!: optional_strings_False
        simp del: try_fold.simps)
  have "json_ok (JObj m1)" "map_of m1 ''type'' = Some (JStr kind)" using proxy_server_ok [OF p(3)] assms(2) p(1,2) by auto
  moreover have "json_ok (JObj m3)" "map_of m3 ''type'' = map_of m1 ''type''" using proxy_defaults [OF p(4,5)] calculation(1) by auto
  ultimately show ?thesis using p(7) validate_plugin_metadata_ok [OF p(6)] by (auto simp: normal_proxy_def)
qed

lemma sane_normalize_proxy:
  assumes "item_ok p" "json_ok p"
  shows "sane (normalize_proxy p)"
proof -
  obtain m t where p: "p = JObj m" "map_of m ''type'' = Some (JStr t)" using assms(1) by (auto simp: item_ok_def)
  have v: "sane (validate_plugin_metadata (JObj m3))"
    if "proxy_server t m = Ok m1"
      "try_fold typed_default [(''tls'', JBool False), (''skip-cert-verify'', JBool False), (''udp'', JBool False)] m1 = Ok m2"
      "typed_default (''alterId'', JInt 0) m2 = Ok m3" for m1 m2 m3
    using proxy_server_ok [OF that(1)] proxy_defaults [OF that(2,3)] assms(2) p by (intro sane_validate_plugin_metadata [of _ t]) auto
  show ?thesis using p
    by (auto simp: normalize_proxy_def intro!: sane_intros intro: v dest!: optional_strings_False simp del: try_fold.simps)
qed

lemma normalize_group_ok:
  assumes "normalize_group g = Ok g'" "json_ok g" "item_ok g"
  shows "json_ok g' \<and> normal_group g'"
proof -
  let ?ds = "[(''proxies'', JArr []), (''interval'', JInt 300), (''tolerance'', JInt 100), (''lazy'', JBool True)]"
  from assms(1) obtain m m' where g: "g = JObj m" "try_fold typed_default ?ds m = Ok m'" "g' = JObj m'"
    by (auto simp: normalize_group_def result_simps split: if_splits elim!: and_thenE dest!: optional_string_False)
  have l: "json_ok (JObj m')" "map_of m' ''proxies'' = Some (case map_of m ''proxies'' of Some x \<Rightarrow> x | None \<Rightarrow> JArr [])"
    using typed_defaults_lookup [OF g(2)] assms(2) g(1) by (auto simp: json_ok_JArr)
  then show ?thesis using g assms(3) by (auto simp: normal_group_def item_ok_def split: option.splits)
qed

lemma sane_normalize_group: "item_ok g \<Longrightarrow> sane (normalize_group g)"
  by (auto simp: normalize_group_def item_ok_def intro!: sane_intros)

lemma check_provider_Ok: "check_provider E p = Ok p' \<Longrightarrow> p' = p"
  by (auto simp: check_provider_def split: if_splits option.splits elim!: and_thenE)

lemma sane_check_provider [sane_intros]: "sane (check_provider E p)"
  by (auto simp: check_provider_def intro!: sane_intros split: option.splits)

lemma normalize_provider_ok:
  assumes "normalize_provider E p = Ok p'" "json_ok p"
  shows "json_ok p'"
proof -
  obtain m where m: "p = JObj m" using assms(1) by (auto simp: normalize_provider_def result_simps)
  obtain m1 m2 where "optional_string True ''url'' m = Ok m1" "typed_default (''interval'', JInt 86400) m1 = Ok m2" "p' = JObj m2"
    using assms(1) unfolding m normalize_provider_def by (auto dest!: check_provider_Ok split: if_splits elim!: and_thenE)
  then show ?thesis using optional_string_ok typed_default_ok assms(2) m by fastforce
qed

lemma sane_normalize_provider: "is_object p \<Longrightarrow> sane (normalize_provider E p)"
  by (cases p) (auto simp: normalize_provider_def intro!: sane_intros)

lemma sane_normalize_rules: "list_all is_string rs \<Longrightarrow> sane (normalize_rules rs b)"
proof (induction rs arbitrary: b)
  case (Cons r rs)
  then obtain s where s: "r = JStr s" by (auto simp: as_str_Some_iff)
  have "sane (normalize_rule s)" by (auto simp: normalize_rule_def Let_def)
  then show ?case using Cons s by (auto intro!: sane_intros)
qed simp

lemma normalize_rules_ok: "normalize_rules rs b = Ok rs' \<Longrightarrow> list_all is_string rs' \<and> json_ok (JArr rs')"
  by (induction rs arbitrary: b rs') (auto simp: result_simps json_ok_JArr split: if_splits elim!: and_thenE)

text \<open>What the normal form does to the value of one key.\<close>

definition normal_entry :: "override_env \<Rightarrow> string \<Rightarrow> json option \<Rightarrow> json option \<Rightarrow> bool" where
  "normal_entry E k old new \<longleftrightarrow>
     (if k = ''proxies'' then \<exists>vs ws. (case old of Some x \<Rightarrow> x | None \<Rightarrow> JArr []) = JArr vs \<and> result_map normalize_proxy vs = Ok ws \<and> new = Some (JArr ws)
      else if k = ''proxy-groups'' then \<exists>vs ws. (case old of Some x \<Rightarrow> x | None \<Rightarrow> JArr []) = JArr vs \<and> result_map normalize_group vs = Ok ws \<and> new = Some (JArr ws)
      else if k = ''rule-providers'' then \<exists>pm qm. (case old of Some x \<Rightarrow> x | None \<Rightarrow> JObj []) = JObj pm
        \<and> result_map (\<lambda>(k, p). and_then (normalize_provider E p) (\<lambda>p. Ok (k, p))) pm = Ok qm \<and> new = Some (JObj qm)
      else if k = ''rules'' then \<exists>vs ws. (case old of Some x \<Rightarrow> x | None \<Rightarrow> JArr []) = JArr vs \<and> normalize_rules vs False = Ok ws \<and> new = Some (JArr ws)
      else if k \<in> {''external-controller'', ''external-ui'', ''secret''} then new = (if old = Some JNull then None else old)
      else new = (case map_of top_defaults k of None \<Rightarrow> old | Some d \<Rightarrow> Some (case old of Some x \<Rightarrow> x | None \<Rightarrow> d)))"

lemma normal_entry_unique: "normal_entry E k old new \<Longrightarrow> normal_entry E k old new' \<Longrightarrow> new' = new"
  by (auto simp: normal_entry_def split: if_splits)

lemma top_defaults_keys: "distinct (map fst top_defaults)" "\<forall>kd\<in>set top_defaults. json_ok (snd kd) \<and> fst kd \<noteq> ''<<''"
  by (simp_all add: top_defaults_def json_ok_JArr json_ok_JObj)

lemma normalize_config_steps:
  assumes "normalize_config E (JObj m) = Ok v"
  obtains m1 m2 ps ps' gs gs' pm pm' rs rs' where "try_fold typed_default top_defaults m = Ok m1"
    "try_fold (optional_string True) [''external-controller'', ''external-ui'', ''secret''] m1 = Ok m2"
    "map_of m2 ''proxies'' = Some (JArr ps)" "result_map normalize_proxy ps = Ok ps'"
    "map_of m2 ''proxy-groups'' = Some (JArr gs)" "result_map normalize_group gs = Ok gs'"
    "map_of m2 ''rule-providers'' = Some (JObj pm)" "result_map (\<lambda>(k, p). and_then (normalize_provider E p) (\<lambda>p. Ok (k, p))) pm = Ok pm'"
    "map_of m2 ''rules'' = Some (JArr rs)" "normalize_rules rs False = Ok rs'"
    "v = JObj (btree_insert ''rules'' (JArr rs') (btree_insert ''rule-providers'' (JObj pm')
       (btree_insert ''proxy-groups'' (JArr gs') (btree_insert ''proxies'' (JArr ps') m2))))"
  using assms unfolding normalize_config_def normalize_tables_def Let_def
  by (elim and_thenE) (auto simp: unwrap_Ok split: option.splits simp del: try_fold.simps result_map.simps)

lemma normalize_config_lookup:
  assumes "normalize_config E (JObj m) = Ok v" "json_ok (JObj m)"
  shows "\<exists>m'. v = JObj m' \<and> (\<forall>k. normal_entry E k (map_of m k) (map_of m' k)) \<and> (\<exists>b. map_of m' ''allow-lan'' = Some (JBool b))"
proof -
  obtain m1 m2 ps ps' gs gs' pm pm' rs rs' where s: "try_fold typed_default top_defaults m = Ok m1"
    "try_fold (optional_string True) [''external-controller'', ''external-ui'', ''secret''] m1 = Ok m2"
    "map_of m2 ''proxies'' = Some (JArr ps)" "result_map normalize_proxy ps = Ok ps'"
    "map_of m2 ''proxy-groups'' = Some (JArr gs)" "result_map normalize_group gs = Ok gs'"
    "map_of m2 ''rule-providers'' = Some (JObj pm)" "result_map (\<lambda>(k, p). and_then (normalize_provider E p) (\<lambda>p. Ok (k, p))) pm = Ok pm'"
    "map_of m2 ''rules'' = Some (JArr rs)" "normalize_rules rs False = Ok rs'"
    "v = JObj (btree_insert ''rules'' (JArr rs') (btree_insert ''rule-providers'' (JObj pm')
       (btree_insert ''proxy-groups'' (JArr gs') (btree_insert ''proxies'' (JArr ps') m2))))"
    using normalize_config_steps [OF assms(1)] .
  note d = typed_defaults_lookup [OF s(1) top_defaults_keys(1) assms(2) top_defaults_keys(2)]
  have l: "map_of m2 k = (if k \<in> {''external-controller'', ''external-ui'', ''secret''} \<and> map_of m1 k = Some JNull then None else map_of m1 k)" for k
    using optional_strings_lookup [OF s(2) conjunct1 [OF d]] by simp
  have t: "map_of top_defaults k = None" if "k \<in> {''external-controller'', ''external-ui'', ''secret''}" for k
    using that by (elim insertE emptyE) (simp_all add: top_defaults_def)
  have "normal_entry E k (map_of m k) (map_of m' k)" if "JObj m' = v" for k m'
  proof -
    let ?C = "{''proxies'', ''proxy-groups'', ''rule-providers'', ''rules''}" and ?O = "{''external-controller'', ''external-ui'', ''secret''}"
    consider "k \<in> ?C" | "k \<in> ?O" "k \<notin> ?C" | "k \<notin> ?C" "k \<notin> ?O" by argo
    then show ?thesis
    proof cases
      case 1
      have "map_of top_defaults ''proxies'' = Some (JArr [])" "map_of top_defaults ''proxy-groups'' = Some (JArr [])"
          "map_of top_defaults ''rule-providers'' = Some (JObj [])" "map_of top_defaults ''rules'' = Some (JArr [])"
        by (simp_all add: top_defaults_def)
      then show ?thesis using 1 that s d l by (auto simp: normal_entry_def)
    next
      case 2
      have "map_of m' k = map_of m2 k" using 2 that s(11) by auto
      then show ?thesis using 2 t [OF 2(1)] l [of k] d by (auto simp: normal_entry_def)
    next
      case 3
      have "map_of m' k = map_of m2 k" using 3 that s(11) by auto
      then show ?thesis using 3 l [of k] d by (simp add: normal_entry_def)
    qed
  qed
  moreover have "same_type (JBool False) (the (map_of m1 ''allow-lan''))" "map_of m1 ''allow-lan'' \<noteq> None"
    using d by (auto simp: top_defaults_def split: option.splits)
  then have "\<exists>b. map_of m2 ''allow-lan'' = Some (JBool b)" using l [of "''allow-lan''"] by (auto elim!: is_boolean.elims)
  ultimately show ?thesis using s(11) by auto
qed

lemma list_all2_image: "list_all2 (\<lambda>x y. f x = Ok y) xs ys \<Longrightarrow> y \<in> set ys \<Longrightarrow> \<exists>x\<in>set xs. f x = Ok y"
  by (induction rule: list_all2_induct) auto

lemma normalize_config_ok:
  assumes "normalize_config E (JObj m) = Ok v" "json_ok (JObj m)" "collections_ok m"
  shows "\<exists>m'. v = JObj m' \<and> normal_doc m'"
proof -
  obtain m1 m2 ps ps' gs gs' pm pm' rs rs' where s: "try_fold typed_default top_defaults m = Ok m1"
    "try_fold (optional_string True) [''external-controller'', ''external-ui'', ''secret''] m1 = Ok m2"
    "map_of m2 ''proxies'' = Some (JArr ps)" "result_map normalize_proxy ps = Ok ps'"
    "map_of m2 ''proxy-groups'' = Some (JArr gs)" "result_map normalize_group gs = Ok gs'"
    "map_of m2 ''rule-providers'' = Some (JObj pm)" "result_map (\<lambda>(k, p). and_then (normalize_provider E p) (\<lambda>p. Ok (k, p))) pm = Ok pm'"
    "map_of m2 ''rules'' = Some (JArr rs)" "normalize_rules rs False = Ok rs'"
    "v = JObj (btree_insert ''rules'' (JArr rs') (btree_insert ''rule-providers'' (JObj pm')
       (btree_insert ''proxy-groups'' (JArr gs') (btree_insert ''proxies'' (JArr ps') m2))))"
    using normalize_config_steps [OF assms(1)] .
  note d = typed_defaults_lookup [OF s(1) top_defaults_keys(1) assms(2) top_defaults_keys(2)]
  note o' = optional_strings_lookup [OF s(2) conjunct1 [OF d]]
  have ok: "json_ok (JObj m2)" using o' by blast
  have ps: "\<forall>p\<in>set ps'. json_ok p \<and> normal_proxy p"
    using list_all2_image [OF s(4) [unfolded result_map_Ok_iff]] normalize_proxy_ok json_ok_lookup [OF ok s(3)] by (fastforce simp: json_ok_JArr)
  have gi: "\<forall>g\<in>set gs. json_ok g \<and> item_ok g"
  proof -
    have "map_of m2 ''proxy-groups'' = Some (case map_of m ''proxy-groups'' of Some x \<Rightarrow> x | None \<Rightarrow> JArr [])"
      using d o' by (auto simp: top_defaults_def split: option.splits)
    then show ?thesis using s(5) assms(3) json_ok_lookup [OF ok s(5)] by (auto simp: collections_ok_def json_ok_JArr split: option.splits)
  qed
  then have gs: "\<forall>g\<in>set gs'. json_ok g \<and> normal_group g"
    using list_all2_image [OF s(6) [unfolded result_map_Ok_iff]] normalize_group_ok by fastforce
  have pm: "json_ok (JObj pm')"
  proof -
    have l: "list_all2 (\<lambda>kp kq. fst kq = fst kp \<and> normalize_provider E (snd kp) = Ok (snd kq)) pm pm'"
      using s(8) unfolding result_map_Ok_iff by (rule list_all2_mono) (auto simp: result_simps)
    then have "map fst pm' = map fst pm" by (simp add: list_all2_conv_all_nth list_eq_iff_nth_eq)
    moreover have "\<forall>kq\<in>set pm'. json_ok (snd kq)"
      using l json_ok_lookup [OF ok s(7)] normalize_provider_ok by (fastforce simp: json_ok_JObj list_all2_conv_all_nth in_set_conv_nth)
    ultimately show ?thesis using json_ok_lookup [OF ok s(7)] by (auto simp: json_ok_JObj btree_ok_def simp flip: set_map)
  qed
  note rs = normalize_rules_ok [OF s(10)]
  obtain m' where m': "v = JObj m'" "\<exists>b. map_of m' ''allow-lan'' = Some (JBool b)" using normalize_config_lookup [OF assms(1,2)] by blast
  have "json_ok v" using ok ps gs pm rs s(11) by (auto intro!: json_ok_insert simp: json_ok_JArr)
  then show ?thesis using m' s(11) ps gs rs by (auto simp: normal_doc_def)
qed

lemma normal_input:
  assumes "json_ok (JObj m)" "collections_ok m" "try_fold typed_default top_defaults m = Ok m1"
    "try_fold (optional_string True) [''external-controller'', ''external-ui'', ''secret''] m1 = Ok m2"
  shows "\<exists>ps. map_of m2 ''proxies'' = Some (JArr ps) \<and> (\<forall>p\<in>set ps. json_ok p \<and> item_ok p)"
    "\<exists>gs. map_of m2 ''proxy-groups'' = Some (JArr gs) \<and> (\<forall>g\<in>set gs. item_ok g)"
    "\<exists>pm. map_of m2 ''rule-providers'' = Some (JObj pm) \<and> (\<forall>kv\<in>set pm. is_object (snd kv))"
    "\<exists>rs. map_of m2 ''rules'' = Some (JArr rs) \<and> list_all is_string rs"
proof -
  note d = typed_defaults_lookup [OF assms(3) top_defaults_keys(1) assms(1) top_defaults_keys(2)]
  have l: "map_of m2 k = Some (case map_of m k of Some x \<Rightarrow> x | None \<Rightarrow> x0)"
    if "k \<notin> {''external-controller'', ''external-ui'', ''secret''}" "map_of top_defaults k = Some x0" for k x0
    using optional_strings_lookup [OF assms(4) conjunct1 [OF d]] d that by simp
  have t: "map_of top_defaults ''proxies'' = Some (JArr [])" "map_of top_defaults ''proxy-groups'' = Some (JArr [])"
      "map_of top_defaults ''rule-providers'' = Some (JObj [])" "map_of top_defaults ''rules'' = Some (JArr [])"
    by (simp_all add: top_defaults_def)
  have ok: "json_ok v" if "map_of m ''proxies'' = Some (JArr vs)" "v \<in> set vs" for v vs
    using json_ok_lookup [OF assms(1) that(1)] that(2) by (simp add: json_ok_JArr)
  show "\<exists>ps. map_of m2 ''proxies'' = Some (JArr ps) \<and> (\<forall>p\<in>set ps. json_ok p \<and> item_ok p)"
    using l [OF _ t(1)] assms(2) ok by (cases "map_of m ''proxies''") (auto simp: collections_ok_def)
  show "\<exists>gs. map_of m2 ''proxy-groups'' = Some (JArr gs) \<and> (\<forall>g\<in>set gs. item_ok g)"
    using l [OF _ t(2)] assms(2) by (cases "map_of m ''proxy-groups''") (auto simp: collections_ok_def)
  show "\<exists>pm. map_of m2 ''rule-providers'' = Some (JObj pm) \<and> (\<forall>kv\<in>set pm. is_object (snd kv))"
    using l [OF _ t(3)] assms(2) by (cases "map_of m ''rule-providers''") (auto simp: collections_ok_def)
  show "\<exists>rs. map_of m2 ''rules'' = Some (JArr rs) \<and> list_all is_string rs"
    using l [OF _ t(4)] assms(2) by (cases "map_of m ''rules''") (auto simp: collections_ok_def)
qed

lemma sane_normalize_tables:
  assumes "\<exists>ps. map_of m ''proxies'' = Some (JArr ps) \<and> (\<forall>p\<in>set ps. json_ok p \<and> item_ok p)"
    "\<exists>gs. map_of m ''proxy-groups'' = Some (JArr gs) \<and> (\<forall>g\<in>set gs. item_ok g)"
    "\<exists>pm. map_of m ''rule-providers'' = Some (JObj pm) \<and> (\<forall>kv\<in>set pm. is_object (snd kv))"
    "\<exists>rs. map_of m ''rules'' = Some (JArr rs) \<and> list_all is_string rs"
  shows "sane (normalize_tables E m)"
  using assms
  by (auto simp: normalize_tables_def Let_def
      intro!: sane_intros sane_normalize_proxy sane_normalize_group sane_normalize_provider sane_normalize_rules simp del: not_None_eq)
    force

lemma sane_normalize_config:
  assumes "json_ok (JObj m)" "collections_ok m"
  shows "sane (normalize_config E (JObj m))"
  unfolding normalize_config_def
  by (intro sane_intros) (auto intro!: sane_normalize_tables normal_input [OF assms] simp del: try_fold.simps not_None_eq)

section \<open>Documents\<close>

lemma override_document_ok: "override_document E bs n = Ok v \<Longrightarrow> \<exists>m. v = JObj m \<and> json_ok v"
  using parse_document_ok
  by (fastforce simp: override_document_def document_ok_def result_simps split: if_splits)

lemma config_document_steps:
  assumes "config_document E source = Ok v"
  obtains m m1 where "override_document E source MAX_SOURCE_BYTES = Ok (JObj m)" "validate_collections (JObj m) = Ok ()"
    "canonical_plugin_options (split_source_groups m) = Ok m1" "normalize_config E (JObj m1) = Ok v" "json_ok (JObj m1)" "collections_ok m1"
proof -
  obtain m m1 where s: "override_document E source MAX_SOURCE_BYTES = Ok (JObj m)" "validate_collections (JObj m) = Ok ()"
    "canonical_plugin_options (split_source_groups m) = Ok m1" "normalize_config E (JObj m1) = Ok v"
    using assms by (auto simp: config_document_def unwrap_Ok elim!: and_thenE)
  then show ?thesis
    using that canonical_plugin_options_ok [OF s(3)] split_source_groups_ok [of m] override_document_ok [OF s(1)] validate_collections_ok [OF s(2)] by blast
qed

lemma config_document_normal: "config_document E source = Ok v \<Longrightarrow> \<exists>m. v = JObj m \<and> normal_doc m"
  by (elim config_document_steps) (rule normalize_config_ok)

lemma sane_config_document [sane_intros]: "sane (config_document E source)"
  unfolding config_document_def
proof (intro sane_and_then sane_document sane_validate_collections sane_canonical_plugin_options)
  fix v u m m1
  assume s: "override_document E source MAX_SOURCE_BYTES = Ok v" "validate_collections v = Ok u" "unwrap_object v = Ok m"
    "canonical_plugin_options (split_source_groups m) = Ok m1"
  then have "v = JObj m" by (simp add: unwrap_Ok)
  then have "json_ok (JObj m1)" "collections_ok m1"
    using canonical_plugin_options_ok [OF s(4)] split_source_groups_ok [of m] override_document_ok [OF s(1)] validate_collections_ok [of m u] s(2) by blast+
  then show "sane (normalize_config E (JObj m1))" by (rule sane_normalize_config)
qed (use override_document_ok in fastforce)

lemma zig_map_order_total: "\<exists>ys. zig_map_order names = Some ys"
  using fill_slots [of "[]" 0 names] by (auto simp: zig_map_order_def occupied_def map_filter_simps)

lemma sane_provider_order [sane_intros]: "sane (provider_order E source)"
  using zig_map_order_total by (auto simp: provider_order_def intro!: sane_intros split: option.splits)

lemma sane_unwrap_str [sane_intros]: "is_string v \<Longrightarrow> sane (unwrap_str v)"
  by (auto simp: as_str_Some_iff)

lemma sane_emit_plugin: "normal_proxy p \<Longrightarrow> sane (emit_plugin E p out)"
  by (auto simp: emit_plugin_def normal_proxy_def as_object_Some_iff intro!: sane_intros split: option.splits)

lemma sane_emit_proxy: "normal_proxy p \<Longrightarrow> sane (emit_proxy E kind p out)"
  unfolding emit_proxy_def by (intro sane_and_then) (auto intro!: sane_intros sane_emit_plugin)

lemma sane_emit_group: "normal_group g \<Longrightarrow> sane (emit_group E kind g out)"
  by (auto simp: emit_group_def normal_group_def emit_member_def list_all_iff as_str_Some_iff intro!: sane_intros)

definition printable :: "jmap \<Rightarrow> bool" where
  "printable m \<longleftrightarrow> (\<exists>ps. map_of m ''proxies'' = Some (JArr ps) \<and> (\<forall>p\<in>set ps. normal_proxy p))
     \<and> (\<exists>gs. map_of m ''proxy-groups'' = Some (JArr gs) \<and> (\<forall>g\<in>set gs. normal_group g))
     \<and> (\<exists>rs. map_of m ''rules'' = Some (JArr rs) \<and> list_all is_string rs)"

lemma normal_printable: "normal_doc m \<Longrightarrow> printable m"
  by (auto simp: normal_doc_def printable_def)

lemma sane_canonical_config_yaml: "printable m \<Longrightarrow> sane (canonical_config_yaml E (JObj m) ns kind)"
proof -
  assume m: "printable m"
  then have rules: "sane (try_fold emit_rule rs out)" if "map_of m ''rules'' = Some (JArr rs)" for rs out
    using that by (auto simp: printable_def emit_rule_def list_all_iff as_str_Some_iff intro!: sane_intros)
  show ?thesis using m unfolding canonical_config_yaml_def
    by (intro sane_and_then) (auto intro!: sane_intros rules sane_emit_proxy sane_emit_group simp: printable_def simp del: not_None_eq)
qed

section \<open>Merging\<close>

definition patched :: "string \<Rightarrow> json \<Rightarrow> json option" where
  "patched k v = (if k = ''external-controller'' \<and> v = JNull then None
     else if k = ''proxies'' then (case v of JArr items \<Rightarrow> Some (JArr (filter (\<lambda>item. \<not> is_group item) items)) | _ \<Rightarrow> Some v)
     else Some v)"

lemma apply_field_ok:
  assumes "apply_field (k, v) m = Ok m'" "json_ok (JObj m)" "json_ok v" "k \<noteq> ''<<''"
  shows "json_ok (JObj m') \<and> map_of m' = (map_of m)(k := patched k v)"
  using assms
  by (auto simp: apply_field_def patched_def unwrap_Ok json_ok_insert json_ok_remove json_ok_JArr map_of_remove_ok split: if_splits elim!: and_thenE)

lemma apply_fields_lookup:
  assumes "try_fold apply_field pm m = Ok m'" "json_ok (JObj pm)" "json_ok (JObj m)"
  shows "json_ok (JObj m') \<and> (\<forall>k. map_of m' k = (case map_of pm k of None \<Rightarrow> map_of m k | Some v \<Rightarrow> patched k v))"
proof -
  have ok: "btree_ok pm" "''<<'' \<notin> fst ` set pm" "\<forall>kv\<in>set pm. json_ok (snd kv)" using assms(2) json_ok_JObj by blast+
  then have "distinct (map fst pm)" "\<forall>kv\<in>set pm. json_ok (snd kv) \<and> fst kv \<noteq> ''<<''"
    using btree_ok_distinct by (blast, metis imageI)
  with assms(1,3) show ?thesis
  proof (induction pm arbitrary: m)
    case (Cons kv pm)
    obtain k v where kv: "kv = (k, v)" by (cases kv)
    obtain m1 where m1: "apply_field (k, v) m = Ok m1" "try_fold apply_field pm m1 = Ok m'" using Cons.prems(1) kv by (auto elim: and_thenE)
    have a: "json_ok (JObj m1)" "map_of m1 = (map_of m)(k := patched k v)" using apply_field_ok [OF m1(1)] Cons.prems kv by auto
    have "map_of pm k = None" using Cons.prems(3) kv by (auto simp: map_of_eq_None_iff)
    then show ?case using Cons.IH [OF m1(2) a(1)] Cons.prems(3,4) a(2) kv by (auto split: option.split)
  qed simp
qed

lemma apply_fields_allowed:
  "try_fold apply_field pm m = Ok m' \<Longrightarrow> map_of pm k = Some x \<Longrightarrow> patch_field_ok k x"
  by (induction pm arbitrary: m) (auto simp: apply_field_def elim!: and_thenE split: if_splits)

lemma sane_apply_field [sane_intros]: "sane (apply_field kv m)"
  by (cases kv) (auto simp: apply_field_def patch_field_ok_def as_array_Some_iff intro!: sane_intros)

lemma merged_document_steps:
  assumes "merged_document E source (JObj m) patch = Ok (v, p)" "json_ok (JObj m)" "validate_collections (JObj m) = Ok ()"
  obtains pm m1 m2 d where "p = JObj pm" "override_document E patch MAX_OUTPUT_BYTES = Ok p" "json_ok p"
    "\<forall>k. map_of m1 k = (case map_of pm k of None \<Rightarrow> map_of (split_source_groups m) k | Some x \<Rightarrow> patched k x)"
    "\<forall>k x. map_of pm k = Some x \<longrightarrow> patch_field_ok k x"
    "json_ok (JObj m1)" "collections_ok m1" "canonical_plugin_options m1 = Ok m2" "json_ok (JObj m2)" "collections_ok m2"
    "config_document E source = Ok d" "normalize_config E (JObj m2) = Ok v" "materializable v = Ok ()"
proof -
  obtain pm m1 m2 d where s: "p = JObj pm" "override_document E patch MAX_OUTPUT_BYTES = Ok p"
      "try_fold apply_field pm (split_source_groups m) = Ok m1" "validate_collections (JObj m1) = Ok ()"
      "canonical_plugin_options m1 = Ok m2" "config_document E source = Ok d" "normalize_config E (JObj m2) = Ok v" "materializable v = Ok ()"
    using assms(1) by (auto simp: merged_document_def unwrap_Ok elim!: and_thenE)
  have ok: "json_ok p" using override_document_ok [OF s(2)] by auto
  note sp = split_source_groups_ok [OF assms(2) validate_collections_ok [OF assms(3)]]
  note a = apply_fields_lookup [OF s(3) ok [unfolded s(1)] conjunct1 [OF sp]]
  note c = canonical_plugin_options_ok [OF s(5) conjunct1 [OF a] validate_collections_ok [OF s(4)]]
  show ?thesis using that [OF s(1,2) ok _ _ _ validate_collections_ok [OF s(4)] s(5) _ _ s(6-8)] a c apply_fields_allowed [OF s(3)] by blast
qed

lemma sane_materializable: "normal_doc m \<Longrightarrow> sane (materializable (JObj m))"
proof -
  assume m: "normal_doc m"
  have "sane (materializable_proxy p)" if p: "normal_proxy p" for p
    using p by (auto simp: materializable_proxy_def normal_proxy_def intro!: sane_intros sane_validate_plugin_metadata)
  then show ?thesis using m by (auto simp: materializable_def normal_doc_def intro!: sane_intros)
qed

lemma sane_merged_document:
  assumes "json_ok (JObj m)" "validate_collections (JObj m) = Ok ()"
  shows "sane (merged_document E source (JObj m) patch)"
  unfolding merged_document_def
proof (intro sane_and_then sane_document sane_validate_collections sane_canonical_plugin_options sane_config_document sane_count_entries)
  fix m' p u pm m1 u1 u2 m2 d
  assume s: "unwrap_object (JObj m) = Ok m'" "override_document E patch MAX_OUTPUT_BYTES = Ok p" "validate_collections p = Ok u" "unwrap_object p = Ok pm"
    "try_fold apply_field pm (split_source_groups m') = Ok m1" "count_entries (JObj m1) MAX_COLLECTION_ENTRIES = Ok u1"
    "validate_collections (JObj m1) = Ok u2" "canonical_plugin_options m1 = Ok m2"
  have "json_ok (JObj pm)" using override_document_ok [OF s(2)] s(4) by (auto simp: unwrap_Ok)
  then have "json_ok (JObj m1)"
    using apply_fields_lookup [OF s(5)] split_source_groups_ok [OF assms(1) validate_collections_ok [OF assms(2)]] s(1) by simp
  then have m2: "json_ok (JObj m2)" "collections_ok m2" using canonical_plugin_options_ok [OF s(8)] validate_collections_ok [OF s(7)] by auto
  then show "sane (normalize_config E (JObj m2))" by (rule sane_normalize_config)
  show "sane (materializable v)" if "normalize_config E (JObj m2) = Ok v" for v
    using normalize_config_ok [OF that m2] sane_materializable by blast
qed (use override_document_ok in \<open>fastforce intro!: sane_intros\<close>)+

lemma sane_merge [sane_intros]: "sane (merge E source patch)"
proof -
  have "sane (and_then (merged_document E source base patch) F)"
    if b: "override_document E source MAX_SOURCE_BYTES = Ok base" "validate_collections base = Ok ()"
      "F = (\<lambda>(v, p). and_then (provider_order E (if json_get ''rule-providers'' p \<noteq> None then patch else source)) (\<lambda>names.
          and_then (ok_or Panicked (zig_map_order names)) (\<lambda>providers. canonical_config_yaml E v providers Effective)))" for base F
  proof (rule sane_and_then)
    obtain m where m: "base = JObj m" "json_ok (JObj m)" using override_document_ok [OF b(1)] by auto
    show "sane (merged_document E source base patch)" using sane_merged_document m b(2) by simp
    fix vp
    assume "merged_document E source base patch = Ok vp"
    moreover obtain v p where vp: "vp = (v, p)" by (cases vp)
    ultimately obtain m2 where "normalize_config E (JObj m2) = Ok v" "json_ok (JObj m2)" "collections_ok m2"
      using merged_document_steps [of E source m patch v p] m b(2) by metis
    then obtain n where "v = JObj n" "normal_doc n" using normalize_config_ok by blast
    then show "sane (F vp)"
      using zig_map_order_total by (auto simp: b(3) vp intro!: sane_intros sane_canonical_config_yaml normal_printable)
  qed
  then show ?thesis by (auto simp: merge_def intro!: sane_intros)
qed

lemma sane_materialize_source [sane_intros]: "sane (materialize_source E source patch)"
proof -
  have "sane (materializable v)" if "config_document E source = Ok v" for v
    using config_document_normal [OF that] sane_materializable by blast
  then show ?thesis by (auto simp: materialize_source_def intro!: sane_intros)
qed

section \<open>Redaction\<close>

lemma json_set_JObj: "json_set k x (JObj m) = JObj (if map_of m k = None then m else btree_insert k x m)"
  by (simp add: json_set_def)

definition redact_map :: "string list \<Rightarrow> jmap \<Rightarrow> jmap" where
  "redact_map ks m = fold (\<lambda>k m. if map_of m k = None then m else btree_insert k (JStr ''******'') m) ks m"

lemma redact_map_JObj: "fold (\<lambda>k. json_set k (JStr ''******'')) ks (JObj m) = JObj (redact_map ks m)"
  by (induction ks arbitrary: m) (simp_all add: redact_map_def json_set_JObj)

lemma redact_proxy_JObj: "redact_proxy (JObj m) = JObj (redact_map [''password'', ''uuid'', ''sni''] m)"
  by (simp only: redact_proxy_def redact_map_JObj)

lemma map_of_redact_map:
  "map_of (redact_map ks m) k = (if k \<in> set ks \<and> map_of m k \<noteq> None then Some (JStr ''******'') else map_of m k)"
proof (induction ks arbitrary: m)
  case (Cons k' ks)
  then show ?case by (cases "map_of m k'") (auto simp: redact_map_def)
qed (simp add: redact_map_def)

lemma json_ok_redact_map: "json_ok (JObj m) \<Longrightarrow> ''<<'' \<notin> set ks \<Longrightarrow> json_ok (JObj (redact_map ks m))"
proof (induction ks arbitrary: m)
  case (Cons k ks)
  then show ?case by (cases "map_of m k") (auto simp: redact_map_def json_ok_insert simp del: json_ok.simps(6))
qed (simp add: redact_map_def)

lemma redact_JObj:
  "map_of m ''proxies'' = Some (JArr ps) \<Longrightarrow>
   redact (JObj m) = JObj (btree_insert ''proxies'' (JArr (map redact_proxy ps)) (redact_map [''secret''] m))"
  using map_of_redact_map [of "[''secret'']" m "''proxies''"]
  by (simp add: redact_def Let_def json_set_JObj redact_map_def json_get_def)

lemma redact_proxy_normal: "normal_proxy p \<Longrightarrow> normal_proxy (redact_proxy p)"
  by (auto simp: normal_proxy_def redact_proxy_JObj map_of_redact_map)

lemma redact_printable:
  assumes "normal_doc m"
  obtains n where "redact (JObj m) = JObj n" "printable n" "btree_ok n"
proof -
  obtain ps where ps: "map_of m ''proxies'' = Some (JArr ps)" "\<forall>p\<in>set ps. normal_proxy p" using assms by (auto simp: normal_doc_def)
  have "json_ok (JObj (redact_map [''secret''] m))" using assms json_ok_redact_map by (simp add: normal_doc_def del: json_ok.simps)
  then have "btree_ok (btree_insert ''proxies'' (JArr (map redact_proxy ps)) (redact_map [''secret''] m))"
    by (simp add: json_ok_JObj btree_ok_insert del: json_ok.simps)
  with that [OF redact_JObj [OF ps(1)]] show ?thesis using assms ps(2)
    by (auto simp: printable_def normal_doc_def map_of_redact_map redact_proxy_normal)
qed

section \<open>No dump panics\<close>

lemma sane_dump_config_yaml [sane_intros]: "sane (dump_config_yaml E source)"
proof -
  have "sane (canonical_config_yaml E (redact v) ns Public)" if "config_document E source = Ok v" for v ns
    using config_document_normal [OF that] by (metis redact_printable sane_canonical_config_yaml)
  then show ?thesis by (auto simp: dump_config_yaml_def intro!: sane_intros)
qed

lemma map_of_retain: "btree_ok m \<Longrightarrow> map_of (retain P m) k = (case map_of m k of None \<Rightarrow> None | Some v \<Rightarrow> if P k v then Some v else None)"
  by (simp add: retain_def map_of_filter_btree split: option.split)

lemma sane_dump_config_json [sane_intros]: "sane (dump_config_json E source)"
proof -
  have "sane (dump_group g)" if "normal_group g" for g using that by (auto simp: dump_group_def normal_group_def intro!: sane_intros)
  moreover have "sane (dump_proxy p)" if "normal_proxy p" for p
    using that by (auto simp: dump_proxy_def normal_proxy_def Let_def intro!: sane_intros)
  moreover have "\<exists>n. redact v = JObj n \<and> printable n \<and> btree_ok n" if "config_document E source = Ok v" for v
    using config_document_normal [OF that] redact_printable by metis
  ultimately show ?thesis
    by (fastforce simp: dump_config_json_def Let_def printable_def map_of_retain dump_keys_def json_index_def json_get_def intro!: sane_intros)
qed

lemma sane_dump_runtime_config_yaml [sane_intros]: "sane (dump_runtime_config_yaml E source)"
proof -
  have "\<exists>m. v = JObj m \<and> printable (btree_remove ''rule-providers'' m)" if "config_document E source = Ok v" for v
    using config_document_normal [OF that] normal_printable
    by (auto simp: printable_def normal_doc_def map_of_remove_ok simp del: json_ok.simps)
  then show ?thesis
    by (fastforce simp: dump_runtime_config_yaml_def intro!: sane_intros sane_canonical_config_yaml)
qed

lemma removed_keys:
  "json_ok (JObj m) \<Longrightarrow> json_ok (JObj (fold btree_remove ks m)) \<and> map_of (fold btree_remove ks m) k = (if k \<in> set ks then None else map_of m k)"
  by (induction ks arbitrary: m) (auto simp: json_ok_remove map_of_remove_ok simp del: json_ok.simps(6))

lemma dropped_normal: "normal_doc m \<Longrightarrow> normal_doc (fold btree_remove dropped_keys m)"
proof -
  assume m: "normal_doc m"
  then have r: "json_ok (JObj (fold btree_remove dropped_keys m))"
      "map_of (fold btree_remove dropped_keys m) k = (if k \<in> set dropped_keys then None else map_of m k)" for k
    using removed_keys [of m dropped_keys] unfolding normal_doc_def by blast+
  have "''proxies'' \<notin> set dropped_keys" "''proxy-groups'' \<notin> set dropped_keys" "''rules'' \<notin> set dropped_keys" "''allow-lan'' \<notin> set dropped_keys"
    by (simp_all add: dropped_keys_def)
  then show ?thesis using m r(1) unfolding normal_doc_def r(2) by presburger
qed

lemma sane_runtime_source [sane_intros]: "sane (runtime_source E source)"
proof -
  have g: "sane (runtime_group g)" if "normal_group g" for g using that by (auto simp: runtime_group_def normal_group_def intro!: sane_intros)
  have p: "sane (runtime_proxy p)" if "normal_proxy p" for p
    using that by (auto simp: runtime_proxy_def normal_proxy_def Let_def intro!: sane_intros)
  have "sane (runtime_document E source)"
    unfolding runtime_document_def
  proof (rule sane_and_then [OF sane_config_document])
    fix v
    assume "config_document E source = Ok v"
    then obtain m where m: "v = JObj m" "normal_doc m" using config_document_normal by blast
    define n where "n = fold btree_remove dropped_keys m"
    have "normal_doc n" unfolding n_def using m(2) by (rule dropped_normal)
    then obtain b gs ps where "map_of n ''allow-lan'' = Some (JBool b)" "map_of n ''proxy-groups'' = Some (JArr gs)" "\<forall>g\<in>set gs. normal_group g"
      "map_of n ''proxies'' = Some (JArr ps)" "\<forall>p\<in>set ps. normal_proxy p" unfolding normal_doc_def by blast
    then show "sane (and_then (unwrap_object v) (\<lambda>m. let m = fold btree_remove dropped_keys m
     in and_then (ok_or Panicked (map_of m ''allow-lan'')) (\<lambda>lan.
        let m = (if lan = JBool False then btree_insert ''bind-address'' (JStr ''127.0.0.1'') m else m)
        in and_then (ok_or Panicked (Option.bind (map_of m ''proxy-groups'') as_array)) (\<lambda>gs.
           and_then (result_map runtime_group gs) (\<lambda>gs.
           let m = btree_insert ''proxy-groups'' (JArr gs) m
           in and_then (ok_or Panicked (Option.bind (map_of m ''proxies'') as_array)) (\<lambda>ps.
              and_then (result_map runtime_proxy ps) (\<lambda>ps.
              Ok (JObj (btree_insert ''proxies'' (JArr ps) m)))))))))"
      by (auto simp: m(1) Let_def n_def [symmetric] intro!: sane_intros g p)
  qed
  then show ?thesis by (auto simp: runtime_source_def intro!: sane_intros)
qed

section \<open>What the merged document holds\<close>

text \<open>What a key of the merged document is when the patch gives it \<open>x\<close>: lists and providers are the patch's in normal form, every scalar is the patch's own.\<close>

definition replaced :: "override_env \<Rightarrow> string \<Rightarrow> json \<Rightarrow> json option \<Rightarrow> bool" where
  "replaced E k x new \<longleftrightarrow>
     (if k = ''proxies'' then \<exists>vs us ws. x = JArr vs \<and> result_map canonical_options (filter (\<lambda>v. \<not> is_group v) vs) = Ok us
        \<and> result_map normalize_proxy us = Ok ws \<and> new = Some (JArr ws)
      else if k = ''proxy-groups'' then \<exists>vs ws. x = JArr vs \<and> result_map normalize_group vs = Ok ws \<and> new = Some (JArr ws)
      else if k = ''rules'' then \<exists>vs ws. x = JArr vs \<and> normalize_rules vs False = Ok ws \<and> new = Some (JArr ws)
      else if k = ''rule-providers'' then \<exists>pm qm. x = JObj pm
        \<and> result_map (\<lambda>(k, p). and_then (normalize_provider E p) (\<lambda>p. Ok (k, p))) pm = Ok qm \<and> new = Some (JObj qm)
      else new = (if k = ''external-controller'' \<and> x = JNull then None else Some x))"

lemma replaced_entry:
  assumes "patch_field_ok k x" "canon_entry k (patched k x) y" "normal_entry E k y new"
  shows "replaced E k x new"
proof -
  have u: "k \<noteq> ''external-ui'' \<and> k \<noteq> ''secret''" using assms(1) by (auto simp: patch_field_ok_def)
  consider "k = ''proxies''" | "k = ''proxy-groups''" | "k = ''rules''" | "k = ''rule-providers''" | "k = ''external-controller''"
    | "k \<noteq> ''proxies'' \<and> k \<noteq> ''proxy-groups'' \<and> k \<noteq> ''rules'' \<and> k \<noteq> ''rule-providers'' \<and> k \<noteq> ''external-controller''
       \<and> k \<noteq> ''external-ui'' \<and> k \<noteq> ''secret''"
    using u by argo
  then show ?thesis
    by cases (use assms in \<open>auto simp: replaced_def patched_def canon_entry_def normal_entry_def patch_field_ok_def as_array_Some_iff split: option.splits\<close>)
qed

lemma canon_entry_unique: "canon_entry k old new \<Longrightarrow> canon_entry k old new' \<Longrightarrow> new' = new"
  by (auto simp: canon_entry_def split: if_splits option.splits json.splits)

lemma merged_document_lookup:
  assumes "merged_document E source (JObj m) patch = Ok (v, p)" "override_document E source MAX_SOURCE_BYTES = Ok (JObj m)"
  obtains d where "config_document E source = Ok d" "override_document E patch MAX_OUTPUT_BYTES = Ok p"
    "\<forall>k. case json_get k p of None \<Rightarrow> json_get k v = json_get k d | Some x \<Rightarrow> replaced E k x (json_get k v)"
proof -
  have m: "json_ok (JObj m)" using override_document_ok [OF assms(2)] by simp
  have u: "validate_collections (JObj m) = Ok ()" using assms by (auto simp: merged_document_def elim!: and_thenE config_document_steps)
  obtain pm m1 m2 d where s: "p = JObj pm" "override_document E patch MAX_OUTPUT_BYTES = Ok p" "json_ok p"
    "\<forall>k. map_of m1 k = (case map_of pm k of None \<Rightarrow> map_of (split_source_groups m) k | Some x \<Rightarrow> patched k x)"
    "\<forall>k x. map_of pm k = Some x \<longrightarrow> patch_field_ok k x"
    "json_ok (JObj m1)" "collections_ok m1" "canonical_plugin_options m1 = Ok m2" "json_ok (JObj m2)" "collections_ok m2"
    "config_document E source = Ok d" "normalize_config E (JObj m2) = Ok v" "materializable v = Ok ()"
    using merged_document_steps [OF assms(1) m u] .
  obtain n where n: "canonical_plugin_options (split_source_groups m) = Ok n" "normalize_config E (JObj n) = Ok d" "json_ok (JObj n)"
    using config_document_steps [OF s(11)] assms(2) by (metis json.inject(6) result.inject(1))
  obtain dm where d: "d = JObj dm" "\<forall>k. normal_entry E k (map_of n k) (map_of dm k)" using normalize_config_lookup [OF n(2,3)] by blast
  obtain vm where v: "v = JObj vm" "\<forall>k. normal_entry E k (map_of m2 k) (map_of vm k)" using normalize_config_lookup [OF s(12,9)] by blast
  have "case map_of pm k of None \<Rightarrow> map_of vm k = map_of dm k | Some x \<Rightarrow> replaced E k x (map_of vm k)" for k
  proof (cases "map_of pm k")
    case None
    then have "canon_entry k (map_of (split_source_groups m) k) (map_of m2 k)" using canonical_plugin_options_lookup [OF s(8), of k] s(4) by simp
    then have "map_of m2 k = map_of n k" using canon_entry_unique canonical_plugin_options_lookup [OF n(1)] by blast
    then show ?thesis using None normal_entry_unique v(2) d(2) by (metis option.simps(4))
  next
    case (Some x)
    then show ?thesis using replaced_entry canonical_plugin_options_lookup [OF s(8), of k] s(4,5) v(2) by simp
  qed
  then have "\<forall>k. case json_get k p of None \<Rightarrow> json_get k v = json_get k d | Some x \<Rightarrow> replaced E k x (json_get k v)"
    unfolding s(1) d(1) v(1) json_get_JObj by blast
  with that [OF s(11,2)] show ?thesis .
qed

text \<open>C38 (merge_replaces_fields).  The text that a merge writes is that of a document with, for every key, the patch's value in normal form when the patch
  gives the key and the value of the source's own effective document when it does not: a patch changes what it names and nothing else.\<close>

theorem merge_replaces_fields:
  assumes "merge E source patch = Ok txt" "\<not> empty_patch patch"
  shows "\<exists>d p v ns. config_document E source = Ok d \<and> override_document E patch MAX_OUTPUT_BYTES = Ok p
    \<and> (\<forall>k. case json_get k p of None \<Rightarrow> json_get k v = json_get k d | Some x \<Rightarrow> replaced E k x (json_get k v))
    \<and> canonical_config_yaml E v ns Effective = Ok txt"
proof -
  obtain base v p ns where s: "override_document E source MAX_SOURCE_BYTES = Ok base" "merged_document E source base patch = Ok (v, p)"
      "canonical_config_yaml E v ns Effective = Ok txt"
    using assms by (auto simp: merge_def elim!: and_thenE split: if_splits)
  then obtain m where m: "base = JObj m" using override_document_ok by blast
  show ?thesis using merged_document_lookup [OF s(2) [unfolded m] s(1) [unfolded m]] s(3) by metis
qed

section \<open>Redaction hides what it covers\<close>

lemma btree_eqI: "btree_ok m \<Longrightarrow> btree_ok n \<Longrightarrow> (\<And>k. map_of m k = map_of n k) \<Longrightarrow> m = n"
proof -
  assume a: "btree_ok m" "btree_ok n" "\<And>k. map_of m k = map_of n k"
  then have d: "distinct (map fst m)" "distinct (map fst n)" using btree_ok_distinct by blast+
  have "set m = set n"
    using map_of_eq_Some_iff [OF d(1)] map_of_eq_Some_iff [OF d(2)] a(3) by (metis subset_antisym subrelI)
  moreover from this have "inj_on fst (set m \<union> set n)" using d(1) by (simp add: distinct_map)
  ultimately show ?thesis using map_sorted_distinct_set_unique [of fst m n] a(1,2) d by (simp add: btree_ok_def strict_sorted_imp_sorted)
qed

definition same_but :: "string set \<Rightarrow> jmap \<Rightarrow> jmap \<Rightarrow> bool" where
  "same_but ks m n \<longleftrightarrow> map fst m = map fst n \<and> (\<forall>k. k \<notin> ks \<longrightarrow> map_of m k = map_of n k)"

definition same_proxy :: "json \<Rightarrow> json \<Rightarrow> bool" where
  "same_proxy p q \<longleftrightarrow> (\<exists>m n. p = JObj m \<and> q = JObj n \<and> same_but {''password'', ''uuid'', ''sni''} m n)"

definition same_public :: "json \<Rightarrow> json \<Rightarrow> bool" where
  "same_public v w \<longleftrightarrow> (\<exists>m n ps qs. v = JObj m \<and> w = JObj n \<and> same_but {''secret'', ''proxies''} m n
     \<and> map_of m ''proxies'' = Some (JArr ps) \<and> map_of n ''proxies'' = Some (JArr qs) \<and> list_all2 same_proxy ps qs)"

lemma same_but_None: "same_but ks m n \<Longrightarrow> map_of m k = None \<longleftrightarrow> map_of n k = None"
  by (simp add: same_but_def map_of_eq_None_iff flip: set_map)

lemma same_but_redact_map:
  assumes "same_but (set ks) m n" "json_ok (JObj m)" "json_ok (JObj n)" "''<<'' \<notin> set ks"
  shows "redact_map ks m = redact_map ks n"
proof (rule btree_eqI)
  show "btree_ok (redact_map ks m)" "btree_ok (redact_map ks n)" using assms json_ok_redact_map json_ok_JObj by blast+
  fix k
  have "map_of m k = None \<longleftrightarrow> map_of n k = None" using same_but_None [OF assms(1)] .
  then show "map_of (redact_map ks m) k = map_of (redact_map ks n) k" using assms(1) by (cases "k \<in> set ks") (auto simp: map_of_redact_map same_but_def)
qed

lemma same_proxy_redact: "same_proxy p q \<Longrightarrow> json_ok p \<Longrightarrow> json_ok q \<Longrightarrow> redact_proxy p = redact_proxy q"
  using same_but_redact_map [of "[''password'', ''uuid'', ''sni'']"] by (auto simp: same_proxy_def redact_proxy_JObj simp del: json_ok.simps)

lemma same_proxies_redact:
  "list_all2 same_proxy ps qs \<Longrightarrow> json_ok (JArr ps) \<Longrightarrow> json_ok (JArr qs) \<Longrightarrow> map redact_proxy ps = map redact_proxy qs"
  by (induction rule: list_all2_induct) (auto simp: json_ok_JArr same_proxy_redact simp del: json_ok.simps)

lemma same_public_redact:
  assumes "same_public v w" "json_ok v" "json_ok w"
  shows "redact v = redact w"
proof -
  obtain m n ps qs where s: "v = JObj m" "w = JObj n" "same_but {''secret'', ''proxies''} m n"
    "map_of m ''proxies'' = Some (JArr ps)" "map_of n ''proxies'' = Some (JArr qs)" "list_all2 same_proxy ps qs"
    using assms(1) unfolding same_public_def by blast
  note ok = assms(2) [unfolded s(1)] assms(3) [unfolded s(2)]
  have ps: "map redact_proxy ps = map redact_proxy qs"
    using same_proxies_redact [OF s(6)] json_ok_lookup [OF ok(1) s(4)] json_ok_lookup [OF ok(2) s(5)] by blast
  have keys: "map_of m k = None \<longleftrightarrow> map_of n k = None" for k using same_but_None [OF s(3)] .
  let ?f = "\<lambda>m. btree_insert ''proxies'' (JArr (map redact_proxy ps)) (redact_map [''secret''] m)"
  have "?f m = ?f n"
  proof (rule btree_eqI)
    have "json_ok (JObj (redact_map [''secret''] m))" "json_ok (JObj (redact_map [''secret''] n))"
      by (rule json_ok_redact_map [OF ok(1)], simp, rule json_ok_redact_map [OF ok(2)], simp)
    then show "btree_ok (?f m)" "btree_ok (?f n)" by (simp_all only: json_ok_JObj btree_ok_insert)
    show "map_of (?f m) k = map_of (?f n) k" for k using s(3) keys [of k] by (cases "k = ''secret''") (auto simp: map_of_redact_map same_but_def)
  qed
  then show ?thesis using redact_JObj s ps by simp
qed

lemma config_document_json_ok: "config_document E source = Ok v \<Longrightarrow> json_ok v"
  using config_document_normal by (metis normal_doc_def)

text \<open>C39 (public_dump_hides_credentials).  Two sources whose effective documents differ only in the values of the controller secret and of the proxies'
  passwords, user ids and server names have the same public YAML dump and the same JSON dump: neither text carries anything of those values.\<close>

theorem public_dump_hides_credentials:
  assumes "config_document E s1 = Ok v" "config_document E s2 = Ok w" "same_public v w" "provider_order E s1 = provider_order E s2"
  shows "dump_config_yaml E s1 = dump_config_yaml E s2 \<and> dump_config_json E s1 = dump_config_json E s2"
  using same_public_redact [OF assms(3)] config_document_json_ok assms by (simp add: dump_config_yaml_def dump_config_json_def)

text \<open>C37 (override_never_panics).  No entry point of the override engine panics: merging, materialising, validating a patch, the two public dumps, the
  runtime dump and the runtime projection reach none of their unwraps, whatever the source, the patch and the outcome of the parsers.\<close>

theorem override_never_panics:
  "merge E source patch \<noteq> Err Panicked \<and> materialize_source E source patch \<noteq> Err Panicked \<and> validate_patch E patch \<noteq> Err Panicked
   \<and> dump_config_yaml E source \<noteq> Err Panicked \<and> dump_config_json E source \<noteq> Err Panicked
   \<and> dump_runtime_config_yaml E source \<noteq> Err Panicked \<and> runtime_source E source \<noteq> Err Panicked"
proof -
  have "sane (validate_patch E patch)" by (auto simp: validate_patch_def intro!: sane_intros)
  then show ?thesis using sane_merge sane_materialize_source sane_dump_config_yaml sane_dump_config_json sane_dump_runtime_config_yaml sane_runtime_source
    unfolding sane_def by blast
qed

definition demo_override :: override_env where
  "demo_override = \<lparr>oe_parsers = \<lparr>json_stream = (\<lambda>_. None), yaml_stream = (\<lambda>t.
       if t = ''a'' then Ok [RMap [(''secret'', RStr ''one''), (''proxies'', RSeq [RMap [(''name'', RStr ''p''), (''type'', RStr ''trojan''),
         (''server'', RStr ''h''), (''port'', RInt 1), (''password'', RStr ''x'')]])]]
       else if t = ''b'' then Ok [RMap [(''secret'', RStr ''two''), (''proxies'', RSeq [RMap [(''name'', RStr ''p''), (''type'', RStr ''trojan''),
         (''server'', RStr ''h''), (''port'', RInt 1), (''password'', RStr ''yy'')]])]]
       else Ok [RMap [(''mixed-port'', RInt 7890), (''rules'', RSeq [RStr ''MATCH,DIRECT''])]])\<rparr>,
     oe_url_parse = (\<lambda>_. None), oe_json_text = (\<lambda>_. ''''), oe_json_names = (\<lambda>_. None), oe_yaml_names = (\<lambda>_. Some [])\<rparr>"

definition demo_input :: "string \<Rightarrow> string \<Rightarrow> jmap" where
  "demo_input secret password = [(''proxies'', JArr [JObj [(''name'', JStr ''p''), (''password'', JStr password), (''port'', JInt 1), (''server'', JStr ''h''),
     (''type'', JStr ''trojan'')]]), (''secret'', JStr secret)]"

lemma demo_override_document:
  "override_document demo_override (str_bytes ''a'') MAX_SOURCE_BYTES = Ok (JObj (demo_input ''one'' ''x''))"
  "override_document demo_override (str_bytes ''b'') MAX_SOURCE_BYTES = Ok (JObj (demo_input ''two'' ''yy''))"
  by (simp_all add: override_document_def demo_input_def demo_override_def parse_document_def yaml_value_def json_fast_path_def yaml_value_inner_def
      is_str_def MAX_SOURCE_BYTES_def MAX_DOCUMENT_DEPTH_def MAX_COLLECTION_ENTRIES_def visit_document_def charge_def count_entries.simps starts_with_def
      trim_start_def)

definition demo_output :: "string \<Rightarrow> string \<Rightarrow> jmap" where
  "demo_output secret password = [(''allow-lan'', JBool False), (''bind-address'', JStr ''*''), (''idle-session-check-interval'', JInt 30),
     (''idle-session-timeout'', JInt 30), (''ipv6'', JBool True), (''log-level'', JStr ''info''), (''min-idle-session'', JInt 0),
     (''mixed-port'', JInt 0), (''mode'', JStr ''rule''), (''port'', JInt 0),
     (''proxies'', JArr [JObj [(''alterId'', JInt 0), (''name'', JStr ''p''), (''password'', JStr password), (''port'', JInt 1), (''server'', JStr ''h''),
        (''skip-cert-verify'', JBool False), (''tls'', JBool False), (''type'', JStr ''trojan''), (''udp'', JBool False)]]),
     (''proxy-groups'', JArr []), (''redir-port'', JInt 0), (''rule-providers'', JObj []), (''rules'', JArr [JStr ''MATCH,REJECT'']),
     (''secret'', JStr secret), (''socks-port'', JInt 0), (''tproxy-port'', JInt 0)]"

lemmas collection_defs = validate_collections_def check_field_def check_item_def check_members_def check_providers_def array_field_def is_group_def
  split_source_groups_def canonical_plugin_options_def canonical_options_def unwrap_object_def unwrap_array_def unwrap_str_def

lemma demo_collections:
  "validate_collections (JObj (demo_input s p)) = Ok ()" "canonical_plugin_options (split_source_groups (demo_input s p)) = Ok (demo_input s p)"
  by (simp_all add: collection_defs demo_input_def)

lemma demo_normalize: "normalize_config demo_override (JObj (demo_input s p)) = Ok (JObj (demo_output s p))"
  by (simp add: normalize_config_def normalize_tables_def demo_input_def demo_output_def validate_anytls_fields_def top_defaults_def typed_default_def
      optional_string_def integer_range_def json_index_def unwrap_object_def unwrap_array_def normalize_proxy_def proxy_types_def proxy_server_def check_transport_def
      validate_plugin_metadata_def unwrap_str_def)

lemma demo_config_document:
  "config_document demo_override (str_bytes ''a'') = Ok (JObj (demo_output ''one'' ''x''))"
  "config_document demo_override (str_bytes ''b'') = Ok (JObj (demo_output ''two'' ''yy''))"
  by (simp_all add: config_document_def demo_override_document demo_collections demo_normalize unwrap_object_def)

lemma demo_same: "same_public (JObj (demo_output ''one'' ''x'')) (JObj (demo_output ''two'' ''yy''))"
  by (simp add: same_public_def demo_output_def same_but_def same_proxy_def)

lemma demo_provider_names: "provider_order demo_override (str_bytes s) = (if is_str s then Ok [] else Err DocumentNotUtf8)"
  by (simp add: provider_order_def demo_override_def zig_map_order_def occupied_def map_filter_simps)

theorem public_dump_hides_credentials_witness:
  "dump_config_yaml demo_override (str_bytes ''a'') = dump_config_yaml demo_override (str_bytes ''b'')
   \<and> dump_config_json demo_override (str_bytes ''a'') = dump_config_json demo_override (str_bytes ''b'')
   \<and> config_document demo_override (str_bytes ''a'') \<noteq> config_document demo_override (str_bytes ''b'')"
  using public_dump_hides_credentials [OF demo_config_document demo_same] demo_config_document
  by (simp add: demo_provider_names is_str_def demo_output_def)

lemma demo_patch:
  "override_document demo_override (str_bytes ''c'') MAX_OUTPUT_BYTES = Ok (JObj [(''mixed-port'', JInt 7890), (''rules'', JArr [JStr ''MATCH,DIRECT''])])"
  by (simp add: override_document_def demo_override_def parse_document_def yaml_value_def json_fast_path_def yaml_value_inner_def
      is_str_def MAX_SOURCE_BYTES_def MAX_OUTPUT_BYTES_def MAX_DOCUMENT_DEPTH_def MAX_COLLECTION_ENTRIES_def visit_document_def charge_def count_entries.simps
      starts_with_def trim_start_def)

definition demo_patched :: jmap where
  "demo_patched = [(''mixed-port'', JInt 7890), (''proxies'', JArr [JObj [(''name'', JStr ''p''), (''password'', JStr ''x''), (''port'', JInt 1),
     (''server'', JStr ''h''), (''type'', JStr ''trojan'')]]), (''rules'', JArr [JStr ''MATCH,DIRECT'']), (''secret'', JStr ''one'')]"

definition demo_merged :: json where
  "demo_merged = JObj (btree_insert ''mixed-port'' (JInt 7890) (btree_insert ''rules'' (JArr [JStr ''MATCH,DIRECT'']) (demo_output ''one'' ''x'')))"

lemma demo_patch_collections: "validate_collections (JObj [(''mixed-port'', JInt 7890), (''rules'', JArr [JStr ''MATCH,DIRECT''])]) = Ok ()"
  by (simp add: collection_defs)

lemma demo_apply: "try_fold apply_field [(''mixed-port'', JInt 7890), (''rules'', JArr [JStr ''MATCH,DIRECT''])] (split_source_groups (demo_input ''one'' ''x'')) = Ok demo_patched"
  by (simp add: collection_defs apply_field_def patch_field_ok_def demo_input_def demo_patched_def)

lemma demo_patched_ok:
  "validate_collections (JObj demo_patched) = Ok ()" "canonical_plugin_options demo_patched = Ok demo_patched"
  "\<exists>u. count_entries (JObj demo_patched) MAX_COLLECTION_ENTRIES = Ok u"
  by (simp_all add: collection_defs demo_patched_def count_entries.simps MAX_COLLECTION_ENTRIES_def)

lemma demo_rule_normal: "normalize_rules [JStr ''MATCH,DIRECT''] False = Ok [JStr ''MATCH,DIRECT'']"
  by (simp add: unwrap_str_def normalize_rule_def is_match_rule_def rule_types_def trim_blank_def trim_matches_def Let_def)

lemma demo_patched_normal: "normalize_config demo_override (JObj demo_patched) = Ok demo_merged"
  by (simp add: normalize_config_def normalize_tables_def demo_patched_def demo_merged_def demo_output_def validate_anytls_fields_def top_defaults_def typed_default_def
      optional_string_def integer_range_def json_index_def unwrap_object_def unwrap_array_def normalize_proxy_def proxy_types_def proxy_server_def check_transport_def
      validate_plugin_metadata_def unwrap_str_def demo_rule_normal del: normalize_rules.simps)

lemma demo_materializable: "materializable demo_merged = Ok ()"
  by (simp add: materializable_def materializable_proxy_def materializable_group_def demo_merged_def demo_output_def collection_defs json_index_def validate_plugin_metadata_def)

lemma write_str_ascii:
  "is_ascii t \<Longrightarrow> length out + length t \<le> limit \<Longrightarrow> write_str limit t out = Ok (out @ t)"
proof (induction t arbitrary: out)
  case (Cons c t)
  have c: "code c < 128" "is_ascii t" using Cons.prems by (auto simp: is_ascii_def)
  then show ?case using Cons.IH [of "out @ [c]"] Cons.prems
    by (simp add: write_str_def write_char_def scalar_value_def unsafe_unicode_def chars_def utf8_tail_def utf8_lead_def)
qed (simp add: write_str_def)

definition short_text :: "nat \<Rightarrow> (string, override_error) result \<Rightarrow> bool" where
  "short_text n r \<longleftrightarrow> (\<exists>out. r = Ok out \<and> length out \<le> n)"

lemma short_emit:
  "is_ascii t \<Longrightarrow> length t \<le> 40 \<Longrightarrow> length out \<le> n \<Longrightarrow> n + 40 \<le> MAX_SOURCE_BYTES \<Longrightarrow> short_text (n + 40) (emit t out)"
  by (simp add: short_text_def write_str_ascii)

lemma short_first: "is_ascii t \<Longrightarrow> length t \<le> 40 \<Longrightarrow> short_text 40 (emit t [])"
  by (simp add: short_text_def write_str_ascii MAX_SOURCE_BYTES_def)

lemma short_and_then: "short_text n r \<Longrightarrow> (\<And>out. length out \<le> n \<Longrightarrow> short_text m (f out)) \<Longrightarrow> short_text m (and_then r f)"
  by (auto simp: short_text_def)

lemma short_Ok: "length out \<le> n \<Longrightarrow> short_text n (Ok out)"
  by (simp add: short_text_def)

lemma try_fold_fun: "try_fold f [] = Ok" "try_fold f (x # xs) = (\<lambda>s. and_then (f x s) (try_fold f xs))"
  by (simp_all add: fun_eq_iff)

lemma demo_json_text: "oe_json_text demo_override v = []"
  by (simp add: demo_override_def)

lemma demo_merged_text: "\<exists>n. short_text n (canonical_config_yaml demo_override demo_merged [] Effective)"
  apply (simp add: canonical_config_yaml_def demo_merged_def demo_output_def emit_keys_def emit_present_def emit_providers_def yaml_field_def yaml_quote_def yaml_char_def
      scalar_value_def chars_def utf8_tail_def utf8_lead_def json_index_def unwrap_array_def emit_proxy_def emit_true_def emit_ws_def emit_plugin_def emit_rule_def unwrap_str_def
      demo_json_text Let_def try_fold_fun unsafe_unicode_def)
  apply (rule exI)
  apply (rule short_and_then | rule short_Ok, assumption | (rule short_first, simp add: is_ascii_def, simp) | (rule short_emit, simp add: is_ascii_def, simp, assumption, simp add: MAX_SOURCE_BYTES_def))+
  done
lemma demo_merge:
  obtains t where "merge demo_override (str_bytes ''a'') (str_bytes ''c'') = Ok t"
proof -
  obtain u where "count_entries (JObj demo_patched) MAX_COLLECTION_ENTRIES = Ok u" using demo_patched_ok(3) by blast
  then have m: "merged_document demo_override (str_bytes ''a'') (JObj (demo_input ''one'' ''x'')) (str_bytes ''c'')
      = Ok (demo_merged, JObj [(''mixed-port'', JInt 7890), (''rules'', JArr [JStr ''MATCH,DIRECT''])])"
    using demo_apply demo_patched_ok(1,2)
    by (simp add: merged_document_def demo_patch demo_config_document demo_patched_normal demo_materializable unwrap_object_def demo_patch_collections
        del: try_fold.simps)
  have e: "\<not> empty_patch (str_bytes ''c'')" by (simp add: empty_patch_def str_bytes_def)
  obtain t where "canonical_config_yaml demo_override demo_merged [] Effective = Ok t" using demo_merged_text by (auto simp: short_text_def)
  with m e have "merge demo_override (str_bytes ''a'') (str_bytes ''c'') = Ok t"
    by (simp add: merge_def demo_override_document demo_collections demo_provider_names is_str_def zig_map_order_def occupied_def map_filter_simps MAX_OUTPUT_BYTES_def)
  then show ?thesis ..
qed

theorem merge_replaces_fields_witness:
  "\<exists>v ns txt. merge demo_override (str_bytes ''a'') (str_bytes ''c'') = Ok txt \<and> canonical_config_yaml demo_override v ns Effective = Ok txt
     \<and> json_get ''mixed-port'' v = Some (JInt 7890) \<and> json_get ''secret'' v = Some (JStr ''one'')
     \<and> json_get ''rules'' v = Some (JArr [JStr ''MATCH,DIRECT''])"
proof -
  obtain r where t: "merge demo_override (str_bytes ''a'') (str_bytes ''c'') = Ok r" by (rule demo_merge)
  have "\<not> empty_patch (str_bytes ''c'')" by (simp add: empty_patch_def str_bytes_def)
  from merge_replaces_fields [OF t this] obtain v ns where
    v: "\<And>k. case json_get k (JObj [(''mixed-port'', JInt 7890), (''rules'', JArr [JStr ''MATCH,DIRECT''])]) of
        None \<Rightarrow> json_get k v = json_get k (JObj (demo_output ''one'' ''x'')) | Some x \<Rightarrow> replaced demo_override k x (json_get k v)"
      "canonical_config_yaml demo_override v ns Effective = Ok r"
    unfolding demo_patch demo_config_document by auto
  have "json_get ''mixed-port'' v = Some (JInt 7890)" using v(1) [of "''mixed-port''"] by (simp add: replaced_def)
  moreover have "json_get ''secret'' v = Some (JStr ''one'')" using v(1) [of "''secret''"] by (simp add: demo_output_def)
  moreover have "json_get ''rules'' v = Some (JArr [JStr ''MATCH,DIRECT''])"
    using v(1) [of "''rules''"] demo_rule_normal by (auto simp: replaced_def simp del: normalize_rules.simps)
  ultimately show ?thesis using t v(2) by blast
qed

end
