(* ===== verification/Fs.thy ===== *)
theory Fs
  imports Store_Keys
begin

text \<open>
  Files (\<open>src/src/fsutil.rs\<close>): private directories, bounded reads, atomic writes, locks, and the contained walk of an asset path.

  The file system is a table of names and a table of files, so that two names may share a file.  Every system call
  takes the next element of a list of faults: it fails with the kind the fault gives, or it is carried out; a write that
  fails may have written part of its bytes.  A name is reported as missing only when it is.  A process that dies is one whose later calls all fail.  Directories are
  named by their path, which is what their handles stand for as long as nobody moves them.
\<close>

unbundle bit_operations_syntax

section \<open>The file system\<close>

type_synonym path = "string list"

record file_node =
  fn_bytes :: bytes
  fn_mode :: nat
  fn_uid :: nat
  fn_links :: nat

datatype dirent = DFile nat | DDir nat nat | DLink string | DSpecial

record world =
  w_names :: "(path \<times> dirent) list"
  w_files :: "nat \<Rightarrow> file_node"
  w_next :: nat
  w_faults :: "(io_kind \<times> nat) option list"
  w_nonces :: "bytes list"
  w_uid :: nat
  w_uncertain :: bool

type_synonym ('a, 'e) io = "world \<Rightarrow> ('a, 'e) result \<times> world"

definition io_ret :: "'a \<Rightarrow> ('a, 'e) io" where "io_ret x = (\<lambda>w. (Ok x, w))"
definition io_fail :: "'e \<Rightarrow> ('a, 'e) io" where "io_fail e = (\<lambda>w. (Err e, w))"

definition io_bind :: "('a, 'e) io \<Rightarrow> ('a \<Rightarrow> ('b, 'e) io) \<Rightarrow> ('b, 'e) io" where
  "io_bind m f = (\<lambda>w. case m w of (Ok x, w') \<Rightarrow> f x w' | (Err e, w') \<Rightarrow> (Err e, w'))"

definition io_err :: "('e \<Rightarrow> 'f) \<Rightarrow> ('a, 'e) io \<Rightarrow> ('a, 'f) io" where
  "io_err g m = (\<lambda>w. case m w of (Ok x, w') \<Rightarrow> (Ok x, w') | (Err e, w') \<Rightarrow> (Err (g e), w'))"

text \<open>A \<open>Result\<close> in the middle of effects, the outcome of a call as a value, and cleaning up whatever the outcome.\<close>

definition io_of :: "('a, 'e) result \<Rightarrow> ('a, 'e) io" where "io_of r = (\<lambda>w. (r, w))"
definition io_try :: "('a, 'e) io \<Rightarrow> (('a, 'e) result, 'f) io" where "io_try m = (\<lambda>w. case m w of (r, w') \<Rightarrow> (Ok r, w'))"

definition io_finally :: "('a, 'e) io \<Rightarrow> ('b, 'f) io \<Rightarrow> ('a, 'e) io" where
  "io_finally m c = (\<lambda>w. case m w of (r, w') \<Rightarrow> (r, snd (c w')))"

definition io_when :: "bool \<Rightarrow> (unit, 'e) io \<Rightarrow> (unit, 'e) io" where
  "io_when b m = (if b then m else io_ret ())"

section \<open>System calls\<close>

definition sys :: "('a, io_kind) io \<Rightarrow> ('a, io_kind) io" where
  "sys m w = (case w_faults w of
       [] \<Rightarrow> m w
     | None # fs \<Rightarrow> m (w\<lparr>w_faults := fs\<rparr>)
     | Some (k, _) # fs \<Rightarrow> (Err (if k = NotFound then OtherKind else k), w\<lparr>w_faults := fs\<rparr>))"

definition look :: "world \<Rightarrow> path \<Rightarrow> dirent option" where
  "look w p = map_of (w_names w) p"

definition add_name :: "path \<Rightarrow> dirent \<Rightarrow> world \<Rightarrow> world" where
  "add_name p e w = w\<lparr>w_names := (p, e) # w_names w\<rparr>"

definition del_name :: "path \<Rightarrow> world \<Rightarrow> world" where
  "del_name p w = w\<lparr>w_names := filter (\<lambda>(q, _). q \<noteq> p) (w_names w)\<rparr>"

definition set_links :: "(nat \<Rightarrow> nat) \<Rightarrow> nat \<Rightarrow> world \<Rightarrow> world" where
  "set_links f i w = w\<lparr>w_files := (w_files w)(i := (w_files w i)\<lparr>fn_links := f (fn_links (w_files w i))\<rparr>)\<rparr>"

fun is_file :: "dirent \<Rightarrow> bool" where
  "is_file (DFile _) = True"
| "is_file _ = False"

fun is_dir :: "dirent \<Rightarrow> bool" where
  "is_dir (DDir _ _) = True"
| "is_dir _ = False"

text \<open>A new name needs its directory.\<close>

definition has_dir :: "world \<Rightarrow> path \<Rightarrow> bool" where
  "has_dir w p \<longleftrightarrow> p \<noteq> [] \<and> (butlast p = [] \<or> (case look w (butlast p) of Some e \<Rightarrow> is_dir e | None \<Rightarrow> False))"

text \<open>Removing a name: a file loses a link.\<close>

definition drop_name :: "path \<Rightarrow> world \<Rightarrow> world" where
  "drop_name p w = (case look w p of
       Some (DFile i) \<Rightarrow> set_links (\<lambda>n. n - 1) i (del_name p w)
     | _ \<Rightarrow> del_name p w)"

text \<open>Opening without creating: the file, or nothing for what is not a regular file.\<close>

definition sys_open :: "path \<Rightarrow> bool \<Rightarrow> (nat option, io_kind) io" where
  "sys_open p write = sys (\<lambda>w. case look w p of
       None \<Rightarrow> (Err NotFound, w)
     | Some (DFile i) \<Rightarrow> (Ok (Some i), w)
     | Some (DDir _ _) \<Rightarrow> (if write then Err OtherKind else Ok None, w)
     | Some (DLink _) \<Rightarrow> (Err OtherKind, w)
     | Some DSpecial \<Rightarrow> (Ok None, w))"

definition sys_create :: "path \<Rightarrow> (nat option, io_kind) io" where
  "sys_create p = sys (\<lambda>w.
     if look w p \<noteq> None then (Err AlreadyExists, w)
     else if \<not> has_dir w p then (Err NotFound, w)
     else (Ok (Some (w_next w)),
           (add_name p (DFile (w_next w)) w)\<lparr>w_next := Suc (w_next w),
             w_files := (w_files w)(w_next w := \<lparr>fn_bytes = [], fn_mode = 0x180, fn_uid = w_uid w, fn_links = 1\<rparr>)\<rparr>))"

definition sys_open_dir :: "path \<Rightarrow> (nat \<times> nat, io_kind) io" where
  "sys_open_dir p = sys (\<lambda>w. case look w p of
       None \<Rightarrow> (Err NotFound, w)
     | Some (DDir mode uid) \<Rightarrow> (Ok (mode, uid), w)
     | _ \<Rightarrow> (Err OtherKind, w))"

definition sys_mkdir :: "path \<Rightarrow> (bool, io_kind) io" where
  "sys_mkdir p = sys (\<lambda>w. if look w p \<noteq> None then (Ok False, w)
     else if \<not> has_dir w p then (Err NotFound, w) else (Ok True, add_name p (DDir 0x1C0 (w_uid w)) w))"

definition sys_stat :: "path \<Rightarrow> (bool, io_kind) io" where
  "sys_stat p = sys (\<lambda>w. (Ok (look w p \<noteq> None), w))"

definition sys_fstat :: "nat \<Rightarrow> (file_node, io_kind) io" where
  "sys_fstat i = sys (\<lambda>w. (Ok (w_files w i), w))"

definition sys_read :: "nat \<Rightarrow> nat \<Rightarrow> (bytes, io_kind) io" where
  "sys_read i limit = sys (\<lambda>w. (Ok (take limit (fn_bytes (w_files w i))), w))"

definition append_file :: "nat \<Rightarrow> bytes \<Rightarrow> world \<Rightarrow> world" where
  "append_file i bs w = w\<lparr>w_files := (w_files w)(i := (w_files w i)\<lparr>fn_bytes := fn_bytes (w_files w i) @ bs\<rparr>)\<rparr>"

definition sys_write :: "nat \<Rightarrow> bytes \<Rightarrow> (unit, io_kind) io" where
  "sys_write i bs w = (case w_faults w of
       [] \<Rightarrow> (Ok (), append_file i bs w)
     | None # fs \<Rightarrow> (Ok (), append_file i bs (w\<lparr>w_faults := fs\<rparr>))
     | Some (k, n) # fs \<Rightarrow> (Err k, append_file i (take n bs) (w\<lparr>w_faults := fs\<rparr>)))"

definition sys_call :: "(unit, io_kind) io" where
  "sys_call = sys (io_ret ())"

abbreviation sys_sync :: "(unit, io_kind) io" where "sys_sync \<equiv> sys_call"

definition sys_unlink :: "path \<Rightarrow> (unit, io_kind) io" where
  "sys_unlink p = sys (\<lambda>w. case look w p of
       None \<Rightarrow> (Err NotFound, w)
     | Some (DDir _ _) \<Rightarrow> (Err OtherKind, w)
     | _ \<Rightarrow> (Ok (), drop_name p w))"

definition sys_link :: "path \<Rightarrow> path \<Rightarrow> (unit, io_kind) io" where
  "sys_link from to = sys (\<lambda>w. case look w from of
       Some (DFile i) \<Rightarrow> if look w to \<noteq> None then (Err AlreadyExists, w)
         else if \<not> has_dir w to then (Err NotFound, w) else (Ok (), set_links Suc i (add_name to (DFile i) w))
     | Some _ \<Rightarrow> (Err OtherKind, w)
     | None \<Rightarrow> (Err NotFound, w))"

definition under :: "path \<Rightarrow> path \<Rightarrow> bool" where
  "under d p \<longleftrightarrow> take (length d) p = d"

definition move_tree :: "path \<Rightarrow> path \<Rightarrow> world \<Rightarrow> world" where
  "move_tree from to w = w\<lparr>w_names := map (\<lambda>(p, e). (if under from p then to @ drop (length from) p else p, e)) (w_names w)\<rparr>"

definition rename_tree :: "path \<Rightarrow> path \<Rightarrow> (unit, io_kind) io" where
  "rename_tree from to w = (case look w to of
       None \<Rightarrow> if under from to then (Err OtherKind, w) else (Ok (), move_tree from to w)
     | Some e \<Rightarrow>
         if \<not> is_dir e then (Err OtherKind, w)
         else if from = to then (Ok (), w)
         else if under from to \<or> list_ex (\<lambda>(p, _). under to p \<and> p \<noteq> to) (w_names w) then (Err OtherKind, w)
         else (Ok (), move_tree from to (del_name to w)))"

definition move_file :: "path \<Rightarrow> path \<Rightarrow> dirent \<Rightarrow> world \<Rightarrow> world" where
  "move_file from to e w = add_name to e (del_name from (drop_name to w))"

definition rename_entry :: "path \<Rightarrow> path \<Rightarrow> dirent \<Rightarrow> (unit, io_kind) io" where
  "rename_entry from to e w = (case look w to of
       None \<Rightarrow> (Ok (), move_file from to e w)
     | Some e' \<Rightarrow>
         if is_dir e' then (Err OtherKind, w)
         else if e' = e \<and> is_file e then (Ok (), w)
         else (Ok (), move_file from to e w))"

definition sys_rename :: "path \<Rightarrow> path \<Rightarrow> (unit, io_kind) io" where
  "sys_rename from to = sys (\<lambda>w. case look w from of
       None \<Rightarrow> (Err NotFound, w)
     | Some e \<Rightarrow>
         if \<not> has_dir w to then (Err NotFound, w)
         else if is_dir e then rename_tree from to w
         else rename_entry from to e w)"

text \<open>\<open>getrandom\<close>: the bytes are part of the environment.\<close>

definition sys_random :: "nat \<Rightarrow> (bytes, io_kind) io" where
  "sys_random n = sys (\<lambda>w. case w_nonces w of
       [] \<Rightarrow> (Err OtherKind, w)
     | bs # rest \<Rightarrow> (if length bs = n then Ok bs else Err OtherKind, w\<lparr>w_nonces := rest\<rparr>))"

definition geteuid :: "(nat, 'e) io" where "geteuid = (\<lambda>w. (Ok (w_uid w), w))"

section \<open>Directories\<close>

definition component :: "string \<Rightarrow> (unit, io_kind) result" where
  "component name = (if single_component name then Ok () else Err InvalidData)"

definition hex_bytes :: "bytes \<Rightarrow> string" where
  "hex_bytes bs = concat (map (\<lambda>b. hex_pad 2 (unat b)) bs)"

definition nonce :: "(string, io_kind) io" where
  "nonce = io_bind (sys_random 16) (\<lambda>bs. io_ret (hex_bytes bs))"

definition check_metadata :: "nat \<Rightarrow> bool \<Rightarrow> nat \<Rightarrow> nat \<Rightarrow> nat \<Rightarrow> bool \<Rightarrow> (unit, io_kind) result" where
  "check_metadata euid directory mode uid links private =
     (if uid \<noteq> euid \<or> (\<not> directory \<and> links \<noteq> 1) then Err InvalidData
      else if private \<and> mode AND 0x3F \<noteq> 0 then Err InvalidData
      else Ok ())"

definition check_node :: "nat \<Rightarrow> file_node \<Rightarrow> bool \<Rightarrow> (unit, io_kind) result" where
  "check_node euid f private = check_metadata euid False (fn_mode f) (fn_uid f) (fn_links f) private"

definition check_file :: "nat option \<Rightarrow> bool \<Rightarrow> (nat, io_kind) io" where
  "check_file h private = (case h of
       None \<Rightarrow> sys (io_fail InvalidData)
     | Some i \<Rightarrow>
         io_bind (sys_fstat i) (\<lambda>f.
         io_bind geteuid (\<lambda>u.
         io_bind (io_of (check_node u f private)) (\<lambda>_. io_ret i))))"

definition open_checked_file :: "path \<Rightarrow> string \<Rightarrow> bool \<Rightarrow> bool \<Rightarrow> bool \<Rightarrow> (nat, io_kind) io" where
  "open_checked_file d name write exclusive private =
     io_bind (io_of (component name)) (\<lambda>_.
     io_bind (if exclusive then sys_create (d @ [name]) else sys_open (d @ [name]) write) (\<lambda>h.
     check_file h private))"

definition open_file :: "path \<Rightarrow> string \<Rightarrow> bool \<Rightarrow> bool \<Rightarrow> (nat, io_kind) io" where
  "open_file d name write exclusive = open_checked_file d name write exclusive True"

definition read_bounded :: "nat \<Rightarrow> nat \<Rightarrow> nat \<Rightarrow> (bytes, io_kind) io" where
  "read_bounded i limit forbidden =
     io_bind (sys_fstat i) (\<lambda>before.
     io_bind geteuid (\<lambda>u.
     io_bind (io_of (check_node u before False)) (\<lambda>_.
     if fn_mode before AND forbidden \<noteq> 0 \<or> limit < length (fn_bytes before) then io_fail InvalidData
     else io_bind (sys_read i (limit + 1)) (\<lambda>bs.
          io_bind (sys_fstat i) (\<lambda>after.
          if fn_links before \<noteq> fn_links after \<or> fn_uid before \<noteq> fn_uid after \<or> fn_mode before \<noteq> fn_mode after
             \<or> limit < length bs \<or> length bs \<noteq> length (fn_bytes after) \<or> length (fn_bytes before) \<noteq> length (fn_bytes after)
          then io_fail InvalidData else io_ret bs)))))"

definition secure_read :: "path \<Rightarrow> string \<Rightarrow> nat \<Rightarrow> (bytes, io_kind) io" where
  "secure_read d name limit = io_bind (open_file d name False False) (\<lambda>i. read_bounded i limit 0x3F)"

definition exists_name :: "path \<Rightarrow> string \<Rightarrow> (bool, io_kind) io" where
  "exists_name d name = io_bind (io_of (component name)) (\<lambda>_. sys_stat (d @ [name]))"

definition child :: "path \<Rightarrow> string \<Rightarrow> bool \<Rightarrow> (path, io_kind) io" where
  "child d name create =
     io_bind (io_of (component name)) (\<lambda>_.
     io_bind (if create then io_bind (sys_mkdir (d @ [name])) (\<lambda>made. io_when made sys_sync) else io_ret ()) (\<lambda>_.
     io_bind (sys_open_dir (d @ [name])) (\<lambda>(mode, uid).
     io_bind sys_call (\<lambda>_.
     io_bind geteuid (\<lambda>u.
     io_bind (io_of (check_metadata u True mode uid 1 True)) (\<lambda>_. io_ret (d @ [name])))))))"

definition write_new :: "path \<Rightarrow> string \<Rightarrow> bytes \<Rightarrow> (unit, io_kind) io" where
  "write_new d name bs =
     io_bind (open_file d name True True) (\<lambda>i. io_bind (sys_write i bs) (\<lambda>_. sys_sync))"

definition remove_file :: "path \<Rightarrow> string \<Rightarrow> (unit, io_kind) io" where
  "remove_file d name = io_bind (io_of (component name)) (\<lambda>_. sys_unlink (d @ [name]))"

definition rename_name :: "path \<Rightarrow> string \<Rightarrow> string \<Rightarrow> (unit, io_kind) io" where
  "rename_name d from to =
     io_bind (io_of (component from)) (\<lambda>_.
     io_bind (io_of (component to)) (\<lambda>_. sys_rename (d @ [from]) (d @ [to])))"

text \<open>The receipt of a visible write is the error of the directory sync, if there was one.\<close>

definition sync_receipt :: "(io_kind option, io_kind) io" where
  "sync_receipt = io_bind (io_try sys_sync) (\<lambda>r. io_ret (case r of Ok _ \<Rightarrow> None | Err e \<Rightarrow> Some e))"

definition atomic_write :: "path \<Rightarrow> string \<Rightarrow> bytes \<Rightarrow> (io_kind option, io_kind) io" where
  "atomic_write d name bs =
     io_bind (io_of (component name)) (\<lambda>_.
     io_bind (exists_name d name) (\<lambda>found.
     io_bind (io_when found (io_bind (open_file d name False False) (\<lambda>_. io_ret ()))) (\<lambda>_.
     io_bind nonce (\<lambda>n.
     let temp = ''.write-'' @ n
     in io_finally
          (io_bind (write_new d temp bs) (\<lambda>_. io_bind (rename_name d temp name) (\<lambda>_. sync_receipt)))
          (remove_file d temp)))))"

definition install_new :: "path \<Rightarrow> string \<Rightarrow> bytes \<Rightarrow> (io_kind option, io_kind) io" where
  "install_new d name bs =
     io_bind (io_of (component name)) (\<lambda>_.
     io_bind nonce (\<lambda>n.
     let temp = ''.install-'' @ n
     in io_finally
          (io_bind (write_new d temp bs) (\<lambda>_.
           io_bind (sys_link (d @ [temp]) (d @ [name])) (\<lambda>_.
           io_bind (remove_file d temp) (\<lambda>_. sync_receipt))))
          (remove_file d temp)))"

section \<open>Locks\<close>

definition validate_lock :: "nat \<Rightarrow> path \<Rightarrow> string \<Rightarrow> (unit, io_kind) io" where
  "validate_lock held d name =
     io_bind (open_file d name False False) (\<lambda>current.
     io_bind (sys_fstat held) (\<lambda>_.
     io_bind (sys_fstat current) (\<lambda>_.
     if held \<noteq> current then io_fail InvalidData else io_ret ())))"

definition create_lock :: "path \<Rightarrow> string \<Rightarrow> (unit, io_kind) io" where
  "create_lock d name =
     io_bind (io_try (open_file d name True True)) (\<lambda>r. case r of
         Ok _ \<Rightarrow> io_bind sys_sync (\<lambda>_. sys_sync)
       | Err e \<Rightarrow> if e = AlreadyExists then io_ret () else io_fail e)"

text \<open>Every call that finds a fault uses it up, so the loop that opens a lock file ends.\<close>

definition spends :: "('a, 'e) io \<Rightarrow> bool" where
  "spends m \<longleftrightarrow> (\<forall>w. length (w_faults (snd (m w))) \<le> length (w_faults w))"

lemma spends_bind: "spends m \<Longrightarrow> (\<And>x. spends (f x)) \<Longrightarrow> spends (io_bind m f)"
  unfolding spends_def io_bind_def by (auto split: prod.split result.split) (metis le_trans snd_conv)+

lemma spends_sys: "spends m \<Longrightarrow> spends (sys m)"
  unfolding spends_def
proof
  fix w
  assume m: "\<forall>w. length (w_faults (snd (m w))) \<le> length (w_faults w)"
  show "length (w_faults (snd (sys m w))) \<le> length (w_faults w)"
  proof (cases "w_faults w")
    case (Cons f fs)
    then show ?thesis using m [rule_format, of "w\<lparr>w_faults := fs\<rparr>"] by (auto simp: sys_def split: option.split)
  qed (use m [rule_format, of w] in \<open>simp add: sys_def\<close>)
qed

lemma spends_pure: "spends (io_ret x)" "spends (io_fail e)" "spends (io_of r)" "spends geteuid" "spends (sys_fstat i)" "spends sys_call"
  unfolding sys_fstat_def sys_call_def
  by (simp_all add: spends_def io_ret_def io_fail_def io_of_def geteuid_def) (simp_all add: spends_sys [unfolded spends_def])

lemma spends_check: "spends (check_file h private)"
  unfolding check_file_def by (cases h) (auto intro!: spends_bind spends_sys spends_pure)

lemma open_file_spends:
  assumes "open_file d name True False w = (Err NotFound, v)"
  shows "if w_faults w = [] then v = w \<and> look w (d @ [name]) = None \<and> single_component name else length (w_faults v) < length (w_faults w)"
proof (cases "w_faults w")
  case Nil
  then show ?thesis using assms
    by (auto simp: open_file_def open_checked_file_def io_bind_def io_of_def component_def sys_open_def sys_def check_file_def sys_fstat_def geteuid_def io_ret_def
        io_fail_def check_node_def check_metadata_def split: if_splits option.splits dirent.splits)
next
  case (Cons f fs)
  let ?u = "w\<lparr>w_faults := fs\<rparr>"
  have "v = ?u \<or> (\<exists>h. check_file h True ?u = (Err NotFound, v))"
    using assms Cons by (auto simp: open_file_def open_checked_file_def io_bind_def io_of_def component_def sys_open_def sys_def
        split: if_splits option.splits dirent.splits prod.splits result.splits)
  then have "length (w_faults v) \<le> length fs" using spends_check [unfolded spends_def, rule_format, of _ True ?u] by (auto dest!: arg_cong [where f = snd])
  then show ?thesis using Cons by simp
qed

lemma spends_new: "spends (open_file d name True True)"
  unfolding open_file_def open_checked_file_def sys_create_def
  by (auto intro!: spends_bind spends_pure spends_check spends_sys simp: spends_def [of "\<lambda>w. if _ w then _ w else _ w"] add_name_def)

lemma spends_try: "spends m \<Longrightarrow> spends (io_try m)"
  by (simp add: spends_def io_try_def case_prod_beta)

definition retry_lock :: "path \<Rightarrow> string \<Rightarrow> (unit, io_kind) io" where
  "retry_lock d name = io_bind (create_lock d name) (\<lambda>_. io_err (\<lambda>_. TimedOut) sys_call)"

lemma spends_retry: "spends (retry_lock d name)"
proof -
  have "spends (io_err g sys_call)" for g :: "io_kind \<Rightarrow> io_kind"
    using spends_pure(6) by (simp add: spends_def io_err_def case_prod_beta split: result.split)
  then show ?thesis unfolding retry_lock_def create_lock_def
    by (auto intro!: spends_bind spends_try spends_new spends_pure split: result.split)
qed

lemma retry_present:
  assumes "retry_lock d name w = (Ok u, v)" "w_faults w = []" "single_component name"
  shows "look v (d @ [name]) \<noteq> None"
  using assms
  by (auto simp: retry_lock_def create_lock_def io_bind_def io_try_def open_file_def open_checked_file_def io_of_def component_def sys_create_def sys_def
      check_file_def sys_fstat_def geteuid_def io_ret_def io_fail_def io_err_def sys_call_def look_def add_name_def split: if_splits prod.splits result.splits)

lemma lock_decreases:
  assumes "open_file d name True False w = (Err NotFound, v)" "retry_lock d name v = (Ok u, v')"
  shows "2 * length (w_faults v') + (if look v' (d @ [name]) = None then 1 else 0) < 2 * length (w_faults w) + (if look w (d @ [name]) = None then 1 else 0)"
proof -
  have l: "length (w_faults v') \<le> length (w_faults v)" using spends_retry [unfolded spends_def, rule_format, of d name v] assms(2) by simp
  show ?thesis
  proof (cases "w_faults w")
    case Nil
    then have "v = w" "look w (d @ [name]) = None" "single_component name" using open_file_spends [OF assms(1)] by auto
    then show ?thesis using retry_present [OF assms(2)] l Nil by auto
  next
    case Cons
    then show ?thesis using open_file_spends [OF assms(1)] l by auto
  qed
qed

function open_lock :: "path \<Rightarrow> string \<Rightarrow> (nat, io_kind) io" where
  "open_lock d name w = (case open_file d name True False w of
       (Ok i, v) \<Rightarrow> (Ok i, v)
     | (Err e, v) \<Rightarrow>
         if e \<noteq> NotFound then (Err e, v)
         else (case retry_lock d name v of
                 (Err e, v) \<Rightarrow> (Err e, v)
               | (Ok _, v) \<Rightarrow> open_lock d name v))"
  by pat_completeness auto
termination
  apply (relation "measure (\<lambda>(d, name, w). 2 * length (w_faults w) + (if look w (d @ [name]) = None then 1 else 0))")
   apply simp
  apply (simp only: in_measure prod.case)
  apply (rule lock_decreases, erule sym [THEN trans], simp, erule sym)
  done

declare open_lock.simps [simp del]

definition lock :: "path \<Rightarrow> string \<Rightarrow> (nat, io_kind) io" where
  "lock d name =
     io_bind (open_lock d name) (\<lambda>i.
     io_bind sys_call (\<lambda>_.
     io_bind (validate_lock i d name) (\<lambda>_. io_ret i)))"
end
