(* ===== verification/Fs_Facts.thy ===== *)
theory Fs_Facts
  imports Fs
begin

text \<open>
  Facts about the file operations: which names and files an operation leaves as they were, whatever system calls fail.
\<close>

named_theorems frames
named_theorems quiets

definition names_of :: "world \<Rightarrow> nat \<Rightarrow> nat" where
  "names_of w i = length (filter (\<lambda>(_, e). e = DFile i) (w_names w))"

definition wf_world :: "world \<Rightarrow> bool" where
  "wf_world w \<longleftrightarrow> distinct (map fst (w_names w)) \<and> (\<forall>p e. look w p = Some e \<longrightarrow> has_dir w p)
     \<and> (\<forall>i. names_of w i = (if i < w_next w then fn_links (w_files w i) else 0))"

datatype fsnode = NFile file_node | NOther dirent

definition node :: "world \<Rightarrow> path \<Rightarrow> fsnode option" where
  "node w p = (case look w p of None \<Rightarrow> None | Some (DFile i) \<Rightarrow> Some (NFile (w_files w i)) | Some e \<Rightarrow> Some (NOther e))"

definition single :: "fsnode \<Rightarrow> bool" where
  "single n = (case n of NFile f \<Rightarrow> fn_links f = 1 | _ \<Rightarrow> True)"

text \<open>What stays as it is: the nodes of \<open>P\<close>, and what is missing in the directories of \<open>S\<close>.\<close>

definition kept :: "path set \<Rightarrow> path set \<Rightarrow> world \<Rightarrow> world \<Rightarrow> bool" where
  "kept P S w w' \<longleftrightarrow> w_uid w' = w_uid w
     \<and> (\<forall>p\<in>P. \<forall>n. node w p = Some n \<longrightarrow> node w' p \<noteq> None \<and> (single n \<longrightarrow> node w' p = Some n))
     \<and> (\<forall>R\<in>S. \<forall>q. q \<noteq> [] \<longrightarrow> node w (R @ q) = None \<longrightarrow> node w' (R @ q) = None)"

definition frame :: "path set \<Rightarrow> path set \<Rightarrow> ('a, 'e) io \<Rightarrow> bool" where
  "frame P S m \<longleftrightarrow> (\<forall>w. wf_world w \<longrightarrow> (\<forall>R\<in>S. node w R \<noteq> None) \<longrightarrow> S \<subseteq> P \<longrightarrow> wf_world (snd (m w)) \<and> kept P S w (snd (m w)))"

definition same_fs :: "world \<Rightarrow> world \<Rightarrow> bool" where
  "same_fs w v \<longleftrightarrow> w_names v = w_names w \<and> w_files v = w_files w \<and> w_next v = w_next w \<and> w_uid v = w_uid w \<and> set (w_nonces v) \<subseteq> set (w_nonces w)"

definition quiet :: "('a, 'e) io \<Rightarrow> bool" where
  "quiet m \<longleftrightarrow> (\<forall>w. same_fs w (snd (m w)))"

lemma same_fs_refl [simp]: "same_fs w w" by (simp add: same_fs_def)

lemma same_fs_trans: "same_fs u v \<Longrightarrow> same_fs v w \<Longrightarrow> same_fs u w"
  by (auto simp: same_fs_def)

lemma same_fs_look: "same_fs w v \<Longrightarrow> look v = look w" by (simp add: same_fs_def look_def fun_eq_iff)
lemma same_fs_node: "same_fs w v \<Longrightarrow> node v = node w"
  using same_fs_look [of w v] by (simp add: node_def same_fs_def fun_eq_iff split: option.split dirent.split)
lemma same_fs_wf: "same_fs w v \<Longrightarrow> wf_world v = wf_world w"
  using same_fs_look [of w v] by (simp add: same_fs_def wf_world_def has_dir_def names_of_def)

lemma same_fs_kept: "same_fs w v \<Longrightarrow> kept P S w v"
  using same_fs_node [of w v] by (simp add: kept_def same_fs_def)

lemma kept_trans: "kept P S u v \<Longrightarrow> kept P S v w \<Longrightarrow> kept P S u w"
  by (auto simp: kept_def) (metis option.exhaust)+

lemma kept_present: "kept P S w w' \<Longrightarrow> S \<subseteq> P \<Longrightarrow> \<forall>R\<in>S. node w R \<noteq> None \<Longrightarrow> \<forall>R\<in>S. node w' R \<noteq> None"
  unfolding kept_def by (metis not_None_eq subsetD)

lemma frame_quiet: "quiet m \<Longrightarrow> frame P S m"
  unfolding frame_def quiet_def using same_fs_wf same_fs_kept by metis

lemma quiet_ret [quiets]: "quiet (io_ret x)" by (simp add: quiet_def io_ret_def)
lemma quiet_fail [quiets]: "quiet (io_fail e)" by (simp add: quiet_def io_fail_def)
lemma quiet_of [quiets]: "quiet (io_of r)" by (simp add: quiet_def io_of_def)

lemmas frame_pure [frames] = frame_quiet [OF quiet_ret] frame_quiet [OF quiet_fail] frame_quiet [OF quiet_of]

lemma frame_bind [frames]:
  assumes "frame P S m" "\<And>x. frame P S (f x)"
  shows "frame P S (io_bind m f)"
  unfolding frame_def
proof (intro allI impI)
  fix w
  assume w: "wf_world w" "\<forall>R\<in>S. node w R \<noteq> None" "S \<subseteq> P"
  obtain r w1 where m: "m w = (r, w1)" by (cases "m w")
  have k: "wf_world w1" "kept P S w w1" using assms(1) w m unfolding frame_def by (metis snd_conv)+
  then show "wf_world (snd (io_bind m f w)) \<and> kept P S w (snd (io_bind m f w))"
  proof (cases r)
    case (Ok x)
    have "wf_world (snd (f x w1)) \<and> kept P S w1 (snd (f x w1))"
      using assms(2) [of x] k kept_present [OF k(2) w(3,2)] w(3) unfolding frame_def by blast
    then show ?thesis using k(2) kept_trans m Ok by (auto simp: io_bind_def)
  next
    case (Err e)
    then show ?thesis using k m by (simp add: io_bind_def)
  qed
qed

lemma quiet_bind [quiets]:
  assumes "quiet m" "\<And>x. quiet (f x)"
  shows "quiet (io_bind m f)"
  unfolding quiet_def
proof
  fix w
  obtain r v where m: "m w = (r, v)" by (cases "m w")
  then have "same_fs w v" using assms(1) unfolding quiet_def by (metis snd_conv)
  moreover have "same_fs v (snd (f x v))" for x using assms(2) [of x] unfolding quiet_def by blast
  ultimately show "same_fs w (snd (io_bind m f w))" using m same_fs_trans by (auto simp: io_bind_def split: result.split)
qed

lemma snd_io_err [simp]: "snd (io_err g m w) = snd (m w)"
  by (auto simp: io_err_def split: prod.split result.split)

lemma snd_io_try [simp]: "snd (io_try m w) = snd (m w)"
  by (simp add: io_try_def case_prod_beta)

lemma frame_err [frames]: "frame P S m \<Longrightarrow> frame P S (io_err g m)" by (simp add: frame_def)
lemma frame_try [frames]: "frame P S m \<Longrightarrow> frame P S (io_try m)" by (simp add: frame_def)
lemma quiet_err [quiets]: "quiet m \<Longrightarrow> quiet (io_err g m)" by (simp add: quiet_def)
lemma quiet_try [quiets]: "quiet m \<Longrightarrow> quiet (io_try m)" by (simp add: quiet_def)
lemma frame_when [frames]: "frame P S m \<Longrightarrow> frame P S (io_when b m)" by (simp add: io_when_def frame_quiet quiet_ret)
lemma quiet_when [quiets]: "quiet m \<Longrightarrow> quiet (io_when b m)" by (simp add: io_when_def quiet_ret)

lemma frame_finally [frames]:
  assumes "frame P S m" "frame P S c"
  shows "frame P S (io_finally m c)"
proof -
  have "snd (io_finally m c w) = snd (io_bind (io_try m :: (_, unit) io) (\<lambda>_. io_try c) w)" for w
    by (simp add: io_finally_def io_bind_def io_try_def case_prod_beta)
  moreover have "frame P S (io_bind (io_try m :: (_, unit) io) (\<lambda>_. io_try c))" using assms by (intro frames)
  ultimately show ?thesis by (simp add: frame_def)
qed

lemma sys_cases:
  obtains v where "same_fs w v" "w_nonces v = w_nonces w" "sys m w = m v \<or> (\<exists>k. sys m w = (Err k, v))"
proof (cases "w_faults w")
  case Nil
  then show ?thesis using that [of w] by (simp add: sys_def)
next
  case (Cons f fs)
  then show ?thesis using that [of "w\<lparr>w_faults := fs\<rparr>"] by (auto simp: sys_def same_fs_def split: option.split)
qed

lemma quiet_sys [quiets]: "quiet m \<Longrightarrow> quiet (sys m)"
  unfolding quiet_def
proof (rule allI)
  fix w
  assume m: "\<forall>w. same_fs w (snd (m w))"
  obtain v where v: "same_fs w v" "sys m w = m v \<or> (\<exists>k. sys m w = (Err k, v))" using sys_cases by metis
  then show "same_fs w (snd (sys m w))" using m [rule_format, of v] by (auto simp: same_fs_def)
qed

lemma frame_sys [frames]: "frame P S m \<Longrightarrow> frame P S (sys m)"
  unfolding frame_def
proof (intro allI impI)
  fix w
  assume m: "\<forall>w. wf_world w \<longrightarrow> (\<forall>R\<in>S. node w R \<noteq> None) \<longrightarrow> S \<subseteq> P \<longrightarrow> wf_world (snd (m w)) \<and> kept P S w (snd (m w))"
    and w: "wf_world w" "\<forall>R\<in>S. node w R \<noteq> None" "S \<subseteq> P"
  obtain v where v: "same_fs w v" "sys m w = m v \<or> (\<exists>k. sys m w = (Err k, v))" using sys_cases by metis
  then have "wf_world (snd (m v)) \<and> kept P S v (snd (m v))" using m w same_fs_node [OF v(1)] same_fs_wf [OF v(1)] by metis
  then show "wf_world (snd (sys m w)) \<and> kept P S w (snd (sys m w))"
    using v same_fs_wf [OF v(1)] same_fs_kept [OF v(1)] kept_trans w(1) by (metis snd_conv)
qed

section \<open>Names and links\<close>

lemma look_add [simp]: "look (add_name p e w) q = (if q = p then Some e else look w q)"
  by (simp add: look_def add_name_def)

lemma map_of_filter_key: "map_of (filter (\<lambda>(k, _). P k) m) k = (if P k then map_of m k else None)"
  by (induction m) auto

lemma look_del [simp]: "look (del_name p w) q = (if q = p then None else look w q)"
  using map_of_filter_key [of "\<lambda>q. q \<noteq> p" "w_names w" q] by (simp add: look_def del_name_def)

lemma look_simps [simp]:
  "look (set_links f i w) = look w" "look (append_file i bs w) = look w"
  "look (w\<lparr>w_files := fs\<rparr>) = look w" "look (w\<lparr>w_next := n\<rparr>) = look w" "look (w\<lparr>w_faults := ft\<rparr>) = look w"
  by (simp_all add: look_def set_links_def append_file_def fun_eq_iff)

lemma look_drop [simp]: "look (drop_name p w) q = (if q = p then None else look w q)"
  by (simp add: drop_name_def split: option.split dirent.split)

lemma nonce_simps [simp]:
  "w_nonces (set_links f i w) = w_nonces w" "w_nonces (append_file i bs w) = w_nonces w" "w_nonces (add_name p e w) = w_nonces w" "w_nonces (del_name p w) = w_nonces w"
  by (simp_all add: set_links_def append_file_def add_name_def del_name_def)

lemma world_simps [simp]:
  "w_names (set_links f i w) = w_names w" "w_names (append_file i bs w) = w_names w"
  "w_next (set_links f i w) = w_next w" "w_next (append_file i bs w) = w_next w" "w_next (add_name p e w) = w_next w" "w_next (del_name p w) = w_next w"
  "w_files (add_name p e w) = w_files w" "w_files (del_name p w) = w_files w"
  "w_uid (set_links f i w) = w_uid w" "w_uid (append_file i bs w) = w_uid w" "w_uid (add_name p e w) = w_uid w" "w_uid (del_name p w) = w_uid w"
  "w_files (set_links f i w) j = (if j = i then (w_files w i)\<lparr>fn_links := f (fn_links (w_files w i))\<rparr> else w_files w j)"
  "w_files (append_file i bs w) j = (if j = i then (w_files w i)\<lparr>fn_bytes := fn_bytes (w_files w i) @ bs\<rparr> else w_files w j)"
  by (simp_all add: set_links_def append_file_def add_name_def del_name_def)

lemma drop_simps [simp]: "w_next (drop_name p w) = w_next w" "w_uid (drop_name p w) = w_uid w"
  by (simp_all add: drop_name_def split: option.split dirent.split)

lemma names_of_cong: "w_names v = w_names w \<Longrightarrow> names_of v = names_of w"
  by (simp add: names_of_def fun_eq_iff)

lemma names_of_add: "names_of (add_name p e w) i = (if e = DFile i then Suc (names_of w i) else names_of w i)"
  by (simp add: names_of_def add_name_def)

lemma count_del:
  "distinct (map fst m) \<Longrightarrow> length (filter (\<lambda>(_, e). e = x) (filter (\<lambda>(q, _). q \<noteq> p) m))
     = length (filter (\<lambda>(_, e). e = x) m) - (if map_of m p = Some x then 1 else 0)"
proof (induction m)
  case (Cons qe m)
  obtain q e where qe: "qe = (q, e)" by (cases qe)
  show ?case
  proof (cases "q = p")
    case True
    then have "filter (\<lambda>(q, _). q \<noteq> p) m = m" using Cons.prems qe by (force simp: filter_id_conv)
    then show ?thesis using True qe by simp
  next
    case False
    have "map_of m p = Some x \<Longrightarrow> filter (\<lambda>(_, e). e = x) m \<noteq> []" by (auto simp: filter_empty_conv dest: map_of_SomeD)
    then show ?thesis using False qe Cons by (auto simp: Suc_diff_le Suc_le_eq)
  qed
qed simp

lemma names_of_del:
  "distinct (map fst (w_names w)) \<Longrightarrow> names_of (del_name p w) i = names_of w i - (if look w p = Some (DFile i) then 1 else 0)"
  using count_del [of "w_names w" "DFile i" p] by (simp add: names_of_def del_name_def look_def)

lemma wf_file:
  assumes "wf_world w" "look w p = Some (DFile i)"
  shows "i < w_next w" "1 \<le> fn_links (w_files w i)"
proof -
  have "filter (\<lambda>(_, e). e = DFile i) (w_names w) \<noteq> []" using assms(2) by (auto simp: look_def filter_empty_conv dest: map_of_SomeD)
  then have "names_of w i \<noteq> 0" by (simp add: names_of_def)
  then show "i < w_next w" "1 \<le> fn_links (w_files w i)" using assms(1) by (auto simp: wf_world_def split: if_splits)
qed

lemma wf_shared:
  assumes "wf_world w" "look w p = Some (DFile i)" "look w q = Some (DFile i)" "fn_links (w_files w i) = 1"
  shows "q = p"
proof (rule ccontr)
  assume n: "q \<noteq> p"
  have d: "distinct (map fst (w_names w))" using assms(1) by (simp add: wf_world_def)
  have "look (del_name p w) q = Some (DFile i)" using assms(3) n by simp
  then have "filter (\<lambda>(_, e). e = DFile i) (w_names (del_name p w)) \<noteq> []" by (auto simp: look_def filter_empty_conv dest: map_of_SomeD)
  then have "0 < names_of (del_name p w) i" by (simp add: names_of_def)
  then have "1 < names_of w i" using names_of_del [OF d, of p i] assms(2) by simp
  then show False using assms(1,4) wf_file(1) [OF assms(1,2)] by (simp add: wf_world_def)
qed

lemma distinct_add: "look w p = None \<Longrightarrow> distinct (map fst (w_names w)) \<Longrightarrow> distinct (map fst (w_names (add_name p e w)))"
  by (simp add: add_name_def look_def map_of_eq_None_iff)

lemma distinct_del: "distinct (map fst (w_names w)) \<Longrightarrow> distinct (map fst (w_names (del_name p w)))"
  by (simp add: del_name_def distinct_map_filter)

lemma wf_dir:
  assumes "wf_world w" "look w p \<noteq> None" "under q p" "q \<noteq> []"
  shows "look w q \<noteq> None"
proof -
  have "look w (q @ r) \<noteq> None \<Longrightarrow> look w q \<noteq> None" for r
  proof (induction r rule: rev_induct)
    case (snoc x r)
    then obtain e where "look w (q @ r @ [x]) = Some e" by auto
    then have "has_dir w (q @ r @ [x])" using assms(1) by (auto simp: wf_world_def)
    then show ?case using snoc.IH assms(4) by (auto simp: has_dir_def butlast_append split: option.splits if_splits)
  qed simp
  moreover have "p = q @ drop (length q) p" using assms(3) unfolding under_def by (metis append_take_drop_id)
  ultimately show ?thesis using assms(2) by metis
qed

lemma has_dir_mono: "has_dir w p \<Longrightarrow> (\<And>d e. look w d = Some e \<Longrightarrow> is_dir e \<Longrightarrow> look v d = Some e) \<Longrightarrow> has_dir v p"
  by (auto simp: has_dir_def split: option.splits)

lemma wf_intro:
  assumes "distinct (map fst (w_names v))" "\<And>p e. look v p = Some e \<Longrightarrow> has_dir v p"
    "\<And>i. names_of v i = (if i < w_next v then fn_links (w_files v i) else 0)"
  shows "wf_world v"
  using assms by (simp add: wf_world_def)

lemma wf_names: "wf_world w \<Longrightarrow> distinct (map fst (w_names w))" "wf_world w \<Longrightarrow> look w p = Some e \<Longrightarrow> has_dir w p"
  "wf_world w \<Longrightarrow> names_of w i = (if i < w_next w then fn_links (w_files w i) else 0)"
  by (simp_all add: wf_world_def)

definition new_file :: "path \<Rightarrow> world \<Rightarrow> world" where
  "new_file p w = (add_name p (DFile (w_next w)) w)\<lparr>w_next := Suc (w_next w),
     w_files := (w_files w)(w_next w := \<lparr>fn_bytes = [], fn_mode = 0x180, fn_uid = w_uid w, fn_links = 1\<rparr>)\<rparr>"

lemma look_new_file [simp]: "look (new_file p w) q = (if q = p then Some (DFile (w_next w)) else look w q)"
  by (simp add: new_file_def look_def add_name_def)

lemma new_file_simps [simp]:
  "w_nonces (new_file p w) = w_nonces w" "w_next (new_file p w) = Suc (w_next w)" "w_uid (new_file p w) = w_uid w"
  "w_files (new_file p w) i = (if i = w_next w then \<lparr>fn_bytes = [], fn_mode = 0x180, fn_uid = w_uid w, fn_links = 1\<rparr> else w_files w i)"
  "w_names (new_file p w) = (p, DFile (w_next w)) # w_names w"
  by (simp_all add: new_file_def add_name_def)

lemma wf_new_file:
  assumes "wf_world w" "look w p = None" "has_dir w p"
  shows "wf_world (new_file p w)"
proof (rule wf_intro)
  show "distinct (map fst (w_names (new_file p w)))" using assms(2) wf_names(1) [OF assms(1)] by (simp add: look_def map_of_eq_None_iff)
  show "has_dir (new_file p w) q" if "look (new_file p w) q = Some e" for q e
    by (rule has_dir_mono [of w]) (use assms that wf_names(2) [OF assms(1)] in \<open>auto split: if_splits\<close>)
  show "names_of (new_file p w) i = (if i < w_next (new_file p w) then fn_links (w_files (new_file p w) i) else 0)" for i
    using wf_names(3) [OF assms(1), of i] by (auto simp: names_of_def)
qed

lemma wf_add_dir:
  assumes "wf_world w" "look w p = None" "has_dir w p"
  shows "wf_world (add_name p (DDir m u) w)"
proof (rule wf_intro)
  show "distinct (map fst (w_names (add_name p (DDir m u) w)))" using distinct_add assms(2) wf_names(1) [OF assms(1)] by blast
  show "has_dir (add_name p (DDir m u) w) q" if "look (add_name p (DDir m u) w) q = Some e" for q e
    by (rule has_dir_mono [of w]) (use assms that wf_names(2) [OF assms(1)] in \<open>auto split: if_splits\<close>)
  show "names_of (add_name p (DDir m u) w) i = (if i < w_next (add_name p (DDir m u) w) then fn_links (w_files (add_name p (DDir m u) w) i) else 0)" for i
    using wf_names(3) [OF assms(1), of i] by (simp add: names_of_add)
qed

lemma wf_append: "wf_world w \<Longrightarrow> wf_world (append_file i bs w)"
  by (rule wf_intro) (auto simp: wf_world_def names_of_def has_dir_def)

lemma wf_link:
  assumes "wf_world w" "look w from = Some (DFile i)" "look w to = None" "has_dir w to"
  shows "wf_world (set_links Suc i (add_name to (DFile i) w))"
proof (rule wf_intro)
  let ?v = "set_links Suc i (add_name to (DFile i) w)"
  show "distinct (map fst (w_names ?v))" using distinct_add [OF assms(3)] wf_names(1) [OF assms(1)] by simp
  show "has_dir ?v q" if "look ?v q = Some e" for q e
    by (rule has_dir_mono [of w]) (use assms that wf_names(2) [OF assms(1)] in \<open>auto split: if_splits\<close>)
  show "names_of ?v j = (if j < w_next ?v then fn_links (w_files ?v j) else 0)" for j
    using wf_names(3) [OF assms(1), of j] wf_file(1) [OF assms(1,2)] names_of_cong [of ?v "add_name to (DFile i) w"] by (auto simp: names_of_add)
qed

lemma names_of_drop:
  assumes "wf_world w"
  shows "names_of (drop_name p w) i = (if i < w_next w then fn_links (w_files (drop_name p w) i) else 0)"
proof (cases "look w p")
  case (Some e)
  then show ?thesis using names_of_del [OF wf_names(1) [OF assms], of p i] wf_names(3) [OF assms, of i] wf_file [OF assms, of p]
    names_of_cong [of "set_links (\<lambda>n. n - 1) _ (del_name p w)" "del_name p w"] by (cases e) (auto simp: drop_name_def)
qed (use names_of_del [OF wf_names(1) [OF assms], of p i] wf_names(3) [OF assms, of i] in \<open>simp add: drop_name_def\<close>)

lemma distinct_drop: "wf_world w \<Longrightarrow> distinct (map fst (w_names (drop_name p w)))"
  using distinct_del [OF wf_names(1)] by (simp add: drop_name_def split: option.split dirent.split)

lemma wf_drop:
  assumes "wf_world w" "look w p = Some e" "\<not> is_dir e"
  shows "wf_world (drop_name p w)"
proof (rule wf_intro)
  show "distinct (map fst (w_names (drop_name p w)))" by (rule distinct_drop [OF assms(1)])
  show "has_dir (drop_name p w) q" if "look (drop_name p w) q = Some e'" for q e'
    by (rule has_dir_mono [of w]) (use assms that wf_names(2) [OF assms(1)] in \<open>auto split: if_splits\<close>)
qed (use names_of_drop [OF assms(1)] in simp)

lemma del_absent: "look w p = None \<Longrightarrow> del_name p w = w"
  by (cases w) (force simp: del_name_def look_def map_of_eq_None_iff filter_id_conv)

lemma drop_absent: "look w p = None \<Longrightarrow> drop_name p w = w"
  by (simp add: drop_name_def del_absent)

lemma wf_move_file:
  assumes "wf_world w" "look w from = Some e" "\<not> is_dir e" "\<forall>e'. look w to = Some e' \<longrightarrow> \<not> is_dir e'" "has_dir w to" "from = to \<longrightarrow> \<not> is_file e"
  shows "wf_world (move_file from to e w)"
proof (rule wf_intro)
  let ?v = "move_file from to e w" and ?u = "drop_name to w"
  have d: "distinct (map fst (w_names ?u))" by (rule distinct_drop [OF assms(1)])
  show "distinct (map fst (w_names ?v))" using distinct_add [of "del_name from ?u" to e] distinct_del [OF d] by (simp add: move_file_def)
  show "has_dir ?v q" if "look ?v q = Some e'" for q e'
    by (rule has_dir_mono [of w]) (use assms that wf_names(2) [OF assms(1)] in \<open>auto simp: move_file_def split: if_splits\<close>)
  show "names_of ?v i = (if i < w_next ?v then fn_links (w_files ?v i) else 0)" for i
  proof -
    have l: "look ?u from = (if from = to then None else Some e)" using assms(2) by simp
    have "names_of (del_name from ?u) i = names_of ?u i - (if look ?u from = Some (DFile i) then 1 else 0)" by (rule names_of_del [OF d])
    moreover have "0 < names_of ?u i" if "look ?u from = Some (DFile i)"
    proof -
      have "filter (\<lambda>(_, e). e = DFile i) (w_names ?u) \<noteq> []" using that by (auto simp: look_def filter_empty_conv dest: map_of_SomeD)
      then show ?thesis by (simp add: names_of_def)
    qed
    ultimately show ?thesis using names_of_drop [OF assms(1), of to i] l assms(6) by (auto simp: move_file_def names_of_add split: if_splits)
  qed
qed

lemma under_append [simp]: "under d (d @ r)" by (simp add: under_def)
lemma underE: "under d p \<Longrightarrow> (\<And>r. p = d @ r \<Longrightarrow> thesis) \<Longrightarrow> thesis"
  unfolding under_def by (metis append_take_drop_id)

lemma under_length: "under d p \<Longrightarrow> length d \<le> length p" by (auto elim: underE)
lemma under_butlast: "under d (butlast p) \<Longrightarrow> p \<noteq> [] \<Longrightarrow> under d p"
  by (metis append.assoc append_butlast_last_id underE under_append)

lemma look_move:
  assumes "\<not> under from to" "\<not> under to from" "\<forall>p. look w p \<noteq> None \<longrightarrow> \<not> under to p"
  shows "look (move_tree from to w) q = (if under to q then look w (from @ drop (length to) q) else if under from q then None else look w q)"
proof -
  let ?f = "\<lambda>p. if under from p then to @ drop (length from) p else p"
  have "map_of (map (\<lambda>(p, e). (?f p, e)) m) q = (if under to q then map_of m (from @ drop (length to) q) else if under from q then None else map_of m q)"
    if "\<forall>p\<in>fst ` set m. \<not> under to p" for m :: "(path \<times> dirent) list"
    using that
  proof (induction m)
    case (Cons pe m)
    obtain p e where pe: "pe = (p, e)" by (cases pe)
    have "?f p = q \<longleftrightarrow> (if under to q then p = from @ drop (length to) q else \<not> under from q \<and> p = q)"
      using Cons.prems pe by (auto elim!: underE)
    then show ?case using Cons pe by auto
  qed simp
  moreover have "\<forall>p\<in>fst ` set (w_names w). \<not> under to p" using assms(3) by (auto simp: look_def map_of_eq_None_iff)
  ultimately show ?thesis by (simp add: look_def move_tree_def)
qed

lemma wf_move_tree:
  assumes "wf_world w" "\<not> under from to" "\<not> under to from" "\<forall>p. look w p \<noteq> None \<longrightarrow> \<not> under to p" "has_dir w to" "from \<noteq> []"
  shows "wf_world (move_tree from to w)"
proof (rule wf_intro)
  let ?v = "move_tree from to w" and ?f = "\<lambda>p. if under from p then to @ drop (length from) p else p"
  have keys: "\<forall>p\<in>set (map fst (w_names w)). \<not> under to p" using assms(4) by (auto simp: look_def map_of_eq_None_iff)
  have "inj_on ?f (set (map fst (w_names w)))" using keys by (auto simp: inj_on_def elim!: underE) (metis fst_conv under_append)+
  then have "distinct (map ?f (map fst (w_names w)))" using wf_names(1) [OF assms(1)] by (subst distinct_map) simp
  moreover have "map fst (w_names ?v) = map ?f (map fst (w_names w))" by (auto simp: move_tree_def)
  ultimately show "distinct (map fst (w_names ?v))" by simp
  note l = look_move [OF assms(2-4)]
  show "has_dir ?v q" if "look ?v q = Some e" for q e
  proof (cases "under to q")
    case True
    then obtain r where r: "q = to @ r" by (rule underE)
    show ?thesis
    proof (cases r rule: rev_cases)
      case Nil
      have "to \<noteq> []" using assms(5) by (simp add: has_dir_def)
      then have "\<not> under to (butlast to)" using under_length [of to "butlast to"] by (cases to) auto
      moreover have "\<not> under from (butlast to)" using under_butlast [of "from" to] assms(2) \<open>to \<noteq> []\<close> by blast
      ultimately show ?thesis using assms(5) r Nil l [of "butlast to"] by (auto simp: has_dir_def)
    next
      case (snoc r' x)
      then have "look w (from @ r' @ [x]) = Some e" using that r l [of q] by simp
      then have "has_dir w (from @ r' @ [x])" by (rule wf_names(2) [OF assms(1)])
      then show ?thesis using r snoc l [of "to @ r'"] assms(5,6) by (auto simp: has_dir_def butlast_append)
    qed
  next
    case False
    then have "look w q = Some e" "\<not> under from q" using that l [of q] by (auto split: if_splits)
    then have "has_dir w q" using wf_names(2) [OF assms(1)] by simp
    have "q \<noteq> []" using \<open>has_dir w q\<close> by (simp add: has_dir_def)
    then have "\<not> under to (butlast q)" "\<not> under from (butlast q)" using False \<open>\<not> under from q\<close> under_butlast by blast+
    then show ?thesis using \<open>has_dir w q\<close> l [of "butlast q"] by (simp add: has_dir_def)
  qed
  have "length (filter (\<lambda>(_, e). e = x) (map (\<lambda>(p, e). (?f p, e)) m)) = length (filter (\<lambda>(_, e). e = x) m)" for x and m :: "(path \<times> dirent) list"
    by (induction m) auto
  then show "names_of ?v i = (if i < w_next ?v then fn_links (w_files ?v i) else 0)" for i
    using wf_names(3) [OF assms(1), of i] by (simp add: names_of_def move_tree_def)
qed

section \<open>What the operations keep\<close>

definition fresh_in :: "path set \<Rightarrow> path \<Rightarrow> bool" where
  "fresh_in S p \<longleftrightarrow> (\<forall>R\<in>S. under R p \<longrightarrow> p = R)"

lemma fresh_in_sealed: "fresh_in S p \<Longrightarrow> R \<in> S \<Longrightarrow> q \<noteq> [] \<Longrightarrow> R @ q \<noteq> p"
  by (auto simp: fresh_in_def)

lemma node_None_iff: "node w p = None \<longleftrightarrow> look w p = None"
  by (simp add: node_def split: option.split dirent.split)

lemma node_look: "look v p = look w p \<Longrightarrow> (\<And>i. look w p = Some (DFile i) \<Longrightarrow> w_files v i = w_files w i) \<Longrightarrow> node v p = node w p"
  by (auto simp: node_def split: option.split dirent.split)

lemma kept_intro:
  assumes "w_uid v = w_uid w" "\<And>p. p \<in> P \<Longrightarrow> look w p \<noteq> None \<Longrightarrow> look v p = look w p"
    "\<And>p i. p \<in> P \<Longrightarrow> look w p = Some (DFile i) \<Longrightarrow> fn_links (w_files w i) = 1 \<Longrightarrow> w_files v i = w_files w i"
    "\<And>R q. R \<in> S \<Longrightarrow> q \<noteq> [] \<Longrightarrow> look w (R @ q) = None \<Longrightarrow> look v (R @ q) = None"
  shows "kept P S w v"
  unfolding kept_def
proof (intro conjI ballI allI impI)
  fix p n
  assume p: "p \<in> P" "node w p = Some n"
  then have l: "look v p = look w p" "look w p \<noteq> None" using assms(2) node_None_iff by (metis option.distinct(1))+
  then show "node v p \<noteq> None" using node_None_iff by metis
  show "node v p = Some n" if "single n"
  proof -
    have "node v p = node w p" by (rule node_look [OF l(1)]) (use p that assms(3) in \<open>auto simp: node_def single_def\<close>)
    then show ?thesis using p(2) by simp
  qed
qed (use assms(1,4) in \<open>auto simp: node_None_iff\<close>)

lemma frame_of_step:
  assumes "\<And>w. wf_world w \<Longrightarrow> \<forall>R\<in>S. look w R \<noteq> None \<Longrightarrow> S \<subseteq> P \<Longrightarrow> wf_world (snd (m w)) \<and> kept P S w (snd (m w))"
  shows "frame P S m"
  unfolding frame_def node_None_iff using assms by blast

lemma kept_new_file:
  assumes "wf_world w" "look w p = None" "fresh_in S p"
  shows "kept P S w (new_file p w)"
  using assms fresh_in_sealed [OF assms(3)] wf_file(1) [OF assms(1)] by (intro kept_intro) (auto simp del: One_nat_def split: if_splits)

lemma frame_create [frames]: "fresh_in S p \<Longrightarrow> frame P S (sys_create p)"
  unfolding sys_create_def new_file_def [symmetric]
  by (rule frame_sys, rule frame_of_step) (auto simp: wf_new_file kept_new_file same_fs_kept split: if_splits)

lemma frame_mkdir [frames]: "fresh_in S p \<Longrightarrow> frame P S (sys_mkdir p)"
  unfolding sys_mkdir_def
proof (rule frame_sys, rule frame_of_step)
  fix w
  assume f: "fresh_in S p" and w: "wf_world w"
  have "kept P S w (add_name p (DDir m u) w)" if "look w p = None" for m u
    using that fresh_in_sealed [OF f] by (intro kept_intro) auto
  then show "wf_world (snd (if look w p \<noteq> None then (Ok False, w) else if \<not> has_dir w p then (Err NotFound, w) else (Ok True, add_name p (DDir 0x1C0 (w_uid w)) w)))
      \<and> kept P S w (snd (if look w p \<noteq> None then (Ok False, w) else if \<not> has_dir w p then (Err NotFound, w) else (Ok True, add_name p (DDir 0x1C0 (w_uid w)) w)))"
    using w by (auto simp: wf_add_dir same_fs_kept)
qed

lemma quiet_calls [quiets]:
  "quiet (sys_open p write)" "quiet (sys_open_dir p)" "quiet (sys_stat p)" "quiet (sys_fstat i)" "quiet (sys_read i limit)" "quiet sys_call" "quiet (sys_random k)"
  unfolding sys_open_def sys_open_dir_def sys_stat_def sys_fstat_def sys_read_def sys_call_def sys_random_def io_ret_def
  by (rule quiet_sys, simp add: quiet_def same_fs_def subset_insertI split: option.split dirent.split list.split)+

lemmas frame_calls [frames] = quiet_calls [THEN frame_quiet]

lemma kept_drop:
  assumes "wf_world w" "p \<notin> P"
  shows "kept P S w (drop_name p w)"
proof (rule kept_intro)
  fix q i
  assume q: "q \<in> P" "look w q = Some (DFile i)" "fn_links (w_files w i) = 1"
  then show "w_files (drop_name p w) i = w_files w i"
    using wf_shared [OF assms(1) q(2) _ q(3), of p] assms(2) by (auto simp: drop_name_def split: option.split dirent.split)
qed (use assms in auto)

lemma frame_unlink [frames]: "p \<notin> P \<Longrightarrow> frame P S (sys_unlink p)"
  unfolding sys_unlink_def
  by (rule frame_sys, rule frame_of_step) (auto simp: wf_drop kept_drop same_fs_kept split: option.split dirent.split)

lemma frame_link [frames]: "p \<notin> P \<Longrightarrow> fresh_in S q \<Longrightarrow> frame P S (sys_link p q)"
  unfolding sys_link_def
proof (rule frame_sys, rule frame_of_step)
  fix w
  assume a: "p \<notin> P" "fresh_in S q" and w: "wf_world w"
  have "kept P S w (set_links Suc i (add_name q (DFile i) w))" if "look w p = Some (DFile i)" "look w q = None" for i
  proof (rule kept_intro)
    fix p' j
    assume "p' \<in> P" "look w p' = Some (DFile j)" "fn_links (w_files w j) = 1"
    then show "w_files (set_links Suc i (add_name q (DFile i) w)) j = w_files w j" using wf_shared [OF w _ that(1), of p'] a(1) by auto
  qed (use that fresh_in_sealed [OF a(2)] in auto)
  then show "wf_world (snd (case look w p of None \<Rightarrow> (Err NotFound, w)
       | Some (DFile i) \<Rightarrow> if look w q \<noteq> None then (Err AlreadyExists, w) else if \<not> has_dir w q then (Err NotFound, w) else (Ok (), set_links Suc i (add_name q (DFile i) w))
       | Some _ \<Rightarrow> (Err OtherKind, w)))
     \<and> kept P S w (snd (case look w p of None \<Rightarrow> (Err NotFound, w)
       | Some (DFile i) \<Rightarrow> if look w q \<noteq> None then (Err AlreadyExists, w) else if \<not> has_dir w q then (Err NotFound, w) else (Ok (), set_links Suc i (add_name q (DFile i) w))
       | Some _ \<Rightarrow> (Err OtherKind, w)))"
    using w by (auto simp: wf_link same_fs_kept split: option.split dirent.split)
qed

lemma kept_move_file:
  assumes "wf_world w" "look w p = Some e" "p \<notin> P" "q \<notin> P" "fresh_in S q"
  shows "kept P S w (move_file p q e w)"
proof (rule kept_intro)
  fix r i
  assume r: "r \<in> P" "look w r = Some (DFile i)" "fn_links (w_files w i) = 1"
  then show "w_files (move_file p q e w) i = w_files w i"
    using wf_shared [OF assms(1) r(2) _ r(3), of q] assms(4) by (auto simp: move_file_def drop_name_def split: option.split dirent.split)
qed (use assms fresh_in_sealed [OF assms(5)] in \<open>auto simp: move_file_def\<close>)

lemma rename_entry_ok:
  assumes "wf_world w" "look w p = Some e" "\<not> is_dir e" "has_dir w q" "p \<notin> P" "q \<notin> P" "fresh_in S q"
  shows "wf_world (snd (rename_entry p q e w)) \<and> kept P S w (snd (rename_entry p q e w))"
  using wf_move_file [OF assms(1-3) _ assms(4)] kept_move_file [OF assms(1,2,5-7)] assms
  by (cases "p = q"; cases "look w q") (auto simp: rename_entry_def same_fs_kept)

lemma kept_move_tree:
  assumes "wf_world w" "\<not> under p q" "\<not> under q p" "\<forall>r. look w r \<noteq> None \<longrightarrow> under q r \<longrightarrow> r = q"
    "\<forall>r\<in>P. \<not> under p r" "q \<notin> P" "\<forall>R\<in>S. \<not> under R q \<and> look w R \<noteq> None" "S \<subseteq> P"
  shows "kept P S w (move_tree p q (del_name q w))"
proof -
  have "\<forall>r. look (del_name q w) r \<noteq> None \<longrightarrow> \<not> under q r" using assms(4) by auto
  note l = look_move [OF assms(2,3) this]
  show ?thesis
  proof (rule kept_intro)
    show "look (move_tree p q (del_name q w)) r = look w r" if "r \<in> P" "look w r \<noteq> None" for r
    proof -
      have "r \<noteq> q" "\<not> under p r" using that assms(5,6) by auto
      moreover have "\<not> under q r" using that assms(4) \<open>r \<noteq> q\<close> by blast
      ultimately show ?thesis using l [of r] by simp
    qed
    show "look (move_tree p q (del_name q w)) (R @ r) = None" if "R \<in> S" "r \<noteq> []" "look w (R @ r) = None" for R r
    proof -
      have "R \<noteq> q" "\<not> under R q" using that assms(6,7,8) by auto
      then have "\<not> under q (R @ r)" using assms(4,7) that(1) by (metis append_eq_append_conv_if append_take_drop_id under_append under_def)
      then show ?thesis using l [of "R @ r"] that(3) by simp
    qed
  qed (simp_all add: move_tree_def)
qed

lemma rename_tree_ok:
  assumes "wf_world w" "look w p = Some e" "has_dir w q" "\<forall>r\<in>P. \<not> under p r" "q \<notin> P" "p \<noteq> []"
    "\<forall>R\<in>S. \<not> under R q \<and> look w R \<noteq> None" "S \<subseteq> P"
  shows "wf_world (snd (rename_tree p q w)) \<and> kept P S w (snd (rename_tree p q w))"
proof -
  have ok: "wf_world (move_tree p q (del_name q w)) \<and> kept P S w (move_tree p q (del_name q w))"
    if t: "\<not> under p q" "\<forall>r. look w r \<noteq> None \<longrightarrow> under q r \<longrightarrow> r = q" "p \<noteq> q" "look w q = None \<or> (\<exists>d. look w q = Some d \<and> is_dir d)"
  proof -
    have qp: "\<not> under q p" using t(2,3) assms(2) by auto
    have "wf_world (del_name q w)"
    proof (rule wf_intro)
      show "distinct (map fst (w_names (del_name q w)))" using distinct_del wf_names(1) assms(1) by blast
      show "has_dir (del_name q w) r" if r: "look (del_name q w) r = Some x" for r x
      proof -
        have "r \<noteq> q" "has_dir w r" using r wf_names(2) [OF assms(1)] by (auto split: if_splits)
        moreover have "butlast r \<noteq> q" if "butlast r \<noteq> []"
          using t(2) r \<open>r \<noteq> q\<close> that by (metis append_butlast_last_id butlast.simps(1) look_del option.distinct(1) under_append)
        ultimately show ?thesis by (auto simp: has_dir_def)
      qed
      show "names_of (del_name q w) i = (if i < w_next (del_name q w) then fn_links (w_files (del_name q w) i) else 0)" for i
        using names_of_del [OF wf_names(1) [OF assms(1)], of q i] wf_names(3) [OF assms(1), of i] t(4) by auto
    qed
    moreover have "has_dir (del_name q w) q" using assms(3) by (cases q rule: rev_cases) (auto simp: has_dir_def split: option.splits)
    ultimately have "wf_world (move_tree p q (del_name q w))" using t(2) qp by (intro wf_move_tree [OF _ t(1)]) (auto simp: assms(6))
    then show ?thesis using kept_move_tree [OF assms(1) t(1) qp t(2) assms(4,5,7,8)] by blast
  qed
  have q: "q \<noteq> []" using assms(3) by (simp add: has_dir_def)
  show ?thesis
  proof (cases "look w q")
    case None
    then have "\<forall>r. look w r \<noteq> None \<longrightarrow> under q r \<longrightarrow> r = q" "p \<noteq> q" using wf_dir [OF assms(1) _ _ q] assms(2) by auto
    then show ?thesis using ok None assms(1) by (auto simp: rename_tree_def del_absent same_fs_kept)
  next
    case (Some d)
    have "\<forall>r. look w r \<noteq> None \<longrightarrow> under q r \<longrightarrow> r = q" if "\<not> list_ex (\<lambda>(r, _). under q r \<and> r \<noteq> q) (w_names w)"
      using that by (auto simp: look_def list_ex_iff dest: map_of_SomeD)
    then show ?thesis using ok Some assms(1) by (auto simp: rename_tree_def same_fs_kept)
  qed
qed

lemma frame_rename [frames]:
  assumes "\<forall>r\<in>P. \<not> under p r" "q \<notin> P" "fresh_in S q" "p \<noteq> []"
  shows "frame P S (sys_rename p q)"
  unfolding sys_rename_def
proof (rule frame_sys, rule frame_of_step)
  fix w
  assume w: "wf_world w" "\<forall>R\<in>S. look w R \<noteq> None" "S \<subseteq> P"
  have "p \<notin> P" using assms(1) by (auto simp: under_def)
  have "\<forall>R\<in>S. \<not> under R q \<and> look w R \<noteq> None" using assms(2,3) w(2,3) by (auto simp: fresh_in_def)
  then show "wf_world (snd (case look w p of None \<Rightarrow> (Err NotFound, w)
       | Some e \<Rightarrow> if \<not> has_dir w q then (Err NotFound, w) else if is_dir e then rename_tree p q w else rename_entry p q e w))
     \<and> kept P S w (snd (case look w p of None \<Rightarrow> (Err NotFound, w)
       | Some e \<Rightarrow> if \<not> has_dir w q then (Err NotFound, w) else if is_dir e then rename_tree p q w else rename_entry p q e w))"
    using rename_tree_ok [OF w(1) _ _ assms(1,2,4) _ w(3)] rename_entry_ok [OF w(1) _ _ _ \<open>p \<notin> P\<close> assms(2,3)] w(1)
    by (auto simp: same_fs_kept split: option.split)
qed

lemma io_bind_cases:
  assumes "io_bind m f w = (r, w')"
  obtains e where "m w = (Err e, w')" "r = Err e" | x w1 where "m w = (Ok x, w1)" "f x w1 = (r, w')"
  using assms by (auto simp: io_bind_def split: prod.splits result.splits)

lemma quietD: "quiet m \<Longrightarrow> m w = (r, w') \<Longrightarrow> same_fs w w'"
  unfolding quiet_def by (metis snd_conv)

lemma quiet_euid [quiets]: "quiet geteuid"
  by (simp add: geteuid_def quiet_def)

lemma quiet_check [quiets]: "quiet (check_file h private)"
  unfolding check_file_def by (cases h) (auto intro!: quiets)

lemma sys_create_cases:
  assumes "sys_create p w = (r, w')"
  obtains e where "r = Err e" "same_fs w w'" | "r = Ok (Some (w_next w))" "look w p = None" "has_dir w p" "same_fs (new_file p w) w'"
proof -
  let ?m = "\<lambda>w. if look w p \<noteq> None then (Err AlreadyExists, w) else if \<not> has_dir w p then (Err NotFound, w) else (Ok (Some (w_next w)), new_file p w)"
  obtain v where v: "same_fs w v" "sys_create p w = ?m v \<or> (\<exists>k. sys_create p w = (Err k, v))"
    unfolding sys_create_def new_file_def [symmetric] by (rule sys_cases [of w ?m]) blast
  have l: "look v = look w" "has_dir v = has_dir w" "w_next v = w_next w" "same_fs (new_file p w) (new_file p v)"
    using same_fs_look [OF v(1)] v(1) by (auto simp: has_dir_def fun_eq_iff same_fs_def)
  show ?thesis
  proof (cases "\<exists>e. r = Err e")
    case True
    then have "same_fs w w'" using v assms by (auto split: if_splits)
    then show ?thesis using that(1) True by blast
  next
    case False
    then have "?m v = (r, w')" using v(2) assms by auto
    then show ?thesis using that(2) l False by (auto split: if_splits)
  qed
qed

lemma open_new_cases:
  assumes "open_file d name True True w = (r, w')"
  obtains e where "r = Err e" "same_fs w w'"
  | "look w (d @ [name]) = None" "has_dir w (d @ [name])" "same_fs (new_file (d @ [name]) w) w'" "\<forall>i. r = Ok i \<longrightarrow> i = w_next w"
proof -
  let ?p = "d @ [name]"
  from assms show ?thesis unfolding open_file_def open_checked_file_def
  proof (cases rule: io_bind_cases)
    case (1 e)
    then show ?thesis using that(1) by (auto simp: io_of_def)
  next
    case (2 u w1)
    from 2(1) have [simp]: "w1 = w" by (simp add: io_of_def)
    from 2(2) have "io_bind (sys_create ?p) (\<lambda>h. check_file h True) w = (r, w')" by simp
    then show ?thesis
    proof (cases rule: io_bind_cases)
      case (1 e)
      from 1(1) show ?thesis by (cases rule: sys_create_cases) (use that(1) 1(2) in auto)
    next
      case (2 h w2)
      from 2(1) show ?thesis
      proof (cases rule: sys_create_cases)
        case 2: 2
        have q: "same_fs w2 w'" using \<open>check_file h True w2 = (r, w')\<close> quietD [OF quiet_check] by blast
        have "\<forall>i. r = Ok i \<longrightarrow> i = w_next w" using \<open>check_file h True w2 = (r, w')\<close> 2(1)
          by (auto simp: check_file_def io_bind_def io_ret_def split: prod.splits result.splits)
        then show ?thesis using that(2) 2 q same_fs_trans by blast
      qed simp
    qed
  qed
qed

lemma sys_write_cases:
  assumes "sys_write i bs w = (r, w')"
  obtains X where "same_fs (append_file i X w) w'" "r = Ok () \<longrightarrow> X = bs"
  using assms by (auto simp: sys_write_def same_fs_def append_file_def split: list.splits option.splits intro: that [of bs] that)

lemma append_Nil_same: "same_fs (append_file i [] w) w"
  by (simp add: append_file_def same_fs_def fun_upd_idem)

lemma same_fs_append: "same_fs w v \<Longrightarrow> same_fs (append_file i X w) (append_file i X v)"
  by (simp add: append_file_def same_fs_def)

lemma write_new_cases:
  assumes "write_new d name bs w = (r, w')"
  obtains e where "r = Err e" "same_fs w w'"
  | X where "look w (d @ [name]) = None" "has_dir w (d @ [name])" "same_fs (append_file (w_next w) X (new_file (d @ [name]) w)) w'" "r = Ok () \<longrightarrow> X = bs"
proof -
  let ?p = "d @ [name]"
  from assms show ?thesis unfolding write_new_def
  proof (cases rule: io_bind_cases)
    case (1 e)
    from 1(1) show ?thesis
    proof (cases rule: open_new_cases)
      case 2
      then show ?thesis using that(2) [of "[]"] 1(2) same_fs_trans [OF append_Nil_same 2(3)] by simp
    qed (use that(1) 1 in auto)
  next
    case (2 i w1)
    from 2(1) show ?thesis
    proof (cases rule: open_new_cases)
      case n: 2
      have i: "i = w_next w" using n(4) by simp
      from 2(2) show ?thesis
      proof (cases rule: io_bind_cases)
        case (1 e)
        from 1(1) show ?thesis by (cases rule: sys_write_cases) (use that(2) n i 1(2) same_fs_append [OF n(3)] same_fs_trans in \<open>metis result.distinct(1)\<close>)
      next
        case s: (2 u w2)
        have "same_fs w2 w'" using s(2) quietD quiet_calls(6) by blast
        from s(1) show ?thesis
        proof (cases rule: sys_write_cases)
          case (1 X)
          then have "X = bs" by simp
          then show ?thesis using that(2) [OF n(1,2), of bs] 1(1) i same_fs_append [OF n(3)] same_fs_trans \<open>same_fs w2 w'\<close> by blast
        qed
      qed
    qed simp
  qed
qed

lemma frame_write_new [frames]:
  assumes "fresh_in S (d @ [name])"
  shows "frame P S (write_new d name bs)"
proof (rule frame_of_step)
  fix w
  assume w: "wf_world w"
  obtain r w' where m: "write_new d name bs w = (r, w')" by (cases "write_new d name bs w")
  then show "wf_world (snd (write_new d name bs w)) \<and> kept P S w (snd (write_new d name bs w))"
  proof (cases rule: write_new_cases)
    case (1 e)
    then show ?thesis using m w same_fs_kept same_fs_wf by auto
  next
    case (2 X)
    let ?v = "append_file (w_next w) X (new_file (d @ [name]) w)"
    have "wf_world ?v" using wf_append wf_new_file [OF w 2(1,2)] by blast
    moreover have "kept P S w ?v"
      using 2(1) fresh_in_sealed [OF assms] wf_file(1) [OF w] by (intro kept_intro) (auto simp del: One_nat_def split: if_splits)
    ultimately show ?thesis using m same_fs_wf [OF 2(3)] same_fs_kept [OF 2(3)] kept_trans by auto
  qed
qed

lemma quiet_open [quiets]: "quiet (open_checked_file d name write False private)"
  unfolding open_checked_file_def by (auto intro!: quiets)

lemma quiet_file [quiets]: "quiet (open_file d name write False)"
  unfolding open_file_def by (rule quiet_open)

lemma quiet_read_bounded [quiets]: "quiet (read_bounded i limit forbidden)"
  unfolding read_bounded_def by (auto intro!: quiets)

lemma quiet_secure [quiets]: "quiet (secure_read d name limit)" "quiet (exists_name d name)" "quiet nonce" "quiet sync_receipt" "quiet (validate_lock i d name)"
  unfolding secure_read_def exists_name_def nonce_def sync_receipt_def validate_lock_def by (auto intro!: quiets)

lemma quiet_child [quiets]: "quiet (child d name False)"
  unfolding child_def by (auto intro!: quiets)

lemmas frame_quiets [frames] = quiet_secure [THEN frame_quiet] quiet_child [THEN frame_quiet] quiet_euid [THEN frame_quiet] quiet_file [THEN frame_quiet]
  quiet_check [THEN frame_quiet]

lemma frame_open_new [frames]: "fresh_in S (d @ [name]) \<Longrightarrow> frame P S (open_file d name True True)"
  unfolding open_file_def open_checked_file_def by (auto intro!: frames)

lemma frame_child [frames]: "fresh_in S (d @ [name]) \<Longrightarrow> frame P S (child d name create)"
  unfolding child_def by (auto intro!: frames)

lemma frame_remove [frames]: "d @ [name] \<notin> P \<Longrightarrow> frame P S (remove_file d name)"
  unfolding remove_file_def by (auto intro!: frames)

lemma frame_rename_name [frames]:
  "\<forall>r\<in>P. \<not> under (d @ [a]) r \<Longrightarrow> d @ [b] \<notin> P \<Longrightarrow> fresh_in S (d @ [b]) \<Longrightarrow> frame P S (rename_name d a b)"
  unfolding rename_name_def by (auto intro!: frames)

text \<open>Names that only a write in progress has.\<close>

definition scratch :: "path set \<Rightarrow> path set \<Rightarrow> path \<Rightarrow> string \<Rightarrow> bool" where
  "scratch P S d prefix \<longleftrightarrow> (\<forall>k. (\<forall>r\<in>P. \<not> under (d @ [prefix @ k]) r) \<and> fresh_in S (d @ [prefix @ k]))"

lemma scratchD: "scratch P S d prefix \<Longrightarrow> (\<forall>r\<in>P. \<not> under (d @ [prefix @ k]) r) \<and> fresh_in S (d @ [prefix @ k]) \<and> d @ [prefix @ k] \<notin> P"
  unfolding scratch_def by (metis append_Nil2 under_append)

lemma frame_atomic_write [frames]:
  "scratch P S d ''.write-'' \<Longrightarrow> d @ [name] \<notin> P \<Longrightarrow> fresh_in S (d @ [name]) \<Longrightarrow> frame P S (atomic_write d name bs)"
  unfolding atomic_write_def Let_def by (intro frames) (use scratchD in fastforce)+

lemma frame_install_new [frames]:
  "scratch P S d ''.install-'' \<Longrightarrow> fresh_in S (d @ [name]) \<Longrightarrow> frame P S (install_new d name bs)"
  unfolding install_new_def Let_def by (intro frames) (use scratchD in fastforce)+

lemma frame_open_lock [frames]:
  assumes "fresh_in S (d @ [name])"
  shows "frame P S (open_lock d name)"
proof -
  have r: "frame P S (retry_lock d name)" unfolding retry_lock_def create_lock_def using assms by (auto intro!: frames split: result.split)
  show ?thesis
  proof (rule frame_of_step)
    fix w
    assume "wf_world w" "\<forall>R\<in>S. look w R \<noteq> None" "S \<subseteq> P"
    with r show "wf_world (snd (open_lock d name w)) \<and> kept P S w (snd (open_lock d name w))"
    proof (induction d name w rule: open_lock.induct)
      case (1 d name w)
      obtain x v where o: "open_file d name True False w = (x, v)" by (cases "open_file d name True False w")
      have v: "same_fs w v" using quietD [OF quiet_file o] .
      then have kv: "wf_world v" "kept P S w v" "\<forall>R\<in>S. node v R \<noteq> None" using 1 same_fs_wf same_fs_kept same_fs_node node_None_iff by metis+
      obtain y u where r: "retry_lock d name v = (y, u)" by (cases "retry_lock d name v")
      have u: "wf_world u" "kept P S v u" using 1(2) kv 1(5) r unfolding frame_def by (metis snd_conv)+
      then have "kept P S w u" "\<forall>R\<in>S. look u R \<noteq> None" using kept_trans kv kept_present [OF u(2) 1(5) kv(3)] node_None_iff by metis+
      then show ?case using 1(1) [OF o [symmetric] _ _ r [symmetric]] 1(2,5) u(1) kv kept_trans o r
        by (subst (1 2) open_lock.simps) (auto split: result.split)
    qed
  qed
qed

lemma frame_lock [frames]: "fresh_in S (d @ [name]) \<Longrightarrow> frame P S (lock d name)"
  unfolding lock_def by (auto intro!: frames)

section \<open>Calls that succeed\<close>

lemma sys_okD: "sys m w = (Ok x, v) \<Longrightarrow> \<exists>u. same_fs w u \<and> m u = (Ok x, v)"
  by (rule sys_cases [of w m]) auto

lemma open_dir_ok: "sys_open_dir p w = (Ok x, v) \<Longrightarrow> same_fs w v \<and> (\<exists>m u. look w p = Some (DDir m u))"
proof -
  assume a: "sys_open_dir p w = (Ok x, v)"
  then obtain u where "same_fs w u" "(case look u p of None \<Rightarrow> (Err NotFound, u) | Some (DDir mode uid) \<Rightarrow> (Ok (mode, uid), u) | _ \<Rightarrow> (Err OtherKind, u)) = (Ok x, v)"
    unfolding sys_open_dir_def by (auto dest!: sys_okD)
  then show ?thesis using same_fs_look [of w u] by (auto split: option.splits dirent.splits)
qed

lemma io_bind_okE:
  assumes "io_bind m f w = (Ok y, w')"
  obtains x v where "m w = (Ok x, v)" "f x v = (Ok y, w')"
  using assms by (auto simp: io_bind_def split: prod.splits result.splits)

lemma sys_fstat_ok: "sys_fstat i w = (Ok f, v) \<Longrightarrow> same_fs w v \<and> f = w_files w i"
  unfolding sys_fstat_def by (auto dest!: sys_okD simp: same_fs_def)

lemma sys_read_ok: "sys_read i limit w = (Ok bs, v) \<Longrightarrow> same_fs w v \<and> bs = take limit (fn_bytes (w_files w i))"
  unfolding sys_read_def by (auto dest!: sys_okD simp: same_fs_def)

lemma sys_open_ok: "sys_open p write w = (Ok (Some i), v) \<Longrightarrow> same_fs w v \<and> look w p = Some (DFile i)"
  unfolding sys_open_def by (auto dest!: sys_okD simp: same_fs_look split: option.splits dirent.splits if_splits)

lemma check_node_ok: "check_node u f private = Ok x \<Longrightarrow> fn_uid f = u \<and> fn_links f = 1 \<and> (private \<longrightarrow> fn_mode f AND 0x3F = 0)"
  by (auto simp: check_node_def check_metadata_def split: if_splits)

lemma check_file_ok:
  assumes "check_file h private w = (Ok i, v)"
  shows "h = Some i \<and> same_fs w v \<and> fn_uid (w_files w i) = w_uid w \<and> fn_links (w_files w i) = 1 \<and> (private \<longrightarrow> fn_mode (w_files w i) AND 0x3F = 0)"
proof (cases h)
  case None
  then show ?thesis using assms by (auto simp: check_file_def io_fail_def dest!: sys_okD)
next
  case (Some j)
  obtain f w1 where "sys_fstat j w = (Ok f, w1)" "check_node (w_uid w1) f private = Ok ()" "v = w1" "i = j"
    using assms Some unfolding check_file_def by (auto simp: geteuid_def io_of_def io_ret_def elim!: io_bind_okE)
  then show ?thesis using Some sys_fstat_ok [of j w f w1] check_node_ok by (auto simp: same_fs_def)
qed

lemma read_bounded_ok:
  assumes "read_bounded i limit forbidden w = (Ok bs, v)"
  shows "same_fs w v \<and> bs = fn_bytes (w_files w i) \<and> length bs \<le> limit"
proof -
  obtain f w1 w2 where f: "sys_fstat i w = (Ok f, w1)" "length (fn_bytes f) \<le> limit" "sys_read i (limit + 1) w1 = (Ok bs, w2)" "\<exists>g. sys_fstat i w2 = (Ok g, v)"
    using assms unfolding read_bounded_def by (auto simp: geteuid_def io_of_def io_ret_def io_fail_def elim!: io_bind_okE split: if_splits)
  then obtain g where g: "sys_fstat i w2 = (Ok g, v)" by blast
  note a = sys_fstat_ok [OF f(1)] and b = sys_read_ok [OF f(3)] and c = sys_fstat_ok [OF g]
  have "same_fs w v" using a b c same_fs_trans by blast
  then show ?thesis using a b f(2) by (auto simp: same_fs_def)
qed
end
