(* ===== verification/Fs_Logic.thy ===== *)
theory Fs_Logic
  imports Fs_Facts
begin

text \<open>
  Names that an operation leaves alone: \<open>keeps N m\<close> says that the names of \<open>N\<close>, present or missing, and the bytes behind them are the
  same after \<open>m\<close>, whatever system calls fail.
\<close>

named_theorems keepings

section \<open>Names left alone\<close>

definition same_at :: "path set \<Rightarrow> world \<Rightarrow> world \<Rightarrow> bool" where
  "same_at N w v \<longleftrightarrow> w_uid v = w_uid w \<and> set (w_nonces v) \<subseteq> set (w_nonces w)
     \<and> (\<forall>p\<in>N. look v p = look w p \<and> (\<forall>i. look w p = Some (DFile i) \<longrightarrow> fn_bytes (w_files v i) = fn_bytes (w_files w i)))"

definition keeps :: "path set \<Rightarrow> ('a, 'e) io \<Rightarrow> bool" where
  "keeps N m \<longleftrightarrow> (\<forall>w. wf_world w \<longrightarrow> wf_world (snd (m w)) \<and> same_at N w (snd (m w)))"

lemma same_at_fs: "same_fs w v \<Longrightarrow> same_at N w v"
  using same_fs_look [of w v] by (simp add: same_fs_def same_at_def)

lemma same_at_trans: "same_at N u v \<Longrightarrow> same_at N v w \<Longrightarrow> same_at N u w"
  unfolding same_at_def by (metis subset_trans)

lemma keeps_quiet: "quiet m \<Longrightarrow> keeps N m"
  unfolding keeps_def quiet_def using same_fs_wf same_at_fs by metis

lemma keepsD: "keeps N m \<Longrightarrow> m w = (r, v) \<Longrightarrow> wf_world w \<Longrightarrow> wf_world v \<and> same_at N w v"
  unfolding keeps_def by (metis snd_conv)

lemmas keeps_pure [keepings] = quiet_ret [THEN keeps_quiet] quiet_fail [THEN keeps_quiet] quiet_of [THEN keeps_quiet] quiet_euid [THEN keeps_quiet]
  quiet_calls [THEN keeps_quiet] quiet_check [THEN keeps_quiet] quiet_file [THEN keeps_quiet] quiet_secure [THEN keeps_quiet] quiet_child [THEN keeps_quiet]

lemma keeps_bind [keepings]:
  assumes "keeps N m" "\<And>x. keeps N (f x)"
  shows "keeps N (io_bind m f)"
  unfolding keeps_def
proof (intro allI impI)
  fix w
  assume w: "wf_world w"
  obtain r v where m: "m w = (r, v)" by (cases "m w")
  have v: "wf_world v" "same_at N w v" using keepsD [OF assms(1) m w] by auto
  moreover have "wf_world (snd (f x v)) \<and> same_at N v (snd (f x v))" for x using assms(2) [of x] v(1) unfolding keeps_def by blast
  ultimately show "wf_world (snd (io_bind m f w)) \<and> same_at N w (snd (io_bind m f w))"
    using m same_at_trans by (auto simp: io_bind_def split: result.split)
qed

lemma keeps_err [keepings]: "keeps N m \<Longrightarrow> keeps N (io_err g m)" by (simp add: keeps_def)
lemma keeps_try [keepings]: "keeps N m \<Longrightarrow> keeps N (io_try m)" by (simp add: keeps_def)
lemma keeps_when [keepings]: "keeps N m \<Longrightarrow> keeps N (io_when b m)" by (simp add: io_when_def keeps_quiet quiet_ret)

lemma keeps_finally [keepings]:
  assumes "keeps N m" "keeps N c"
  shows "keeps N (io_finally m c)"
proof -
  have "snd (io_finally m c w) = snd (io_bind (io_try m :: (_, unit) io) (\<lambda>_. io_try c) w)" for w
    by (simp add: io_finally_def io_bind_def io_try_def case_prod_beta)
  moreover have "keeps N (io_bind (io_try m :: (_, unit) io) (\<lambda>_. io_try c))" using assms by (intro keepings)
  ultimately show ?thesis by (simp add: keeps_def)
qed

lemma keeps_step:
  assumes "\<And>w. wf_world w \<Longrightarrow> same_at N w (snd (m w))" "frame {} {} m"
  shows "keeps N m"
  using assms unfolding keeps_def frame_def by blast

lemma keeps_sys:
  assumes "keeps N m"
  shows "keeps N (sys m)"
  unfolding keeps_def
proof (intro allI impI)
  fix w
  assume w: "wf_world w"
  obtain v where v: "same_fs w v" "sys m w = m v \<or> (\<exists>k. sys m w = (Err k, v))" using sys_cases by metis
  have "wf_world (snd (m v)) \<and> same_at N v (snd (m v))" using assms w same_fs_wf [OF v(1)] unfolding keeps_def by blast
  then show "wf_world (snd (sys m w)) \<and> same_at N w (snd (sys m w))"
    using v same_fs_wf [OF v(1)] same_at_fs [OF v(1)] same_at_trans w by (metis snd_conv)
qed

lemma sys_same_at:
  assumes "\<And>w. wf_world w \<Longrightarrow> same_at N w (snd (m w))" "wf_world w"
  shows "same_at N w (snd (sys m w))"
proof -
  obtain v where v: "same_fs w v" "sys m w = m v \<or> (\<exists>k. sys m w = (Err k, v))" using sys_cases by metis
  have "same_at N v (snd (m v))" using assms same_fs_wf [OF v(1)] by blast
  then show ?thesis using v same_at_fs [OF v(1)] same_at_trans by (metis snd_conv)
qed

lemma fresh_in_empty [simp]: "fresh_in {} p" by (simp add: fresh_in_def)

lemma same_at_new:
  assumes "wf_world w" "p \<notin> N"
  shows "same_at N w (append_file (w_next w) X (new_file p w))"
  using assms wf_file(1) [OF assms(1)] by (auto simp: same_at_def)

lemma append_new_Nil: "same_fs (new_file p w) (append_file (w_next w) [] (new_file p w))"
  by (simp add: same_fs_def append_file_def fun_eq_iff)

lemma keeps_create [keepings]:
  assumes "p \<notin> N"
  shows "keeps N (sys_create p)"
proof (rule keeps_step)
  show "frame {} {} (sys_create p)" by (intro frames) simp
  fix w
  assume w: "wf_world w"
  obtain r v where m: "sys_create p w = (r, v)" by (cases "sys_create p w")
  then show "same_at N w (snd (sys_create p w))"
  proof (cases rule: sys_create_cases)
    case 2
    have "same_at N w (new_file p w)" using assms wf_file(1) [OF w] by (auto simp: same_at_def)
    then show ?thesis using m same_at_trans same_at_fs [OF 2(4)] by auto
  qed (use m same_at_fs in auto)
qed

lemma keeps_mkdir [keepings]:
  assumes "p \<notin> N"
  shows "keeps N (sys_mkdir p)"
proof (rule keeps_step)
  show "frame {} {} (sys_mkdir p)" by (intro frames) simp
  show "same_at N w (snd (sys_mkdir p w))" if "wf_world w" for w
    unfolding sys_mkdir_def by (rule sys_same_at [OF _ that]) (use assms in \<open>auto simp: same_at_def\<close>)
qed

lemma keeps_unlink [keepings]:
  assumes "p \<notin> N"
  shows "keeps N (sys_unlink p)"
proof (rule keeps_step)
  show "frame {} {} (sys_unlink p)" by (intro frames) simp
  show "same_at N w (snd (sys_unlink p w))" if "wf_world w" for w
    unfolding sys_unlink_def
    by (rule sys_same_at [OF _ that]) (use assms in \<open>auto simp: same_at_def drop_name_def split: option.split dirent.split\<close>)
qed

lemma keeps_link [keepings]:
  assumes "q \<notin> N"
  shows "keeps N (sys_link p q)"
proof (rule keeps_step)
  show "frame {} {} (sys_link p q)" by (intro frames) simp_all
  show "same_at N w (snd (sys_link p q w))" if "wf_world w" for w
    unfolding sys_link_def
    by (rule sys_same_at [OF _ that]) (use assms in \<open>auto simp: same_at_def split: option.split dirent.split\<close>)
qed

lemma same_at_move_file:
  assumes "look w p = Some e" "p \<notin> N" "q \<notin> N"
  shows "same_at N w (move_file p q e w)"
  using assms by (auto simp: same_at_def move_file_def drop_name_def split: option.split dirent.split)

lemma look_renamed:
  assumes "wf_world w" "look w p \<noteq> None" "\<not> under p q" "p \<noteq> q" "q \<noteq> []" "\<forall>r. look w r \<noteq> None \<longrightarrow> under q r \<longrightarrow> r = q"
  shows "look (move_tree p q (del_name q w)) r = (if under q r then look (del_name q w) (p @ drop (length q) r) else if under p r then None else look w r)"
proof -
  have qp: "\<not> under q p" using assms(2,4,6) by blast
  have "\<forall>r. look (del_name q w) r \<noteq> None \<longrightarrow> \<not> under q r" using assms(6) by auto
  then show ?thesis using look_move [OF assms(3) qp, of "del_name q w" r] by (auto simp: under_def)
qed

lemma rename_tree_cases:
  assumes "rename_tree p q w = (r, v)" "wf_world w" "look w p \<noteq> None" "q \<noteq> []"
  obtains "v = w" | "r = Ok ()" "v = move_tree p q (del_name q w)" "\<not> under p q" "p \<noteq> q" "\<forall>r. look w r \<noteq> None \<longrightarrow> under q r \<longrightarrow> r = q"
proof (cases "v = w")
  case False
  have e: "\<forall>r. look w r \<noteq> None \<longrightarrow> under q r \<longrightarrow> r = q" if "look w q = None \<or> \<not> list_ex (\<lambda>(r, _). under q r \<and> r \<noteq> q) (w_names w)"
    using that
  proof
    assume "look w q = None"
    then show ?thesis using wf_dir [OF assms(2) _ _ assms(4)] by blast
  qed (auto simp: look_def list_ex_iff dest: map_of_SomeD)
  show ?thesis
  proof (cases "look w q")
    case None
    then have "p \<noteq> q" using assms(3) by auto
    then show ?thesis using that(2) e None False assms(1) by (auto simp: rename_tree_def del_absent split: if_splits)
  next
    case (Some d)
    then show ?thesis using that(2) e False assms(1) by (auto simp: rename_tree_def split: if_splits)
  qed
qed (rule that(1))

lemma same_at_rename:
  assumes "wf_world w" "\<forall>r\<in>N. \<not> under p r \<and> \<not> under q r"
  shows "same_at N w (snd (case look w p of None \<Rightarrow> (Err NotFound, w)
       | Some e \<Rightarrow> if \<not> has_dir w q then (Err NotFound, w) else if is_dir e then rename_tree p q w else rename_entry p q e w))"
proof (cases "look w p")
  case None
  then show ?thesis by (simp add: same_at_fs)
next
  case (Some e)
  have n: "p \<notin> N" "q \<notin> N" using assms(2) by (auto simp: under_def)
  show ?thesis
  proof (cases "has_dir w q \<and> is_dir e")
    case True
    then have q: "q \<noteq> []" by (simp add: has_dir_def)
    obtain r v where t: "rename_tree p q w = (r, v)" by (cases "rename_tree p q w")
    have s: "look w p \<noteq> None" using Some by simp
    from t assms(1) s q have "same_at N w v"
    proof (cases rule: rename_tree_cases)
      case 2
      then show ?thesis using assms(2) look_renamed [OF assms(1) s 2(3,4) q 2(5)] by (auto simp: same_at_def move_tree_def del_name_def)
    qed (simp add: same_at_fs)
    then show ?thesis using Some True t by simp
  next
    case False
    then show ?thesis using Some same_at_move_file [OF Some n] by (auto simp: rename_entry_def same_at_fs split: option.split)
  qed
qed

lemma keeps_rename [keepings]:
  assumes "\<forall>r\<in>N. \<not> under p r \<and> \<not> under q r" "p \<noteq> []"
  shows "keeps N (sys_rename p q)"
proof (rule keeps_step)
  show "frame {} {} (sys_rename p q)" by (intro frames) (simp_all add: assms)
  show "same_at N w (snd (sys_rename p q w))" if "wf_world w" for w
    unfolding sys_rename_def by (rule sys_same_at [OF _ that]) (rule same_at_rename [OF _ assms(1)])
qed

lemma keeps_write_new [keepings]:
  assumes "d @ [name] \<notin> N"
  shows "keeps N (write_new d name bs)"
proof (rule keeps_step)
  show "frame {} {} (write_new d name bs)" by (intro frames) simp
  fix w
  assume w: "wf_world w"
  obtain r v where m: "write_new d name bs w = (r, v)" by (cases "write_new d name bs w")
  then show "same_at N w (snd (write_new d name bs w))"
  proof (cases rule: write_new_cases)
    case (2 X)
    then show ?thesis using m same_at_new [OF w assms, of X] same_at_fs same_at_trans by (metis snd_conv)
  qed (use m same_at_fs in auto)
qed

lemma keeps_open_new [keepings]: "d @ [name] \<notin> N \<Longrightarrow> keeps N (open_file d name True True)"
  unfolding open_file_def open_checked_file_def by (auto intro!: keepings)

lemma keeps_child [keepings]: "d @ [name] \<notin> N \<Longrightarrow> keeps N (child d name create)"
  unfolding child_def by (auto intro!: keepings)

lemma keeps_remove [keepings]: "d @ [name] \<notin> N \<Longrightarrow> keeps N (remove_file d name)"
  unfolding remove_file_def by (auto intro!: keepings)

lemma keeps_rename_name [keepings]:
  "\<forall>r\<in>N. \<not> under (d @ [a]) r \<and> \<not> under (d @ [b]) r \<Longrightarrow> keeps N (rename_name d a b)"
  unfolding rename_name_def by (auto intro!: keepings)

lemma keeps_install_new [keepings]:
  "d @ [name] \<notin> N \<Longrightarrow> (\<And>k. d @ [''.install-'' @ k] \<notin> N) \<Longrightarrow> keeps N (install_new d name bs)"
  unfolding install_new_def Let_def by (intro keepings) auto

lemma keeps_lock [keepings]:
  assumes "d @ [name] \<notin> N"
  shows "keeps N (lock d name)"
proof -
  have r: "keeps N (retry_lock d name)" unfolding retry_lock_def create_lock_def using assms by (auto intro!: keepings split: result.split)
  have "keeps N (open_lock d name)"
  proof (rule keeps_step)
    show "frame {} {} (open_lock d name)" by (rule frame_open_lock) simp
    fix w
    assume "wf_world w"
    with r show "same_at N w (snd (open_lock d name w))"
    proof (induction d name w rule: open_lock.induct)
      case (1 d name w)
      obtain x v where o: "open_file d name True False w = (x, v)" by (cases "open_file d name True False w")
      have v: "same_fs w v" using quietD [OF quiet_file o] .
      then have kv: "wf_world v" "same_at N w v" using 1(3) same_fs_wf same_at_fs by metis+
      obtain y u where r: "retry_lock d name v = (y, u)" by (cases "retry_lock d name v")
      have u: "wf_world u" "same_at N w u" using keepsD [OF 1(2) r kv(1)] kv(2) same_at_trans by auto
      then show ?case using 1(1) [OF o [symmetric] _ _ r [symmetric]] 1(2) kv same_at_trans o r
        by (subst open_lock.simps) (auto split: result.split)
    qed
  qed
  then show ?thesis unfolding lock_def by (auto intro!: keepings)
qed

end
