(* ===== verification/Fs_Walk.thy ===== *)
theory Fs_Walk
  imports Fs_Logic
begin

text \<open>
  Reading an asset below a fixed directory (\<open>src/src/fsutil.rs\<close>, \<open>read_contained\<close>): the path is walked one component at a time,
  symbolic links are expanded by hand, and no step may leave the directory.  The stack of open directories of the source
  is the list of names walked so far.  \<open>root.canonicalize()\<close> is the operating system's: the root is given resolved.
\<close>

section \<open>The walk\<close>

definition blank_piece :: "string \<Rightarrow> bool" where
  "blank_piece p \<longleftrightarrow> p = [] \<or> p = ''.''"

text \<open>\<open>Path::strip_prefix\<close> on an absolute path, as the pieces of what remains.\<close>

fun strip_root :: "path \<Rightarrow> string list \<Rightarrow> string list option" where
  "strip_root [] ps = Some (dropWhile blank_piece (rev (dropWhile blank_piece (rev ps))))"
| "strip_root (r # rs) [] = None"
| "strip_root (r # rs) (p # ps) =
     (if blank_piece p then strip_root (r # rs) ps else if p = r then strip_root rs ps else None)"

definition is_absolute :: "string \<Rightarrow> bool" where
  "is_absolute s \<longleftrightarrow> starts_with ''/'' s"

definition relative_pieces :: "path \<Rightarrow> string \<Rightarrow> string list option" where
  "relative_pieces root s =
     (if is_absolute s then map_option (\<lambda>ps. if ps = [] then [[]] else ps) (strip_root root (split_char (CHR ''/'') s))
      else Some (split_char (CHR ''/'') s))"

definition sys_readlink :: "path \<Rightarrow> (string, io_kind) io" where
  "sys_readlink p = sys (\<lambda>w. case look w p of Some (DLink t) \<Rightarrow> (Ok t, w) | Some _ \<Rightarrow> (Err OtherKind, w) | None \<Rightarrow> (Err NotFound, w))"

definition WALK_LIMIT :: nat where "WALK_LIMIT = 163840"

definition hop_limit :: "bool \<Rightarrow> nat" where "hop_limit linux = (if linux then 40 else 32)"

definition read_asset :: "path \<Rightarrow> path \<Rightarrow> nat \<Rightarrow> (string \<times> bytes, io_kind) io" where
  "read_asset root names limit =
     io_bind (sys_open (root @ names) False) (\<lambda>h.
     io_bind (check_file h False) (\<lambda>i.
     io_bind (read_bounded i limit 0) (\<lambda>bs. io_ret (join_char (CHR ''/'') names, bs))))"

function walk :: "bool \<Rightarrow> path \<Rightarrow> nat \<Rightarrow> path \<Rightarrow> string list \<Rightarrow> nat \<Rightarrow> nat \<Rightarrow> (string \<times> bytes, io_kind) io" where
  "walk linux root limit names pending hops steps w = (case pending of
       [] \<Rightarrow> (Err InvalidData, w)
     | part # rest \<Rightarrow>
         if WALK_LIMIT \<le> steps then (Err InvalidData, w)
         else if blank_piece part then walk linux root limit names rest hops (Suc steps) w
         else if part = ''..'' then
           (if names = [] then (Err InvalidData, w) else walk linux root limit (butlast names) rest hops (Suc steps) w)
         else (case sys_readlink (root @ names @ [part]) w of
             (Ok target, v) \<Rightarrow>
               if hop_limit linux \<le> hops \<or> \<not> is_str target then (Err InvalidData, v)
               else (case relative_pieces root target of
                   None \<Rightarrow> (Err InvalidData, v)
                 | Some ps \<Rightarrow> walk linux root limit (if is_absolute target then [] else names) (ps @ rest) (Suc hops) (Suc steps) v)
           | (Err _, v) \<Rightarrow>
               if rest = [] then read_asset root (names @ [part]) limit v
               else (case sys_open_dir (root @ names @ [part]) v of
                   (Err e, v) \<Rightarrow> (Err e, v)
                 | (Ok _, v) \<Rightarrow> walk linux root limit (names @ [part]) rest hops (Suc steps) v)))"
  by pat_completeness auto
termination by (relation "measure (\<lambda>(_, _, _, _, _, _, steps, _). WALK_LIMIT - steps)") auto

declare walk.simps [simp del]

definition read_contained :: "bool \<Rightarrow> path \<Rightarrow> string \<Rightarrow> nat \<Rightarrow> (string \<times> bytes, io_kind) io" where
  "read_contained linux root logical limit w =
     (if logical = [] \<or> CHR 0x00 \<in> set logical then (Err InvalidData, w)
      else case relative_pieces root logical of
          None \<Rightarrow> (Err InvalidData, w)
        | Some ps \<Rightarrow> walk linux root limit [] ps 0 0 w)"

section \<open>It stays inside\<close>

definition plain_name :: "string \<Rightarrow> bool" where
  "plain_name s \<longleftrightarrow> s \<noteq> [] \<and> s \<noteq> ''.'' \<and> s \<noteq> ''..'' \<and> CHR ''/'' \<notin> set s"

definition inside :: "world \<Rightarrow> path \<Rightarrow> path \<Rightarrow> bool" where
  "inside w root names \<longleftrightarrow> list_all plain_name names \<and> (\<forall>k. 0 < k \<and> k \<le> length names \<longrightarrow> (\<exists>m u. look w (root @ take k names) = Some (DDir m u)))"

lemma strip_root_pieces: "strip_root root ps = Some qs \<Longrightarrow> set qs \<subseteq> set ps"
proof (induction root ps arbitrary: qs rule: strip_root.induct)
  case (1 ps)
  then show ?case by (auto dest!: set_dropWhileD)
qed (auto split: if_splits)

lemma relative_pieces_plain: "relative_pieces root s = Some ps \<Longrightarrow> \<forall>p\<in>set ps. CHR ''/'' \<notin> set p"
  using strip_root_pieces split_char_pieces [of _ "CHR ''/''" s] by (fastforce simp: relative_pieces_def split: if_splits)

lemma quiet_readlink [quiets]: "quiet (sys_readlink p)"
  unfolding sys_readlink_def by (rule quiet_sys) (simp add: quiet_def split: option.split dirent.split)

lemma inside_cong: "same_fs w v \<Longrightarrow> inside v root names = inside w root names"
  using same_fs_look [of w v] by (simp add: inside_def)

lemma inside_butlast: "inside w root names \<Longrightarrow> inside w root (butlast names)"
  by (auto simp: inside_def list_all_iff take_butlast dest: in_set_butlastD) 

lemma inside_snoc: "inside w root names \<Longrightarrow> plain_name p \<Longrightarrow> look w (root @ names @ [p]) = Some (DDir m u) \<Longrightarrow> inside w root (names @ [p])"
  by (auto simp: inside_def le_Suc_eq)

definition asset_at :: "world \<Rightarrow> path \<Rightarrow> path \<Rightarrow> nat \<Rightarrow> string \<Rightarrow> bytes \<Rightarrow> bool" where
  "asset_at w root names limit target bs \<longleftrightarrow>
     names \<noteq> [] \<and> inside w root (butlast names) \<and> plain_name (last names) \<and> target = join_char (CHR ''/'') names
     \<and> (\<exists>i. look w (root @ names) = Some (DFile i) \<and> bs = fn_bytes (w_files w i) \<and> fn_uid (w_files w i) = w_uid w
          \<and> fn_links (w_files w i) = 1 \<and> length bs \<le> limit)"

lemma asset_at_cong: "same_fs w v \<Longrightarrow> asset_at v root names limit target bs = asset_at w root names limit target bs"
  using same_fs_look [of w v] inside_cong [of w v] by (simp add: asset_at_def same_fs_def)

lemma read_asset_ok:
  assumes "read_asset root names limit w = (Ok (target, bs), w')" "names \<noteq> []" "inside w root (butlast names)" "plain_name (last names)"
  shows "asset_at w root names limit target bs"
proof -
  obtain h w1 i w2 where m: "sys_open (root @ names) False w = (Ok h, w1)" "check_file h False w1 = (Ok i, w2)" "read_bounded i limit 0 w2 = (Ok bs, w')"
      "target = join_char (CHR ''/'') names"
    using assms(1) unfolding read_asset_def by (auto simp: io_ret_def elim!: io_bind_okE)
  note c = check_file_ok [OF m(2)] and r = read_bounded_ok [OF m(3)]
  have o: "same_fs w w1" "look w (root @ names) = Some (DFile i)" using sys_open_ok m(1) c by auto
  have "w_files w2 i = w_files w i" "w_files w1 i = w_files w i" "w_uid w1 = w_uid w" using c o by (auto simp: same_fs_def)
  then show ?thesis unfolding asset_at_def using assms(2-) m(4) c r o by auto
qed

lemma walk_inside:
  "walk linux root limit names pending hops steps w = (Ok (target, bs), w') \<Longrightarrow> inside w root names \<Longrightarrow> \<forall>p\<in>set pending. CHR ''/'' \<notin> set p
   \<Longrightarrow> \<exists>names. asset_at w root names limit target bs"
proof (induction linux root limit names pending hops steps w rule: walk.induct)
  case (1 linux root limit names pending hops steps w)
  obtain part rest where p: "pending = part # rest" using "1.prems"(1) by (cases pending) (auto simp: walk.simps)
  have l: "\<not> WALK_LIMIT \<le> steps" using "1.prems"(1) p by (auto simp: walk.simps)
  have rest: "\<forall>p\<in>set rest. CHR ''/'' \<notin> set p" using "1.prems"(3) p by simp
  show ?case
  proof (cases "blank_piece part \<or> part = ''..''")
    case True
    then show ?thesis using "1.IH"(1,2) [OF p l] "1.prems" p l rest inside_butlast
      by (subst (asm) (3) walk.simps) (auto split: if_splits)
  next
    case False
    then have n: "\<not> blank_piece part" "part \<noteq> ''..''" by auto
    then have plain: "plain_name part" using "1.prems"(3) p by (auto simp: plain_name_def blank_piece_def)
    obtain r v where r: "sys_readlink (root @ names @ [part]) w = (r, v)" by (cases "sys_readlink (root @ names @ [part]) w")
    have v: "same_fs w v" using quietD [OF quiet_readlink r] .
    show ?thesis
    proof (cases r)
      case (Ok t)
      then obtain ps where ps: "relative_pieces root t = Some ps" "\<not> (hop_limit linux \<le> hops \<or> \<not> is_str t)"
        "walk linux root limit (if is_absolute t then [] else names) (ps @ rest) (Suc hops) (Suc steps) v = (Ok (target, bs), w')"
        using "1.prems"(1) p l n r by (subst (asm) walk.simps) (auto split: if_splits option.splits)
      have "inside v root (if is_absolute t then [] else names)" using "1.prems"(2) inside_cong [OF v] by (simp add: inside_def)
      then show ?thesis using "1.IH"(3) [OF p l n r [symmetric] Ok ps(2,1,3)] relative_pieces_plain [OF ps(1)] rest asset_at_cong [OF v] by auto
    next
      case (Err e)
      show ?thesis
      proof (cases "rest = []")
        case True
        then have "read_asset root (names @ [part]) limit v = (Ok (target, bs), w')"
          using "1.prems"(1) p l n r Err by (subst (asm) walk.simps) auto
        then show ?thesis using read_asset_ok [of root "names @ [part]" limit v target bs w'] "1.prems"(2) plain inside_cong [OF v] asset_at_cong [OF v] by auto
      next
        case False
        then obtain x u where u: "sys_open_dir (root @ names @ [part]) v = (Ok x, u)"
          "walk linux root limit (names @ [part]) rest hops (Suc steps) u = (Ok (target, bs), w')"
          using "1.prems"(1) p l n r Err by (subst (asm) walk.simps) (auto split: prod.splits result.splits)
        note d = open_dir_ok [OF u(1)]
        have vu: "same_fs v u" "look v (root @ names @ [part]) \<noteq> None" using d by auto
        have "inside u root (names @ [part])" using d "1.prems"(2) plain inside_cong [OF v] inside_cong [OF vu(1)] inside_snoc by blast
        then show ?thesis using "1.IH"(4) [OF p l n r [symmetric] Err False u(1) [symmetric] _ u(2)] rest asset_at_cong [OF v] asset_at_cong [OF vu(1)] by auto
      qed
    qed
  qed
qed

text \<open>C40 (asset_read_contained).  Whatever the path, the symbolic links and the failing calls, an asset that is read lies below the root: its name has only plain
  components, each directory on the way is a directory and not a link, and the bytes are those of a regular file of the user with a single link and within the
  limit.\<close>

theorem asset_read_contained:
  assumes "read_contained linux root logical limit w = (Ok (target, bs), w')"
  shows "\<exists>names i. names \<noteq> [] \<and> target = join_char (CHR ''/'') names \<and> list_all plain_name names
     \<and> (\<forall>k. 0 < k \<and> k < length names \<longrightarrow> (\<exists>m u. look w (root @ take k names) = Some (DDir m u)))
     \<and> look w (root @ names) = Some (DFile i) \<and> bs = fn_bytes (w_files w i) \<and> fn_uid (w_files w i) = w_uid w \<and> fn_links (w_files w i) = 1
     \<and> length bs \<le> limit"
proof -
  obtain ps where ps: "relative_pieces root logical = Some ps" "walk linux root limit [] ps 0 0 w = (Ok (target, bs), w')"
    using assms by (auto simp: read_contained_def split: if_splits option.splits)
  then obtain names where a: "asset_at w root names limit target bs"
    using walk_inside [OF ps(2)] relative_pieces_plain [OF ps(1)] by (auto simp: inside_def)
  obtain i where i: "look w (root @ names) = Some (DFile i)" "bs = fn_bytes (w_files w i)" "fn_uid (w_files w i) = w_uid w" "fn_links (w_files w i) = 1" "length bs \<le> limit"
    using a unfolding asset_at_def by blast
  have n: "names \<noteq> []" "target = join_char (CHR ''/'') names" and b: "inside w root (butlast names)" "plain_name (last names)"
    using a unfolding asset_at_def by blast+
  have "list_all plain_name (butlast names @ [last names])" using b by (simp add: inside_def)
  then have "list_all plain_name names" using n(1) by simp
  moreover have "\<exists>m u. look w (root @ take k names) = Some (DDir m u)" if "0 < k \<and> k < length names" for k
  proof -
    have "take k (butlast names) = take k names" using that by (simp add: take_butlast)
    moreover have "k \<le> length (butlast names)" using that by auto
    ultimately show ?thesis using b(1) that unfolding inside_def by metis
  qed
  ultimately show ?thesis using n i by blast
qed

definition demo_world :: world where
  "demo_world = \<lparr>w_names = [([''r''], DDir 0x1C0 7), ([''r'', ''d''], DDir 0x1C0 7), ([''r'', ''d'', ''f''], DFile 0), ([''r'', ''l''], DLink ''d/../d/f'')],
     w_files = (\<lambda>_. \<lparr>fn_bytes = [1, 2], fn_mode = 0x180, fn_uid = 7, fn_links = 1\<rparr>), w_next = 1, w_faults = [], w_nonces = [], w_uid = 7, w_uncertain = False\<rparr>"

lemma demo_look:
  "look demo_world [''r'', ''l''] = Some (DLink ''d/../d/f'')" "look demo_world [''r'', ''d''] = Some (DDir 0x1C0 7)" "look demo_world [''r'', ''d'', ''f''] = Some (DFile 0)"
  "w_files demo_world i = \<lparr>fn_bytes = [1, 2], fn_mode = 0x180, fn_uid = 7, fn_links = 1\<rparr>" "w_uid demo_world = 7"
  by (simp_all add: demo_world_def look_def)

lemma demo_sys: "sys m demo_world = m demo_world"
  by (simp add: sys_def demo_world_def)

lemma demo_calls:
  "sys_readlink [''r'', ''l''] demo_world = (Ok ''d/../d/f'', demo_world)" "sys_readlink [''r'', ''d''] demo_world = (Err OtherKind, demo_world)"
  "sys_readlink [''r'', ''d'', ''f''] demo_world = (Err OtherKind, demo_world)" "sys_open_dir [''r'', ''d''] demo_world = (Ok (0x1C0, 7), demo_world)"
  by (simp_all add: sys_readlink_def sys_open_dir_def demo_sys demo_look)

lemma demo_asset: "read_asset [''r''] [''d'', ''f''] 10 demo_world = (Ok (''d/f'', [1, 2]), demo_world)"
  by (simp add: read_asset_def io_bind_def sys_open_def check_file_def sys_fstat_def geteuid_def io_of_def io_ret_def check_node_def check_metadata_def read_bounded_def
      sys_read_def demo_sys demo_look)

lemma demo_walk: "read_contained True [''r''] ''l'' 10 demo_world = (Ok (''d/f'', [1, 2]), demo_world)"
  by (simp add: read_contained_def relative_pieces_def is_absolute_def starts_with_def walk.simps [of _ _ _ _ "_ # _"] WALK_LIMIT_def blank_piece_def
      hop_limit_def is_str_def demo_calls demo_asset)

theorem asset_read_contained_witness:
  "read_contained True [''r''] ''l'' 10 demo_world = (Ok (''d/f'', [1, 2]), demo_world)
   \<and> (\<exists>names i. ''d/f'' = join_char (CHR ''/'') names \<and> look demo_world ([''r''] @ names) = Some (DFile i) \<and> [1, 2] = fn_bytes (w_files demo_world i))"
  using asset_read_contained [OF demo_walk] demo_walk by blast
end
