(* ===== verification/Store_Bundle.thy ===== *)
theory Store_Bundle
  imports Override Fs_Walk
begin

text \<open>
  Bundles of the configuration store (\<open>src/src/store.rs\<close>): a source with its materialised form, the files of its local rule
  providers and the declarations of its remote ones; their capture, the check that a catalog may hold them, and the digests that name a
  revision.  SHA-256 and the serde codecs are not part of the repository; they are fields of \<open>store_env\<close>.
\<close>

section \<open>Data\<close>

definition FILE_LIMIT :: nat where "FILE_LIMIT = 16 * 1024 * 1024"
definition AGGREGATE_LIMIT :: nat where "AGGREGATE_LIMIT = 64 * 1024 * 1024"
definition CATALOG_LIMIT :: nat where "CATALOG_LIMIT = 4 * 1024 * 1024"
definition MANIFEST_LIMIT :: nat where "MANIFEST_LIMIT = 1024 * 1024"

datatype store_error =
    CorruptCatalog | CorruptRevision | UnknownFormat nat | LegacyTakeoverRequired | Conflict | ProfileNotFound | ProfileNotRuntimeReady
  | StoreMessage string | StoreIo io_kind | StoreDocument doc_error | StoreOverride override_error | StoreConfig config_error

record saved_selection =
  sl_group :: string
  sl_proxy :: string

record desired =
  ds_generation :: u64
  ds_selections :: "saved_selection list"

record profile =
  pf_key :: string
  pf_storage_id :: string
  pf_head :: string
  pf_desired :: desired
  pf_secret :: "string option"

record catalog =
  cg_schema :: nat
  cg_sequence :: u64
  cg_active :: "(string \<times> string) option"
  cg_profiles :: "profile list"

type_synonym param = "string \<times> string"

record profile_metadata =
  md_url :: "string option"
  md_filename :: "string option"
  md_params :: "param list"

record frozen_override =
  fz_script_name :: string
  fz_script :: bytes
  fz_command :: string
  fz_config_path :: "string option"
  fz_timeout :: nat
  fz_args :: "param list"
  fz_patch :: bytes

record asset =
  ast_target :: string
  ast_bytes :: bytes

record remote_provider =
  rp_name :: string
  rp_path :: string
  rp_deferred :: bool

record store_bundle =
  bd_source :: bytes
  bd_materialized :: "bytes option"
  bd_assets :: "(string \<times> asset) list"
  bd_remotes :: "remote_provider list"

record identity =
  id_schema :: nat
  id_key :: string
  id_storage :: string

record content =
  ct_size :: nat
  ct_sha256 :: string

record disk_override =
  dk_script_name :: string
  dk_script :: content
  dk_command :: string
  dk_config_path :: "string option"
  dk_timeout :: nat
  dk_args :: "param list"
  dk_patch :: content

record disk_asset =
  da_logical :: string
  da_target :: string
  da_object :: string
  da_size :: nat
  da_sha256 :: string

record manifest =
  mf_schema :: nat
  mf_key :: string
  mf_storage :: string
  mf_revision :: string
  mf_content :: string
  mf_metadata :: profile_metadata
  mf_frozen :: "disk_override option"
  mf_source :: content
  mf_materialized :: "content option"
  mf_aggregate :: nat
  mf_assets :: "disk_asset list"
  mf_remotes :: "remote_provider list"

record 'net store_env =
  k_sha256 :: "bytes \<Rightarrow> bytes"
  k_json :: "bytes \<Rightarrow> json option"
  k_catalog_text :: "catalog \<Rightarrow> bytes"
  k_catalog :: "bytes \<Rightarrow> catalog option"
  k_manifest_text :: "manifest \<Rightarrow> bytes"
  k_manifest :: "bytes \<Rightarrow> manifest option"
  k_identity_text :: "identity \<Rightarrow> bytes"
  k_identity :: "bytes \<Rightarrow> identity option"
  k_override :: override_env
  k_config :: "'net environment"

section \<open>Digests\<close>

definition digest :: "'net store_env \<Rightarrow> bytes \<Rightarrow> string" where
  "digest K bs = hex_bytes (k_sha256 K bs)"

definition unhex_ok :: "string \<Rightarrow> nat \<Rightarrow> bool" where
  "unhex_ok txt n \<longleftrightarrow> length txt = 2 * n \<and> list_all is_lower_hex txt"

definition be64 :: "nat \<Rightarrow> bytes" where
  "be64 n = map (\<lambda>k. of_nat (n div 256 ^ (7 - k))) [0..<8]"

definition hash_bytes :: "bytes \<Rightarrow> bytes" where
  "hash_bytes bs = be64 (length bs) @ bs"

definition hash_text :: "string \<Rightarrow> bytes" where
  "hash_text s = hash_bytes (str_bytes s)"

definition hash_optional :: "string option \<Rightarrow> bytes" where
  "hash_optional s = (case s of None \<Rightarrow> [0] | Some s \<Rightarrow> 1 # hash_text s)"

definition hash_content :: "'net store_env \<Rightarrow> bytes \<Rightarrow> bytes" where
  "hash_content K bs = be64 (length bs) @ k_sha256 K bs"

definition storage_id :: "'net store_env \<Rightarrow> string \<Rightarrow> string" where
  "storage_id K key = hex_bytes (k_sha256 K (str_bytes ''zc.profile-storage.v1'' @ hash_text key))"

definition legacy_revision :: "'net store_env \<Rightarrow> string \<Rightarrow> string" where
  "legacy_revision K key = hex_bytes (take 16 (k_sha256 K (str_bytes ''zc.legacy-key.v1'' @ hash_text key)))"

definition revision_id :: "'net store_env \<Rightarrow> string \<Rightarrow> bytes \<Rightarrow> string" where
  "revision_id K key content =
     (let incarnation = k_sha256 K (str_bytes ''zc.migration-incarnation.v1'' @ hash_text key @ content)
      in hex_bytes (take 16 (k_sha256 K (str_bytes ''zc.revision.v1'' @ content @ incarnation))))"

definition aggregate :: "store_bundle \<Rightarrow> nat" where
  "aggregate b = length (bd_source b) + (case bd_materialized b of None \<Rightarrow> 0 | Some v \<Rightarrow> length v)
     + sum_list (map (\<lambda>(_, a). length (ast_bytes a)) (bd_assets b))"

definition hash_params :: "param list \<Rightarrow> bytes" where
  "hash_params ps = concat (map (\<lambda>(k, v). hash_text k @ hash_text v) ps) @ be64 (length ps)"

definition hash_override :: "frozen_override \<Rightarrow> bytes" where
  "hash_override v = str_bytes ''zc.override-materialization.v1'' @ hash_text (fz_script_name v) @ hash_bytes (fz_script v) @ hash_text (fz_command v)
     @ hash_optional (fz_config_path v) @ be64 (fz_timeout v) @ hash_params (fz_args v) @ hash_bytes (fz_patch v)"

definition content_transcript :: "'net store_env \<Rightarrow> string \<Rightarrow> store_bundle \<Rightarrow> profile_metadata \<Rightarrow> frozen_override option \<Rightarrow> bytes" where
  "content_transcript K key b meta frozen =
     str_bytes ''zc.revision-content.v1'' @ hash_text key @ hash_optional (md_url meta) @ hash_optional (md_filename meta) @ hash_params (md_params meta)
     @ (case frozen of None \<Rightarrow> [] | Some v \<Rightarrow> hash_override v)
     @ hash_content K (bd_source b)
     @ (case bd_materialized b of None \<Rightarrow> [0] | Some v \<Rightarrow> 1 # hash_content K v)
     @ be64 (aggregate b)
     @ concat (map (\<lambda>(logical, a). hash_text logical @ hash_text (ast_target a) @ hash_content K (ast_bytes a)) (bd_assets b)) @ be64 (length (bd_assets b))
     @ concat (map (\<lambda>r. hash_text (rp_name r) @ hash_text (rp_path r)) (bd_remotes b)) @ be64 (length (bd_remotes b))"

definition content_digest :: "'net store_env \<Rightarrow> string \<Rightarrow> store_bundle \<Rightarrow> profile_metadata \<Rightarrow> frozen_override option \<Rightarrow> bytes" where
  "content_digest K key b meta frozen = k_sha256 K (content_transcript K key b meta frozen)"

section \<open>Capture\<close>

definition store_document :: "'net store_env \<Rightarrow> bytes \<Rightarrow> (json, store_error) result" where
  "store_document K bs =
     (if FILE_LIMIT < length bs then Err (StoreMessage ''SourceTooLarge'')
      else and_then (ok_or (StoreMessage ''utf8'') (from_utf8 bs)) (\<lambda>txt. lift_err StoreDocument (parse_document (e_parsers (k_config K)) txt)))"

definition add_reference :: "string \<times> json \<Rightarrow> (string \<times> unit) list \<times> remote_provider list \<Rightarrow> ((string \<times> unit) list \<times> remote_provider list, store_error) result" where
  "add_reference = (\<lambda>(name, p) (locals, remotes).
     and_then (ok_or (StoreMessage ''InvalidRuleProviderPath'') (Option.bind (json_get ''path'' p) as_str)) (\<lambda>path.
     if (case json_get ''url'' p of None \<Rightarrow> False | Some v \<Rightarrow> v \<noteq> JNull)
     then Ok (locals, remotes @ [\<lparr>rp_name = name, rp_path = path, rp_deferred = True\<rparr>])
     else Ok (btree_insert path () locals, remotes)))"

definition provider_refs :: "json \<Rightarrow> (string list \<times> remote_provider list, store_error) result" where
  "provider_refs doc = (case json_get ''rule-providers'' doc of
       None \<Rightarrow> Ok ([], [])
     | Some v \<Rightarrow>
         and_then (ok_or (StoreMessage ''InvalidRuleProviders'') (as_object v)) (\<lambda>providers.
         if 4096 < length providers then Err (StoreMessage ''TooManyAssets'')
         else and_then (try_fold add_reference providers ([], [])) (\<lambda>(locals, remotes).
              Ok (map fst locals, sort_key rp_name remotes))))"

definition add_asset :: "(string \<times> asset) list \<Rightarrow> string \<Rightarrow> (string \<times> asset) list \<times> nat \<Rightarrow> ((string \<times> asset) list \<times> nat, store_error) result" where
  "add_asset available path = (\<lambda>(assets, total_bytes).
     and_then (ok_or (StoreMessage ''AssetNotDeclared'') (map_of available path)) (\<lambda>a.
     if FILE_LIMIT < length (ast_bytes a) then Err (StoreMessage ''AssetTooLarge'')
     else if AGGREGATE_LIMIT < total_bytes + length (ast_bytes a) then Err (StoreMessage ''AggregateTooLarge'')
     else Ok (btree_insert path a assets, total_bytes + length (ast_bytes a))))"

definition effective_source :: "store_bundle \<Rightarrow> bytes" where
  "effective_source b = (case bd_materialized b of Some v \<Rightarrow> v | None \<Rightarrow> bd_source b)"

definition capture_memory :: "'net store_env \<Rightarrow> bytes \<Rightarrow> bytes option \<Rightarrow> (string \<times> asset) list \<Rightarrow> (store_bundle, store_error) result" where
  "capture_memory K source materialized available =
     (if FILE_LIMIT < length source \<or> (case materialized of None \<Rightarrow> False | Some v \<Rightarrow> FILE_LIMIT < length v) then Err (StoreMessage ''SourceTooLarge'')
      else and_then (store_document K (case materialized of Some v \<Rightarrow> v | None \<Rightarrow> source)) (\<lambda>doc.
           and_then (provider_refs doc) (\<lambda>(paths, remotes).
           and_then (try_fold (add_asset available) paths ([], length source + (case materialized of None \<Rightarrow> 0 | Some v \<Rightarrow> length v))) (\<lambda>(assets, _).
           Ok \<lparr>bd_source = source, bd_materialized = materialized, bd_assets = assets, bd_remotes = remotes\<rparr>))))"

definition local_asset_bytes :: "store_bundle \<Rightarrow> (string \<times> bytes) list" where
  "local_asset_bytes b = map (\<lambda>(k, a). (k, ast_bytes a)) (bd_assets b)"

definition resolve_local :: "store_bundle \<Rightarrow> string \<Rightarrow> (bytes, store_error) result" where
  "resolve_local b logical = ok_or (StoreMessage ''AssetNotDeclared'') (map_option ast_bytes (map_of (bd_assets b) logical))"

section \<open>Admission\<close>

definition validate_deferred_provider :: "'net store_env \<Rightarrow> string \<Rightarrow> json \<Rightarrow> (unit, store_error) result" where
  "validate_deferred_provider K name v =
     and_then (ok_or (StoreMessage ''InvalidRuleProvider'') (as_object v)) (\<lambda>m.
     and_then (ensure (name \<noteq> [] \<and> trim name = name \<and> CHR '','' \<notin> set name \<and> \<not> has_control name) (StoreMessage ''InvalidRuleProviderName'')) (\<lambda>_.
     and_then (ensure (list_all (\<lambda>(k, _). k \<in> {''type'', ''behavior'', ''url'', ''path'', ''interval''}) m) (StoreMessage ''InvalidRuleProvider'')) (\<lambda>_.
     and_then (ensure (Option.bind (json_get ''type'' v) as_str \<in> {Some ''http'', Some ''file''}) (StoreMessage ''InvalidRuleProviderType'')) (\<lambda>_.
     and_then (ensure (Option.bind (json_get ''behavior'' v) as_str \<in> {Some ''domain'', Some ''ipcidr'', Some ''classical''})
       (StoreMessage ''InvalidRuleProviderBehavior'')) (\<lambda>_.
     and_then (ensure (case Option.bind (json_get ''path'' v) as_str of None \<Rightarrow> False | Some p \<Rightarrow> p \<noteq> [] \<and> CHR 0x00 \<notin> set p)
       (StoreMessage ''InvalidRuleProviderPath'')) (\<lambda>_.
     and_then (ensure (case json_get ''interval'' v of None \<Rightarrow> True
         | Some x \<Rightarrow> (case as_u64 x of None \<Rightarrow> False | Some n \<Rightarrow> 0 < n \<and> n \<le> 4294967295)) (StoreMessage ''InvalidRuleProviderInterval'')) (\<lambda>_.
     and_then (ok_or (StoreMessage ''InvalidRuleProviderUrl'') (Option.bind (json_get ''url'' v) as_str)) (\<lambda>url.
     and_then (ok_or (StoreMessage ''url'') (e_url_parse (k_config K) url)) (\<lambda>(scheme, has_host).
     ensure (scheme \<in> {''http'', ''https''} \<and> has_host) (StoreMessage ''InvalidRuleProviderUrl''))))))))))"

definition names_provider :: "string \<Rightarrow> json \<Rightarrow> bool" where
  "names_provider name rule = (case as_str rule of
       None \<Rightarrow> False
     | Some s \<Rightarrow> (case map trim_blank (split_char (CHR '','') s) of
           kind # target # _ \<Rightarrow> kind = ''RULE-SET'' \<and> target = name
         | _ \<Rightarrow> False))"

definition defer_remote :: "'net store_env \<Rightarrow> store_bundle \<Rightarrow> remote_provider \<Rightarrow> json \<Rightarrow> (json, store_error) result" where
  "defer_remote K b r doc =
     and_then (ensure (map_of (local_asset_bytes b) (rp_path r) = None) (StoreMessage ''ConflictingProviderAssetPath'')) (\<lambda>_.
     and_then (ensure (\<not> list_ex (names_provider (rp_name r)) (array_field ''rules'' doc)) (StoreMessage ''ManagedRemoteRuleProviderUnsupported'')) (\<lambda>_.
     and_then (ok_or (StoreMessage ''InvalidRuleProviders'') (Option.bind (json_get ''rule-providers'' doc) as_object)) (\<lambda>providers.
     and_then (ok_or (StoreMessage ''InvalidRuleProviders'') (map_of providers (rp_name r))) (\<lambda>declaration.
     and_then (validate_deferred_provider K (rp_name r) declaration) (\<lambda>_.
     Ok (json_set ''rule-providers'' (JObj (btree_remove (rp_name r) providers)) doc))))))"

definition runtime_parse :: "'net store_env \<Rightarrow> bytes \<Rightarrow> (string \<times> bytes) list \<Rightarrow> ('net config, store_error) result" where
  "runtime_parse K source assets =
     and_then (lift_err StoreOverride (runtime_source (k_override K) source)) (\<lambda>txt.
     lift_err StoreConfig (parse_with_assets (k_config K) txt assets))"

definition validate_offline :: "'net store_env \<Rightarrow> store_bundle \<Rightarrow> string \<Rightarrow> (unit, store_error) result" where
  "validate_offline K b source =
     and_then (lift_err StoreDocument (parse_document (e_parsers (k_config K)) source)) (\<lambda>doc.
     and_then (try_fold (defer_remote K b) (bd_remotes b) doc) (\<lambda>doc.
     and_then (runtime_parse K (str_bytes (oe_json_text (k_override K) doc)) (local_asset_bytes b)) (\<lambda>_. Ok ())))"

definition plugin_fields :: "string list" where
  "plugin_fields = [''plugin'', ''plugin-opts'', ''plugin_opts'']"

definition strip_plugin :: "json \<Rightarrow> json \<times> bool" where
  "strip_plugin p =
     (if Option.bind (json_get ''type'' p) as_str = Some ''ss''
      then (case p of
          JObj m \<Rightarrow> (JObj (fold btree_remove plugin_fields m), list_ex (\<lambda>k. map_of m k \<noteq> None) plugin_fields)
        | _ \<Rightarrow> (p, False))
      else (p, False))"

definition strip_plugins :: "json \<Rightarrow> json \<times> bool" where
  "strip_plugins doc = (case Option.bind (json_get ''proxies'' doc) as_array of
       None \<Rightarrow> (doc, False)
     | Some ps \<Rightarrow> (json_set ''proxies'' (JArr (map (fst \<circ> strip_plugin) ps)) doc, list_ex (snd \<circ> strip_plugin) ps))"

definition catalog_ready :: "'net store_env \<Rightarrow> store_bundle \<Rightarrow> (bool, store_error) result" where
  "catalog_ready K b =
     and_then (ok_or (StoreMessage ''utf8'') (from_utf8 (effective_source b))) (\<lambda>txt.
     case validate_offline K b txt of
         Ok _ \<Rightarrow> Ok True
       | Err runtime_error \<Rightarrow>
           if bd_materialized b \<noteq> None then Err runtime_error
           else and_then (store_document K (bd_source b)) (\<lambda>doc.
                let (stripped, removed) = strip_plugins doc
                in if removed \<and> is_ok (validate_offline K b (oe_json_text (k_override K) stripped)) then Ok False
                   else Err runtime_error))"

definition from_memory :: "'net store_env \<Rightarrow> bytes \<Rightarrow> bytes option \<Rightarrow> (string \<times> asset) list \<Rightarrow> (store_bundle, store_error) result" where
  "from_memory K source materialized available =
     and_then (capture_memory K source materialized available) (\<lambda>b.
     and_then (catalog_ready K b) (\<lambda>_. Ok b))"

definition add_fetched :: "(string \<times> bytes) list \<Rightarrow> remote_provider \<Rightarrow> (string \<times> bytes) list \<Rightarrow> ((string \<times> bytes) list, store_error) result" where
  "add_fetched fetched r assets =
     and_then (ok_or ProfileNotRuntimeReady (map_of fetched (rp_path r))) (\<lambda>bs.
     and_then (ensure (map_of assets (rp_path r) = None) (StoreMessage ''ConflictingProviderAssetPath'')) (\<lambda>_.
     Ok (btree_insert (rp_path r) bs assets)))"

definition runtime_config_with_assets :: "'net store_env \<Rightarrow> store_bundle \<Rightarrow> (string \<times> bytes) list \<Rightarrow> ('net config, store_error) result" where
  "runtime_config_with_assets K b fetched =
     and_then (try_fold (add_fetched fetched) (bd_remotes b) (local_asset_bytes b)) (\<lambda>assets.
     runtime_parse K (effective_source b) assets)"

section \<open>Capture from files\<close>

definition read_logical :: "bool \<Rightarrow> path \<Rightarrow> string \<Rightarrow> (string \<times> bytes, store_error) io" where
  "read_logical linux parent logical = io_err StoreIo (read_contained linux parent logical FILE_LIMIT)"

fun capture_assets :: "bool \<Rightarrow> path \<Rightarrow> string list \<Rightarrow> (string \<times> asset) list \<Rightarrow> nat \<Rightarrow> ((string \<times> asset) list, store_error) io" where
  "capture_assets linux parent [] assets total_bytes = io_ret assets"
| "capture_assets linux parent (logical # rest) assets total_bytes =
     io_bind (read_logical linux parent logical) (\<lambda>(target, bs).
     if AGGREGATE_LIMIT < total_bytes + length bs then io_fail (StoreMessage ''AggregateTooLarge'')
     else capture_assets linux parent rest (btree_insert logical \<lparr>ast_target = target, ast_bytes = bs\<rparr> assets) (total_bytes + length bs))"

fun recheck_assets :: "bool \<Rightarrow> path \<Rightarrow> (string \<times> asset) list \<Rightarrow> (unit, store_error) io" where
  "recheck_assets linux parent [] = io_ret ()"
| "recheck_assets linux parent ((logical, a) # rest) =
     io_bind (read_logical linux parent logical) (\<lambda>(target, bs).
     if target = ast_target a \<and> bs = ast_bytes a then recheck_assets linux parent rest else io_fail (StoreMessage ''SourceChanged''))"

definition capture_files :: "'net store_env \<Rightarrow> bool \<Rightarrow> path \<Rightarrow> string \<Rightarrow> bytes option \<Rightarrow> (store_bundle, store_error) io" where
  "capture_files K linux parent name materialized =
     io_bind (read_logical linux parent name) (\<lambda>(_, source).
     io_bind (io_of (and_then (store_document K (case materialized of Some v \<Rightarrow> v | None \<Rightarrow> source)) provider_refs)) (\<lambda>(paths, _).
     io_bind (capture_assets linux parent paths [] (length source + (case materialized of None \<Rightarrow> 0 | Some v \<Rightarrow> length v))) (\<lambda>assets.
     io_bind (read_logical linux parent name) (\<lambda>(_, again).
     if again \<noteq> source then io_fail (StoreMessage ''SourceChanged'')
     else io_bind (recheck_assets linux parent assets) (\<lambda>_. io_of (capture_memory K source materialized assets))))))"

definition capture_materialized :: "'net store_env \<Rightarrow> bool \<Rightarrow> path \<Rightarrow> string \<Rightarrow> bytes option \<Rightarrow> (store_bundle, store_error) io" where
  "capture_materialized K linux parent name materialized =
     io_bind (capture_files K linux parent name materialized) (\<lambda>b.
     io_bind (io_of (catalog_ready K b)) (\<lambda>_. io_ret b))"
end
