(* ===== verification/Store.thy ===== *)
theory Store
  imports Store_Bundle
begin

text \<open>
  The configuration store (\<open>src/src/store.rs\<close>): the catalog with its compare-and-swap updates, and the immutable revisions.
  An operation holds the catalog lock from its first read to its commit, so it is one function of the file system; every
  system call in it may fail.
\<close>

section \<open>Catalogs\<close>

definition neighbours :: "('a \<Rightarrow> 'a \<Rightarrow> bool) \<Rightarrow> 'a list \<Rightarrow> bool" where
  "neighbours P xs \<longleftrightarrow> list_all (\<lambda>(a, b). P a b) (zip xs (tl xs))"

definition validate_selections :: "saved_selection list \<Rightarrow> (saved_selection list, store_error) result" where
  "validate_selections sels =
     (if 1024 < length sels then Err (StoreMessage ''PersistedSelectionCountLimitExceeded'')
      else let sorted = sort_key sl_group sels
           in if list_all (\<lambda>s. safe_text (sl_group s) \<and> safe_text (sl_proxy s)) sorted \<and> neighbours (\<lambda>a b. sl_group a \<noteq> sl_group b) sorted
              then Ok sorted else Err (StoreMessage ''InvalidSelections''))"

definition canonical_profile :: "'net store_env \<Rightarrow> profile \<Rightarrow> (profile, store_error) result" where
  "canonical_profile K p =
     and_then (ensure (stored_key (pf_key p) \<and> pf_storage_id p = storage_id K (pf_key p)) (StoreMessage ''InvalidCatalog'')) (\<lambda>_.
     and_then (ensure (unhex_ok (pf_head p) 16) (StoreMessage ''InvalidDigest'')) (\<lambda>_.
     and_then (validate_selections (ds_selections (pf_desired p))) (\<lambda>sels.
     Ok (p\<lparr>pf_desired := (pf_desired p)\<lparr>ds_selections := sels\<rparr>\<rparr>))))"

definition canonical_form :: "'net store_env \<Rightarrow> catalog \<Rightarrow> (catalog, store_error) result" where
  "canonical_form K c =
     and_then (ensure (cg_schema c = 2) (StoreMessage ''InvalidCatalog'')) (\<lambda>_.
     let profiles = sort_key pf_key (cg_profiles c)
     in and_then (ensure (neighbours (\<lambda>a b. pf_key a \<noteq> pf_key b) profiles) (StoreMessage ''InvalidCatalog'')) (\<lambda>_.
        and_then (result_map (canonical_profile K) profiles) (\<lambda>profiles.
        and_then (ensure (case cg_active c of None \<Rightarrow> True
            | Some (key, revision) \<Rightarrow> list_ex (\<lambda>p. pf_key p = key \<and> pf_head p = revision) profiles) (StoreMessage ''InvalidCatalog'')) (\<lambda>_.
        Ok (c\<lparr>cg_profiles := profiles\<rparr>)))))"

definition catalog_line :: "'net store_env \<Rightarrow> catalog \<Rightarrow> bytes" where
  "catalog_line K c = k_catalog_text K c @ [10]"

definition canonical_catalog :: "'net store_env \<Rightarrow> catalog \<Rightarrow> (bytes, store_error) result" where
  "canonical_catalog K c =
     and_then (canonical_form K c) (\<lambda>c.
     if CATALOG_LIMIT < length (catalog_line K c) then Err (StoreMessage ''CatalogTooLarge'') else Ok (catalog_line K c))"

definition next_sequence :: "catalog \<Rightarrow> (catalog, store_error) result" where
  "next_sequence c = (if cg_sequence c = - 1 then Err (StoreMessage ''SequenceOverflow'') else Ok (c\<lparr>cg_sequence := cg_sequence c + 1\<rparr>))"

definition canonical_next :: "'net store_env \<Rightarrow> catalog \<Rightarrow> (bytes, store_error) result" where
  "canonical_next K c = and_then (next_sequence c) (canonical_catalog K)"

datatype state_format = Missing | CatalogV2

record state_token =
  tk_format :: state_format
  tk_sequence :: u64
  tk_digest :: string

record snapshot =
  sn_uncertain :: bool
  sn_token :: state_token
  sn_catalog :: catalog

definition token :: "'net store_env \<Rightarrow> bytes option \<Rightarrow> u64 \<Rightarrow> state_token" where
  "token K bs sequence = \<lparr>tk_format = (if bs = None then Missing else CatalogV2), tk_sequence = sequence,
     tk_digest = hex_bytes (k_sha256 K (case bs of Some bs \<Rightarrow> str_bytes ''zc.state-token.v1'' @ hash_bytes bs | None \<Rightarrow> str_bytes ''zc.state.missing.v1''))\<rparr>"

section \<open>Revisions\<close>

definition validate_metadata :: "profile_metadata \<Rightarrow> (unit, store_error) result" where
  "validate_metadata meta =
     ensure (list_all (\<lambda>(k, _). k \<noteq> []) (md_params meta) \<and> neighbours (\<lambda>a b. fst a < fst b) (md_params meta)) (StoreMessage ''InvalidMetadata'')"

definition validate_override :: "store_bundle \<Rightarrow> frozen_override option \<Rightarrow> (unit, store_error) result" where
  "validate_override b frozen = (case frozen of
       None \<Rightarrow> Ok ()
     | Some v \<Rightarrow>
         and_then (ensure (bd_materialized b \<noteq> None) (StoreMessage ''OverrideMaterializationMismatch'')) (\<lambda>_.
         ensure (single_component (fz_script_name v) \<and> fz_script v \<noteq> [] \<and> length (fz_script v) \<le> MANIFEST_LIMIT \<and> length (fz_patch v) \<le> MANIFEST_LIMIT
           \<and> fz_command v \<noteq> [] \<and> CHR 0x00 \<notin> set (fz_command v) \<and> (case fz_config_path v of None \<Rightarrow> True | Some s \<Rightarrow> CHR 0x00 \<notin> set s)
           \<and> list_all (\<lambda>(k, v). k \<noteq> [] \<and> CHR 0x00 \<notin> set k \<and> CHR 0x00 \<notin> set v) (fz_args v)) (StoreMessage ''InvalidOverrideMaterialization'')))"

definition content_of :: "'net store_env \<Rightarrow> bytes \<Rightarrow> content" where
  "content_of K bs = \<lparr>ct_size = length bs, ct_sha256 = digest K bs\<rparr>"

definition disk_override_of :: "'net store_env \<Rightarrow> frozen_override \<Rightarrow> disk_override" where
  "disk_override_of K v = \<lparr>dk_script_name = fz_script_name v, dk_script = content_of K (fz_script v), dk_command = fz_command v,
     dk_config_path = fz_config_path v, dk_timeout = fz_timeout v, dk_args = fz_args v, dk_patch = content_of K (fz_patch v)\<rparr>"

definition disk_asset_of :: "'net store_env \<Rightarrow> string \<times> asset \<Rightarrow> disk_asset" where
  "disk_asset_of K = (\<lambda>(logical, a). \<lparr>da_logical = logical, da_target = ast_target a, da_object = digest K (ast_bytes a),
     da_size = length (ast_bytes a), da_sha256 = digest K (ast_bytes a)\<rparr>)"

definition manifest_of :: "'net store_env \<Rightarrow> string \<Rightarrow> string \<Rightarrow> bytes \<Rightarrow> store_bundle \<Rightarrow> profile_metadata \<Rightarrow> frozen_override option \<Rightarrow> manifest" where
  "manifest_of K key revision content b meta frozen =
     \<lparr>mf_schema = 1, mf_key = key, mf_storage = storage_id K key, mf_revision = revision, mf_content = hex_bytes content, mf_metadata = meta,
      mf_frozen = map_option (disk_override_of K) frozen, mf_source = content_of K (bd_source b),
      mf_materialized = map_option (content_of K) (bd_materialized b), mf_aggregate = aggregate b,
      mf_assets = map (disk_asset_of K) (bd_assets b), mf_remotes = bd_remotes b\<rparr>"

definition encode_revision ::
  "'net store_env \<Rightarrow> string \<Rightarrow> string \<Rightarrow> bytes \<Rightarrow> store_bundle \<Rightarrow> profile_metadata \<Rightarrow> frozen_override option \<Rightarrow> (bytes \<times> bytes, store_error) result" where
  "encode_revision K key revision content b meta frozen =
     (let bs = k_manifest_text K (manifest_of K key revision content b meta frozen) @ [10];
          id = k_identity_text K \<lparr>id_schema = 1, id_key = key, id_storage = storage_id K key\<rparr> @ [10]
      in if MANIFEST_LIMIT < length bs then Err (StoreMessage ''ManifestTooLarge'')
         else if 64 * 1024 < length id then Err (StoreMessage ''IdentityTooLarge'')
         else Ok (id, bs))"

abbreviation store_io :: "('a, io_kind) io \<Rightarrow> ('a, store_error) io" where "store_io \<equiv> io_err StoreIo"

definition verify_identity :: "'net store_env \<Rightarrow> path \<Rightarrow> string \<Rightarrow> (unit, store_error) io" where
  "verify_identity K d key =
     io_bind (store_io (secure_read d ''identity.json'' (64 * 1024))) (\<lambda>bs.
     io_bind (io_of (ok_or (StoreMessage ''json'') (k_identity K bs))) (\<lambda>id.
     io_of (ensure (id_schema id = 1 \<and> id_key id = key \<and> id_storage id = storage_id K key) (StoreMessage ''IdentityMismatch''))))"

definition read_content :: "'net store_env \<Rightarrow> path \<Rightarrow> string \<Rightarrow> content \<Rightarrow> nat \<Rightarrow> (bytes, store_error) io" where
  "read_content K d name c limit =
     io_bind (io_of (ensure (ct_size c \<le> limit) (StoreMessage ''ContentTooLarge''))) (\<lambda>_.
     io_bind (io_of (ensure (unhex_ok (ct_sha256 c) 32) (StoreMessage ''InvalidDigest''))) (\<lambda>_.
     io_bind (store_io (secure_read d name limit)) (\<lambda>bs.
     io_bind (io_of (ensure (length bs = ct_size c \<and> digest K bs = ct_sha256 c) (StoreMessage ''ContentMismatch''))) (\<lambda>_.
     io_ret bs))))"

definition profile_dir :: "'net store_env \<Rightarrow> path \<Rightarrow> string \<Rightarrow> bool \<Rightarrow> (path, store_error) io" where
  "profile_dir K root key create =
     io_bind (store_io (child root ''profiles'' create)) (\<lambda>d. store_io (child d (storage_id K key) create))"

definition install_identity :: "'net store_env \<Rightarrow> path \<Rightarrow> string \<Rightarrow> bytes \<Rightarrow> (unit, store_error) io" where
  "install_identity K d key bs =
     io_bind (store_io (exists_name d ''identity.json'')) (\<lambda>found.
     if found then verify_identity K d key
     else io_bind (io_try (install_new d ''identity.json'' bs)) (\<lambda>r. case r of
         Ok None \<Rightarrow> io_ret ()
       | Ok (Some e) \<Rightarrow> io_fail (StoreIo e)
       | Err e \<Rightarrow> if e = AlreadyExists then verify_identity K d key else io_fail (StoreIo e)))"

fun write_objects :: "'net store_env \<Rightarrow> path \<Rightarrow> (string \<times> asset) list \<Rightarrow> (unit, store_error) io" where
  "write_objects K d [] = io_ret ()"
| "write_objects K d ((_, a) # rest) =
     io_bind (store_io (exists_name d (digest K (ast_bytes a)))) (\<lambda>found.
     io_bind (io_when (\<not> found) (store_io (write_new d (digest K (ast_bytes a)) (ast_bytes a)))) (\<lambda>_.
     write_objects K d rest))"

definition write_staging :: "'net store_env \<Rightarrow> path \<Rightarrow> store_bundle \<Rightarrow> frozen_override option \<Rightarrow> bytes \<Rightarrow> (unit, store_error) io" where
  "write_staging K d b frozen manifest =
     io_bind (store_io (write_new d ''source.yaml'' (bd_source b))) (\<lambda>_.
     io_bind (case bd_materialized b of None \<Rightarrow> io_ret () | Some bs \<Rightarrow> store_io (write_new d ''materialized.yaml'' bs)) (\<lambda>_.
     io_bind (case frozen of None \<Rightarrow> io_ret ()
       | Some v \<Rightarrow> io_bind (store_io (write_new d ''override-script'' (fz_script v))) (\<lambda>_. store_io (write_new d ''override-output.yaml'' (fz_patch v)))) (\<lambda>_.
     io_bind (store_io (child d ''objects'' True)) (\<lambda>objects.
     io_bind (write_objects K objects (bd_assets b)) (\<lambda>_.
     io_bind (store_io sys_sync) (\<lambda>_.
     io_bind (store_io (write_new d ''manifest.json'' manifest)) (\<lambda>_. store_io sys_sync)))))))"

record revision_view =
  rv_key :: string
  rv_storage_id :: string
  rv_revision :: string
  rv_content :: string
  rv_metadata :: profile_metadata
  rv_frozen :: "frozen_override option"
  rv_bundle :: store_bundle

definition read_frozen :: "'net store_env \<Rightarrow> path \<Rightarrow> disk_override option \<Rightarrow> (frozen_override option, store_error) io" where
  "read_frozen K d frozen = (case frozen of
       Some v \<Rightarrow>
         io_bind (read_content K d ''override-script'' (dk_script v) MANIFEST_LIMIT) (\<lambda>script.
         io_bind (read_content K d ''override-output.yaml'' (dk_patch v) MANIFEST_LIMIT) (\<lambda>patch.
         io_ret (Some \<lparr>fz_script_name = dk_script_name v, fz_script = script, fz_command = dk_command v, fz_config_path = dk_config_path v,
           fz_timeout = dk_timeout v, fz_args = dk_args v, fz_patch = patch\<rparr>)))
     | None \<Rightarrow>
         io_bind (store_io (exists_name d ''override-script'')) (\<lambda>a.
         if a then io_fail (StoreMessage ''UnexpectedOverride'')
         else io_bind (store_io (exists_name d ''override-output.yaml'')) (\<lambda>b.
              if b then io_fail (StoreMessage ''UnexpectedOverride'') else io_ret None)))"

definition read_materialized :: "'net store_env \<Rightarrow> path \<Rightarrow> content option \<Rightarrow> (bytes option, store_error) io" where
  "read_materialized K d c = (case c of
       Some c \<Rightarrow> io_bind (read_content K d ''materialized.yaml'' c FILE_LIMIT) (\<lambda>bs. io_ret (Some bs))
     | None \<Rightarrow> io_bind (store_io (exists_name d ''materialized.yaml'')) (\<lambda>found.
         if found then io_fail (StoreMessage ''UnexpectedMaterialization'') else io_ret None))"

fun read_assets :: "'net store_env \<Rightarrow> path \<Rightarrow> nat \<Rightarrow> disk_asset list \<Rightarrow> (string \<times> asset) list \<Rightarrow> nat \<Rightarrow> ((string \<times> asset) list \<times> nat, store_error) io" where
  "read_assets K d declared [] assets total_bytes = io_ret (assets, total_bytes)"
| "read_assets K d declared (a # rest) assets total_bytes =
     io_bind (io_of (ensure (total_bytes + da_size a \<le> declared \<and> total_bytes + da_size a \<le> AGGREGATE_LIMIT) (StoreMessage ''AggregateTooLarge''))) (\<lambda>_.
     io_bind (io_of (ensure (unhex_ok (da_object a) 32) (StoreMessage ''InvalidDigest''))) (\<lambda>_.
     io_bind (io_of (ensure (da_object a = da_sha256 a) (StoreMessage ''ObjectDigestMismatch''))) (\<lambda>_.
     io_bind (read_content K d (da_object a) \<lparr>ct_size = da_size a, ct_sha256 = da_sha256 a\<rparr> FILE_LIMIT) (\<lambda>bs.
     read_assets K d declared rest (btree_insert (da_logical a) \<lparr>ast_target = da_target a, ast_bytes = bs\<rparr> assets) (total_bytes + da_size a)))))"

definition check_manifest :: "'net store_env \<Rightarrow> string \<Rightarrow> string \<Rightarrow> manifest \<Rightarrow> (unit, store_error) result" where
  "check_manifest K key revision m =
     and_then (ensure (mf_schema m = 1 \<and> mf_key m = key \<and> mf_storage m = storage_id K key \<and> mf_revision m = revision) (StoreMessage ''RevisionIdentityMismatch'')) (\<lambda>_.
     and_then (ensure (length (mf_assets m) \<le> 4096 \<and> length (mf_remotes m) \<le> 4096 \<and> mf_aggregate m \<le> AGGREGATE_LIMIT) (StoreMessage ''RevisionLimitExceeded'')) (\<lambda>_.
     validate_metadata (mf_metadata m)))"

definition check_revision :: "'net store_env \<Rightarrow> string \<Rightarrow> string \<Rightarrow> manifest \<Rightarrow> store_bundle \<Rightarrow> frozen_override option \<Rightarrow> (revision_view, store_error) result" where
  "check_revision K key revision m b frozen =
     and_then (validate_override b frozen) (\<lambda>_.
     let computed = content_digest K key b (mf_metadata m) frozen
     in and_then (ensure (hex_bytes computed = mf_content m \<and> revision_id K key computed = revision) (StoreMessage ''ContentDigestMismatch'')) (\<lambda>_.
        Ok \<lparr>rv_key = key, rv_storage_id = mf_storage m, rv_revision = revision, rv_content = mf_content m, rv_metadata = mf_metadata m, rv_frozen = frozen,
           rv_bundle = b\<rparr>))"

definition read_body :: "'net store_env \<Rightarrow> path \<Rightarrow> string \<Rightarrow> string \<Rightarrow> (revision_view, store_error) io" where
  "read_body K d key revision =
     io_bind (store_io (secure_read d ''manifest.json'' MANIFEST_LIMIT)) (\<lambda>bs.
     io_bind (io_of (ok_or (StoreMessage ''json'') (k_manifest K bs))) (\<lambda>m.
     io_bind (io_of (check_manifest K key revision m)) (\<lambda>_.
     io_bind (read_content K d ''source.yaml'' (mf_source m) FILE_LIMIT) (\<lambda>source.
     io_bind (read_materialized K d (mf_materialized m)) (\<lambda>materialized.
     io_bind (read_frozen K d (mf_frozen m)) (\<lambda>frozen.
     io_bind (store_io (child d ''objects'' False)) (\<lambda>objects.
     io_bind (io_of (ensure (neighbours (\<lambda>a b. da_logical a < da_logical b) (mf_assets m)) (StoreMessage ''UnsortedAssets''))) (\<lambda>_.
     io_bind (read_assets K objects (mf_aggregate m) (mf_assets m) [] (length source + (case materialized of None \<Rightarrow> 0 | Some v \<Rightarrow> length v))) (\<lambda>(assets, total_bytes).
     io_bind (io_of (ensure (total_bytes = mf_aggregate m) (StoreMessage ''AggregateMismatch''))) (\<lambda>_.
     io_bind (io_of (ensure (list_all rp_deferred (mf_remotes m) \<and> neighbours (\<lambda>a b. rp_name a < rp_name b) (mf_remotes m)) (StoreMessage ''InvalidRemotes''))) (\<lambda>_.
     io_of (check_revision K key revision m
       \<lparr>bd_source = source, bd_materialized = materialized, bd_assets = assets, bd_remotes = mf_remotes m\<rparr> frozen))))))))))))"

definition read_revision :: "'net store_env \<Rightarrow> path \<Rightarrow> string \<Rightarrow> string \<Rightarrow> (revision_view, store_error) io" where
  "read_revision K root key revision =
     io_bind (io_of (ensure (stored_key key) (StoreMessage ''InvalidKey''))) (\<lambda>_.
     io_bind (io_of (ensure (unhex_ok revision 16) (StoreMessage ''InvalidDigest''))) (\<lambda>_.
     io_bind (profile_dir K root key False) (\<lambda>d.
     io_bind (verify_identity K d key) (\<lambda>_.
     io_bind (store_io (child d ''revisions'' False)) (\<lambda>revisions.
     io_bind (store_io (child revisions revision False)) (\<lambda>dir. read_body K dir key revision))))))"

definition read_bundle :: "'net store_env \<Rightarrow> path \<Rightarrow> string \<Rightarrow> string \<Rightarrow> (revision_view, store_error) io" where
  "read_bundle K root key revision = io_err (\<lambda>_. CorruptRevision) (read_revision K root key revision)"

definition publish_new :: "'net store_env \<Rightarrow> path \<Rightarrow> string \<Rightarrow> store_bundle \<Rightarrow> frozen_override option \<Rightarrow> bytes \<Rightarrow> (unit, store_error) io" where
  "publish_new K revisions revision b frozen manifest =
     io_bind (store_io nonce) (\<lambda>n.
     io_bind (store_io (child revisions (''.staging-'' @ n) True)) (\<lambda>staging.
     io_bind (write_staging K staging b frozen manifest) (\<lambda>_.
     io_bind (store_io (rename_name revisions (''.staging-'' @ n) revision)) (\<lambda>_. store_io sys_sync))))"

definition publish_revision ::
  "'net store_env \<Rightarrow> path \<Rightarrow> string \<Rightarrow> string \<Rightarrow> bytes \<Rightarrow> store_bundle \<Rightarrow> profile_metadata \<Rightarrow> frozen_override option \<Rightarrow> (unit, store_error) io" where
  "publish_revision K root key revision content b meta frozen =
     io_bind (io_of (encode_revision K key revision content b meta frozen)) (\<lambda>(identity_bytes, manifest).
     io_bind (profile_dir K root key True) (\<lambda>d.
     io_bind (install_identity K d key identity_bytes) (\<lambda>_.
     io_bind (store_io (child d ''revisions'' True)) (\<lambda>revisions.
     io_bind (store_io (lock revisions ''.publish.lock'')) (\<lambda>_.
     io_bind (store_io (exists_name revisions revision)) (\<lambda>found.
     if found then io_bind (read_bundle K root key revision) (\<lambda>_. store_io sys_sync)
     else publish_new K revisions revision b frozen manifest))))))"

section \<open>Reading the catalog\<close>

definition empty_catalog :: catalog where
  "empty_catalog = \<lparr>cg_schema = 2, cg_sequence = 0, cg_active = None, cg_profiles = []\<rparr>"

definition durability_uncertain :: "(bool, 'e) io" where
  "durability_uncertain = (\<lambda>w. (Ok (w_uncertain w), w))"

text \<open>\<open>AutoControllerSecret\<close> refuses a text that is not 64 lower-case hexadecimal digits.\<close>

definition secret_ok :: "profile \<Rightarrow> bool" where
  "secret_ok p = (case pf_secret p of None \<Rightarrow> True | Some s \<Rightarrow> unhex_ok s 32)"

definition decode_catalog :: "'net store_env \<Rightarrow> bytes \<Rightarrow> (catalog, store_error) result" where
  "decode_catalog K bs =
     and_then (ok_or CorruptCatalog (k_json K bs)) (\<lambda>doc.
     and_then (ok_or CorruptCatalog (Option.bind (json_get ''schema_version'' doc) as_u64)) (\<lambda>schema.
     if schema = 1 then Err LegacyTakeoverRequired
     else if schema \<noteq> 2 then Err (UnknownFormat schema)
     else and_then (ok_or CorruptCatalog (k_catalog K bs)) (\<lambda>c.
          and_then (ensure (list_all secret_ok (cg_profiles c)) CorruptCatalog) (\<lambda>_.
          and_then (lift_err (\<lambda>_. CorruptCatalog) (canonical_catalog K c)) (\<lambda>encoded.
          and_then (ensure (encoded = bs) CorruptCatalog) (\<lambda>_. Ok c))))))"

definition legacy_present :: "path \<Rightarrow> (bool, store_error) io" where
  "legacy_present root =
     io_bind (store_io (exists_name root ''meta.json'')) (\<lambda>found.
     if found then io_ret True else store_io (exists_name root ''configs''))"

definition inspect :: "'net store_env \<Rightarrow> path \<Rightarrow> (snapshot, store_error) io" where
  "inspect K root =
     io_bind (io_try (secure_read root ''state-v2.json'' CATALOG_LIMIT)) (\<lambda>r. case r of
         Ok bs \<Rightarrow>
           io_bind (io_of (decode_catalog K bs)) (\<lambda>c.
           io_bind durability_uncertain (\<lambda>u.
           io_ret \<lparr>sn_uncertain = u, sn_token = token K (Some bs) (cg_sequence c), sn_catalog = c\<rparr>))
       | Err e \<Rightarrow>
           if e \<noteq> NotFound then io_fail CorruptCatalog
           else io_bind (legacy_present root) (\<lambda>legacy.
                if legacy then io_fail LegacyTakeoverRequired
                else io_bind durability_uncertain (\<lambda>u.
                     io_ret \<lparr>sn_uncertain = u, sn_token = token K None 0, sn_catalog = empty_catalog\<rparr>)))"

fun check_heads :: "'net store_env \<Rightarrow> path \<Rightarrow> profile list \<Rightarrow> (unit, store_error) io" where
  "check_heads K root [] = io_ret ()"
| "check_heads K root (p # ps) = io_bind (read_bundle K root (pf_key p) (pf_head p)) (\<lambda>_. check_heads K root ps)"

definition store_lock :: "path \<Rightarrow> (nat, store_error) io" where
  "store_lock root = store_io (lock root ''state-v2.lock'')"

definition load_existing :: "'net store_env \<Rightarrow> path \<Rightarrow> (snapshot, store_error) io" where
  "load_existing K root =
     io_bind (store_lock root) (\<lambda>_.
     io_bind (inspect K root) (\<lambda>s.
     io_bind (io_of (ensure (tk_format (sn_token s) = CatalogV2) CorruptCatalog)) (\<lambda>_.
     io_bind (check_heads K root (cg_profiles (sn_catalog s))) (\<lambda>_. io_ret s))))"

section \<open>Updates\<close>

type_synonym receipt = "state_token \<times> io_kind option"

definition expected_catalog :: "'net store_env \<Rightarrow> path \<Rightarrow> state_token \<Rightarrow> (catalog, store_error) io" where
  "expected_catalog K root tok =
     io_bind (inspect K root) (\<lambda>s.
     io_bind (io_of (ensure (sn_token s = tok) Conflict)) (\<lambda>_. io_ret (sn_catalog s)))"

definition set_uncertain :: "(unit, 'e) io" where
  "set_uncertain = (\<lambda>w. (Ok (), w\<lparr>w_uncertain := True\<rparr>))"

definition commit :: "'net store_env \<Rightarrow> path \<Rightarrow> nat \<Rightarrow> catalog \<Rightarrow> (receipt, store_error) io" where
  "commit K root guard c =
     io_bind (store_io (validate_lock guard root ''state-v2.lock'')) (\<lambda>_.
     io_bind (io_of (next_sequence c)) (\<lambda>c.
     io_bind (io_of (canonical_catalog K c)) (\<lambda>bs.
     io_bind (store_io (atomic_write root ''state-v2.json'' bs)) (\<lambda>e.
     io_bind (io_when (e \<noteq> None) set_uncertain) (\<lambda>_.
     io_ret (token K (Some bs) (cg_sequence c), e))))))"

definition find_profile :: "catalog \<Rightarrow> string \<Rightarrow> profile option" where
  "find_profile c key = find (\<lambda>p. pf_key p = key) (cg_profiles c)"

definition profile_index :: "catalog \<Rightarrow> string \<Rightarrow> nat option" where
  "profile_index c key = (let i = length (takeWhile (\<lambda>p. pf_key p \<noteq> key) (cg_profiles c)) in if i < length (cg_profiles c) then Some i else None)"

definition is_active :: "catalog \<Rightarrow> string \<Rightarrow> bool" where
  "is_active c key = (case cg_active c of None \<Rightarrow> False | Some (k, _) \<Rightarrow> k = key)"

definition offers :: "json \<Rightarrow> saved_selection \<Rightarrow> bool" where
  "offers doc s \<longleftrightarrow> list_ex (\<lambda>g. Option.bind (json_get ''name'' g) as_str = Some (sl_group s)
     \<and> list_ex (\<lambda>mem. as_str mem = Some (sl_proxy s)) (array_field ''proxies'' g)) (array_field ''proxies'' doc @ array_field ''proxy-groups'' doc)"

definition kept_desired :: "json \<Rightarrow> desired \<Rightarrow> (desired, store_error) result" where
  "kept_desired doc d =
     (let sels = filter (offers doc) (ds_selections d)
      in if length sels = length (ds_selections d) then Ok (d\<lparr>ds_selections := sels\<rparr>)
         else if ds_generation d = - 1 then Err (StoreMessage ''GenerationOverflow'')
         else Ok \<lparr>ds_generation = ds_generation d + 1, ds_selections = sels\<rparr>)"

definition put_profile :: "nat option \<Rightarrow> profile \<Rightarrow> profile list \<Rightarrow> profile list" where
  "put_profile i p ps = (case i of Some i \<Rightarrow> ps[i := p] | None \<Rightarrow> ps @ [p])"

definition plan_publish ::
  "'net store_env \<Rightarrow> catalog \<Rightarrow> string \<Rightarrow> string option \<Rightarrow> store_bundle \<Rightarrow> profile_metadata \<Rightarrow> frozen_override option \<Rightarrow> bool
   \<Rightarrow> (catalog \<times> string \<times> bytes \<times> profile_metadata, store_error) result" where
  "plan_publish K c key expected_head b meta frozen activate =
     (let index = profile_index c key; old = map_option (\<lambda>i. cg_profiles c ! i) index
      in and_then (ensure (map_option pf_head old = expected_head) Conflict) (\<lambda>_.
         and_then (ensure (if index = None then valid_key key else stored_key key) (StoreMessage ''InvalidKey'')) (\<lambda>_.
         and_then (catalog_ready K b) (\<lambda>ready.
         let active = (activate \<or> is_active c key)
         in and_then (ensure (\<not> active \<or> ready) ProfileNotRuntimeReady) (\<lambda>_.
            let meta = meta\<lparr>md_params := sort_key fst (md_params meta)\<rparr>
            in and_then (validate_metadata meta) (\<lambda>_.
               and_then (validate_override b frozen) (\<lambda>_.
               let content = content_digest K key b meta frozen; revision = revision_id K key content
               in and_then (store_document K (effective_source b)) (\<lambda>doc.
                  and_then (kept_desired doc (case old of Some p \<Rightarrow> pf_desired p | None \<Rightarrow> \<lparr>ds_generation = 0, ds_selections = []\<rparr>)) (\<lambda>d.
                  let p = \<lparr>pf_key = key, pf_storage_id = storage_id K key, pf_head = revision, pf_desired = d, pf_secret = Option.bind old pf_secret\<rparr>;
                      c = c\<lparr>cg_profiles := put_profile index p (cg_profiles c), cg_active := (if active then Some (key, revision) else cg_active c)\<rparr>
                  in and_then (ensure (cg_sequence c \<noteq> - 1) (StoreMessage ''SequenceOverflow'')) (\<lambda>_.
                     and_then (canonical_next K c) (\<lambda>_. Ok (c, revision, content, meta))))))))))))"

definition publish_frozen ::
  "'net store_env \<Rightarrow> path \<Rightarrow> state_token \<Rightarrow> string \<Rightarrow> string option \<Rightarrow> store_bundle \<Rightarrow> profile_metadata \<Rightarrow> frozen_override option \<Rightarrow> bool
   \<Rightarrow> (receipt, store_error) io" where
  "publish_frozen K root tok key expected_head b meta frozen activate =
     io_bind (if tk_format tok = Missing then io_bind (store_io (lock root ''legacy-cutover.lock'')) (\<lambda>_. io_ret ()) else io_ret ()) (\<lambda>_.
     io_bind (store_lock root) (\<lambda>guard.
     io_bind (expected_catalog K root tok) (\<lambda>c.
     io_bind (io_of (plan_publish K c key expected_head b meta frozen activate)) (\<lambda>(c, revision, content, meta).
     io_bind (publish_revision K root key revision content b meta frozen) (\<lambda>_.
     commit K root guard c)))))"

definition activate :: "'net store_env \<Rightarrow> path \<Rightarrow> state_token \<Rightarrow> string option \<Rightarrow> (receipt, store_error) io" where
  "activate K root tok key =
     io_bind (io_of (ensure (tk_format tok = CatalogV2) (StoreMessage ''Schema2CatalogRequired''))) (\<lambda>_.
     io_bind (store_lock root) (\<lambda>guard.
     io_bind (expected_catalog K root tok) (\<lambda>c.
     io_bind (case key of
         None \<Rightarrow> io_ret None
       | Some key \<Rightarrow>
           io_bind (io_of (ok_or ProfileNotFound (find_profile c key))) (\<lambda>p.
           io_bind (read_bundle K root (pf_key p) (pf_head p)) (\<lambda>v.
           io_bind (io_of (catalog_ready K (rv_bundle v))) (\<lambda>ready.
           io_bind (io_of (ensure ready ProfileNotRuntimeReady)) (\<lambda>_. io_ret (Some (pf_key p, pf_head p))))))) (\<lambda>active.
     commit K root guard (c\<lparr>cg_active := active\<rparr>)))))"

definition delete :: "'net store_env \<Rightarrow> path \<Rightarrow> state_token \<Rightarrow> string \<Rightarrow> string \<Rightarrow> (receipt, store_error) io" where
  "delete K root tok key head =
     io_bind (store_lock root) (\<lambda>guard.
     io_bind (expected_catalog K root tok) (\<lambda>c.
     io_bind (io_of (ok_or ProfileNotFound (profile_index c key))) (\<lambda>i.
     io_bind (io_of (ensure (pf_head (cg_profiles c ! i) = head) Conflict)) (\<lambda>_.
     commit K root guard (c\<lparr>cg_profiles := take i (cg_profiles c) @ drop (Suc i) (cg_profiles c),
       cg_active := (if is_active c key then None else cg_active c)\<rparr>)))))"

definition renamed_catalog :: "'net store_env \<Rightarrow> catalog \<Rightarrow> nat \<Rightarrow> string \<Rightarrow> string \<Rightarrow> string \<Rightarrow> catalog" where
  "renamed_catalog K c i key new_key revision =
     c\<lparr>cg_profiles := (cg_profiles c)[i := (cg_profiles c ! i)\<lparr>pf_key := new_key, pf_storage_id := storage_id K new_key, pf_head := revision\<rparr>],
       cg_active := (if is_active c key then Some (new_key, revision) else cg_active c)\<rparr>"

definition rename_profile :: "'net store_env \<Rightarrow> path \<Rightarrow> state_token \<Rightarrow> string \<Rightarrow> string \<Rightarrow> string \<Rightarrow> (receipt, store_error) io" where
  "rename_profile K root tok key head new_key =
     io_bind (io_of (ensure (valid_key new_key) (StoreMessage ''InvalidKey''))) (\<lambda>_.
     io_bind (store_lock root) (\<lambda>guard.
     io_bind (expected_catalog K root tok) (\<lambda>c.
     io_bind (io_of (ensure (\<not> list_ex (\<lambda>p. pf_key p = new_key) (cg_profiles c)) (StoreMessage ''ProfileAlreadyExists''))) (\<lambda>_.
     io_bind (io_of (ok_or ProfileNotFound (profile_index c key))) (\<lambda>i.
     io_bind (io_of (ensure (pf_head (cg_profiles c ! i) = head) Conflict)) (\<lambda>_.
     io_bind (read_bundle K root key head) (\<lambda>v.
     let content = content_digest K new_key (rv_bundle v) (rv_metadata v) (rv_frozen v);
         revision = revision_id K new_key content;
         c = renamed_catalog K c i key new_key revision
     in io_bind (io_of (ensure (cg_sequence c \<noteq> - 1) (StoreMessage ''SequenceOverflow''))) (\<lambda>_.
        io_bind (io_of (canonical_next K c)) (\<lambda>_.
        io_bind (publish_revision K root new_key revision content (rv_bundle v) (rv_metadata v) (rv_frozen v)) (\<lambda>_.
        commit K root guard c))))))))))"

definition update_profile :: "string \<Rightarrow> (profile \<Rightarrow> profile) \<Rightarrow> catalog \<Rightarrow> catalog" where
  "update_profile key f c = (case profile_index c key of None \<Rightarrow> c | Some i \<Rightarrow> c\<lparr>cg_profiles := (cg_profiles c)[i := f (cg_profiles c ! i)]\<rparr>)"

definition ensure_auto_controller_secret :: "'net store_env \<Rightarrow> path \<Rightarrow> state_token \<Rightarrow> string \<Rightarrow> string \<Rightarrow> (string, store_error) io" where
  "ensure_auto_controller_secret K root tok key head =
     io_bind (store_lock root) (\<lambda>guard.
     io_bind (expected_catalog K root tok) (\<lambda>c.
     io_bind (io_of (ok_or ProfileNotFound (find_profile c key))) (\<lambda>p.
     io_bind (io_of (ensure (pf_head p = head) Conflict)) (\<lambda>_.
     io_bind (read_bundle K root key head) (\<lambda>_. case pf_secret p of
         Some secret \<Rightarrow>
           io_bind (store_io (validate_lock guard root ''state-v2.lock'')) (\<lambda>_.
           io_bind (store_io sys_sync) (\<lambda>_. io_ret secret))
       | None \<Rightarrow>
           io_bind (store_io (sys_random 32)) (\<lambda>bs.
           io_bind (commit K root guard (update_profile key (\<lambda>p. p\<lparr>pf_secret := Some (hex_bytes bs)\<rparr>) c)) (\<lambda>(_, e). case e of
               Some e \<Rightarrow> io_fail (StoreIo e)
             | None \<Rightarrow> io_ret (hex_bytes bs))))))))"

definition select_proxies :: "'net store_env \<Rightarrow> path \<Rightarrow> state_token \<Rightarrow> string \<Rightarrow> string \<Rightarrow> u64 \<Rightarrow> saved_selection list \<Rightarrow> (receipt, store_error) io" where
  "select_proxies K root tok key head generation sels =
     io_bind (io_of (validate_selections sels)) (\<lambda>sels.
     io_bind (store_lock root) (\<lambda>guard.
     io_bind (expected_catalog K root tok) (\<lambda>c.
     io_bind (io_of (ok_or ProfileNotFound (find_profile c key))) (\<lambda>p.
     io_bind (io_of (ensure (pf_head p = head \<and> ds_generation (pf_desired p) = generation) Conflict)) (\<lambda>_.
     io_bind (read_bundle K root key head) (\<lambda>_.
     io_bind (io_of (ensure (generation \<noteq> - 1) (StoreMessage ''GenerationOverflow''))) (\<lambda>_.
     commit K root guard (update_profile key (\<lambda>p. p\<lparr>pf_desired := \<lparr>ds_generation = generation + 1, ds_selections = sels\<rparr>\<rparr>) c))))))))"
end
