(* ===== verification/Spec2Isabelle.thy ===== *)
theory Spec2Isabelle
  imports Config_Facts Api Serve Anytls_Facts Override_Facts Store
begin

text \<open>
  A verification development for zc, a rule-based proxy written in Rust (\<open>src/src\<close>).

  \<^bold>\<open>The program.\<close>  A configuration document (\<open>config.rs\<close>, \<open>config_provider.rs\<close>) is parsed into nodes, groups, rules and a
  controller endpoint; overrides (\<open>override_script.rs\<close>) change a document before it is parsed and print it in canonical
  form.  The runtime (\<open>runtime.rs\<close>) accepts HTTP and SOCKS5 clients on one port, asks the configuration for the route of
  each destination, resolves names (\<open>dns.rs\<close>) where a rule needs an address, connects through a node (\<open>outbound.rs\<close>,
  \<open>udp.rs\<close>, \<open>anytls.rs\<close>) and relays.  Every connection has an entry in the registry (\<open>connection.rs\<close>); probe
  tickets (\<open>connection/probes.rs\<close>) tie a client's test request to the route it took.  The controller (\<open>api.rs\<close>) shows and
  changes all of this over HTTP.

  \<^bold>\<open>The theories.\<close>

  \<^item> \<open>Rust_Std\<close>, \<open>Rust_Text\<close>, \<open>Rust_Net\<close>, \<open>Rust_Addr\<close>, \<open>Btree\<close>, \<open>Streams\<close> are the prelude: what the program uses of the
    language and its standard library.  A \<open>str\<close> is the list of its UTF-8 bytes as characters, wire data is a list of 8-bit
    words, fallible code returns \<open>result\<close>, \<open>BTreeMap\<close> is an ascending association list.  \<open>Btree\<close> states the contract of a map as
    a locale, extends it by a map whose marked entries are frozen, and interprets both.
  \<^item> \<open>Target\<close> and \<open>Dns\<close> model \<open>target.rs\<close> and \<open>dns.rs\<close>.
  \<^item> \<open>Config_Rules\<close>, \<open>Config_Groups\<close>, \<open>Config_Proxy\<close>, \<open>Geoip\<close>, \<open>Config\<close>, \<open>Config_Route\<close> model \<open>config.rs\<close>: rule text,
    group resolution with its depth-first search, node construction, the country table, \<open>Config::parse_inner\<close>, selections,
    and \<open>route_inner\<close>.  \<open>Config_Document\<close> and \<open>Config_Provider\<close> model \<open>config_provider.rs\<close>: the bounded document visitor,
    rule providers, their expansion and downloads.  \<open>Config_Facts\<close> holds their properties.
  \<^item> \<open>Connection\<close> models \<open>connection.rs\<close> with a step relation over all interleavings of connections and controller
    requests; \<open>Probes\<close> models \<open>connection/probes.rs\<close> the same way; \<open>Listing\<close> is the JSON listing and its reader.
  \<^item> \<open>Store_Keys\<close> has the text tests of \<open>store.rs\<close> and \<open>fsutil.rs\<close> that other parts call.
  \<^item> \<open>Api\<close> models \<open>api.rs\<close>: reading a request, authentication, the routes and the answers.
  \<^item> \<open>Http_Request\<close>, \<open>Http_Stream\<close>, \<open>Socks\<close>, \<open>Serve\<close> model \<open>runtime.rs\<close> and the wire formats of \<open>outbound.rs\<close> and
    \<open>udp.rs\<close>: the head that is sent upstream, bodies by length and by chunks, SOCKS5 and Trojan addresses, and the
    whole life of one client connection with its registry operations.
  \<^item> \<open>Anytls_Padding\<close> and \<open>Anytls\<close> model \<open>anytls.rs\<close>: padding schemes, packets, and the polled session; \<open>Anytls_Facts\<close> holds
    their properties.
  \<^item> \<open>Override_Order\<close> and \<open>Override\<close> model \<open>override_script.rs\<close>: the provider order, the normal form, merging, dumps and the
    runtime projection; \<open>Override_Facts\<close> holds their properties.

  \<^bold>\<open>What is shown.\<close>  A route is that of the first matching rule, it pins the address the rules saw, and it always exists.  A
  parsed configuration satisfies an invariant that selections keep; groups are acyclic; expanded rules fail closed; the
  controller is local or authenticated.  In every interleaving the registry is bounded, closing is final, and identifiers
  and probe tokens are used once.  The controller changes nothing without the secret and keeps all invariants.  A
  forwarded request head cannot be read in two ways, a chunked body is accepted exactly when it is well formed, and a
  kept connection stays in step.  Serving a connection refines the registry and becomes active only by the rules.  An
  AnyTLS session writes and reads exactly, within bounds, and makes progress.  A merge replaces what the patch names, the
  dumps hide credentials, and no unwrap of the override engine fails.

  \<^bold>\<open>Concurrency, loops and bounds.\<close>  A critical section of the source is one step; asynchronous code is a function of what its
  environment delivers (the list of reads, the answers of the resolver, the outcomes of writes), so every theorem holds
  for every schedule of them.  No definition has fuel: recursion is structural or has a measure, and the event lists
  that a run consumes are finite.  The limits of the source (sizes, depths, counts) are its own constants.

  \<^bold>\<open>Arguments of the model.\<close>  The YAML, JSON and URL parsers, the serde deserialisers, the DNS resolver, TLS, the random
  generator, the HTTP client and the operating system are not part of the repository; they are records or function
  arguments of the definitions that use them, and no theorem assumes more of them than its statement says.

  \<^bold>\<open>Not modelled.\<close>  The daemon and its process control, the service definitions, the command line, file-system helpers and the
  store's files are sequences of system calls; the Lua interpreter behind override scripts and the TLS and Shadowsocks
  codecs are third-party code; log formatting carries no decision of the program.
\<close>

end
